(* ===== verification/CIAA_Prelude.thy ===== *)
theory CIAA_Prelude
  imports Main "HOL-Library.Word" "HOL-Library.Monad_Syntax"
begin

text \<open>
  Shared vocabulary of the development: the C integer types, checked access to C arrays,
  ring indexing, and the lemma collections the component theories use.

  Every access to an array of the program goes through \<open>rd\<close> and \<open>wr\<close>. An access outside
  the array is undefined behaviour in C; here it is \<open>None\<close>, and it makes the whole
  operation \<open>None\<close>. A theorem that an operation returns \<open>Some\<close> is therefore also a proof
  that the operation stays inside its arrays.
\<close>

unbundle bit_operations_syntax

type_synonym uint8 = "8 word"
type_synonym uint16 = "16 word"
type_synonym uint32 = "32 word"

named_theorems mem_simps "checked array accesses that are in bounds"
named_theorems op_simps "what an operation does on one of its branches"
named_theorems inv_intros "operations keep the invariant of their component"

section \<open>Checked arrays\<close>

definition rd :: "'a list \<Rightarrow> nat \<Rightarrow> 'a option" where
  "rd xs i = (if i < length xs then Some (xs ! i) else None)"

definition wr :: "'a list \<Rightarrow> nat \<Rightarrow> 'a \<Rightarrow> 'a list option" where
  "wr xs i v = (if i < length xs then Some (xs[i := v]) else None)"

lemma rd_in [mem_simps]: "i < length xs \<Longrightarrow> rd xs i = Some (xs ! i)"
  by (simp add: rd_def)

lemma rd_out: "length xs \<le> i \<Longrightarrow> rd xs i = None"
  by (simp add: rd_def)

lemma wr_in [mem_simps]: "i < length xs \<Longrightarrow> wr xs i v = Some (xs[i := v])"
  by (simp add: wr_def)

lemma wr_out: "length xs \<le> i \<Longrightarrow> wr xs i v = None"
  by (simp add: wr_def)

lemma rd_eq_Some: "rd xs i = Some v \<longleftrightarrow> i < length xs \<and> xs ! i = v"
  by (auto simp: rd_def)

lemma wr_eq_Some: "wr xs i v = Some ys \<longleftrightarrow> i < length xs \<and> ys = xs[i := v]"
  by (auto simp: wr_def)

section \<open>Ring indexing\<close>

text \<open>
  The circular buffer and the ready lists of the scheduler keep a queue in an array, as a
  start index and a count. \<open>ring buf st n\<close> is the queue such a pair stands for.
\<close>

definition ring :: "'a list \<Rightarrow> nat \<Rightarrow> nat \<Rightarrow> 'a list" where
  "ring buf st n = map (\<lambda>i. buf ! ((st + i) mod length buf)) [0..<n]"

lemma length_ring [simp]: "length (ring buf st n) = n"
  by (simp add: ring_def)

lemma ring_0 [simp]: "ring buf st 0 = []"
  by (simp add: ring_def)

lemma ring_nth [simp]: "i < n \<Longrightarrow> ring buf st n ! i = buf ! ((st + i) mod length buf)"
  by (simp add: ring_def)

lemma ring_add: "ring buf st (m + n) = ring buf st m @ ring buf ((st + m) mod length buf) n"
proof (rule nth_equalityI)
  fix i assume i: "i < length (ring buf st (m + n))"
  show "ring buf st (m + n) ! i =
      (ring buf st m @ ring buf ((st + m) mod length buf) n) ! i"
  proof (cases "i < m")
    case False
    then obtain j where "i = m + j" by (metis le_Suc_ex not_less)
    with i show ?thesis by (simp add: nth_append mod_simps add.assoc)
  qed (simp add: nth_append)
qed simp

lemma ring_drop: "m \<le> n \<Longrightarrow> drop m (ring buf st n) = ring buf ((st + m) mod length buf) (n - m)"
  using ring_add [of buf st m "n - m"] by simp

lemma ring_take: "m \<le> n \<Longrightarrow> take m (ring buf st n) = ring buf st m"
  using ring_add [of buf st m "n - m"] by simp

text \<open>A stretch of the ring that does not pass the end of the array is a slice of it.\<close>

lemma ring_slice: "st + n \<le> length buf \<Longrightarrow> ring buf st n = take n (drop st buf)"
  by (rule nth_equalityI) auto

lemma ring_index_inj:
  assumes "i < L" and "j < L" and "(st + i) mod L = (st + j) mod (L::nat)"
  shows "i = j"
proof -
  have "x = y" if "x < L" and "y < L" and "x \<le> y" and "(st + x) mod L = (st + y) mod L" for x y
  proof -
    from that(3,4) have "L dvd (st + y) - (st + x)"
      by (metis add_le_cancel_left mod_eq_dvd_iff_nat)
    then have "L dvd y - x" by simp
    moreover have "y - x < L" using that(2) by simp
    ultimately have "y - x = 0" by (metis dvd_imp_le leD neq0_conv)
    with that(3) show ?thesis by simp
  qed
  with assms show ?thesis by (metis nat_le_linear)
qed

text \<open>
  Writing a block behind the queue appends it: the free cells behind the queue hold the
  block, every other cell of the array is as before.
\<close>

lemma ring_append_block:
  assumes len: "length buf' = length buf" and fits: "n + length xs \<le> length buf"
    and new: "\<And>j. j < length xs \<Longrightarrow> buf' ! ((st + n + j) mod length buf) = xs ! j"
    and old: "\<And>p. p < length buf \<Longrightarrow> (\<forall>j<length xs. p \<noteq> (st + n + j) mod length buf) \<Longrightarrow>
      buf' ! p = buf ! p"
  shows "ring buf' st (n + length xs) = ring buf st n @ xs"
proof (rule nth_equalityI)
  show "length (ring buf' st (n + length xs)) = length (ring buf st n @ xs)" by simp
next
  fix i assume i: "i < length (ring buf' st (n + length xs))"
  show "ring buf' st (n + length xs) ! i = (ring buf st n @ xs) ! i"
  proof (cases "i < n")
    case True
    have "(st + i) mod length buf \<noteq> (st + n + j) mod length buf" if "j < length xs" for j
      using ring_index_inj [of i "length buf" "n + j" st] True that fits
      by (auto simp: add.assoc)
    moreover have "(st + i) mod length buf < length buf"
      using i fits by (intro mod_less_divisor) auto
    ultimately show ?thesis
      using True old [of "(st + i) mod length buf"] len by (auto simp: nth_append)
  next
    case False
    then obtain j where "i = n + j" by (metis le_Suc_ex not_less)
    with i new [of j] len show ?thesis by (simp add: nth_append add.assoc)
  qed
qed

lemma ring_push:
  assumes "n < length buf"
  shows "ring (buf[(st + n) mod length buf := x]) st (Suc n) = ring buf st n @ [x]"
proof -
  have "(st + n) mod length buf < length buf"
    using assms by (intro mod_less_divisor) auto
  then show ?thesis
    using ring_append_block [of "buf[(st + n) mod length buf := x]" buf n "[x]" st] assms
    by auto
qed

lemma ring_pop: "0 < n \<Longrightarrow> ring buf ((st + 1) mod length buf) (n - 1) = tl (ring buf st n)"
  using ring_drop [of 1 n buf st] by (simp add: drop_Suc)

lemma ring_hd: "0 < n \<Longrightarrow> st < length buf \<Longrightarrow> hd (ring buf st n) = buf ! st"
  by (simp add: hd_conv_nth flip: length_greater_0_conv)

section \<open>Words\<close>

lemma unat_and_mask: "unat (w AND mask k) = unat w mod 2 ^ k"
proof -
  have "unat (w AND mask k) = take_bit k (unat w)"
    by (simp add: unsigned_take_bit_eq flip: take_bit_eq_mask)
  then show ?thesis by (simp only: take_bit_eq_mod)
qed

lemma unat_mask32: "k < 32 \<Longrightarrow> unat (mask k :: uint32) = 2 ^ k - 1"
  by (simp add: unat_eq_nat_uint uint_mask_eq min_def,
      simp add: mask_eq_exp_minus_1 nat_diff_distrib nat_power_eq)

lemma unat_of_nat32: "n < 2 ^ 32 \<Longrightarrow> unat (of_nat n :: uint32) = n"
  by (simp add: unsigned_of_nat take_bit_nat_eq_self)

lemma unat_pow2: "k < 32 \<Longrightarrow> unat (2 ^ k :: uint32) = 2 ^ k"
  using unat_of_nat32 [of "2 ^ k"] power_strict_increasing [of k 32 "2::nat"] by simp

lemma mod_step: "a < L \<Longrightarrow> b \<le> L \<Longrightarrow> (a + b) mod L = (if a + b < L then a + b else a + b - (L::nat))"
  by (cases "a + b < L") (auto simp: mod_if)

lemma mod_wrap: "a < L \<Longrightarrow> b \<le> L \<Longrightarrow> (a + L - b) mod L = (if b \<le> a then a - b else a + L - (b::nat))"
  by (cases "b \<le> a") (auto simp: mod_if)

lemma unat_diff_mod:
  fixes a b :: "'a::len word"
  assumes "k \<le> LENGTH('a)" and "unat b \<le> unat a + 2 ^ k"
  shows "unat (a - b) mod 2 ^ k = (unat a + 2 ^ k - unat b) mod 2 ^ k"
proof (cases "unat b \<le> unat a")
  case True
  then have "unat a + 2 ^ k - unat b = (unat a - unat b) + 2 ^ k" by simp
  moreover have "unat (a - b) = unat a - unat b" using True by (simp add: unat_sub_if')
  ultimately show ?thesis by simp
next
  case False
  from assms(1) obtain d where d: "LENGTH('a) = k + d" by (metis le_Suc_ex)
  have "(2::nat) ^ LENGTH('a) = 2 ^ k + 2 ^ k * (2 ^ d - 1)"
    by (simp add: d power_add right_diff_distrib')
  with False assms(2) have "unat (a - b) = (unat a + 2 ^ k - unat b) + 2 ^ k * (2 ^ d - 1)"
    by (simp add: unat_sub_if')
  then show ?thesis by simp
qed

lemma unat_plus_mod:
  fixes a b :: "'a::len word"
  assumes "k \<le> LENGTH('a)"
  shows "unat (a + b) mod 2 ^ k = (unat a + unat b) mod 2 ^ k"
proof -
  have "(2::nat) ^ k dvd 2 ^ LENGTH('a)" using assms by (rule le_imp_power_dvd)
  then show ?thesis by (simp add: unat_word_ariths mod_mod_cancel)
qed

lemma and_pred_pow2_nat: "0 < (n::nat) \<Longrightarrow> n AND (n - 1) = 0 \<Longrightarrow> \<exists>k. n = 2 ^ k"
proof (induction n rule: less_induct)
  case (less n)
  show ?case
  proof (cases "even n")
    case True
    then obtain m where m: "n = 2 * m" by (elim evenE)
    with less.prems have m0: "0 < m" by simp
    from m m0 have "n div 2 = m" "(n - 1) div 2 = m - 1" by auto
    then have "m AND (m - 1) = (n AND (n - 1)) div 2"
      by (metis drop_bit_Suc drop_bit_0 drop_bit_and id_apply)
    then have "m AND (m - 1) = 0" using less.prems by simp
    with less.IH [of m] m m0 obtain k where "m = 2 ^ k" by auto
    with m show ?thesis by (metis power_Suc)
  next
    case False
    then obtain m where m: "n = 2 * m + 1" by (elim oddE)
    then have "n div 2 = m" "(n - 1) div 2 = m" by auto
    then have "m AND m = (n AND (n - 1)) div 2"
      by (metis drop_bit_Suc drop_bit_0 drop_bit_and id_apply)
    with less.prems(2) have "m = 0" by simp
    with m have "n = 2 ^ 0" by simp
    then show ?thesis ..
  qed
qed

end
