(* ===== verification/PosixString.thy ===== *)
theory PosixString
  imports CIAA_Prelude
begin

text \<open>
  Memory and string routines of \<^verbatim>\<open>modules/posix/src/ciaaPOSIX_string.c\<close>. An object is
  the list of its bytes and a pointer into it is an offset; source and destination are
  different objects, as at every call site that is modelled.
\<close>

section \<open>Memory\<close>

text \<open>The copy runs from the last byte to the first, as the loop of the source does.\<close>

fun ciaaPOSIX_memcpy :: "'a list \<Rightarrow> nat \<Rightarrow> 'a list \<Rightarrow> nat \<Rightarrow> nat \<Rightarrow> 'a list option" where
  "ciaaPOSIX_memcpy s1 o1 s2 o2 0 = Some s1"
| "ciaaPOSIX_memcpy s1 o1 s2 o2 (Suc n) = do {
     x \<leftarrow> rd s2 (o2 + n);
     s1' \<leftarrow> wr s1 (o1 + n) x;
     ciaaPOSIX_memcpy s1' o1 s2 o2 n }"

fun ciaaPOSIX_memset :: "uint8 list \<Rightarrow> nat \<Rightarrow> int \<Rightarrow> nat \<Rightarrow> uint8 list option" where
  "ciaaPOSIX_memset s off c 0 = Some s"
| "ciaaPOSIX_memset s off c (Suc n) = do {
     s' \<leftarrow> wr s (off + n) (word_of_int c);
     ciaaPOSIX_memset s' off c n }"

definition blit :: "'a list \<Rightarrow> nat \<Rightarrow> 'a list \<Rightarrow> 'a list" where
  "blit s off xs = take off s @ xs @ drop (off + length xs) s"

lemma length_blit [simp]: "off + length xs \<le> length s \<Longrightarrow> length (blit s off xs) = length s"
  by (simp add: blit_def)

lemma blit_nth:
  "off + length xs \<le> length s \<Longrightarrow> i < length s \<Longrightarrow>
    blit s off xs ! i = (if off \<le> i \<and> i < off + length xs then xs ! (i - off) else s ! i)"
  by (auto simp: blit_def nth_append min_def)

lemma blit_Nil [simp]: "blit s off [] = s"
  by (simp add: blit_def)

lemma blit_snoc:
  "off + length xs < length s \<Longrightarrow> blit (s[off + length xs := x]) off xs = blit s off (xs @ [x])"
  by (rule nth_equalityI) (auto simp: blit_nth nth_append nth_list_update)

text \<open>In bounds, a copy is the slice of the source laid over the destination.\<close>

lemma memcpy_blit:
  assumes "o1 + n \<le> length s1" and "o2 + n \<le> length s2"
  shows "ciaaPOSIX_memcpy s1 o1 s2 o2 n = Some (blit s1 o1 (take n (drop o2 s2)))"
  using assms
proof (induction n arbitrary: s1)
  case (Suc n)
  have "take (Suc n) (drop o2 s2) = take n (drop o2 s2) @ [s2 ! (o2 + n)]"
    using Suc.prems by (simp add: take_Suc_conv_app_nth)
  moreover have "blit (s1[o1 + n := s2 ! (o2 + n)]) o1 (take n (drop o2 s2)) =
      blit s1 o1 (take n (drop o2 s2) @ [s2 ! (o2 + n)])"
    using blit_snoc [of o1 "take n (drop o2 s2)" s1] Suc.prems by simp
  ultimately show ?case
    using Suc.prems by (simp add: mem_simps Suc.IH)
qed simp

text \<open>Out of bounds, it is undefined as soon as a byte is to be copied.\<close>

lemma memcpy_undefined:
  "length s1 < o1 + n \<or> length s2 < o2 + n \<Longrightarrow> 0 < n \<Longrightarrow> ciaaPOSIX_memcpy s1 o1 s2 o2 n = None"
proof (induction n arbitrary: s1)
  case (Suc n)
  then show ?case
    by (cases "n = 0") (auto simp: rd_def wr_def bind_eq_None_conv split: if_splits)
qed simp

lemma memset_blit:
  "off + n \<le> length s \<Longrightarrow> ciaaPOSIX_memset s off c n = Some (blit s off (replicate n (word_of_int c)))"
proof (induction n arbitrary: s)
  case (Suc n)
  then show ?case
    using blit_snoc [of off "replicate n (word_of_int c)" s]
    by (simp add: mem_simps replicate_append_same)
qed simp

end
