(* ===== verification/CString.thy ===== *)
theory CString
  imports PosixString
begin

text \<open>
  The string routines of \<^verbatim>\<open>modules/posix/src/ciaaPOSIX_string.c\<close>: copy, length, concatenation and the
  three comparisons. A pointer to a string is the rest of its object, from the byte it points to; a string that
  is not terminated inside its object is read past its end, which is \<open>None\<close>. Characters compare as unsigned
  bytes, as on the ARM ports.
\<close>

abbreviation (input) ZERO :: char where "ZERO \<equiv> CHR 0x00"

section \<open>The routines\<close>

text \<open>\<open>ciaaPOSIX_strcpy\<close> gives the object and the pointer it returns, an offset into it.\<close>

fun copy_string :: "char list \<Rightarrow> nat \<Rightarrow> char list \<Rightarrow> (char list \<times> nat) option" where
  "copy_string s1 off [] = None"
| "copy_string s1 off (c # s2) =
     (if c \<noteq> ZERO then do { s1 \<leftarrow> wr s1 off c; copy_string s1 (off + 1) s2 }
      else do { s1 \<leftarrow> wr s1 off ZERO; Some (s1, off) })"

definition ciaaPOSIX_strcpy :: "char list \<Rightarrow> char list \<Rightarrow> (char list \<times> nat) option" where
  "ciaaPOSIX_strcpy s1 s2 = copy_string s1 0 s2"

fun strlen_from :: "uint32 \<Rightarrow> char list \<Rightarrow> uint32 option" where
  "strlen_from len [] = None"
| "strlen_from len (c # s) = (if c \<noteq> ZERO then strlen_from (len + 1) s else Some len)"

definition ciaaPOSIX_strlen :: "char list \<Rightarrow> uint32 option" where
  "ciaaPOSIX_strlen = strlen_from 0"

definition ciaaPOSIX_strcat :: "char list \<Rightarrow> char list \<Rightarrow> char list option" where
  "ciaaPOSIX_strcat dest src = do {
     length \<leftarrow> ciaaPOSIX_strlen dest;
     (dest, _) \<leftarrow> copy_string dest (unat length) src;
     Some dest }"

text \<open>The comparison of two bytes, in the loop and after it.\<close>

definition byte_sign :: "'a :: linorder \<Rightarrow> 'a \<Rightarrow> int" where
  "byte_sign a b = (if a > b then 1 else if a < b then - 1 else 0)"

definition code :: "char \<Rightarrow> nat" where "code = of_char"

fun ciaaPOSIX_strncmp :: "char list \<Rightarrow> char list \<Rightarrow> nat \<Rightarrow> int option" where
  "ciaaPOSIX_strncmp (a # s1) (b # s2) n =
     (if ZERO \<noteq> a \<and> ZERO \<noteq> b \<and> 0 < n
      then if byte_sign (code a) (code b) = 0 then ciaaPOSIX_strncmp s1 s2 (n - 1)
           else Some (byte_sign (code a) (code b))
      else if n \<noteq> 0 then Some (byte_sign (code a) (code b)) else Some 0)"
| "ciaaPOSIX_strncmp (a # s1) [] n = (if ZERO = a \<and> n = 0 then Some 0 else None)"
| "ciaaPOSIX_strncmp [] s2 n = None"

fun ciaaPOSIX_strcmp :: "char list \<Rightarrow> char list \<Rightarrow> int option" where
  "ciaaPOSIX_strcmp (a # s1) (b # s2) =
     (if ZERO \<noteq> a \<and> ZERO \<noteq> b
      then if byte_sign (code a) (code b) = 0 then ciaaPOSIX_strcmp s1 s2
           else Some (byte_sign (code a) (code b))
      else Some (byte_sign (code a) (code b)))"
| "ciaaPOSIX_strcmp _ _ = None"

fun ciaaPOSIX_memcmp :: "uint8 list \<Rightarrow> uint8 list \<Rightarrow> nat \<Rightarrow> int option" where
  "ciaaPOSIX_memcmp s1 s2 0 = Some 0"
| "ciaaPOSIX_memcmp (a # s1) (b # s2) (Suc n) =
     (if byte_sign a b = 0 then ciaaPOSIX_memcmp s1 s2 n else Some (byte_sign a b))"
| "ciaaPOSIX_memcmp _ _ (Suc n) = None"

section \<open>The specification\<close>

text \<open>The string an object holds, and the sign of the lexicographic order.\<close>

definition text_of :: "char list \<Rightarrow> char list" where
  "text_of s = takeWhile (\<lambda>c. c \<noteq> ZERO) s"

definition lex_sign :: "'a :: linorder list \<Rightarrow> 'a list \<Rightarrow> int" where
  "lex_sign xs ys = (if xs = ys then 0 else if (xs, ys) \<in> lexord {(a, b). a < b} then - 1 else 1)"

lemma lex_sign_simps [simp]:
  "lex_sign [] [] = 0" "lex_sign (a # xs) [] = 1" "lex_sign [] (b # ys) = - 1"
  "lex_sign (a # xs) (b # ys) = (if byte_sign a b = 0 then lex_sign xs ys else byte_sign a b)"
  by (auto simp: lex_sign_def byte_sign_def)

lemma code_inj [simp]: "code a = code b \<longleftrightarrow> a = b"
  by (simp add: code_def)

lemma code_ZERO [simp]: "code ZERO = 0" "code c = 0 \<longleftrightarrow> c = ZERO"
proof -
  show z: "code ZERO = 0" by (simp add: code_def)
  show "code c = 0 \<longleftrightarrow> c = ZERO" using code_inj [of c ZERO] by (simp only: z)
qed

lemma byte_sign_0 [simp]: "byte_sign a b = 0 \<longleftrightarrow> a = b"
  by (auto simp: byte_sign_def)

lemma byte_sign_ZERO: "c \<noteq> ZERO \<Longrightarrow> byte_sign (code c) 0 = 1" "c \<noteq> ZERO \<Longrightarrow> byte_sign 0 (code c) = - 1"
  using code_ZERO(2) [of c] by (auto simp: byte_sign_def simp del: code_ZERO)

lemma text_of_simps [simp]:
  "text_of [] = []" "text_of (c # s) = (if c = ZERO then [] else c # text_of s)"
  by (simp_all add: text_of_def)

lemma text_of_append: "ZERO \<notin> set xs \<Longrightarrow> text_of (xs @ ys) = xs @ text_of ys"
  by (induction xs) auto

lemma ZERO_text_of [simp]: "ZERO \<notin> set (text_of s)"
  by (induction s) auto

lemma strlen_from_text:
  "ZERO \<in> set s \<Longrightarrow> strlen_from n s = Some (n + of_nat (length (text_of s)))"
  by (induction s arbitrary: n) (auto simp: add.assoc)

lemma strlen_from_open: "ZERO \<notin> set s \<Longrightarrow> strlen_from n s = None"
  by (induction s arbitrary: n) auto

lemma length_text_of: "ZERO \<in> set s \<Longrightarrow> length (text_of s) < length s"
  by (induction s) auto

text \<open>The copy lays the text and its terminator over the object, if there is room for both.\<close>

lemma copy_string_blit:
  assumes "ZERO \<in> set s2" and "off + length (text_of s2) < length s1"
  shows "copy_string s1 off s2 = Some (blit s1 off (text_of s2 @ [ZERO]), off + length (text_of s2))"
  using assms
proof (induction s2 arbitrary: s1 off)
  case (Cons c s2)
  show ?case
  proof (cases "c = ZERO")
    case True
    with Cons.prems blit_snoc [of off "[]" s1] show ?thesis by (simp add: mem_simps)
  next
    case False
    let ?xs = "text_of s2 @ [ZERO]"
    have room: "off < length s1" "off + 1 + length ?xs \<le> length s1" using Cons.prems False by auto
    have "blit (s1[off := c]) (off + 1) ?xs = blit s1 off (c # ?xs)"
    proof (rule nth_equalityI)
      fix i assume "i < length (blit (s1[off := c]) (off + 1) ?xs)"
      then have i: "i < length s1" using room by simp
      show "blit (s1[off := c]) (off + 1) ?xs ! i = blit s1 off (c # ?xs) ! i"
        using i room blit_nth [of "off + 1" ?xs "s1[off := c]" i] blit_nth [of off "c # ?xs" s1 i]
        by (cases "i = off") (auto simp: nth_Cons')
    qed (use room in simp)
    moreover have "ZERO \<in> set s2" using Cons.prems(1) False by auto
    moreover have "off + 1 + length (text_of s2) < length (s1[off := c])" using room by simp
    ultimately show ?thesis using Cons.IH [of "off + 1" "s1[off := c]"] room False by (simp add: mem_simps)
  qed
qed simp

lemma copy_string_None:
  "ZERO \<notin> set s2 \<or> length s1 \<le> off + length (text_of s2) \<Longrightarrow> copy_string s1 off s2 = None"
  by (induction s1 off s2 rule: copy_string.induct) (auto simp: wr_def bind_eq_None_conv split: if_splits)

lemma text_of_blit:
  assumes "off + length (text_of s2) < length s1" and "ZERO \<notin> set (take off s1)"
  shows "text_of (blit s1 off (text_of s2 @ [ZERO])) = take off s1 @ text_of s2"
  using assms by (simp add: blit_def text_of_append)

text \<open>A concatenation that fits.\<close>

lemma strlen_text:
  assumes "ZERO \<in> set s" and "length s < 2 ^ 32"
  shows "ciaaPOSIX_strlen s = Some (of_nat (length (text_of s)))" "unat (of_nat (length (text_of s)) :: uint32) = length (text_of s)"
  using strlen_from_text [OF assms(1), of 0] length_text_of [OF assms(1)] assms(2)
  by (simp_all add: ciaaPOSIX_strlen_def unat_of_nat32)

lemma take_text_of: "take (length (text_of s)) s = text_of s"
  using takeWhile_eq_take [of "\<lambda>c. c \<noteq> ZERO" s] by (simp add: text_of_def)

lemma strcat_fits:
  assumes "ZERO \<in> set dest" and "ZERO \<in> set src" and "length dest < 2 ^ 32"
    and "length (text_of dest) + length (text_of src) < length dest"
  shows "\<exists>d. ciaaPOSIX_strcat dest src = Some d \<and> text_of d = text_of dest @ text_of src \<and> length d = length dest \<and> ZERO \<in> set d"
proof -
  let ?n = "length (text_of dest)"
  let ?d = "blit dest ?n (text_of src @ [ZERO])"
  have "ciaaPOSIX_strcat dest src = Some ?d"
    using copy_string_blit [OF assms(2,4)] strlen_text [OF assms(1,3)] by (simp add: ciaaPOSIX_strcat_def)
  moreover have "text_of ?d = text_of dest @ text_of src"
    using text_of_blit [OF assms(4)] by (simp add: take_text_of)
  moreover have "ZERO \<in> set ?d" by (simp add: blit_def)
  ultimately show ?thesis using assms(4) by simp
qed

section \<open>The properties\<close>

lemma lex_sign_0: "lex_sign xs ys = 0 \<longleftrightarrow> xs = ys"
  by (auto simp: lex_sign_def)

lemma map_code_inj: "map code xs = map code ys \<longleftrightarrow> xs = ys"
  by (simp add: inj_map_eq_map inj_def)

lemma strcmp_lex: "ZERO \<in> set s1 \<Longrightarrow> ZERO \<in> set s2 \<Longrightarrow>
    ciaaPOSIX_strcmp s1 s2 = Some (lex_sign (map code (text_of s1)) (map code (text_of s2)))"
  by (induction s1 s2 rule: ciaaPOSIX_strcmp.induct) (auto simp: byte_sign_ZERO)

lemma strncmp_lex: "ZERO \<in> set s1 \<Longrightarrow> ZERO \<in> set s2 \<Longrightarrow>
    ciaaPOSIX_strncmp s1 s2 n = Some (lex_sign (map code (take n (text_of s1))) (map code (take n (text_of s2))))"
  by (induction s1 s2 n rule: ciaaPOSIX_strncmp.induct) (auto simp: byte_sign_ZERO take_Cons')

text \<open>\<open>ciaaPOSIX_strcmp\<close> and \<open>ciaaPOSIX_strncmp\<close> give the sign of the lexicographic order of the two texts,
  the second of their first \<open>n\<close> characters; it is 0 exactly for equal texts.\<close>

lemma strcmp_correct:
  assumes "ZERO \<in> set s1" and "ZERO \<in> set s2"
  shows "ciaaPOSIX_strcmp s1 s2 = Some (lex_sign (map code (text_of s1)) (map code (text_of s2))) \<and>
    ciaaPOSIX_strncmp s1 s2 n = Some (lex_sign (map code (take n (text_of s1))) (map code (take n (text_of s2)))) \<and>
    (ciaaPOSIX_strcmp s1 s2 = Some 0 \<longleftrightarrow> text_of s1 = text_of s2) \<and>
    (ciaaPOSIX_strncmp s1 s2 n = Some 0 \<longleftrightarrow> take n (text_of s1) = take n (text_of s2))"
  using strcmp_lex [OF assms] strncmp_lex [OF assms, of n] by (simp add: lex_sign_0 map_code_inj)

text \<open>\<open>ciaaPOSIX_memcmp\<close> gives the sign of the lexicographic order of the first \<open>n\<close> bytes, whatever
  they are, and reads no more of the two objects than these.\<close>

lemma memcmp_lex:
  assumes "n \<le> length s1" and "n \<le> length s2"
  shows "ciaaPOSIX_memcmp s1 s2 n = Some (lex_sign (take n s1) (take n s2))"
  using assms by (induction s1 s2 n rule: ciaaPOSIX_memcmp.induct) auto

text \<open>\<open>ciaaPOSIX_strcpy\<close> and \<open>ciaaPOSIX_strcat\<close> are defined exactly when the text and its terminator fit;
  then the object holds the copied text, or its own followed by it, and every byte behind the
  terminator is as before. \<open>ciaaPOSIX_strcpy\<close> returns a pointer to the terminator, not to the object.\<close>

lemma strcat_correct:
  assumes "ZERO \<in> set src" and "ZERO \<in> set dest" and "length dest < 2 ^ 32"
  shows "ciaaPOSIX_strcpy obj src =
      (if length (text_of src) < length obj
       then Some (text_of src @ ZERO # drop (Suc (length (text_of src))) obj, length (text_of src)) else None) \<and>
    ciaaPOSIX_strlen dest = Some (of_nat (length (text_of dest))) \<and>
    ciaaPOSIX_strcat dest src =
      (let n = length (text_of dest) + length (text_of src) in
       if n < length dest then Some (text_of dest @ text_of src @ ZERO # drop (Suc n) dest) else None)"
proof -
  have len: "ciaaPOSIX_strlen dest = Some (of_nat (length (text_of dest)))"
    using strlen_from_text [OF assms(2), of 0] by (simp add: ciaaPOSIX_strlen_def)
  have n: "unat (of_nat (length (text_of dest)) :: uint32) = length (text_of dest)"
    using length_text_of [OF assms(2)] assms(3) by (simp add: unat_of_nat32)
  have pre: "take (length (text_of s)) s = text_of s" for s
    using takeWhile_eq_take [of "\<lambda>c. c \<noteq> ZERO" s] by (simp add: text_of_def)
  have cpy: "ciaaPOSIX_strcpy obj src = (if length (text_of src) < length obj
       then Some (text_of src @ ZERO # drop (Suc (length (text_of src))) obj, length (text_of src)) else None)"
    using copy_string_blit [OF assms(1), of 0 obj] copy_string_None [of src obj 0]
    by (auto simp: ciaaPOSIX_strcpy_def blit_def)
  have "ciaaPOSIX_strcat dest src =
      (let n = length (text_of dest) + length (text_of src) in
       if n < length dest then Some (text_of dest @ text_of src @ ZERO # drop (Suc n) dest) else None)"
    using copy_string_blit [OF assms(1), of "length (text_of dest)" dest]
      copy_string_None [of src dest "length (text_of dest)"] pre [of dest]
    by (auto simp: ciaaPOSIX_strcat_def len n blit_def Let_def)
  with cpy len show ?thesis by blast
qed

end
