(* ===== verification/CircBuf.thy ===== *)
theory CircBuf
  imports PosixString
begin

text \<open>
  The circular buffer of \<^verbatim>\<open>modules/libs\<close>: \<^verbatim>\<open>ciaaLibs_CircBuf.c\<close> and the macros of
  \<^verbatim>\<open>ciaaLibs_CircBuf.h\<close> and \<^verbatim>\<open>ciaaLibs_Maths.h\<close>. Indices are \<open>size_t\<close>, 32 bits on the
  target, so the index arithmetic wraps as in the code. The abstraction \<open>cb_abs\<close> reads the
  buffer as the list of bytes it stores; \<open>put\<close> appends to it and \<open>get\<close> takes from its
  front.
\<close>

section \<open>The code\<close>

definition ciaaLibs_isPowerOfTwo :: "uint32 \<Rightarrow> bool" where
  "ciaaLibs_isPowerOfTwo num \<longleftrightarrow> num \<noteq> 0 \<and> num AND (num - 1) = 0"

record circBuf =
  cb_head :: uint32
  cb_tail :: uint32
  cb_size :: uint32
  cb_buf :: "uint8 list"

definition circBufSpace :: "circBuf \<Rightarrow> uint32 \<Rightarrow> uint32" where
  "circBufSpace c head = (head - cb_tail c - 1) AND cb_size c"

definition circBufRawSpace :: "circBuf \<Rightarrow> uint32 \<Rightarrow> uint32" where
  "circBufRawSpace c head =
     (if head \<le> cb_tail c then cb_size c - cb_tail c + (if 0 < head then 1 else 0)
      else head - cb_tail c - 1)"

definition circBufUpdateTail :: "circBuf \<Rightarrow> uint32 \<Rightarrow> circBuf" where
  "circBufUpdateTail c nbytes = c\<lparr>cb_tail := (cb_tail c + nbytes) AND cb_size c\<rparr>"

definition circBufUpdateHead :: "circBuf \<Rightarrow> uint32 \<Rightarrow> circBuf" where
  "circBufUpdateHead c nbytes = c\<lparr>cb_head := (cb_head c + nbytes) AND cb_size c\<rparr>"

definition circBufCount :: "circBuf \<Rightarrow> uint32 \<Rightarrow> uint32" where
  "circBufCount c tail = (tail - cb_head c) AND cb_size c"

definition circBufRawCount :: "circBuf \<Rightarrow> uint32 \<Rightarrow> uint32" where
  "circBufRawCount c tail =
     (if cb_head c \<le> tail then tail - cb_head c else cb_size c + 1 - cb_head c)"

definition circBufEmpty :: "circBuf \<Rightarrow> bool" where
  "circBufEmpty c \<longleftrightarrow> cb_tail c = cb_head c"

definition circBufFull :: "circBuf \<Rightarrow> bool" where
  "circBufFull c \<longleftrightarrow> (cb_tail c + 1) AND cb_size c = cb_head c"

definition circBufClean :: "circBuf \<Rightarrow> circBuf" where
  "circBufClean c = c\<lparr>cb_head := 0, cb_tail := 0\<rparr>"

text \<open>A null buffer pointer is \<open>None\<close>. The return value is 1, or -1 on a rejected size.\<close>

definition circBufInit :: "circBuf \<Rightarrow> uint8 list option \<Rightarrow> uint32 \<Rightarrow> int \<times> circBuf" where
  "circBufInit c buf nbytes =
     (case buf of
        Some b \<Rightarrow>
          if 7 < nbytes \<and> ciaaLibs_isPowerOfTwo nbytes
          then (1, c\<lparr>cb_size := nbytes - 1, cb_head := 0, cb_tail := 0, cb_buf := b\<rparr>)
          else (-1, c)
      | None \<Rightarrow> (-1, c))"

text \<open>
  The writer reads \<open>head\<close> once, because the reader may move it while a put runs; the reader
  reads \<open>tail\<close> once. The bodies therefore take that one reading as an argument.
\<close>

definition circBufPut_from ::
    "circBuf \<Rightarrow> uint32 \<Rightarrow> uint8 list \<Rightarrow> uint32 \<Rightarrow> (uint32 \<times> circBuf) option" where
  "circBufPut_from c head data nbytes =
     (if nbytes \<le> circBufSpace c head then do {
        let rawSpace = circBufRawSpace c head;
        buf \<leftarrow> (if nbytes \<le> rawSpace
                then ciaaPOSIX_memcpy (cb_buf c) (unat (cb_tail c)) data 0 (unat nbytes)
                else do {
                  b \<leftarrow> ciaaPOSIX_memcpy (cb_buf c) (unat (cb_tail c)) data 0 (unat rawSpace);
                  ciaaPOSIX_memcpy b 0 data (unat rawSpace) (unat (nbytes - rawSpace)) });
        Some (nbytes, circBufUpdateTail (c\<lparr>cb_buf := buf\<rparr>) nbytes) }
      else Some (0, c))"

definition circBufPut :: "circBuf \<Rightarrow> uint8 list \<Rightarrow> uint32 \<Rightarrow> (uint32 \<times> circBuf) option" where
  "circBufPut c data nbytes = circBufPut_from c (cb_head c) data nbytes"

text \<open>\<open>data\<close> is the caller's array; the result holds the count, the array and the buffer.\<close>

definition circBufGet_from ::
    "circBuf \<Rightarrow> uint32 \<Rightarrow> uint8 list \<Rightarrow> uint32 \<Rightarrow> (uint32 \<times> uint8 list \<times> circBuf) option" where
  "circBufGet_from c tail data nbytes0 =
     (let nbytes = (if circBufCount c tail < nbytes0 then circBufCount c tail else nbytes0) in
      if 0 < nbytes then do {
        let rawCount = circBufRawCount c tail;
        out \<leftarrow> (if nbytes \<le> rawCount
                then ciaaPOSIX_memcpy data 0 (cb_buf c) (unat (cb_head c)) (unat nbytes)
                else do {
                  d \<leftarrow> ciaaPOSIX_memcpy data 0 (cb_buf c) (unat (cb_head c)) (unat rawCount);
                  ciaaPOSIX_memcpy d (unat rawCount) (cb_buf c) 0 (unat (nbytes - rawCount)) });
        Some (nbytes, out, circBufUpdateHead c nbytes) }
      else Some (nbytes, data, c))"

definition circBufGet ::
    "circBuf \<Rightarrow> uint8 list \<Rightarrow> uint32 \<Rightarrow> (uint32 \<times> uint8 list \<times> circBuf) option" where
  "circBufGet c data nbytes = circBufGet_from c (cb_tail c) data nbytes"

section \<open>Invariant and abstraction\<close>

text \<open>
  \<open>cb_ok k c\<close>: the array has \<open>2 ^ k\<close> bytes, \<open>size\<close> is the mask of an index into it, and
  both indices are inside.
\<close>

definition cb_ok :: "nat \<Rightarrow> circBuf \<Rightarrow> bool" where
  "cb_ok k c \<longleftrightarrow> 3 \<le> k \<and> k < 32 \<and> cb_size c = mask k \<and> length (cb_buf c) = 2 ^ k \<and>
     unat (cb_head c) < 2 ^ k \<and> unat (cb_tail c) < 2 ^ k"

definition cb_inv :: "circBuf \<Rightarrow> bool" where
  "cb_inv c \<longleftrightarrow> (\<exists>k<32. cb_ok k c)"

definition cb_abs :: "circBuf \<Rightarrow> uint8 list" where
  "cb_abs c = ring (cb_buf c) (unat (cb_head c)) (unat (circBufCount c (cb_tail c)))"

lemma length_cb_abs: "length (cb_abs c) = unat (circBufCount c (cb_tail c))"
  by (simp add: cb_abs_def)

lemma cb_invI: "cb_ok k c \<Longrightarrow> cb_inv c"
  by (auto simp: cb_inv_def cb_ok_def)

section \<open>Indices as numbers\<close>

lemma cb_okD:
  assumes "cb_ok k c"
  shows "3 \<le> k" "k < 32" "cb_size c = mask k" "length (cb_buf c) = 2 ^ k"
    "unat (cb_head c) < 2 ^ k" "unat (cb_tail c) < 2 ^ k" "(2::nat) ^ k \<le> 2 ^ 31" "8 \<le> (2::nat) ^ k"
proof -
  show "(2::nat) ^ k \<le> 2 ^ 31" using assms by (intro power_increasing) (auto simp: cb_ok_def)
  have "(2::nat) ^ 3 \<le> 2 ^ k" using assms by (intro power_increasing) (auto simp: cb_ok_def)
  then show "8 \<le> (2::nat) ^ k" by simp
qed (use assms in \<open>auto simp: cb_ok_def\<close>)

lemma count_nat:
  assumes "cb_ok k c" and "unat t < 2 ^ k"
  shows "unat (circBufCount c t) =
    (if cb_head c \<le> t then unat t - unat (cb_head c) else unat t + 2 ^ k - unat (cb_head c))"
proof -
  note k = cb_okD [OF assms(1)]
  have "unat (circBufCount c t) = (unat t + 2 ^ k - unat (cb_head c)) mod 2 ^ k"
    using k by (simp add: circBufCount_def unat_and_mask unat_diff_mod)
  then show ?thesis
    using k(5) assms(2) by (simp add: mod_wrap word_le_nat_alt)
qed

lemma space_nat:
  assumes "cb_ok k c" and "unat h < 2 ^ k"
  shows "unat (circBufSpace c h) =
    (if cb_tail c < h then unat h - (unat (cb_tail c) + 1)
     else unat h + 2 ^ k - (unat (cb_tail c) + 1))"
proof -
  note k = cb_okD [OF assms(1)]
  have t1: "unat (cb_tail c + 1) = unat (cb_tail c) + 1"
    using k(6,7) by (simp add: unat_word_ariths)
  have "unat (circBufSpace c h) = (unat h + 2 ^ k - (unat (cb_tail c) + 1)) mod 2 ^ k"
    using k unat_diff_mod [of k "cb_tail c + 1" h] t1
    by (simp add: circBufSpace_def unat_and_mask diff_diff_eq)
  then show ?thesis
    using k(6) assms(2) mod_wrap [of "unat h" "2 ^ k" "unat (cb_tail c) + 1"]
    by (simp add: word_less_nat_alt Suc_le_eq)
qed

lemma rawCount_nat:
  assumes "cb_ok k c"
  shows "unat (circBufRawCount c t) =
    (if cb_head c \<le> t then unat t - unat (cb_head c) else 2 ^ k - unat (cb_head c))"
proof -
  note k = cb_okD [OF assms]
  have m1: "unat (cb_size c + 1) = 2 ^ k"
    using k(2,3,7,8) by (simp add: unat_word_ariths unat_mask32)
  then have "unat (cb_size c + 1 - cb_head c) = 2 ^ k - unat (cb_head c)"
    using k(5) by (subst unat_sub) (auto simp: word_le_nat_alt)
  then show ?thesis
    by (auto simp: circBufRawCount_def unat_sub word_le_nat_alt)
qed

lemma rawSpace_nat:
  assumes "cb_ok k c" and "unat h < 2 ^ k"
  shows "unat (circBufRawSpace c h) =
    (if cb_tail c < h then unat h - (unat (cb_tail c) + 1)
     else 2 ^ k - 1 - unat (cb_tail c) + (if 0 < h then 1 else 0))"
proof -
  note k = cb_okD [OF assms(1)]
  have "unat (cb_size c - cb_tail c) = 2 ^ k - 1 - unat (cb_tail c)"
    using k by (subst unat_sub) (auto simp: word_le_nat_alt unat_mask32)
  moreover from this have "unat (cb_size c - cb_tail c + 1) = 2 ^ k - 1 - unat (cb_tail c) + 1"
    using k(7,8) by (simp add: unat_word_ariths)
  moreover have "unat (h - cb_tail c - 1) = unat h - unat (cb_tail c) - 1" if "\<not> h \<le> cb_tail c"
  proof -
    from that have lt: "unat (cb_tail c) < unat h" by (simp add: word_le_nat_alt)
    then have d: "unat (h - cb_tail c) = unat h - unat (cb_tail c)" by (simp add: unat_sub_if')
    with lt have "1 \<le> h - cb_tail c" by (simp add: word_le_nat_alt)
    then show ?thesis by (simp add: unat_sub d)
  qed
  ultimately show ?thesis by (auto simp: circBufRawSpace_def)
qed

text \<open>Free bytes and stored bytes add up to the size less one.\<close>

lemma space_plus_count:
  assumes "cb_ok k c"
  shows "unat (circBufSpace c (cb_head c)) + unat (circBufCount c (cb_tail c)) = 2 ^ k - 1"
  using cb_okD [OF assms] space_nat [OF assms] count_nat [OF assms]
  by (auto simp: word_le_nat_alt word_less_nat_alt)

lemma cb_ok_space:
  assumes "cb_ok k c"
  shows "unat (circBufSpace c (cb_head c)) = 2 ^ k - 1 - length (cb_abs c)"
  using space_plus_count [OF assms] by (simp add: length_cb_abs)

lemma tail_is_end:
  assumes "cb_ok k c"
  shows "(unat (cb_head c) + length (cb_abs c)) mod 2 ^ k = unat (cb_tail c)"
proof -
  note k = cb_okD [OF assms]
  have "unat (cb_head c) + length (cb_abs c) =
      (if cb_head c \<le> cb_tail c then unat (cb_tail c) else unat (cb_tail c) + 2 ^ k)"
    using k count_nat [OF assms k(6)] by (auto simp: length_cb_abs word_le_nat_alt)
  then show ?thesis using k(6) by auto
qed

section \<open>What put and get do\<close>

text \<open>A slice of the caller's data laid over the array, as the one or two copies of put do.\<close>

lemma put_buffer:
  assumes ok: "cb_ok k c" and n: "n = length xs" and fits: "length xs \<le> 2 ^ k - 1 - length (cb_abs c)"
    and buf': "length buf' = 2 ^ k"
    and cell: "\<And>p. p < 2 ^ k \<Longrightarrow> buf' ! p =
      (if (p + 2 ^ k - unat (cb_tail c)) mod 2 ^ k < n then xs ! ((p + 2 ^ k - unat (cb_tail c)) mod 2 ^ k)
       else cb_buf c ! p)"
  shows "ring buf' (unat (cb_head c)) (length (cb_abs c) + n) = cb_abs c @ xs"
proof -
  note k = cb_okD [OF ok]
  have pos: "(unat (cb_head c) + length (cb_abs c) + j) mod 2 ^ k = (unat (cb_tail c) + j) mod 2 ^ k" for j
    by (metis mod_add_left_eq tail_is_end [OF ok])
  have idx: "((unat (cb_tail c) + j) mod 2 ^ k + 2 ^ k - unat (cb_tail c)) mod 2 ^ k = j"
    if "j < 2 ^ k" for j
    using that k(6) by (auto simp: mod_if)
  have forth: "(unat (cb_tail c) + (p + 2 ^ k - unat (cb_tail c)) mod 2 ^ k) mod 2 ^ k = p"
    if "p < 2 ^ k" for p
    using that k(6) by (auto simp: mod_if)
  have small: "j < length xs \<Longrightarrow> j < 2 ^ k" for j
    using fits by linarith
  have "ring buf' (unat (cb_head c)) (length (cb_abs c) + length xs) =
      ring (cb_buf c) (unat (cb_head c)) (length (cb_abs c)) @ xs"
  proof (rule ring_append_block)
    show "length buf' = length (cb_buf c)" using k(4) buf' by simp
    show "length (cb_abs c) + length xs \<le> length (cb_buf c)"
      using fits k(4,5,8) space_plus_count [OF ok] by (simp add: length_cb_abs)
  next
    fix j assume j: "j < length xs"
    then show "buf' ! ((unat (cb_head c) + length (cb_abs c) + j) mod length (cb_buf c)) = xs ! j"
      using k(4) n small [OF j] by (simp add: pos cell idx)
  next
    fix p assume p: "p < length (cb_buf c)"
      and no: "\<forall>j<length xs. p \<noteq> (unat (cb_head c) + length (cb_abs c) + j) mod length (cb_buf c)"
    have "\<not> (p + 2 ^ k - unat (cb_tail c)) mod 2 ^ k < n"
      using no p n forth k(4) by (metis pos)
    then show "buf' ! p = cb_buf c ! p" using p k(4) by (simp add: cell)
  qed
  then show ?thesis by (simp add: n cb_abs_def length_cb_abs)
qed

text \<open>
  A reading of \<open>head\<close> is still usable when every byte now stored was stored behind it: the
  reader may have taken bytes since, so the writer sees at most the space there is.
\<close>

definition seen_head :: "nat \<Rightarrow> circBuf \<Rightarrow> uint32 \<Rightarrow> bool" where
  "seen_head k c h \<longleftrightarrow> unat h < 2 ^ k \<and> circBufSpace c h \<le> circBufSpace c (cb_head c)"

definition seen_tail :: "nat \<Rightarrow> circBuf \<Rightarrow> uint32 \<Rightarrow> bool" where
  "seen_tail k c t \<longleftrightarrow> unat t < 2 ^ k \<and> circBufCount c t \<le> circBufCount c (cb_tail c)"

lemma updateTail_ok:
  assumes ok: "cb_ok k c" and b: "length b = 2 ^ k"
    and n: "unat nbytes \<le> 2 ^ k - 1 - length (cb_abs c)"
    and r: "ring b (unat (cb_head c)) (length (cb_abs c) + unat nbytes) = cb_abs c @ xs"
  shows "cb_ok k (circBufUpdateTail (c\<lparr>cb_buf := b\<rparr>) nbytes) \<and>
    cb_abs (circBufUpdateTail (c\<lparr>cb_buf := b\<rparr>) nbytes) = cb_abs c @ xs"
proof -
  note k = cb_okD [OF ok]
  let ?c = "circBufUpdateTail (c\<lparr>cb_buf := b\<rparr>) nbytes"
  have tl: "unat (cb_tail ?c) = (unat (cb_tail c) + unat nbytes) mod 2 ^ k"
    using k by (simp add: circBufUpdateTail_def unat_and_mask unat_plus_mod)
  have sel: "cb_head ?c = cb_head c" "cb_buf ?c = b" "cb_size ?c = cb_size c"
    by (simp_all add: circBufUpdateTail_def)
  have ok': "cb_ok k ?c"
    using ok b by (simp add: cb_ok_def tl sel)
  have "unat (circBufCount ?c (cb_tail ?c)) = unat (circBufCount c (cb_tail c)) + unat nbytes"
    using n k count_nat [OF ok k(6)] count_nat [OF ok', of "cb_tail ?c"] mod_wrap
    unfolding tl sel length_cb_abs
    by (auto simp: word_le_nat_alt tl mod_if split: if_splits)
  with ok' r show ?thesis
    by (simp add: cb_abs_def sel)
qed

lemma put_copy:
  assumes ok: "cb_ok k c" and seen: "seen_head k c h" and len: "unat nbytes \<le> length data"
    and fits: "nbytes \<le> circBufSpace c h"
  shows "\<exists>b. (if nbytes \<le> circBufRawSpace c h
           then ciaaPOSIX_memcpy (cb_buf c) (unat (cb_tail c)) data 0 (unat nbytes)
           else do {
             b \<leftarrow> ciaaPOSIX_memcpy (cb_buf c) (unat (cb_tail c)) data 0 (unat (circBufRawSpace c h));
             ciaaPOSIX_memcpy b 0 data (unat (circBufRawSpace c h))
               (unat (nbytes - circBufRawSpace c h)) }) = Some b \<and>
      length b = 2 ^ k \<and>
      (\<forall>p<2 ^ k. b ! p =
        (if (p + 2 ^ k - unat (cb_tail c)) mod 2 ^ k < unat nbytes
         then data ! ((p + 2 ^ k - unat (cb_tail c)) mod 2 ^ k) else cb_buf c ! p))"
proof -
  note k = cb_okD [OF ok]
  have h: "unat h < 2 ^ k" using seen by (simp add: seen_head_def)
  note sp = space_nat [OF ok h] and raw = rawSpace_nat [OF ok h]
  have wrap: "p < 2 ^ k \<Longrightarrow> (p + 2 ^ k - unat (cb_tail c)) mod 2 ^ k =
      (if unat (cb_tail c) \<le> p then p - unat (cb_tail c) else p + 2 ^ k - unat (cb_tail c))" for p
    using k(6) by (simp add: mod_wrap)
  show ?thesis
  proof (cases "nbytes \<le> circBufRawSpace c h")
    case True
    then have "unat (cb_tail c) + unat nbytes \<le> 2 ^ k"
      using raw k(6) h by (auto simp: word_le_nat_alt word_less_nat_alt split: if_splits)
    with True len show ?thesis
      using k(4) by (auto simp: memcpy_blit blit_nth wrap)
  next
    case False
    have r: "unat (circBufRawSpace c h) = 2 ^ k - unat (cb_tail c)"
      using False fits sp raw k(6) h
      by (auto simp: word_le_nat_alt word_less_nat_alt split: if_splits)
    have n: "unat (nbytes - circBufRawSpace c h) = unat nbytes - (2 ^ k - unat (cb_tail c))"
      using False r by (simp add: unat_sub)
    have "unat nbytes < 2 ^ k"
      using fits sp k(6) h by (auto simp: word_le_nat_alt word_less_nat_alt split: if_splits)
    with False len r n show ?thesis
      using k(4,6)
      by (auto simp: memcpy_blit blit_nth wrap word_le_nat_alt add.commute)
  qed
qed

lemma put_from_refines:
  assumes ok: "cb_ok k c" and seen: "seen_head k c h" and len: "unat nbytes \<le> length data"
    and fits: "nbytes \<le> circBufSpace c h"
  shows "\<exists>c'. circBufPut_from c h data nbytes = Some (nbytes, c') \<and> cb_ok k c' \<and>
    cb_abs c' = cb_abs c @ take (unat nbytes) data"
proof -
  obtain b where b: "(if nbytes \<le> circBufRawSpace c h
           then ciaaPOSIX_memcpy (cb_buf c) (unat (cb_tail c)) data 0 (unat nbytes)
           else do {
             b \<leftarrow> ciaaPOSIX_memcpy (cb_buf c) (unat (cb_tail c)) data 0 (unat (circBufRawSpace c h));
             ciaaPOSIX_memcpy b 0 data (unat (circBufRawSpace c h))
               (unat (nbytes - circBufRawSpace c h)) }) = Some b"
    and l: "length b = 2 ^ k"
    and cell: "\<forall>p<2 ^ k. b ! p =
        (if (p + 2 ^ k - unat (cb_tail c)) mod 2 ^ k < unat nbytes
         then data ! ((p + 2 ^ k - unat (cb_tail c)) mod 2 ^ k) else cb_buf c ! p)"
    using put_copy [OF assms] by blast
  have n: "unat nbytes \<le> 2 ^ k - 1 - length (cb_abs c)"
    using fits seen cb_ok_space [OF ok] by (simp add: seen_head_def word_le_nat_alt)
  have "ring b (unat (cb_head c)) (length (cb_abs c) + unat nbytes) =
      cb_abs c @ take (unat nbytes) data"
    using ok _ _ l by (rule put_buffer) (use len n cell in auto)
  from updateTail_ok [OF ok l n this] show ?thesis
    using fits b by (auto simp: circBufPut_from_def Let_def)
qed

lemma put_from_rejects: "\<not> nbytes \<le> circBufSpace c h \<Longrightarrow> circBufPut_from c h data nbytes = Some (0, c)"
  by (simp add: circBufPut_from_def)

lemma updateHead_ok:
  assumes ok: "cb_ok k c" and n: "unat nbytes \<le> length (cb_abs c)"
  shows "cb_ok k (circBufUpdateHead c nbytes) \<and>
    cb_abs (circBufUpdateHead c nbytes) = drop (unat nbytes) (cb_abs c)"
proof -
  note k = cb_okD [OF ok]
  let ?c = "circBufUpdateHead c nbytes"
  have hd: "unat (cb_head ?c) = (unat (cb_head c) + unat nbytes) mod 2 ^ k"
    using k by (simp add: circBufUpdateHead_def unat_and_mask unat_plus_mod)
  have sel: "cb_tail ?c = cb_tail c" "cb_buf ?c = cb_buf c" "cb_size ?c = cb_size c"
    by (simp_all add: circBufUpdateHead_def)
  have ok': "cb_ok k ?c"
    using ok by (simp add: cb_ok_def hd sel)
  have "unat (circBufCount ?c (cb_tail ?c)) = unat (circBufCount c (cb_tail c)) - unat nbytes"
    using n k(5,6) count_nat [OF ok k(6)] count_nat [OF ok', of "cb_tail c"]
      mod_step [of "unat (cb_head c)" "2 ^ k" "unat nbytes"]
    unfolding sel length_cb_abs word_le_nat_alt hd
    by (simp split: if_splits)
  moreover have "drop (unat nbytes) (cb_abs c) =
      ring (cb_buf c) ((unat (cb_head c) + unat nbytes) mod 2 ^ k) (length (cb_abs c) - unat nbytes)"
    using n by (simp add: cb_abs_def ring_drop k(4))
  ultimately show ?thesis
    using ok' by (simp add: cb_abs_def sel hd length_cb_abs)
qed

text \<open>The one or two copies of get lay the first bytes of the queue over the caller's array.\<close>

lemma get_copy:
  assumes ok: "cb_ok k c" and seen: "seen_tail k c t" and len: "unat nbytes \<le> length data"
    and avail: "nbytes \<le> circBufCount c t"
  shows "(if nbytes \<le> circBufRawCount c t
     then ciaaPOSIX_memcpy data 0 (cb_buf c) (unat (cb_head c)) (unat nbytes)
     else do {
       d \<leftarrow> ciaaPOSIX_memcpy data 0 (cb_buf c) (unat (cb_head c)) (unat (circBufRawCount c t));
       ciaaPOSIX_memcpy d (unat (circBufRawCount c t)) (cb_buf c) 0
         (unat (nbytes - circBufRawCount c t)) }) =
    Some (blit data 0 (take (unat nbytes) (cb_abs c)))"
proof -
  note k = cb_okD [OF ok]
  have t: "unat t < 2 ^ k" using seen by (simp add: seen_tail_def)
  have le: "unat nbytes \<le> length (cb_abs c)"
    using seen avail by (simp add: seen_tail_def length_cb_abs word_le_nat_alt)
  note ct = count_nat [OF ok t] and raw = rawCount_nat [OF ok]
  have cell: "i < unat nbytes \<Longrightarrow> cb_abs c ! i = cb_buf c ! ((unat (cb_head c) + i) mod 2 ^ k)" for i
    using le by (simp add: cb_abs_def length_cb_abs k(4))
  show ?thesis
  proof (cases "nbytes \<le> circBufRawCount c t")
    case True
    then have fit: "unat (cb_head c) + unat nbytes \<le> 2 ^ k"
      using raw [of t] k(5) t by (auto simp: word_le_nat_alt split: if_splits)
    then have "take (unat nbytes) (drop (unat (cb_head c)) (cb_buf c)) = take (unat nbytes) (cb_abs c)"
      using le k(4) by (intro nth_equalityI) (auto simp: cell)
    with True fit len show ?thesis
      using k(4) by (simp add: memcpy_blit)
  next
    case False
    have r: "unat (circBufRawCount c t) = 2 ^ k - unat (cb_head c)"
      using False avail raw [of t] ct by (auto simp: word_le_nat_alt split: if_splits)
    have n: "unat (nbytes - circBufRawCount c t) = unat nbytes - (2 ^ k - unat (cb_head c))"
      using False r by (simp add: unat_sub)
    have small: "unat nbytes \<le> 2 ^ k" and more: "2 ^ k - unat (cb_head c) < unat nbytes"
      using False r avail ct k(5) t by (auto simp: word_le_nat_alt split: if_splits)
    show ?thesis (is "?l = _")
    proof -
      let ?d = "blit data 0 (take (2 ^ k - unat (cb_head c)) (drop (unat (cb_head c)) (cb_buf c)))"
      have "?l = Some (blit ?d (2 ^ k - unat (cb_head c))
          (take (unat nbytes - (2 ^ k - unat (cb_head c))) (cb_buf c)))"
        using False r n len more small k(4,5) by (simp add: memcpy_blit)
      moreover have "blit ?d (2 ^ k - unat (cb_head c))
          (take (unat nbytes - (2 ^ k - unat (cb_head c))) (cb_buf c)) =
        blit data 0 (take (unat nbytes) (cb_abs c))"
        using len more small k(4,5) le
        by (intro nth_equalityI) (auto simp: blit_nth cell mod_if add.commute)
      ultimately show ?thesis by simp
    qed
  qed
qed

lemma get_from_refines:
  assumes ok: "cb_ok k c" and seen: "seen_tail k c t" and len: "unat nbytes \<le> length data"
  shows "\<exists>c'. circBufGet_from c t data nbytes =
      Some (min nbytes (circBufCount c t),
        blit data 0 (take (unat (min nbytes (circBufCount c t))) (cb_abs c)), c') \<and>
    cb_ok k c' \<and> cb_abs c' = drop (unat (min nbytes (circBufCount c t))) (cb_abs c)"
proof -
  let ?n = "min nbytes (circBufCount c t)"
  have m: "(if circBufCount c t < nbytes then circBufCount c t else nbytes) = ?n" by (auto simp: min_def)
  have n: "unat ?n \<le> length data" "?n \<le> circBufCount c t"
    using len by (auto simp: min_def word_le_nat_alt)
  then have le: "unat ?n \<le> length (cb_abs c)"
    using seen by (simp add: seen_tail_def length_cb_abs word_le_nat_alt)
  show ?thesis
  proof (cases "0 < ?n")
    case True
    with get_copy [OF ok seen n] updateHead_ok [OF ok le] show ?thesis
      by (simp add: circBufGet_from_def m Let_def)
  next
    case False
    then have "?n = 0" by (metis word_neq_0_conv)
    with ok show ?thesis by (simp add: circBufGet_from_def m)
  qed
qed

lemma seen_own: "cb_ok k c \<Longrightarrow> seen_head k c (cb_head c)" "cb_ok k c \<Longrightarrow> seen_tail k c (cb_tail c)"
  by (simp_all add: seen_head_def seen_tail_def cb_ok_def)

lemma space_le: "cb_ok k c \<Longrightarrow>
    n \<le> circBufSpace c (cb_head c) \<longleftrightarrow> length (cb_abs c) + unat n \<le> 2 ^ k - 1"
  using space_plus_count [of k c] by (auto simp: word_le_nat_alt length_cb_abs)

section \<open>The byte queue interface\<close>

text \<open>
  What the serial devices rely on: a bounded queue of bytes whose \<open>put\<close> stores a block
  whole or not at all and whose \<open>get\<close> takes from the front. The return values are the
  number of bytes stored and the bytes taken.
\<close>

datatype queue_op = PutOp "uint8 list" | GetOp nat

fun small_op :: "queue_op \<Rightarrow> bool" where
  "small_op (PutOp xs) \<longleftrightarrow> length xs < 2 ^ 32"
| "small_op (GetOp n) \<longleftrightarrow> n < 2 ^ 32"

text \<open>A run of operations collects the bytes accepted and the bytes delivered.\<close>

fun run_queue :: "('q \<Rightarrow> uint8 list \<Rightarrow> (nat \<times> 'q) option) \<Rightarrow> ('q \<Rightarrow> nat \<Rightarrow> (uint8 list \<times> 'q) option) \<Rightarrow>
    queue_op list \<Rightarrow> 'q \<Rightarrow> (uint8 list \<times> uint8 list \<times> 'q) option" where
  "run_queue put get [] q = Some ([], [], q)"
| "run_queue put get (PutOp xs # ops) q = do {
     (n, q') \<leftarrow> put q xs;
     (acc, del, q'') \<leftarrow> run_queue put get ops q';
     Some (take n xs @ acc, del, q'') }"
| "run_queue put get (GetOp n # ops) q = do {
     (ys, q') \<leftarrow> get q n;
     (acc, del, q'') \<leftarrow> run_queue put get ops q';
     Some (acc, ys @ del, q'') }"

locale byte_queue =
  fixes put :: "'q \<Rightarrow> uint8 list \<Rightarrow> (nat \<times> 'q) option"
    and get :: "'q \<Rightarrow> nat \<Rightarrow> (uint8 list \<times> 'q) option"
    and content :: "'q \<Rightarrow> uint8 list"
    and cap :: "'q \<Rightarrow> nat"
    and ok :: "'q \<Rightarrow> bool"
  assumes put_fits: "ok q \<Longrightarrow> length xs < 2 ^ 32 \<Longrightarrow> length (content q) + length xs \<le> cap q \<Longrightarrow>
      \<exists>q'. put q xs = Some (length xs, q') \<and> ok q' \<and> cap q' = cap q \<and> content q' = content q @ xs"
    and put_full: "ok q \<Longrightarrow> length xs < 2 ^ 32 \<Longrightarrow> cap q < length (content q) + length xs \<Longrightarrow>
      put q xs = Some (0, q)"
    and get_front: "ok q \<Longrightarrow> n < 2 ^ 32 \<Longrightarrow>
      \<exists>q'. get q n = Some (take n (content q), q') \<and> ok q' \<and> cap q' = cap q \<and>
        content q' = drop n (content q)"
begin

lemma put_total: "ok q \<Longrightarrow> length xs < 2 ^ 32 \<Longrightarrow>
    \<exists>n q'. put q xs = Some (n, q') \<and> ok q' \<and> cap q' = cap q \<and> content q' = content q @ take n xs"
  using put_fits [of q xs] put_full [of q xs]
  by (cases "length (content q) + length xs \<le> cap q") fastforce+

lemma run_fifo:
  "ok q \<Longrightarrow> list_all small_op ops \<Longrightarrow>
    \<exists>acc del q'. run_queue put get ops q = Some (acc, del, q') \<and> ok q' \<and> cap q' = cap q \<and>
      content q @ acc = del @ content q'"
proof (induction ops arbitrary: q)
  case (Cons a ops)
  show ?case
  proof (cases a)
    case (PutOp xs)
    from Cons.prems PutOp obtain n q' where p: "put q xs = Some (n, q')" "ok q'" "cap q' = cap q"
      "content q' = content q @ take n xs"
      using put_total [of q xs] by auto
    with Cons.IH [of q'] Cons.prems PutOp show ?thesis by auto
  next
    case (GetOp n)
    from Cons.prems GetOp obtain q' where g: "get q n = Some (take n (content q), q')" "ok q'"
      "cap q' = cap q" "content q' = drop n (content q)"
      using get_front [of q n] by auto
    with Cons.IH [of q'] Cons.prems GetOp obtain acc del q'' where
      r: "run_queue put get ops q' = Some (acc, del, q'')" "ok q''" "cap q'' = cap q"
        "drop n (content q) @ acc = del @ content q''"
      by auto
    then have "content q @ acc = (take n (content q) @ del) @ content q''"
      by (metis append.assoc append_take_drop_id)
    with g r GetOp show ?thesis by auto
  qed
qed simp

end

text \<open>The circular buffer behind that interface, called as its clients call it.\<close>

definition cb_put :: "circBuf \<Rightarrow> uint8 list \<Rightarrow> (nat \<times> circBuf) option" where
  "cb_put c xs = map_option (\<lambda>(n, c'). (unat n, c')) (circBufPut c xs (of_nat (length xs)))"

definition cb_get :: "circBuf \<Rightarrow> nat \<Rightarrow> (uint8 list \<times> circBuf) option" where
  "cb_get c n = map_option (\<lambda>(m, d, c'). (take (unat m) d, c'))
     (circBufGet c (replicate n 0) (of_nat n))"

definition cb_cap :: "circBuf \<Rightarrow> nat" where
  "cb_cap c = length (cb_buf c) - 1"

lemma cb_inv_cap: "cb_ok k c \<Longrightarrow> cb_cap c = 2 ^ k - 1"
  by (simp add: cb_cap_def cb_ok_def)

interpretation cb: byte_queue cb_put cb_get cb_abs cb_cap cb_inv
proof unfold_locales
  fix c :: circBuf and xs :: "uint8 list"
  assume c: "cb_inv c" and xs: "length xs < 2 ^ 32"
  then obtain k where ok: "cb_ok k c" by (auto simp: cb_inv_def)
  have u: "unat (of_nat (length xs) :: uint32) = length xs"
    using xs by (rule unat_of_nat32)
  { assume "length (cb_abs c) + length xs \<le> cb_cap c"
    then have "of_nat (length xs) \<le> circBufSpace c (cb_head c)"
      using space_le [OF ok] cb_inv_cap [OF ok] u by simp
    from put_from_refines [OF ok seen_own(1) [OF ok] _ this, of xs] u ok
    show "\<exists>c'. cb_put c xs = Some (length xs, c') \<and> cb_inv c' \<and> cb_cap c' = cb_cap c \<and>
        cb_abs c' = cb_abs c @ xs"
      by (auto simp: cb_put_def circBufPut_def cb_inv_cap intro: cb_invI) }
  { assume "cb_cap c < length (cb_abs c) + length xs"
    then have "\<not> of_nat (length xs) \<le> circBufSpace c (cb_head c)"
      using space_le [OF ok] cb_inv_cap [OF ok] u by simp
    then show "cb_put c xs = Some (0, c)"
      by (simp add: cb_put_def circBufPut_def put_from_rejects) }
next
  fix c :: circBuf and n :: nat
  assume c: "cb_inv c" and n: "n < 2 ^ 32"
  then obtain k where ok: "cb_ok k c" by (auto simp: cb_inv_def)
  have u: "unat (of_nat n :: uint32) = n" using n by (rule unat_of_nat32)
  then have m: "unat (min (of_nat n) (circBufCount c (cb_tail c))) = min n (length (cb_abs c))"
    by (simp add: length_cb_abs min_def word_le_nat_alt)
  from get_from_refines [OF ok seen_own(2) [OF ok], of "of_nat n" "replicate n 0"] u ok m
  show "\<exists>c'. cb_get c n = Some (take n (cb_abs c), c') \<and> cb_inv c' \<and> cb_cap c' = cb_cap c \<and>
      cb_abs c' = drop n (cb_abs c)"
    by (auto simp: cb_get_def circBufGet_def cb_inv_cap blit_def min_def intro: cb_invI)
qed

section \<open>Properties\<close>

lemma isPowerOfTwo_iff: "ciaaLibs_isPowerOfTwo w \<longleftrightarrow> (\<exists>k<32. w = 2 ^ k)"
  unfolding ciaaLibs_isPowerOfTwo_def
proof
  assume w: "w \<noteq> 0 \<and> w AND (w - 1) = 0"
  then have "unat w AND (unat w - 1) = 0" 
    by (metis (no_types, lifting) unat_minus_one unsigned_0 unsigned_and_eq)
  moreover have "0 < unat w" using w by (simp add: unat_gt_0)
  ultimately obtain k where k: "unat w = 2 ^ k" using and_pred_pow2_nat by blast
  have "unat w < 2 ^ LENGTH(32)" by (rule unsigned_less)
  with k have "(2::nat) ^ k < 2 ^ 32" by simp
  then have "k < 32" by (simp only: power_strict_increasing_iff)
  moreover have "w = of_nat (2 ^ k)" by (simp flip: k)
  then have "w = 2 ^ k" by simp
  ultimately show "\<exists>k<32. w = 2 ^ k" by blast
next
  assume "\<exists>k<32. w = 2 ^ k"
  then obtain k where k: "k < 32" "w = 2 ^ k" by blast
  have "w AND (w - 1) = take_bit k w" by (simp add: k take_bit_eq_mask mask_eq_exp_minus_1)
  also have "\<dots> = 0" by (rule bit_eqI) (auto simp: k bit_simps)
  finally have "w AND (w - 1) = 0" .
  moreover have "w \<noteq> 0" using k by simp
  ultimately show "w \<noteq> 0 \<and> w AND (w - 1) = 0" by blast
qed

text \<open>\<open>ciaaLibs_circBufInit\<close> accepts a buffer exactly when the pointer is not null and the size
  is a power of two of at least 8. An accepted array of that size becomes an empty queue with
  room for all but one of its bytes; otherwise the structure is left alone.\<close>

lemma circBufInit_correct:
  assumes "length bytes = unat n"
  shows "circBufInit c None n = (-1, c) \<and>
    (if \<exists>k. 3 \<le> k \<and> k < 32 \<and> n = 2 ^ k
     then fst (circBufInit c (Some bytes) n) = 1 \<and> cb_inv (snd (circBufInit c (Some bytes) n)) \<and>
       cb_abs (snd (circBufInit c (Some bytes) n)) = [] \<and>
       cb_cap (snd (circBufInit c (Some bytes) n)) = unat n - 1
     else circBufInit c (Some bytes) n = (-1, c))"
proof -
  have big: "7 < (2 ^ k :: uint32) \<longleftrightarrow> 3 \<le> k" if "k < 32" for k
  proof -
    have "7 < (2 ^ k :: uint32) \<longleftrightarrow> (2::nat) ^ 3 \<le> 2 ^ k"
      using that by (auto simp: word_less_nat_alt unat_pow2)
    also have "\<dots> \<longleftrightarrow> 3 \<le> k" by (rule power_increasing_iff) simp
    finally show ?thesis .
  qed
  then have cond: "7 < n \<and> ciaaLibs_isPowerOfTwo n \<longleftrightarrow> (\<exists>k. 3 \<le> k \<and> k < 32 \<and> n = 2 ^ k)"
    by (auto simp: isPowerOfTwo_iff)
  show ?thesis
  proof (cases "\<exists>k. 3 \<le> k \<and> k < 32 \<and> n = 2 ^ k")
    case True
    then obtain k where k: "3 \<le> k" "k < 32" "n = 2 ^ k" by blast
    have acc: "circBufInit c (Some bytes) n =
        (1, c\<lparr>cb_size := n - 1, cb_head := 0, cb_tail := 0, cb_buf := bytes\<rparr>)"
      using True cond by (simp add: circBufInit_def)
    have ok: "cb_ok k (snd (circBufInit c (Some bytes) n))"
      using assms k unfolding acc by (simp add: cb_ok_def mask_eq_exp_minus_1 unat_pow2)
    then show ?thesis
      using True assms cb_invI [OF ok] unfolding acc
      by (auto simp: circBufInit_def cb_abs_def circBufCount_def cb_cap_def)
  next
    case False
    with cond show ?thesis by (auto simp: circBufInit_def)
  qed
qed

definition cb_blank :: circBuf where
  "cb_blank = \<lparr>cb_head = 5, cb_tail = 9, cb_size = 0, cb_buf = []\<rparr>"

text \<open>\<open>ciaaLibs_circBufPut\<close> stores a block of bytes whole behind the bytes already stored when
  it fits, and returns its length; otherwise it stores nothing and returns 0. In both cases
  it stays inside both arrays and keeps the buffer well formed, also when the block wraps
  around the end of the array.\<close>

lemma circBufPut_correct:
  assumes "cb_ok k c" and "unat nbytes \<le> length data"
  shows "\<exists>c'. circBufPut c data nbytes =
      Some (if length (cb_abs c) + unat nbytes \<le> 2 ^ k - 1 then nbytes else 0, c') \<and> cb_ok k c' \<and>
    cb_abs c' = cb_abs c @
      (if length (cb_abs c) + unat nbytes \<le> 2 ^ k - 1 then take (unat nbytes) data else [])"
  using put_from_refines [OF assms(1) seen_own(1) [OF assms(1)] assms(2)]
    space_le [OF assms(1)] put_from_rejects assms(1)
  by (cases "nbytes \<le> circBufSpace c (cb_head c)") (auto simp: circBufPut_def)

text \<open>An 8-byte buffer whose head and tail stand at 6, so that a block of three bytes wraps.\<close>

definition cb_sample :: circBuf where
  "cb_sample = \<lparr>cb_head = 6, cb_tail = 6, cb_size = 7, cb_buf = replicate 8 0\<rparr>"

lemma cb_sample_ok: "cb_ok 3 cb_sample"
  by (simp add: cb_ok_def cb_sample_def mask_eq_exp_minus_1)

lemma cb_sample_abs: "cb_abs cb_sample = []"
  by (simp add: cb_abs_def cb_sample_def circBufCount_def)

text \<open>\<open>ciaaLibs_circBufGet\<close> delivers the oldest bytes, as many as asked for or as many as there
  are, at the front of the caller's array, leaves the rest of that array alone and removes
  exactly the delivered bytes from the queue.\<close>

lemma circBufGet_correct:
  assumes "cb_ok k c" and "unat nbytes \<le> length data"
  shows "\<exists>c' n. circBufGet c data nbytes =
      Some (n, take (unat n) (cb_abs c) @ drop (unat n) data, c') \<and>
    unat n = min (unat nbytes) (length (cb_abs c)) \<and> cb_ok k c' \<and>
    cb_abs c' = drop (unat n) (cb_abs c)"
proof -
  let ?n = "min nbytes (circBufCount c (cb_tail c))"
  have "unat ?n = min (unat nbytes) (length (cb_abs c))"
    by (simp add: length_cb_abs min_def word_le_nat_alt)
  with get_from_refines [OF assms(1) seen_own(2) [OF assms(1)] assms(2)] show ?thesis
    by (fastforce simp: circBufGet_def blit_def)
qed

definition cb_sample2 :: circBuf where
  "cb_sample2 = \<lparr>cb_head = 6, cb_tail = 1, cb_size = 7, cb_buf = [3, 0, 0, 0, 0, 0, 1, 2]\<rparr>"

lemma cb_sample2_ok: "cb_ok 3 cb_sample2"
  by (simp add: cb_ok_def cb_sample2_def mask_eq_exp_minus_1)

lemma cb_sample2_abs: "cb_abs cb_sample2 = [1, 2, 3]"
  by (simp add: cb_abs_def cb_sample2_def circBufCount_def ring_def upt_rec)

text \<open>C11: over any sequence of puts and gets on a well formed buffer, every call succeeds, and
  the bytes that were stored, in order, are the bytes delivered followed by those still in the
  buffer: nothing is lost, duplicated or reordered.\<close>

theorem circBuf_fifo:
  assumes "cb_inv c" and "list_all small_op ops"
  shows "\<exists>acc del c'. run_queue cb_put cb_get ops c = Some (acc, del, c') \<and> cb_inv c' \<and>
    cb_cap c' = cb_cap c \<and> cb_abs c @ acc = del @ cb_abs c'"
  using assms by (rule cb.run_fifo)

theorem circBuf_fifo_witness:
  "\<exists>acc del c'. run_queue cb_put cb_get [PutOp [1, 2, 3, 4, 5], GetOp 2, PutOp [6, 7, 8], GetOp 9]
      cb_sample2 = Some (acc, del, c') \<and> [1, 2, 3] @ acc = del @ cb_abs c'"
  using circBuf_fifo [OF cb_invI [OF cb_sample2_ok],
      of "[PutOp [1, 2, 3, 4, 5], GetOp 2, PutOp [6, 7, 8], GetOp 9]"]
  by (auto simp: cb_sample2_abs)

end
