(* ===== verification/OsKernel.thy ===== *)
theory OsKernel
  imports CIAA_Prelude
begin

text \<open>
  The scheduler and the task services of FreeOSEK (\<^verbatim>\<open>modules/rtos/src\<close>): the ready lists,
  \<open>GetNextTask\<close>, \<open>Schedule\<close>, \<open>ActivateTask\<close>, \<open>TerminateTask\<close>, \<open>ChainTask\<close> and the task queries,
  on the Cortex-M4 port. The tables the generator writes (\<^verbatim>\<open>gen/src/Os_Internal_Cfg.c.php\<close>) are
  the record \<open>os_cfg\<close>, a parameter of every operation. The branches are those of the
  project's configuration: extended status, no \<open>RES_SCHEDULER\<close>, at least one resource, at
  least one preemptive task.

  A service runs with interrupts locked, so it is one step. A context switch
  (\<^verbatim>\<open>CallTask\<close>, \<^verbatim>\<open>JmpTask\<close>) is an entry of the trace \<open>Switches\<close>. The idle loop of \<open>Schedule\<close>
  ends the step with \<open>RunningTask\<close> still invalid; the loop goes on after the next interrupt.
\<close>

section \<open>Types\<close>

datatype StatusType = E_OK | E_OS_ACCESS | E_OS_CALLEVEL | E_OS_ID | E_OS_LIMIT | E_OS_NOFUNC
  | E_OS_RESOURCE | E_OS_STATE | E_OS_VALUE

datatype TaskStateType = SUSPENDED | READY | RUNNING | WAITING

datatype ContextType = CONTEXT_INVALID | CONTEXT_TASK | CONTEXT_ISR1 | CONTEXT_ISR2
  | CONTEXT_SYS | CONTEXT_DBG

datatype OSServiceId = Id_ActivateTask | Id_TerminateTask | Id_ChainTask | Id_Schedule
  | Id_GetTaskState | Id_GetResource | Id_ReleaseResource | Id_SetEvent | Id_ClearEvent
  | Id_WaitEvent | Id_GetAlarmBase | Id_GetAlarm | Id_SetRelAlarm | Id_SetAbsAlarm | Id_CancelAlarm

text \<open>A null callback pointer is \<open>ALARMCALLBACK None\<close>.\<close>

datatype AlarmActionType = ALARMCALLBACK "nat option" | SETEVENT nat uint32 | ACTIVATETASK nat
  | INCREMENT nat

definition INVALID_TASK :: nat where "INVALID_TASK = 255"

record TaskConstType =
  StaticPriority :: nat
  MaxActivations :: nat
  Extended :: bool
  Preemtive :: bool
  EventsMask :: uint32
  ResourcesMask :: uint32

record TaskVariableType =
  ActualPriority :: nat
  Activations :: nat
  State :: TaskStateType
  Events :: uint32
  EventsWait :: uint32
  Resources :: uint32

record ReadyVarType =
  ListStart :: nat
  ListCount :: nat

record AlarmConstType =
  AlarmCounter :: nat
  AlarmAction :: AlarmActionType

record AlarmVarType =
  AlarmState :: nat
  AlarmTime :: nat
  AlarmCycleTime :: nat

record CounterConstType =
  AlarmRef :: "nat list"
  MaxAllowedValue :: nat
  MinCycle :: nat
  TicksPerBase :: nat

record AutoStartAlarmType =
  AutoMode :: nat
  AutoAlarm :: nat
  AutoTime :: nat
  AutoCycle :: nat

text \<open>The generated tables. \<open>READYLISTS_COUNT\<close> and the other counts are the lengths.\<close>

record os_cfg =
  TasksConst :: "TaskConstType list"
  ListLength :: "nat list"
  ResourcesPriority :: "nat list"
  AlarmsConst :: "AlarmConstType list"
  CountersConst :: "CounterConstType list"
  AutoStart :: "nat list list"
  AutoStartAlarm :: "AutoStartAlarmType list"
  HOOK_ERRORHOOK :: bool

abbreviation TASKS_COUNT :: "os_cfg \<Rightarrow> nat" where "TASKS_COUNT cfg \<equiv> length (TasksConst cfg)"
abbreviation READYLISTS_COUNT :: "os_cfg \<Rightarrow> nat" where "READYLISTS_COUNT cfg \<equiv> length (ListLength cfg)"
abbreviation RESOURCES_COUNT :: "os_cfg \<Rightarrow> nat" where
  "RESOURCES_COUNT cfg \<equiv> length (ResourcesPriority cfg)"
abbreviation ALARMS_COUNT :: "os_cfg \<Rightarrow> nat" where "ALARMS_COUNT cfg \<equiv> length (AlarmsConst cfg)"

text \<open>
  The kernel's variables. \<open>ErrorHooks\<close> records the calls of the user's \<open>ErrorHook\<close> with the
  service, its parameters and its result; \<open>Callbacks\<close> records the alarm callbacks.
\<close>

record os_state =
  TasksVar :: "TaskVariableType list"
  ReadyLists :: "nat list list"
  ReadyVar :: "ReadyVarType list"
  RunningTask :: nat
  ActualContext :: ContextType
  AlarmsVar :: "AlarmVarType list"
  CountersVar :: "nat list"
  ApplicationMode :: nat
  ErrorHookRunning :: nat
  TerminatingTask :: nat
  WaitingTask :: nat
  Switches :: "(nat option \<times> nat) list"
  ErrorHooks :: "(OSServiceId \<times> nat list \<times> StatusType) list"
  Callbacks :: "nat list"

section \<open>Ready lists\<close>

definition upd_task :: "nat \<Rightarrow> (TaskVariableType \<Rightarrow> TaskVariableType) \<Rightarrow> os_state \<Rightarrow> os_state option" where
  "upd_task t f s = do {
     tv \<leftarrow> rd (TasksVar s) t;
     tvs \<leftarrow> wr (TasksVar s) t (f tv);
     Some (s\<lparr>TasksVar := tvs\<rparr>) }"

text \<open>\<open>(READYLISTS_COUNT-1)-priority\<close>, stored in 8 bits.\<close>

definition prio_index :: "os_cfg \<Rightarrow> nat \<Rightarrow> nat" where
  "prio_index cfg priority = (READYLISTS_COUNT cfg + 255 - priority) mod 256"

definition AddReady :: "os_cfg \<Rightarrow> nat \<Rightarrow> os_state \<Rightarrow> os_state option" where
  "AddReady cfg TaskID s = do {
     tc \<leftarrow> rd (TasksConst cfg) TaskID;
     s \<leftarrow> upd_task TaskID (\<lambda>tv. tv\<lparr>ActualPriority := StaticPriority tc\<rparr>) s;
     let priority = prio_index cfg (StaticPriority tc);
     readylist \<leftarrow> rd (ReadyLists s) priority;
     maxtasks \<leftarrow> rd (ListLength cfg) priority;
     rv \<leftarrow> rd (ReadyVar s) priority;
     let position = (ListStart rv + ListCount rv) mod 256;
     let position = (if maxtasks \<le> position then position - maxtasks else position);
     readylist \<leftarrow> wr readylist position TaskID;
     rls \<leftarrow> wr (ReadyLists s) priority readylist;
     rvs \<leftarrow> wr (ReadyVar s) priority (rv\<lparr>ListCount := (ListCount rv + 1) mod 256\<rparr>);
     Some (s\<lparr>ReadyLists := rls, ReadyVar := rvs\<rparr>) }"

definition RemoveTask :: "os_cfg \<Rightarrow> nat \<Rightarrow> os_state \<Rightarrow> os_state option" where
  "RemoveTask cfg TaskID s = do {
     tc \<leftarrow> rd (TasksConst cfg) TaskID;
     let priority = prio_index cfg (StaticPriority tc);
     maxtasks \<leftarrow> rd (ListLength cfg) priority;
     rv \<leftarrow> rd (ReadyVar s) priority;
     let start = (ListStart rv + 1) mod 256;
     let start = (if maxtasks \<le> start then start - maxtasks else start);
     rvs \<leftarrow> wr (ReadyVar s) priority
       (rv\<lparr>ListStart := start, ListCount := (ListCount rv + 255) mod 256\<rparr>);
     Some (s\<lparr>ReadyVar := rvs\<rparr>) }"

text \<open>The first loop of \<open>GetNextTask\<close>: the head of the first ready list that is not empty.\<close>

fun first_ready :: "os_state \<Rightarrow> nat list \<Rightarrow> nat option" where
  "first_ready s [] = Some INVALID_TASK"
| "first_ready s (i # is) = do {
     rv \<leftarrow> rd (ReadyVar s) i;
     if 0 < ListCount rv then do { readylist \<leftarrow> rd (ReadyLists s) i; rd readylist (ListStart rv) }
     else first_ready s is }"

text \<open>The second loop: the task with the highest priority among those that hold a resource.\<close>

fun resource_scan :: "os_state \<Rightarrow> nat list \<Rightarrow> nat \<times> nat \<Rightarrow> (nat \<times> nat) option" where
  "resource_scan s [] (resTask, prio) = Some (resTask, prio)"
| "resource_scan s (t # ts) (resTask, prio) = do {
     tv \<leftarrow> rd (TasksVar s) t;
     if Resources tv \<noteq> 0 \<and> prio < ActualPriority tv
     then resource_scan s ts (t, ActualPriority tv)
     else resource_scan s ts (resTask, prio) }"

definition GetNextTask :: "os_cfg \<Rightarrow> os_state \<Rightarrow> nat option" where
  "GetNextTask cfg s = do {
     ret \<leftarrow> first_ready s [0..<READYLISTS_COUNT cfg];
     (resTask, prio) \<leftarrow> resource_scan s [0..<TASKS_COUNT cfg] (INVALID_TASK, 0);
     if resTask \<noteq> INVALID_TASK then do {
       tv \<leftarrow> rd (TasksVar s) ret;
       Some (if ActualPriority tv \<le> prio then resTask else ret) }
     else Some ret }"

section \<open>Error hook and context switches\<close>

definition SetError :: "os_cfg \<Rightarrow> OSServiceId \<Rightarrow> nat list \<Rightarrow> StatusType \<Rightarrow> os_state \<Rightarrow> os_state" where
  "SetError cfg api params ret s =
     (if HOOK_ERRORHOOK cfg \<and> ret \<noteq> E_OK \<and> ErrorHookRunning s \<noteq> 1
      then s\<lparr>ErrorHooks := ErrorHooks s @ [(api, params, ret)], ErrorHookRunning := 0\<rparr> else s)"

text \<open>
  The pending service call that does the switch first re-initialises the stack of a
  terminated task and forgets it (\<^verbatim>\<open>CheckTerminatingTask_Arch\<close>).
\<close>

definition CallTask :: "nat \<Rightarrow> nat \<Rightarrow> os_state \<Rightarrow> os_state" where
  "CallTask actualtask nexttask s =
     s\<lparr>Switches := Switches s @ [(Some actualtask, nexttask)], TerminatingTask := INVALID_TASK\<rparr>"

definition JmpTask :: "nat \<Rightarrow> os_state \<Rightarrow> os_state" where
  "JmpTask task s =
     s\<lparr>Switches := Switches s @
         [(if WaitingTask s \<noteq> INVALID_TASK then Some (WaitingTask s) else None, task)],
       WaitingTask := INVALID_TASK, TerminatingTask := INVALID_TASK\<rparr>"

definition SetEntryPoint :: "nat \<Rightarrow> os_state \<Rightarrow> os_state" where
  "SetEntryPoint task s = s\<lparr>TerminatingTask := task\<rparr>"

section \<open>Services\<close>

definition sched_check :: "bool \<Rightarrow> os_state \<Rightarrow> StatusType option" where
  "sched_check PerformChecks s =
     (if \<not> PerformChecks then Some E_OK
      else if CONTEXT_TASK \<noteq> ActualContext s \<and> CONTEXT_SYS \<noteq> ActualContext s then Some E_OS_CALLEVEL
      else if INVALID_TASK \<noteq> RunningTask s \<and> CONTEXT_TASK = ActualContext s then do {
        tv \<leftarrow> rd (TasksVar s) (RunningTask s);
        Some (if Resources tv \<noteq> 0 then E_OS_RESOURCE else E_OK) }
      else Some E_OK)"

definition dispatch :: "os_cfg \<Rightarrow> os_state \<Rightarrow> os_state option" where
  "dispatch cfg s = do {
     let actualTask = RunningTask s;
     nextTask \<leftarrow> GetNextTask cfg s;
     if actualTask = INVALID_TASK \<and> nextTask = INVALID_TASK then Some s
     else if actualTask = INVALID_TASK then do {
       s \<leftarrow> upd_task nextTask (\<lambda>tv. tv\<lparr>State := RUNNING\<rparr>) s;
       Some (JmpTask nextTask (s\<lparr>RunningTask := nextTask, ActualContext := CONTEXT_TASK\<rparr>)) }
     else do {
       nc \<leftarrow> rd (TasksConst cfg) nextTask;
       av \<leftarrow> rd (TasksVar s) actualTask;
       if ActualPriority av < StaticPriority nc then do {
         s \<leftarrow> upd_task actualTask (\<lambda>tv. tv\<lparr>State := READY\<rparr>) s;
         s \<leftarrow> upd_task nextTask (\<lambda>tv. tv\<lparr>State := RUNNING\<rparr>) s;
         Some (CallTask actualTask nextTask
           (s\<lparr>RunningTask := nextTask, ActualContext := CONTEXT_TASK\<rparr>)) }
       else Some s } }"

definition Schedule_Int :: "os_cfg \<Rightarrow> bool \<Rightarrow> os_state \<Rightarrow> (StatusType \<times> os_state) option" where
  "Schedule_Int cfg PerformChecks s = do {
     ret \<leftarrow> sched_check PerformChecks s;
     s \<leftarrow> (if ret = E_OK then dispatch cfg s else Some s);
     Some (ret, SetError cfg Id_Schedule [] ret s) }"

abbreviation Schedule :: "os_cfg \<Rightarrow> os_state \<Rightarrow> (StatusType \<times> os_state) option" where
  "Schedule cfg \<equiv> Schedule_Int cfg True"

abbreviation Schedule_WOChecks :: "os_cfg \<Rightarrow> os_state \<Rightarrow> (StatusType \<times> os_state) option" where
  "Schedule_WOChecks cfg \<equiv> Schedule_Int cfg False"

text \<open>The part of \<open>ActivateTask\<close> that runs with interrupts locked.\<close>

definition activate :: "os_cfg \<Rightarrow> nat \<Rightarrow> os_state \<Rightarrow> (StatusType \<times> os_state) option" where
  "activate cfg TaskID s = do {
     tv \<leftarrow> rd (TasksVar s) TaskID;
     tc \<leftarrow> rd (TasksConst cfg) TaskID;
     if State tv = SUSPENDED then do {
       s \<leftarrow> upd_task TaskID (\<lambda>tv. tv\<lparr>Activations := (Activations tv + 1) mod 256, State := READY,
              Events := 0\<rparr>) s;
       s \<leftarrow> AddReady cfg TaskID s;
       Some (E_OK, s) }
     else if Extended tc then Some (E_OS_LIMIT, s)
     else if Activations tv < MaxActivations tc then do {
       s \<leftarrow> upd_task TaskID (\<lambda>tv. tv\<lparr>Activations := (Activations tv + 1) mod 256\<rparr>) s;
       s \<leftarrow> AddReady cfg TaskID s;
       Some (E_OK, s) }
     else Some (E_OS_LIMIT, s) }"

definition ActivateTask :: "os_cfg \<Rightarrow> nat \<Rightarrow> os_state \<Rightarrow> (StatusType \<times> os_state) option" where
  "ActivateTask cfg TaskID s = do {
     (ret, s) \<leftarrow> (if TASKS_COUNT cfg \<le> TaskID then Some (E_OS_ID, s)
       else do {
         (ret, s) \<leftarrow> activate cfg TaskID s;
         if ActualContext s = CONTEXT_TASK then do {
           rc \<leftarrow> rd (TasksConst cfg) (RunningTask s);
           if Preemtive rc \<and> ret = E_OK then do {
             (_, s) \<leftarrow> Schedule cfg (s\<lparr>ActualContext := CONTEXT_SYS\<rparr>);
             Some (ret, s\<lparr>ActualContext := CONTEXT_TASK\<rparr>) }
           else Some (ret, s) }
         else Some (ret, s) });
     Some (ret, SetError cfg Id_ActivateTask [TaskID] ret s) }"

text \<open>What \<open>TerminateTask\<close> and \<open>ChainTask\<close> do to the calling task before they reschedule.\<close>

definition end_running :: "os_cfg \<Rightarrow> os_state \<Rightarrow> os_state option" where
  "end_running cfg s = do {
     let r = RunningTask s;
     s \<leftarrow> upd_task r (\<lambda>tv. tv\<lparr>Activations := (Activations tv + 255) mod 256\<rparr>) s;
     s \<leftarrow> upd_task r (\<lambda>tv. tv\<lparr>State := (if Activations tv = 0 then SUSPENDED else READY)\<rparr>) s;
     s \<leftarrow> RemoveTask cfg r (SetEntryPoint r s);
     Some (s\<lparr>RunningTask := INVALID_TASK, ActualContext := CONTEXT_SYS\<rparr>) }"

definition TerminateTask :: "os_cfg \<Rightarrow> os_state \<Rightarrow> (StatusType \<times> os_state) option" where
  "TerminateTask cfg s = do {
     ret \<leftarrow> (if ActualContext s \<noteq> CONTEXT_TASK then Some E_OS_CALLEVEL
       else do {
         tv \<leftarrow> rd (TasksVar s) (RunningTask s);
         Some (if Resources tv \<noteq> 0 then E_OS_RESOURCE else E_OK) });
     s \<leftarrow> (if ret = E_OK then do {
         s \<leftarrow> end_running cfg s;
         (_, s) \<leftarrow> Schedule cfg s;
         Some s }
       else Some s);
     Some (ret, SetError cfg Id_TerminateTask [] ret s) }"

definition ChainTask :: "os_cfg \<Rightarrow> nat \<Rightarrow> os_state \<Rightarrow> (StatusType \<times> os_state) option" where
  "ChainTask cfg taskid s = do {
     ret \<leftarrow> (if TASKS_COUNT cfg \<le> taskid then Some E_OS_ID
       else if ActualContext s \<noteq> CONTEXT_TASK then Some E_OS_CALLEVEL
       else do {
         rv \<leftarrow> rd (TasksVar s) (RunningTask s);
         if Resources rv \<noteq> 0 then Some E_OS_RESOURCE
         else do {
           tv \<leftarrow> rd (TasksVar s) taskid;
           tc \<leftarrow> rd (TasksConst cfg) taskid;
           Some (if MaxActivations tc < Activations tv + 1 \<and> taskid \<noteq> RunningTask s
                 then E_OS_LIMIT else E_OK) } });
     s \<leftarrow> (if ret = E_OK then do {
         s \<leftarrow> end_running cfg s;
         s \<leftarrow> upd_task taskid (\<lambda>tv. tv\<lparr>Activations := (Activations tv + 1) mod 256\<rparr>) s;
         s \<leftarrow> AddReady cfg taskid s;
         s \<leftarrow> upd_task taskid (\<lambda>tv. if State tv = SUSPENDED then tv\<lparr>Events := 0\<rparr> else tv) s;
         (_, s) \<leftarrow> Schedule cfg s;
         Some s }
       else Some s);
     Some (ret, SetError cfg Id_ChainTask [taskid] ret s) }"

definition GetTaskID :: "os_state \<Rightarrow> StatusType \<times> nat" where
  "GetTaskID s = (E_OK, RunningTask s)"

text \<open>The invalid state the service reports for an invalid task is \<open>None\<close>.\<close>

definition GetTaskState ::
    "os_cfg \<Rightarrow> nat \<Rightarrow> os_state \<Rightarrow> (StatusType \<times> TaskStateType option \<times> os_state) option" where
  "GetTaskState cfg TaskID s =
     (if TASKS_COUNT cfg \<le> TaskID
      then Some (E_OS_ID, None, SetError cfg Id_GetTaskState [TaskID] E_OS_ID s)
      else do {
        tv \<leftarrow> rd (TasksVar s) TaskID;
        Some (E_OK, Some (State tv), s) })"

definition GetActiveApplicationMode :: "os_state \<Rightarrow> nat" where
  "GetActiveApplicationMode s = ApplicationMode s"

end
