(* ===== verification/OsServices.thy ===== *)
theory OsServices
  imports OsKernel
begin

text \<open>
  The event and resource services of FreeOSEK: \<^verbatim>\<open>SetEvent.c\<close>, \<^verbatim>\<open>ClearEvent.c\<close>, \<^verbatim>\<open>GetEvent.c\<close>,
  \<^verbatim>\<open>WaitEvent.c\<close>, \<^verbatim>\<open>GetResource.c\<close> and \<^verbatim>\<open>ReleaseResource.c\<close>. Event masks and the set of
  occupied resources are 32-bit words, as in the code.
\<close>

section \<open>Events\<close>

definition SetEvent :: "os_cfg \<Rightarrow> nat \<Rightarrow> uint32 \<Rightarrow> os_state \<Rightarrow> (StatusType \<times> os_state) option" where
  "SetEvent cfg TaskID Mask s = do {
     (ret, s) \<leftarrow> (if TASKS_COUNT cfg \<le> TaskID then Some (E_OS_ID, s)
       else do {
         tc \<leftarrow> rd (TasksConst cfg) TaskID;
         tv \<leftarrow> rd (TasksVar s) TaskID;
         if \<not> Extended tc then Some (E_OS_ACCESS, s)
         else if State tv = SUSPENDED then Some (E_OS_STATE, s)
         else do {
           s \<leftarrow> upd_task TaskID (\<lambda>tv. tv\<lparr>Events := Events tv OR (Mask AND EventsMask tc)\<rparr>) s;
           tv \<leftarrow> rd (TasksVar s) TaskID;
           if State tv = WAITING \<and> EventsWait tv AND Events tv \<noteq> 0 then do {
             s \<leftarrow> AddReady cfg TaskID s;
             s \<leftarrow> upd_task TaskID (\<lambda>tv. tv\<lparr>State := READY\<rparr>) s;
             if ActualContext s = CONTEXT_TASK then do {
               rc \<leftarrow> rd (TasksConst cfg) (RunningTask s);
               if Preemtive rc then do { (_, s) \<leftarrow> Schedule cfg s; Some (E_OK, s) }
               else Some (E_OK, s) }
             else Some (E_OK, s) }
           else Some (E_OK, s) } });
     Some (ret, SetError cfg Id_SetEvent [TaskID, unat Mask] ret s) }"

definition ClearEvent :: "os_cfg \<Rightarrow> uint32 \<Rightarrow> os_state \<Rightarrow> (StatusType \<times> os_state) option" where
  "ClearEvent cfg Mask s = do {
     (ret, s) \<leftarrow> (if ActualContext s \<noteq> CONTEXT_TASK then Some (E_OS_CALLEVEL, s)
       else do {
         rc \<leftarrow> rd (TasksConst cfg) (RunningTask s);
         if \<not> Extended rc then Some (E_OS_ACCESS, s)
         else do {
           s \<leftarrow> upd_task (RunningTask s)
             (\<lambda>tv. tv\<lparr>Events := Events tv AND NOT (Mask AND EventsMask rc)\<rparr>) s;
           Some (E_OK, s) } });
     Some (ret, SetError cfg Id_ClearEvent [unat Mask] ret s) }"

text \<open>\<open>GetEvent\<close> reports its errors under the service id of \<open>SetEvent\<close>, as the source does.\<close>

definition GetEvent :: "os_cfg \<Rightarrow> nat \<Rightarrow> os_state \<Rightarrow> (StatusType \<times> uint32 option \<times> os_state) option" where
  "GetEvent cfg TaskID s =
     (if TASKS_COUNT cfg \<le> TaskID
      then Some (E_OS_ID, None, SetError cfg Id_SetEvent [TaskID] E_OS_ID s)
      else do {
        tc \<leftarrow> rd (TasksConst cfg) TaskID;
        tv \<leftarrow> rd (TasksVar s) TaskID;
        if \<not> Extended tc then Some (E_OS_ACCESS, None, SetError cfg Id_SetEvent [TaskID] E_OS_ACCESS s)
        else if State tv = SUSPENDED
        then Some (E_OS_STATE, None, SetError cfg Id_SetEvent [TaskID] E_OS_STATE s)
        else Some (E_OK, Some (Events tv), s) })"

text \<open>
  The Cortex-M4 \<^verbatim>\<open>SaveContext\<close> takes the task out of its ready list, leaves the task context
  and reschedules; the code after it runs when the task is resumed.
\<close>

definition SaveContext :: "os_cfg \<Rightarrow> os_state \<Rightarrow> os_state option" where
  "SaveContext cfg s = do {
     tv \<leftarrow> rd (TasksVar s) (RunningTask s);
     let s = (if State tv = WAITING then s\<lparr>WaitingTask := RunningTask s\<rparr> else s);
     s \<leftarrow> RemoveTask cfg (RunningTask s) s;
     (_, s) \<leftarrow> Schedule cfg (s\<lparr>ActualContext := CONTEXT_SYS, RunningTask := INVALID_TASK\<rparr>);
     Some s }"

definition WaitEvent :: "os_cfg \<Rightarrow> uint32 \<Rightarrow> os_state \<Rightarrow> (StatusType \<times> os_state) option" where
  "WaitEvent cfg Mask s = do {
     (ret, s) \<leftarrow> (if ActualContext s \<noteq> CONTEXT_TASK then Some (E_OS_CALLEVEL, s)
       else do {
         rc \<leftarrow> rd (TasksConst cfg) (RunningTask s);
         rv \<leftarrow> rd (TasksVar s) (RunningTask s);
         if \<not> Extended rc then Some (E_OS_ACCESS, s)
         else if Resources rv \<noteq> 0 then Some (E_OS_RESOURCE, s)
         else if Mask AND Events rv \<noteq> 0 then Some (E_OK, s)
         else do {
           s \<leftarrow> upd_task (RunningTask s) (\<lambda>tv. tv\<lparr>State := WAITING, EventsWait := Mask\<rparr>) s;
           s \<leftarrow> SaveContext cfg s;
           Some (E_OK, s) } });
     Some (ret, SetError cfg Id_WaitEvent [unat Mask] ret s) }"

section \<open>Resources\<close>

definition res_bit :: "nat \<Rightarrow> uint32" where
  "res_bit ResID = push_bit ResID 1"

definition GetResource :: "os_cfg \<Rightarrow> nat \<Rightarrow> os_state \<Rightarrow> (StatusType \<times> os_state) option" where
  "GetResource cfg ResID s = do {
     ret \<leftarrow> (if RESOURCES_COUNT cfg \<le> ResID then Some E_OS_ID
       else do {
         rv \<leftarrow> rd (TasksVar s) (RunningTask s);
         rc \<leftarrow> rd (TasksConst cfg) (RunningTask s);
         Some (if Resources rv AND res_bit ResID \<noteq> 0 \<or> ResourcesMask rc AND res_bit ResID = 0
               then E_OS_ACCESS else E_OK) });
     if ret = E_OK then do {
       rp \<leftarrow> rd (ResourcesPriority cfg) ResID;
       s \<leftarrow> upd_task (RunningTask s) (\<lambda>tv.
              if ActualPriority tv < rp then tv\<lparr>ActualPriority := rp\<rparr> else tv) s;
       s \<leftarrow> upd_task (RunningTask s) (\<lambda>tv. tv\<lparr>Resources := Resources tv OR res_bit ResID\<rparr>) s;
       Some (ret, s) }
     else Some (ret, SetError cfg Id_GetResource [ResID] ret s) }"

text \<open>The loop over the resources: the highest ceiling among those still occupied.\<close>

fun held_ceiling :: "os_cfg \<Rightarrow> uint32 \<Rightarrow> nat list \<Rightarrow> nat \<Rightarrow> nat option" where
  "held_ceiling cfg res [] priority = Some priority"
| "held_ceiling cfg res (i # is) priority = do {
     if res AND res_bit i \<noteq> 0 then do {
       rp \<leftarrow> rd (ResourcesPriority cfg) i;
       held_ceiling cfg res is (if priority < rp then rp else priority) }
     else held_ceiling cfg res is priority }"

definition ReleaseResource :: "os_cfg \<Rightarrow> nat \<Rightarrow> os_state \<Rightarrow> (StatusType \<times> os_state) option" where
  "ReleaseResource cfg ResID s = do {
     rc \<leftarrow> rd (TasksConst cfg) (RunningTask s);
     ret \<leftarrow> (if RESOURCES_COUNT cfg \<le> ResID then Some E_OS_ID
       else do {
         rv \<leftarrow> rd (TasksVar s) (RunningTask s);
         Some (if Resources rv AND res_bit ResID = 0 then E_OS_NOFUNC else E_OK) });
     s \<leftarrow> (if ret = E_OK then do {
         s \<leftarrow> upd_task (RunningTask s) (\<lambda>tv. tv\<lparr>Resources := Resources tv AND NOT (res_bit ResID)\<rparr>) s;
         rv \<leftarrow> rd (TasksVar s) (RunningTask s);
         priority \<leftarrow> held_ceiling cfg (Resources rv) [0..<RESOURCES_COUNT cfg] (StaticPriority rc);
         s \<leftarrow> upd_task (RunningTask s) (\<lambda>tv. tv\<lparr>ActualPriority := priority\<rparr>) s;
         if ActualContext s = CONTEXT_TASK \<and> Preemtive rc
         then do { (_, s) \<leftarrow> Schedule cfg s; Some s }
         else Some s }
       else Some s);
     Some (ret, SetError cfg Id_ReleaseResource [ResID] ret s) }"

end
