(* ===== verification/OsAlarms.thy ===== *)
theory OsAlarms
  imports OsServices
begin

text \<open>
  Alarms and counters of FreeOSEK: \<open>IncrementAlarm\<close> and \<open>IncrementCounter\<close> of
  \<^verbatim>\<open>Os_Internal.c\<close>, the alarm services, the tick handler of the Cortex-M4 port and \<open>StartOS\<close>.
  Times are 32-bit: every addition wraps.
\<close>

section \<open>Counters\<close>

text \<open>
  \<^verbatim>\<open>while (Time >= MaxAllowedValue) Time -= MaxAllowedValue\<close> and
  \<^verbatim>\<open>while (AlarmTime <= Increment) AlarmTime += AlarmCycleTime\<close>. Both loops may run forever
  (a zero maximum; a sum that wraps before it passes the increment), which is \<open>None\<close>.
\<close>

partial_function (option) counter_wrap :: "nat \<Rightarrow> nat \<Rightarrow> nat option" where
  "counter_wrap maxval time = (if maxval \<le> time then counter_wrap maxval (time - maxval) else Some time)"

partial_function (option) alarm_catchup :: "nat \<Rightarrow> nat \<Rightarrow> nat \<Rightarrow> nat \<Rightarrow> (nat \<times> nat) option" where
  "alarm_catchup cycle increment time count =
     (if time \<le> increment
      then alarm_catchup cycle increment ((time + cycle) mod 2 ^ 32) ((count + 1) mod 2 ^ 32)
      else Some (time, count))"

definition upd_alarm :: "nat \<Rightarrow> (AlarmVarType \<Rightarrow> AlarmVarType) \<Rightarrow> os_state \<Rightarrow> os_state option" where
  "upd_alarm a f s = do {
     av \<leftarrow> rd (AlarmsVar s) a;
     avs \<leftarrow> wr (AlarmsVar s) a (f av);
     Some (s\<lparr>AlarmsVar := avs\<rparr>) }"

text \<open>The action of an alarm, once per expiration (the loop and switch of \<open>IncrementAlarm\<close>).\<close>

fun alarm_actions :: "os_cfg \<Rightarrow> AlarmActionType \<Rightarrow> nat \<Rightarrow> os_state \<Rightarrow> os_state option" where
  "alarm_actions cfg act 0 s = Some s"
| "alarm_actions cfg act (Suc n) s = do {
     s \<leftarrow> (case act of
         ACTIVATETASK t \<Rightarrow> do { (_, s) \<leftarrow> ActivateTask cfg t s; Some s }
       | ALARMCALLBACK cb \<Rightarrow> Some (case cb of None \<Rightarrow> s | Some f \<Rightarrow> s\<lparr>Callbacks := Callbacks s @ [f]\<rparr>)
       | SETEVENT t e \<Rightarrow> do { (_, s) \<leftarrow> SetEvent cfg t e s; Some s }
       | INCREMENT c \<Rightarrow> Some s);
     alarm_actions cfg act n s }"

text \<open>
  What \<open>IncrementAlarm\<close> does to the alarm itself: the rest of the increments and, when the
  alarm expired, how many times.
\<close>

definition alarm_advance :: "nat \<Rightarrow> nat \<Rightarrow> os_state \<Rightarrow> (nat \<times> nat option \<times> os_state) option" where
  "alarm_advance AlarmID Increment s = do {
     av \<leftarrow> rd (AlarmsVar s) AlarmID;
     if Increment < AlarmTime av then do {
       s \<leftarrow> upd_alarm AlarmID (\<lambda>av. av\<lparr>AlarmTime := AlarmTime av - Increment\<rparr>) s;
       Some (AlarmTime av - Increment, None, s) }
     else if AlarmCycleTime av = 0 then do {
       s \<leftarrow> upd_alarm AlarmID (\<lambda>av. av\<lparr>AlarmTime := 0, AlarmState := 0\<rparr>) s;
       Some (0, Some 1, s) }
     else do {
       (time, count) \<leftarrow> alarm_catchup (AlarmCycleTime av) Increment (AlarmTime av) 0;
       s \<leftarrow> upd_alarm AlarmID (\<lambda>av. av\<lparr>AlarmTime := time - Increment\<rparr>) s;
       Some (time - Increment, Some count, s) } }"

text \<open>
  \<open>IncrementAlarm\<close> and \<open>IncrementCounter\<close> call each other: an alarm may increment another
  counter. The fuel bounds the depth of that nesting; \<open>None\<close> means it was too little.
  \<open>alarms_of\<close> is the loop of \<open>IncrementCounter\<close> over the alarms of a counter.
\<close>

fun IncrementAlarm :: "os_cfg \<Rightarrow> nat \<Rightarrow> nat \<Rightarrow> nat \<Rightarrow> os_state \<Rightarrow> (nat \<times> os_state) option"
  and alarms_of :: "os_cfg \<Rightarrow> nat \<Rightarrow> nat list \<Rightarrow> nat \<Rightarrow> nat \<Rightarrow> os_state \<Rightarrow> (nat \<times> os_state) option"
  and IncrementCounter :: "os_cfg \<Rightarrow> nat \<Rightarrow> nat \<Rightarrow> nat \<Rightarrow> os_state \<Rightarrow> (nat \<times> os_state) option" where
  "IncrementAlarm cfg fuel AlarmID Increment s = do {
     (rest, expired, s) \<leftarrow> alarm_advance AlarmID Increment s;
     case expired of
       None \<Rightarrow> Some (rest, s)
     | Some count \<Rightarrow> do {
         ac \<leftarrow> rd (AlarmsConst cfg) AlarmID;
         case AlarmAction ac of
           INCREMENT c \<Rightarrow> do {
             (inc, s) \<leftarrow> IncrementCounter cfg fuel c count s;
             av \<leftarrow> rd (AlarmsVar s) AlarmID;
             Some ((rest + AlarmCycleTime av * ((inc + 2 ^ 32 - 1) mod 2 ^ 32)) mod 2 ^ 32, s) }
         | _ \<Rightarrow> do {
             s \<leftarrow> alarm_actions cfg (AlarmAction ac) count s;
             Some (rest, s) } } }"
| "alarms_of cfg fuel [] Increment MinimalCount s = Some (MinimalCount, s)"
| "alarms_of cfg fuel (a # as) Increment MinimalCount s = do {
     av \<leftarrow> rd (AlarmsVar s) a;
     if AlarmState av = 1 then do {
       (tmp, s) \<leftarrow> IncrementAlarm cfg fuel a Increment s;
       alarms_of cfg fuel as Increment (if tmp < MinimalCount then tmp else MinimalCount) s }
     else alarms_of cfg fuel as Increment MinimalCount s }"
| "IncrementCounter cfg 0 CounterID Increment s = None"
| "IncrementCounter cfg (Suc fuel) CounterID Increment s = do {
     cc \<leftarrow> rd (CountersConst cfg) CounterID;
     time \<leftarrow> rd (CountersVar s) CounterID;
     time \<leftarrow> counter_wrap (MaxAllowedValue cc) ((time + Increment) mod 2 ^ 32);
     cvs \<leftarrow> wr (CountersVar s) CounterID time;
     alarms_of cfg fuel (AlarmRef cc) Increment (2 ^ 32 - 1) (s\<lparr>CountersVar := cvs\<rparr>) }"

section \<open>Alarm services\<close>

definition bad_times :: "os_cfg \<Rightarrow> nat \<Rightarrow> nat \<Rightarrow> nat \<Rightarrow> bool option" where
  "bad_times cfg AlarmID start Cycle = do {
     ac \<leftarrow> rd (AlarmsConst cfg) AlarmID;
     cc \<leftarrow> rd (CountersConst cfg) (AlarmCounter ac);
     Some (MaxAllowedValue cc < start \<or>
       (Cycle \<noteq> 0 \<and> (MaxAllowedValue cc < Cycle \<or> Cycle < MinCycle cc))) }"

definition SetRelAlarm ::
    "os_cfg \<Rightarrow> nat \<Rightarrow> nat \<Rightarrow> nat \<Rightarrow> os_state \<Rightarrow> (StatusType \<times> os_state) option" where
  "SetRelAlarm cfg AlarmID Increment Cycle s = do {
     (ret, s) \<leftarrow> (if ALARMS_COUNT cfg \<le> AlarmID then Some (E_OS_ID, s)
       else do {
         bad \<leftarrow> bad_times cfg AlarmID Increment Cycle;
         av \<leftarrow> rd (AlarmsVar s) AlarmID;
         if bad then Some (E_OS_VALUE, s)
         else if AlarmState av \<noteq> 0 then Some (E_OS_STATE, s)
         else do {
           s \<leftarrow> upd_alarm AlarmID
             (\<lambda>av. av\<lparr>AlarmState := 1, AlarmTime := Increment, AlarmCycleTime := Cycle\<rparr>) s;
           Some (E_OK, s) } });
     Some (ret, SetError cfg Id_SetRelAlarm [AlarmID, Increment, Cycle] ret s) }"

definition SetAbsAlarm ::
    "os_cfg \<Rightarrow> nat \<Rightarrow> nat \<Rightarrow> nat \<Rightarrow> os_state \<Rightarrow> (StatusType \<times> os_state) option" where
  "SetAbsAlarm cfg AlarmID Start Cycle s = do {
     (ret, s) \<leftarrow> (if ALARMS_COUNT cfg \<le> AlarmID then Some (E_OS_ID, s)
       else do {
         bad \<leftarrow> bad_times cfg AlarmID Start Cycle;
         av \<leftarrow> rd (AlarmsVar s) AlarmID;
         if bad then Some (E_OS_VALUE, s)
         else if AlarmState av \<noteq> 0 then Some (E_OS_STATE, s)
         else do {
           ac \<leftarrow> rd (AlarmsConst cfg) AlarmID;
           now \<leftarrow> rd (CountersVar s) (AlarmCounter ac);
           s \<leftarrow> upd_alarm AlarmID (\<lambda>av. av\<lparr>AlarmState := 1,
             AlarmTime := (now + Start) mod 2 ^ 32, AlarmCycleTime := Cycle\<rparr>) s;
           Some (E_OK, s) } });
     Some (ret, SetError cfg Id_SetAbsAlarm [AlarmID, Start, Cycle] ret s) }"

definition CancelAlarm :: "os_cfg \<Rightarrow> nat \<Rightarrow> os_state \<Rightarrow> (StatusType \<times> os_state) option" where
  "CancelAlarm cfg AlarmID s = do {
     (ret, s) \<leftarrow> (if ALARMS_COUNT cfg \<le> AlarmID then Some (E_OS_ID, s)
       else do {
         av \<leftarrow> rd (AlarmsVar s) AlarmID;
         if AlarmState av = 0 then Some (E_OS_NOFUNC, s)
         else do { s \<leftarrow> upd_alarm AlarmID (\<lambda>av. av\<lparr>AlarmState := 0\<rparr>) s; Some (E_OK, s) } });
     Some (ret, SetError cfg Id_CancelAlarm [AlarmID] ret s) }"

definition GetAlarm :: "os_cfg \<Rightarrow> nat \<Rightarrow> os_state \<Rightarrow> (StatusType \<times> nat option \<times> os_state) option" where
  "GetAlarm cfg AlarmID s =
     (if ALARMS_COUNT cfg \<le> AlarmID
      then Some (E_OS_ID, None, SetError cfg Id_GetAlarm [AlarmID] E_OS_ID s)
      else do {
        av \<leftarrow> rd (AlarmsVar s) AlarmID;
        if AlarmState av = 0
        then Some (E_OS_NOFUNC, None, SetError cfg Id_GetAlarm [AlarmID] E_OS_NOFUNC s)
        else Some (E_OK, Some (AlarmTime av), s) })"

text \<open>The information is maximum, ticks per base and minimal cycle, in this order.\<close>

definition GetAlarmBase ::
    "os_cfg \<Rightarrow> nat \<Rightarrow> os_state \<Rightarrow> (StatusType \<times> (nat \<times> nat \<times> nat) option \<times> os_state) option" where
  "GetAlarmBase cfg AlarmID s =
     (if ALARMS_COUNT cfg \<le> AlarmID
      then Some (E_OS_ID, None, SetError cfg Id_GetAlarmBase [AlarmID] E_OS_ID s)
      else do {
        ac \<leftarrow> rd (AlarmsConst cfg) AlarmID;
        cc \<leftarrow> rd (CountersConst cfg) (AlarmCounter ac);
        Some (E_OK, Some (MaxAllowedValue cc, TicksPerBase cc, MinCycle cc), s) })"

section \<open>The tick interrupt, start and shutdown\<close>

text \<open>
  After the handler, an idle processor continues the loop of \<open>Schedule\<close>: it looks for a
  task again.
\<close>

definition SysTick_Handler :: "os_cfg \<Rightarrow> nat \<Rightarrow> os_state \<Rightarrow> os_state option" where
  "SysTick_Handler cfg fuel s = do {
     let actualContext = ActualContext s;
     (_, s) \<leftarrow> IncrementCounter cfg fuel 0 1 (s\<lparr>ActualContext := CONTEXT_ISR2\<rparr>);
     let s = s\<lparr>ActualContext := actualContext\<rparr>;
     if CONTEXT_TASK = actualContext then do {
       rc \<leftarrow> rd (TasksConst cfg) (RunningTask s);
       if Preemtive rc then do { (_, s) \<leftarrow> Schedule_WOChecks cfg s; Some s }
       else Some s }
     else Some s }"

definition idle_loop :: "os_cfg \<Rightarrow> os_state \<Rightarrow> os_state option" where
  "idle_loop cfg s = (if RunningTask s = INVALID_TASK then dispatch cfg s else Some s)"

fun start_tasks :: "os_cfg \<Rightarrow> nat list \<Rightarrow> os_state \<Rightarrow> os_state option" where
  "start_tasks cfg [] s = Some s"
| "start_tasks cfg (t # ts) s = do { (_, s) \<leftarrow> ActivateTask cfg t s; start_tasks cfg ts s }"

fun start_alarms :: "os_cfg \<Rightarrow> nat \<Rightarrow> AutoStartAlarmType list \<Rightarrow> os_state \<Rightarrow> os_state option" where
  "start_alarms cfg mode [] s = Some s"
| "start_alarms cfg mode (a # as) s = do {
     s \<leftarrow> (if AutoMode a = mode
           then do { (_, s) \<leftarrow> SetRelAlarm cfg (AutoAlarm a) (AutoTime a) (AutoCycle a) s; Some s }
           else Some s);
     start_alarms cfg mode as s }"

definition StartOS :: "os_cfg \<Rightarrow> nat \<Rightarrow> os_state \<Rightarrow> os_state option" where
  "StartOS cfg mode s = do {
     let s = s\<lparr>ApplicationMode := mode\<rparr>;
     let s = fold SetEntryPoint [0..<TASKS_COUNT cfg] s;
     let s = s\<lparr>ActualContext := CONTEXT_SYS, RunningTask := INVALID_TASK\<rparr>;
     tasks \<leftarrow> rd (AutoStart cfg) mode;
     s \<leftarrow> start_tasks cfg tasks s;
     s \<leftarrow> start_alarms cfg mode (AutoStartAlarm cfg) s;
     (_, s) \<leftarrow> Schedule cfg s;
     Some s }"

text \<open>The variables before \<open>StartOS\<close>: zeroed memory, and the two tasks of the port invalid.\<close>

definition os_reset :: "os_cfg \<Rightarrow> os_state" where
  "os_reset cfg = \<lparr>
     TasksVar = replicate (TASKS_COUNT cfg) \<lparr>ActualPriority = 0, Activations = 0, State = SUSPENDED,
       Events = 0, EventsWait = 0, Resources = 0\<rparr>,
     ReadyLists = map (\<lambda>n. replicate n 0) (ListLength cfg),
     ReadyVar = replicate (READYLISTS_COUNT cfg) \<lparr>ListStart = 0, ListCount = 0\<rparr>,
     RunningTask = 0, ActualContext = CONTEXT_INVALID,
     AlarmsVar = replicate (ALARMS_COUNT cfg) \<lparr>AlarmState = 0, AlarmTime = 0, AlarmCycleTime = 0\<rparr>,
     CountersVar = replicate (length (CountersConst cfg)) 0,
     ApplicationMode = 0, ErrorHookRunning = 0, TerminatingTask = INVALID_TASK,
     WaitingTask = INVALID_TASK, Switches = [], ErrorHooks = [], Callbacks = []\<rparr>"

end
