(* ===== verification/OsInvariant.thy ===== *)
theory OsInvariant
  imports OsAlarms
begin

text \<open>
  The invariant of the kernel and its preservation by the parts the services are made of.
  The ready lists are read as queues (\<open>rq\<close>), and the invariant is stated over the queues,
  the task variables and the running task.
\<close>

section \<open>Well formed configurations\<close>

abbreviation prio_of :: "os_cfg \<Rightarrow> nat \<Rightarrow> nat" where
  "prio_of cfg t \<equiv> StaticPriority (TasksConst cfg ! t)"

definition level :: "os_cfg \<Rightarrow> nat \<Rightarrow> nat" where
  "level cfg t = READYLISTS_COUNT cfg - 1 - prio_of cfg t"

text \<open>
  What the generator guarantees, and two conditions it does not check: no ready list is
  longer than 128, so that \<open>ListStart + ListCount\<close> fits in 8 bits, and a task that may take
  a resource is activated at most once.
\<close>

definition task_ok :: "os_cfg \<Rightarrow> nat \<Rightarrow> bool" where
  "task_ok cfg t \<longleftrightarrow> prio_of cfg t < READYLISTS_COUNT cfg \<and>
     1 \<le> MaxActivations (TasksConst cfg ! t) \<and>
     (Extended (TasksConst cfg ! t) \<or> ResourcesMask (TasksConst cfg ! t) \<noteq> 0 \<longrightarrow>
       MaxActivations (TasksConst cfg ! t) = 1)"

definition list_room :: "os_cfg \<Rightarrow> nat \<Rightarrow> nat" where
  "list_room cfg i = sum_list (map (\<lambda>t. MaxActivations (TasksConst cfg ! t))
     (filter (\<lambda>t. level cfg t = i) [0..<TASKS_COUNT cfg]))"

definition cfg_ok :: "os_cfg \<Rightarrow> bool" where
  "cfg_ok cfg \<longleftrightarrow> TASKS_COUNT cfg \<le> 255 \<and> 0 < READYLISTS_COUNT cfg \<and> READYLISTS_COUNT cfg \<le> 255 \<and>
     RESOURCES_COUNT cfg \<le> 32 \<and>
     (\<forall>t<TASKS_COUNT cfg. task_ok cfg t) \<and>
     (\<forall>i<READYLISTS_COUNT cfg. 1 \<le> ListLength cfg ! i \<and> ListLength cfg ! i \<le> 128 \<and>
        list_room cfg i \<le> ListLength cfg ! i) \<and>
     (\<forall>t<TASKS_COUNT cfg. \<forall>r<RESOURCES_COUNT cfg.
        bit (ResourcesMask (TasksConst cfg ! t)) r \<longrightarrow> prio_of cfg t \<le> ResourcesPriority cfg ! r)"

lemma cfg_okD:
  assumes "cfg_ok cfg"
  shows "TASKS_COUNT cfg \<le> 255" "0 < READYLISTS_COUNT cfg" "READYLISTS_COUNT cfg \<le> 255"
    "\<And>t. t < TASKS_COUNT cfg \<Longrightarrow> task_ok cfg t"
    "\<And>i. i < READYLISTS_COUNT cfg \<Longrightarrow> 1 \<le> ListLength cfg ! i"
    "\<And>i. i < READYLISTS_COUNT cfg \<Longrightarrow> ListLength cfg ! i \<le> 128"
    "\<And>i. i < READYLISTS_COUNT cfg \<Longrightarrow> list_room cfg i \<le> ListLength cfg ! i"
  using assms by (auto simp: cfg_ok_def)

lemma cfg_ceiling: "cfg_ok cfg \<Longrightarrow> t < TASKS_COUNT cfg \<Longrightarrow> r < RESOURCES_COUNT cfg \<Longrightarrow>
    bit (ResourcesMask (TasksConst cfg ! t)) r \<Longrightarrow> prio_of cfg t \<le> ResourcesPriority cfg ! r"
  by (auto simp: cfg_ok_def)

lemma prio_index_level:
  "cfg_ok cfg \<Longrightarrow> t < TASKS_COUNT cfg \<Longrightarrow> prio_index cfg (prio_of cfg t) = level cfg t"
proof -
  assume c: "cfg_ok cfg" and t: "t < TASKS_COUNT cfg"
  have p: "prio_of cfg t < READYLISTS_COUNT cfg"
    using cfg_okD(4) [OF c t] by (simp add: task_ok_def)
  then have "READYLISTS_COUNT cfg + 255 - prio_of cfg t = level cfg t + 256"
    by (simp add: level_def)
  then have "prio_index cfg (prio_of cfg t) = (level cfg t + 256) mod 256"
    by (simp only: prio_index_def)
  moreover have "level cfg t < 256" using cfg_okD(3) [OF c] by (simp add: level_def)
  ultimately show ?thesis by simp
qed

lemma level_less: "cfg_ok cfg \<Longrightarrow> level cfg t < READYLISTS_COUNT cfg"
  using cfg_okD(2) [of cfg] by (simp add: level_def)

lemma level_mono:
  "cfg_ok cfg \<Longrightarrow> t < TASKS_COUNT cfg \<Longrightarrow> u < TASKS_COUNT cfg \<Longrightarrow>
    level cfg t \<le> level cfg u \<longleftrightarrow> prio_of cfg u \<le> prio_of cfg t"
  using cfg_okD(4) [of cfg t] cfg_okD(4) [of cfg u] by (auto simp: level_def task_ok_def)

section \<open>Ready lists as queues\<close>

definition rq :: "os_state \<Rightarrow> nat \<Rightarrow> nat list" where
  "rq s i = ring (ReadyLists s ! i) (ListStart (ReadyVar s ! i)) (ListCount (ReadyVar s ! i))"

definition shape :: "os_cfg \<Rightarrow> os_state \<Rightarrow> bool" where
  "shape cfg s \<longleftrightarrow> length (TasksVar s) = TASKS_COUNT cfg \<and>
     length (ReadyLists s) = READYLISTS_COUNT cfg \<and> length (ReadyVar s) = READYLISTS_COUNT cfg \<and>
     (\<forall>i<READYLISTS_COUNT cfg. length (ReadyLists s ! i) = ListLength cfg ! i \<and>
        ListStart (ReadyVar s ! i) < ListLength cfg ! i \<and>
        ListCount (ReadyVar s ! i) \<le> ListLength cfg ! i)"

lemma length_rq [simp]: "length (rq s i) = ListCount (ReadyVar s ! i)"
  by (simp add: rq_def)

lemma upd_task_in [mem_simps]:
  "t < length (TasksVar s) \<Longrightarrow>
    upd_task t f s = Some (s\<lparr>TasksVar := (TasksVar s)[t := f (TasksVar s ! t)]\<rparr>)"
  by (simp add: upd_task_def mem_simps)

lemma AddReady_queue:
  assumes c: "cfg_ok cfg" and s: "shape cfg s" and t: "t < TASKS_COUNT cfg"
    and room: "length (rq s (level cfg t)) < ListLength cfg ! level cfg t"
  shows "\<exists>rl rv. AddReady cfg t s = Some (s\<lparr>TasksVar := (TasksVar s)[t :=
      (TasksVar s ! t)\<lparr>ActualPriority := prio_of cfg t\<rparr>], ReadyLists := rl, ReadyVar := rv\<rparr>) \<and>
    (\<forall>T. shape cfg (s\<lparr>TasksVar := T, ReadyLists := rl, ReadyVar := rv\<rparr>) \<longleftrightarrow>
      length T = TASKS_COUNT cfg) \<and>
    (\<forall>T i. i < READYLISTS_COUNT cfg \<longrightarrow>
      rq (s\<lparr>TasksVar := T, ReadyLists := rl, ReadyVar := rv\<rparr>) i =
      (if i = level cfg t then rq s i @ [t] else rq s i))"
proof -
  let ?l = "level cfg t" and ?rv = "ReadyVar s ! level cfg t" and ?rl = "ReadyLists s ! level cfg t"
  have l: "?l < READYLISTS_COUNT cfg" using level_less [OF c] .
  note len = cfg_okD(5,6) [OF c l]
  have sh: "length ?rl = ListLength cfg ! ?l" "ListStart ?rv < ListLength cfg ! ?l"
    "length (ReadyLists s) = READYLISTS_COUNT cfg" "length (ReadyVar s) = READYLISTS_COUNT cfg"
    "length (TasksVar s) = TASKS_COUNT cfg"
    using s l by (auto simp: shape_def)
  let ?p = "(ListStart ?rv + ListCount ?rv) mod ListLength cfg ! ?l"
  have room': "ListCount ?rv < ListLength cfg ! ?l" using room by simp
  have pos: "(if ListLength cfg ! ?l \<le> (ListStart ?rv + ListCount ?rv) mod 256
      then (ListStart ?rv + ListCount ?rv) mod 256 - ListLength cfg ! ?l
      else (ListStart ?rv + ListCount ?rv) mod 256) = ?p"
    using sh(2) room' len mod_step [of "ListStart ?rv" "ListLength cfg ! ?l" "ListCount ?rv"] by auto
  have cnt: "(ListCount ?rv + 1) mod 256 = Suc (ListCount ?rv)"
    using room' len by simp
  have p: "?p < ListLength cfg ! ?l" using len by (intro mod_less_divisor) auto
  let ?rl' = "(ReadyLists s)[?l := ?rl[?p := t]]"
    and ?rv' = "(ReadyVar s)[?l := ?rv\<lparr>ListCount := Suc (ListCount ?rv)\<rparr>]"
  have "AddReady cfg t s = Some (s\<lparr>TasksVar := (TasksVar s)[t :=
      (TasksVar s ! t)\<lparr>ActualPriority := prio_of cfg t\<rparr>], ReadyLists := ?rl', ReadyVar := ?rv'\<rparr>)"
    using t l p pos cnt sh prio_index_level [OF c t]
    by (simp add: AddReady_def mem_simps Let_def del: One_nat_def)
  moreover have "shape cfg (s\<lparr>TasksVar := T, ReadyLists := ?rl', ReadyVar := ?rv'\<rparr>) \<longleftrightarrow>
      length T = TASKS_COUNT cfg" for T
    using s room' l by (auto simp: shape_def nth_list_update)
  moreover have "rq (s\<lparr>TasksVar := T, ReadyLists := ?rl', ReadyVar := ?rv'\<rparr>) i =
      (if i = ?l then rq s i @ [t] else rq s i)" if "i < READYLISTS_COUNT cfg" for T i
    using that l sh room' ring_push [of "ListCount ?rv" ?rl "ListStart ?rv" t]
    by (auto simp: rq_def nth_list_update)
  ultimately show ?thesis by blast
qed

lemma RemoveTask_queue:
  assumes c: "cfg_ok cfg" and s: "shape cfg s" and t: "t < TASKS_COUNT cfg"
    and some: "rq s (level cfg t) \<noteq> []"
  shows "\<exists>rv. RemoveTask cfg t s = Some (s\<lparr>ReadyVar := rv\<rparr>) \<and>
    shape cfg (s\<lparr>ReadyVar := rv\<rparr>) \<and>
    (\<forall>i<READYLISTS_COUNT cfg. rq (s\<lparr>ReadyVar := rv\<rparr>) i =
      (if i = level cfg t then tl (rq s i) else rq s i))"
proof -
  let ?l = "level cfg t" and ?rv = "ReadyVar s ! level cfg t" and ?rl = "ReadyLists s ! level cfg t"
  have l: "?l < READYLISTS_COUNT cfg" using level_less [OF c] .
  note len = cfg_okD(5,6) [OF c l]
  have sh: "length ?rl = ListLength cfg ! ?l" "ListStart ?rv < ListLength cfg ! ?l"
    "ListCount ?rv \<le> ListLength cfg ! ?l" "length (ReadyVar s) = READYLISTS_COUNT cfg"
    using s l by (auto simp: shape_def)
  have pos: "(if ListLength cfg ! ?l \<le> (ListStart ?rv + 1) mod 256
      then (ListStart ?rv + 1) mod 256 - ListLength cfg ! ?l
      else (ListStart ?rv + 1) mod 256) = (ListStart ?rv + 1) mod ListLength cfg ! ?l"
    using sh(2) len mod_step [of "ListStart ?rv" "ListLength cfg ! ?l" 1] by auto
  have n: "0 < ListCount ?rv" using some by (metis length_greater_0_conv length_rq)
  have "ListCount ?rv + 255 = (ListCount ?rv - 1) + 256" using n by simp
  then have "(ListCount ?rv + 255) mod 256 = (ListCount ?rv - 1 + 256) mod 256" by (simp only:)
  then have cnt: "(ListCount ?rv + 255) mod 256 = ListCount ?rv - 1"
    using sh(3) len by simp
  let ?rv' = "(ReadyVar s)[?l := ?rv\<lparr>ListStart := (ListStart ?rv + 1) mod ListLength cfg ! ?l,
    ListCount := ListCount ?rv - 1\<rparr>]"
  have "RemoveTask cfg t s = Some (s\<lparr>ReadyVar := ?rv'\<rparr>)"
    using t l pos cnt sh prio_index_level [OF c t]
    by (simp add: RemoveTask_def mem_simps Let_def del: One_nat_def)
  moreover have "(ListStart ?rv + 1) mod ListLength cfg ! ?l < ListLength cfg ! ?l"
    using len by (intro mod_less_divisor) auto
  then have "shape cfg (s\<lparr>ReadyVar := ?rv'\<rparr>)"
    using s l by (auto simp: shape_def nth_list_update)
  moreover have "rq (s\<lparr>ReadyVar := ?rv'\<rparr>) i = (if i = ?l then tl (rq s i) else rq s i)"
    if "i < READYLISTS_COUNT cfg" for i
    using that l sh n ring_pop [of "ListCount ?rv" ?rl "ListStart ?rv"]
    by (auto simp: rq_def nth_list_update)
  ultimately show ?thesis by blast
qed

section \<open>The invariant\<close>

definition active :: "TaskStateType \<Rightarrow> bool" where
  "active st \<longleftrightarrow> st = READY \<or> st = RUNNING"

lemma active_simps [simp]:
  "active READY" "active RUNNING" "\<not> active SUSPENDED" "\<not> active WAITING"
  by (simp_all add: active_def)

abbreviation holds :: "TaskVariableType \<Rightarrow> bool" where
  "holds v \<equiv> Resources v \<noteq> 0"

text \<open>\<open>t\<close> is the head of its own ready list.\<close>

definition heads :: "os_cfg \<Rightarrow> (nat \<Rightarrow> nat list) \<Rightarrow> nat \<Rightarrow> bool" where
  "heads cfg q t \<longleftrightarrow> q (level cfg t) \<noteq> [] \<and> hd (q (level cfg t)) = t"

definition queues_ok :: "os_cfg \<Rightarrow> (nat \<Rightarrow> nat list) \<Rightarrow> bool" where
  "queues_ok cfg q \<longleftrightarrow>
     (\<forall>i<READYLISTS_COUNT cfg. \<forall>t\<in>set (q i). t < TASKS_COUNT cfg \<and> level cfg t = i)"

text \<open>A task is in its ready list once per activation, unless it is suspended or waiting.\<close>

definition counts_ok :: "os_cfg \<Rightarrow> (nat \<Rightarrow> nat list) \<Rightarrow> TaskVariableType \<Rightarrow> nat \<Rightarrow> bool" where
  "counts_ok cfg q v t \<longleftrightarrow>
     count_list (q (level cfg t)) t = (if active (State v) then Activations v else 0) \<and>
     Activations v \<le> MaxActivations (TasksConst cfg ! t) \<and>
     (Activations v = 0 \<longleftrightarrow> State v = SUSPENDED) \<and>
     (State v = WAITING \<longrightarrow> Extended (TasksConst cfg ! t))"

text \<open>
  The actual priority is the static one, raised to the ceilings of the resources held; only
  the head of a ready list holds resources, and only those it was configured for.
\<close>

definition prio_ok :: "os_cfg \<Rightarrow> (nat \<Rightarrow> nat list) \<Rightarrow> TaskVariableType \<Rightarrow> nat \<Rightarrow> bool" where
  "prio_ok cfg q v t \<longleftrightarrow>
     (active (State v) \<longrightarrow> prio_of cfg t \<le> ActualPriority v \<and>
        (\<not> holds v \<longrightarrow> ActualPriority v = prio_of cfg t)) \<and>
     (\<forall>r. bit (Resources v) r \<longrightarrow> r < RESOURCES_COUNT cfg \<and>
        bit (ResourcesMask (TasksConst cfg ! t)) r \<and> ResourcesPriority cfg ! r \<le> ActualPriority v) \<and>
     (holds v \<longrightarrow> active (State v) \<and> heads cfg q t)"

definition running_ok :: "os_cfg \<Rightarrow> (nat \<Rightarrow> nat list) \<Rightarrow> TaskVariableType list \<Rightarrow> nat \<Rightarrow> bool" where
  "running_ok cfg q T r \<longleftrightarrow>
     (if r = INVALID_TASK then \<forall>t<TASKS_COUNT cfg. State (T ! t) \<noteq> RUNNING
      else r < TASKS_COUNT cfg \<and> (\<forall>t<TASKS_COUNT cfg. State (T ! t) = RUNNING \<longleftrightarrow> t = r) \<and>
        heads cfg q r)"

text \<open>
  The priority ceiling protocol: of two holders one was preempted by the other, so its
  actual priority is below the other's static priority; and the running task is above
  every other holder.
\<close>

definition ceiling_ok :: "os_cfg \<Rightarrow> TaskVariableType list \<Rightarrow> nat \<Rightarrow> bool" where
  "ceiling_ok cfg T r \<longleftrightarrow>
     (\<forall>t<TASKS_COUNT cfg. \<forall>u<TASKS_COUNT cfg. t \<noteq> u \<and> holds (T ! t) \<and> holds (T ! u) \<longrightarrow>
        ActualPriority (T ! t) < prio_of cfg u \<or> ActualPriority (T ! u) < prio_of cfg t) \<and>
     (r \<noteq> INVALID_TASK \<longrightarrow>
        (\<forall>t<TASKS_COUNT cfg. t \<noteq> r \<and> holds (T ! t) \<longrightarrow> ActualPriority (T ! t) < prio_of cfg r))"

definition kinv :: "os_cfg \<Rightarrow> (nat \<Rightarrow> nat list) \<Rightarrow> TaskVariableType list \<Rightarrow> nat \<Rightarrow> bool" where
  "kinv cfg q T r \<longleftrightarrow> length T = TASKS_COUNT cfg \<and> queues_ok cfg q \<and>
     (\<forall>t<TASKS_COUNT cfg. counts_ok cfg q (T ! t) t \<and> prio_ok cfg q (T ! t) t) \<and>
     running_ok cfg q T r \<and> ceiling_ok cfg T r"

definition os_inv :: "os_cfg \<Rightarrow> os_state \<Rightarrow> bool" where
  "os_inv cfg s \<longleftrightarrow> shape cfg s \<and> kinv cfg (rq s) (TasksVar s) (RunningTask s)"

lemma kinvD:
  assumes "kinv cfg q T r"
  shows "length T = TASKS_COUNT cfg" "queues_ok cfg q"
    "\<And>t. t < TASKS_COUNT cfg \<Longrightarrow> counts_ok cfg q (T ! t) t"
    "\<And>t. t < TASKS_COUNT cfg \<Longrightarrow> prio_ok cfg q (T ! t) t"
    "running_ok cfg q T r" "ceiling_ok cfg T r"
  using assms by (auto simp: kinv_def)

lemma os_invD: "os_inv cfg s \<Longrightarrow> shape cfg s" "os_inv cfg s \<Longrightarrow> kinv cfg (rq s) (TasksVar s) (RunningTask s)"
  by (simp_all add: os_inv_def)

text \<open>Only the values of the queues below \<open>READYLISTS_COUNT\<close> matter.\<close>

lemma kinv_cong:
  assumes "cfg_ok cfg" and "\<And>i. i < READYLISTS_COUNT cfg \<Longrightarrow> q' i = q i"
  shows "kinv cfg q' T r \<longleftrightarrow> kinv cfg q T r"
  using assms level_less [OF assms(1)]
  by (simp add: kinv_def queues_ok_def counts_ok_def prio_ok_def running_ok_def heads_def)

lemma in_queue_active:
  assumes k: "kinv cfg q T r" and i: "i < READYLISTS_COUNT cfg" and t: "t \<in> set (q i)"
  shows "t < TASKS_COUNT cfg \<and> level cfg t = i \<and> active (State (T ! t))"
proof -
  have "t < TASKS_COUNT cfg" "level cfg t = i"
    using kinvD(2) [OF k] i t by (auto simp: queues_ok_def)
  moreover from this have "count_list (q (level cfg t)) t \<noteq> 0"
    using t by (auto simp: count_list_0_iff)
  ultimately show ?thesis
    using kinvD(3) [OF k, of t] by (auto simp: counts_ok_def split: if_splits)
qed

lemma active_in_queue:
  assumes k: "kinv cfg q T r" and t: "t < TASKS_COUNT cfg" and a: "active (State (T ! t))"
  shows "t \<in> set (q (level cfg t))"
proof -
  have "count_list (q (level cfg t)) t = Activations (T ! t)" "Activations (T ! t) \<noteq> 0"
    using kinvD(3) [OF k t] a by (auto simp: counts_ok_def)
  then show ?thesis by (metis count_list_0_iff)
qed

text \<open>The ready list of a task has room for one more of its activations.\<close>

lemma queue_room:
  assumes c: "cfg_ok cfg" and k: "kinv cfg q T r" and t: "t < TASKS_COUNT cfg"
    and less: "count_list (q (level cfg t)) t < MaxActivations (TasksConst cfg ! t)"
  shows "length (q (level cfg t)) < ListLength cfg ! level cfg t"
proof -
  let ?l = "level cfg t" and ?M = "\<lambda>u. MaxActivations (TasksConst cfg ! u)"
  let ?X = "{u. u < TASKS_COUNT cfg \<and> level cfg u = ?l}"
  have sub: "set (q ?l) \<subseteq> ?X"
    using kinvD(2) [OF k] level_less [OF c] by (auto simp: queues_ok_def)
  have "length (q ?l) = (\<Sum>u\<in>?X. count_list (q ?l) u)"
    using sum_count_set [OF sub] by simp
  also have "\<dots> < (\<Sum>u\<in>?X. ?M u)"
  proof (rule sum_strict_mono_ex1)
    show "\<forall>u\<in>?X. count_list (q ?l) u \<le> ?M u"
      using kinvD(3) [OF k] by (fastforce simp: counts_ok_def split: if_splits)
    show "\<exists>u\<in>?X. count_list (q ?l) u < ?M u" using t less by auto
  qed simp
  also have "(\<Sum>u\<in>?X. ?M u) = list_room cfg ?l"
  proof -
    have "list_room cfg ?l = sum ?M (set (filter (\<lambda>u. level cfg u = ?l) [0..<TASKS_COUNT cfg]))"
      by (simp add: list_room_def sum_list_distinct_conv_sum_set)
    also have "set (filter (\<lambda>u. level cfg u = ?l) [0..<TASKS_COUNT cfg]) = ?X" by auto
    finally show ?thesis by simp
  qed
  also have "\<dots> \<le> ListLength cfg ! ?l" using cfg_okD(7) [OF c level_less [OF c]] .
  finally show ?thesis .
qed

section \<open>What the services change, on queues and task variables\<close>

lemma heads_append: "heads cfg q u \<Longrightarrow> heads cfg (q(l := q l @ xs)) u"
  by (auto simp: heads_def)

text \<open>A task joins the tail of its ready list: an activation, or an event it waited for.\<close>

lemma kinv_append:
  assumes c: "cfg_ok cfg" and k: "kinv cfg q T r" and t: "t < TASKS_COUNT cfg"
    and st: "active (State v)" "State v = RUNNING \<longleftrightarrow> State (T ! t) = RUNNING"
    and res: "\<not> holds v" "\<not> holds (T ! t)" and prio: "ActualPriority v = prio_of cfg t"
    and act: "Activations v = Suc (count_list (q (level cfg t)) t)"
      "Activations v \<le> MaxActivations (TasksConst cfg ! t)"
  shows "kinv cfg (q(level cfg t := q (level cfg t) @ [t])) (T[t := v]) r"
proof -
  let ?q = "q(level cfg t := q (level cfg t) @ [t])" and ?T = "T[t := v]"
  note kd = kinvD [OF k]
  have T: "?T ! u = (if u = t then v else T ! u)" if "u < TASKS_COUNT cfg" for u
    using that kd(1) by (simp add: nth_list_update)
  have "queues_ok cfg ?q"
    using kd(2) t level_less [OF c] by (auto simp: queues_ok_def)
  moreover have "counts_ok cfg ?q (?T ! u) u" if "u < TASKS_COUNT cfg" for u
    using kd(3) [OF that] act st(1) by (auto simp: T [OF that] counts_ok_def)
  moreover have "prio_ok cfg ?q (?T ! u) u" if "u < TASKS_COUNT cfg" for u
    using kd(4) [OF that] res prio heads_append
    by (auto simp: T [OF that] prio_ok_def)
  moreover have "running_ok cfg ?q ?T r"
    using kd(5) st(2) heads_append by (auto simp: running_ok_def T split: if_splits)
  moreover have "ceiling_ok cfg ?T r"
    using kd(6) res by (auto simp: ceiling_ok_def T)
  ultimately show ?thesis using kd(1) by (simp add: kinv_def)
qed

text \<open>
  The running task leaves: its head entry is removed from its ready list, and it becomes
  suspended, ready again or waiting.
\<close>

lemma kinv_leave:
  assumes c: "cfg_ok cfg" and k: "kinv cfg q T r" and r: "r \<noteq> INVALID_TASK"
    and st: "State v \<noteq> RUNNING" and res: "\<not> holds v" "\<not> holds (T ! r)"
    and prio: "ActualPriority v = ActualPriority (T ! r)"
    and act: "Activations v \<le> Activations (T ! r)" "Activations v = 0 \<longleftrightarrow> State v = SUSPENDED"
      "State v = WAITING \<longrightarrow> Extended (TasksConst cfg ! r)"
      "Suc (if active (State v) then Activations v else 0) = Activations (T ! r)"
  shows "kinv cfg (q(level cfg r := tl (q (level cfg r)))) (T[r := v]) INVALID_TASK"
proof -
  let ?q = "q(level cfg r := tl (q (level cfg r)))" and ?T = "T[r := v]"
  note kd = kinvD [OF k]
  have run: "r < TASKS_COUNT cfg" "heads cfg q r" "State (T ! r) = RUNNING"
    and only: "\<And>u. u < TASKS_COUNT cfg \<Longrightarrow> State (T ! u) = RUNNING \<Longrightarrow> u = r"
    using kd(5) r by (auto simp: running_ok_def)
  have q: "q (level cfg r) = r # tl (q (level cfg r))"
    using run(2) by (metis heads_def list.collapse)
  have T: "?T ! u = (if u = r then v else T ! u)" if "u < TASKS_COUNT cfg" for u
    using that kd(1) by (simp add: nth_list_update)
  have cnt: "count_list (q (level cfg r)) u = (if u = r then 1 else 0) + count_list (tl (q (level cfg r))) u" for u
    by (subst q) simp
  have keep: "heads cfg ?q u" if "heads cfg q u" "u \<noteq> r" for u
    using that run(2) by (auto simp: heads_def)
  have "queues_ok cfg ?q"
    using kd(2) set_subset_Cons [of "tl (q (level cfg r))" r] q
    by (fastforce simp: queues_ok_def)
  moreover have "counts_ok cfg ?q (?T ! u) u" if "u < TASKS_COUNT cfg" for u
    using kd(3) [OF that] kd(3) [OF run(1)] act run(3) cnt
    by (auto simp: T [OF that] counts_ok_def split: if_splits)
  moreover have "prio_ok cfg ?q (?T ! u) u" if "u < TASKS_COUNT cfg" for u
    using kd(4) [OF that] kd(4) [OF run(1)] res prio keep run(3)
    by (auto simp: T [OF that] prio_ok_def)
  moreover have "running_ok cfg ?q ?T INVALID_TASK"
    using only st by (auto simp: running_ok_def T)
  moreover have "ceiling_ok cfg ?T INVALID_TASK"
    using kd(6) res by (auto simp: ceiling_ok_def T)
  ultimately show ?thesis using kd(1) by (simp add: kinv_def)
qed

text \<open>Changes that concern neither the scheduler nor the resources.\<close>

lemma kinv_same:
  assumes k: "kinv cfg q T r" and t: "t < TASKS_COUNT cfg"
    and same: "State v = State (T ! t)" "Activations v = Activations (T ! t)"
      "ActualPriority v = ActualPriority (T ! t)" "Resources v = Resources (T ! t)"
  shows "kinv cfg q (T[t := v]) r"
proof -
  note kd = kinvD [OF k]
  have T: "T[t := v] ! u = (if u = t then v else T ! u)" if "u < TASKS_COUNT cfg" for u
    using that kd(1) by (simp add: nth_list_update)
  have "counts_ok cfg q (T[t := v] ! u) u" "prio_ok cfg q (T[t := v] ! u) u"
    if "u < TASKS_COUNT cfg" for u
    using kd(3,4) [OF that] same by (auto simp: T [OF that] counts_ok_def prio_ok_def)
  moreover have "running_ok cfg q (T[t := v]) r"
    using kd(5) same by (auto simp: running_ok_def T split: if_splits)
  moreover have "ceiling_ok cfg (T[t := v]) r"
    using kd(6) same by (auto simp: ceiling_ok_def T)
  ultimately show ?thesis using kd(1,2) by (simp add: kinv_def)
qed

section \<open>The choice of the next task\<close>

lemma first_ready_scan:
  assumes "shape cfg s" and "\<forall>i<READYLISTS_COUNT cfg. 0 < ListLength cfg ! i"
    and "set is \<subseteq> {..<READYLISTS_COUNT cfg}"
  shows "first_ready s is =
    Some (case filter (\<lambda>i. rq s i \<noteq> []) is of [] \<Rightarrow> INVALID_TASK | i # _ \<Rightarrow> hd (rq s i))"
  using assms(3)
proof (induction "is")
  case (Cons i js)
  have "rq s i \<noteq> [] \<longleftrightarrow> 0 < ListCount (ReadyVar s ! i)"
    by (metis length_greater_0_conv length_rq)
  with Cons assms(1,2) show ?case
    by (auto simp: shape_def mem_simps rq_def ring_hd)
qed simp

lemma resource_scan_max:
  assumes "set ts \<subseteq> {..<length (TasksVar s)}"
  shows "\<exists>t' p'. resource_scan s ts (t, p) = Some (t', p') \<and> p \<le> p' \<and>
    (\<forall>u\<in>set ts. holds (TasksVar s ! u) \<longrightarrow> ActualPriority (TasksVar s ! u) \<le> p') \<and>
    (t' = t \<and> p' = p \<or>
      t' \<in> set ts \<and> holds (TasksVar s ! t') \<and> p' = ActualPriority (TasksVar s ! t') \<and> p < p')"
  using assms
proof (induction ts arbitrary: t p)
  case (Cons u us)
  let ?v = "TasksVar s ! u"
  have u: "rd (TasksVar s) u = Some ?v" using Cons.prems by (simp add: mem_simps)
  show ?case
  proof (cases "holds ?v \<and> p < ActualPriority ?v")
    case True
    with Cons.IH [of u "ActualPriority ?v"] Cons.prems u show ?thesis by fastforce
  next
    case False
    with Cons.IH [of t p] Cons.prems u show ?thesis by fastforce
  qed
qed simp

definition next_spec :: "os_cfg \<Rightarrow> (nat \<Rightarrow> nat list) \<Rightarrow> TaskVariableType list \<Rightarrow> nat \<Rightarrow> bool" where
  "next_spec cfg q T n \<longleftrightarrow>
     (if \<forall>i<READYLISTS_COUNT cfg. q i = [] then n = INVALID_TASK
      else n < TASKS_COUNT cfg \<and> heads cfg q n \<and> active (State (T ! n)) \<and>
        (\<forall>u<TASKS_COUNT cfg. active (State (T ! u)) \<longrightarrow> ActualPriority (T ! u) \<le> ActualPriority (T ! n)) \<and>
        (\<forall>v<TASKS_COUNT cfg. v \<noteq> n \<and> holds (T ! v) \<longrightarrow> ActualPriority (T ! v) < prio_of cfg n))"

lemma heads_unique:
  "heads cfg q t \<Longrightarrow> heads cfg q u \<Longrightarrow> level cfg t = level cfg u \<Longrightarrow> t = u"
  by (auto simp: heads_def)

text \<open>
  A chosen task that holds a resource is above the other holders by the ceiling protocol; one
  that does not is above them because it was preferred to them.
\<close>

lemma next_above_holders:
  assumes c: "cfg_ok cfg" and k: "kinv cfg q T r" and n: "n < TASKS_COUNT cfg" "heads cfg q n"
      "active (State (T ! n))"
    and max: "\<And>u. u < TASKS_COUNT cfg \<Longrightarrow> active (State (T ! u)) \<Longrightarrow>
      ActualPriority (T ! u) \<le> ActualPriority (T ! n)"
    and pref: "\<not> holds (T ! n) \<Longrightarrow> (\<exists>p. (\<forall>u<TASKS_COUNT cfg. holds (T ! u) \<longrightarrow> ActualPriority (T ! u) \<le> p) \<and>
      (p < ActualPriority (T ! n) \<or> p = 0))"
    and v: "v < TASKS_COUNT cfg" "v \<noteq> n" "holds (T ! v)"
  shows "ActualPriority (T ! v) < prio_of cfg n"
proof (cases "holds (T ! n)")
  case True
  have "active (State (T ! v))" "prio_of cfg v \<le> ActualPriority (T ! v)"
    using kinvD(4) [OF k v(1)] v(3) by (auto simp: prio_ok_def)
  with max [OF v(1)] kinvD(6) [OF k] n(1) v True show ?thesis
    by (force simp: ceiling_ok_def)
next
  case False
  have pn: "ActualPriority (T ! n) = prio_of cfg n"
    using kinvD(4) [OF k n(1)] n(3) False by (auto simp: prio_ok_def)
  obtain p where p: "ActualPriority (T ! v) \<le> p" "p < ActualPriority (T ! n) \<or> p = 0"
    using pref [OF False] v by blast
  show ?thesis
  proof (cases "prio_of cfg n = 0")
    case zero: True
    with p pn have "ActualPriority (T ! v) = 0" by auto
    moreover have "prio_of cfg v \<le> ActualPriority (T ! v)" "heads cfg q v"
      using kinvD(4) [OF k v(1)] v(3) by (auto simp: prio_ok_def)
    ultimately have "prio_of cfg v = 0" by simp
    with zero have "level cfg v = level cfg n" by (simp add: level_def)
    with \<open>heads cfg q v\<close> n(2) v(2) show ?thesis by (metis heads_unique)
  qed (use p pn in auto)
qed

lemma GetNextTask_spec:
  assumes c: "cfg_ok cfg" and s: "os_inv cfg s"
  shows "\<exists>n. GetNextTask cfg s = Some n \<and> next_spec cfg (rq s) (TasksVar s) n"
proof -
  let ?T = "TasksVar s" and ?q = "rq s" and ?R = "READYLISTS_COUNT cfg"
  note sh = os_invD(1) [OF s] and k = os_invD(2) [OF s]
  have T: "length ?T = TASKS_COUNT cfg" using kinvD(1) [OF k] .
  let ?ne = "filter (\<lambda>i. ?q i \<noteq> []) [0..<?R]"
  define ret where "ret = (case ?ne of [] \<Rightarrow> INVALID_TASK | i # _ \<Rightarrow> hd (?q i))"
  have ret: "first_ready s [0..<?R] = Some ret"
    unfolding ret_def
  proof (rule first_ready_scan [OF sh])
    show "\<forall>i<?R. 0 < ListLength cfg ! i" using cfg_okD(5) [OF c] by fastforce
  qed auto
  have "set [0..<TASKS_COUNT cfg] \<subseteq> {..<length ?T}" using T by auto
  from resource_scan_max [OF this, of INVALID_TASK 0]
  obtain res p where scan: "resource_scan s [0..<TASKS_COUNT cfg] (INVALID_TASK, 0) = Some (res, p)"
    and maxp: "\<And>u. u < TASKS_COUNT cfg \<Longrightarrow> holds (?T ! u) \<Longrightarrow> ActualPriority (?T ! u) \<le> p"
    and res: "res = INVALID_TASK \<and> p = 0 \<or>
      res < TASKS_COUNT cfg \<and> holds (?T ! res) \<and> p = ActualPriority (?T ! res)"
    by auto
  have valid: "t < TASKS_COUNT cfg \<Longrightarrow> t \<noteq> INVALID_TASK" for t
    using cfg_okD(1) [OF c] by (auto simp: INVALID_TASK_def)
  show ?thesis
  proof (cases ?ne)
    case Nil
    then have empty: "\<forall>i<?R. ?q i = []" by (auto simp: filter_empty_conv)
    then have "\<not> holds (?T ! t)" if "t < TASKS_COUNT cfg" for t
      using kinvD(4) [OF k that] level_less [OF c] by (auto simp: prio_ok_def heads_def)
    then have "res = INVALID_TASK" using res by auto
    then show ?thesis
      using ret scan Nil empty by (simp add: GetNextTask_def ret_def next_spec_def)
  next
    case (Cons i js)
    have "i \<in> set ?ne" using Cons by simp
    then have i: "i < ?R" "?q i \<noteq> []" by auto
    have first: "j < i \<Longrightarrow> ?q j = []" for j
    proof -
      assume j: "j < i"
      have "sorted ?ne" by (intro sorted_wrt_filter) simp
      with Cons have "\<forall>m\<in>set ?ne. i \<le> m" by auto
      moreover have "j \<in> set ?ne" if "?q j \<noteq> []" using that j i(1) by simp
      ultimately show "?q j = []" using j by (metis not_less)
    qed
    have rt: "ret = hd (?q i)" "ret \<in> set (?q i)" using Cons i(2) by (auto simp: ret_def)
    have r1: "ret < TASKS_COUNT cfg" "level cfg ret = i" "active (State (?T ! ret))"
      using in_queue_active [OF k i(1) rt(2)] by auto
    then have hr: "heads cfg ?q ret" using rt(1) i(2) by (simp add: heads_def)
    have r2: "prio_of cfg u \<le> prio_of cfg ret"
      if "u < TASKS_COUNT cfg" "active (State (?T ! u))" for u
    proof -
      have "?q (level cfg u) \<noteq> []" using active_in_queue [OF k that] by auto
      then have "level cfg ret \<le> level cfg u" using first r1(2) by (meson not_less)
      then show ?thesis using level_mono [OF c r1(1) that(1)] by simp
    qed
    have pr: "prio_of cfg u \<le> ActualPriority (?T ! u)"
      "\<not> holds (?T ! u) \<Longrightarrow> ActualPriority (?T ! u) = prio_of cfg u"
      if "u < TASKS_COUNT cfg" "active (State (?T ! u))" for u
      using kinvD(4) [OF k that(1)] that(2) by (auto simp: prio_ok_def)
    define n where "n = (if res \<noteq> INVALID_TASK \<and> ActualPriority (?T ! ret) \<le> p then res else ret)"
    have get: "GetNextTask cfg s = Some n"
      using ret scan r1(1) T by (auto simp: GetNextTask_def mem_simps n_def)
    have n1: "n < TASKS_COUNT cfg \<and> heads cfg ?q n \<and> active (State (?T ! n))"
      using r1 hr res kinvD(4) [OF k, of res] by (auto simp: n_def prio_ok_def)
    have le: "ActualPriority (?T ! ret) \<le> ActualPriority (?T ! n)" "res \<noteq> INVALID_TASK \<longrightarrow> p \<le> ActualPriority (?T ! n)"
      "res = INVALID_TASK \<longrightarrow> p = 0"
      using res valid by (auto simp: n_def)
    have top: "ActualPriority (?T ! u) \<le> ActualPriority (?T ! n)"
      if "u < TASKS_COUNT cfg" "active (State (?T ! u))" for u
    proof (cases "holds (?T ! u)")
      case True
      with maxp [OF that(1)] le show ?thesis by fastforce
    next
      case False
      with pr(2) [OF that] pr(1) [OF r1(1,3)] r2 [OF that] le(1) show ?thesis by simp
    qed
    have "ActualPriority (?T ! v) < prio_of cfg n"
      if "v < TASKS_COUNT cfg" "v \<noteq> n" "holds (?T ! v)" for v
    proof (rule next_above_holders [OF c k _ _ _ top _ that])
      assume "\<not> holds (?T ! n)"
      then show "\<exists>p. (\<forall>u<TASKS_COUNT cfg. holds (?T ! u) \<longrightarrow> ActualPriority (?T ! u) \<le> p) \<and>
          (p < ActualPriority (?T ! n) \<or> p = 0)"
        using maxp res valid by (intro exI [of _ p]) (auto simp: n_def split: if_splits)
    qed (use n1 in auto)
    with get n1 top i show ?thesis by (auto simp: next_spec_def)
  qed
qed

end
