(* ===== verification/OsScheduler.thy ===== *)
theory OsScheduler
  imports OsInvariant
begin

text \<open>
  The scheduler and the services keep the kernel invariant. A state is settled when a task
  of the highest priority runs, or none is ready.
\<close>

section \<open>Dispatching\<close>

lemma kinv_switch:
  assumes k: "kinv cfg q T r" and len: "length T' = length T"
    and n: "n < TASKS_COUNT cfg" "n \<noteq> INVALID_TASK" "heads cfg q n" "active (State (T ! n))"
    and T': "\<And>t. t < TASKS_COUNT cfg \<Longrightarrow> T' ! t = (T ! t)\<lparr>State := (if t = n then RUNNING
      else if t = r \<and> r \<noteq> INVALID_TASK then READY else State (T ! t))\<rparr>"
    and above: "\<And>v. v < TASKS_COUNT cfg \<Longrightarrow> v \<noteq> n \<Longrightarrow> holds (T ! v) \<Longrightarrow>
      ActualPriority (T ! v) < prio_of cfg n"
  shows "kinv cfg q T' n"
proof -
  note kd = kinvD [OF k]
  have run: "State (T ! r) = RUNNING" if "r < TASKS_COUNT cfg" "r \<noteq> INVALID_TASK"
    using kd(5) that by (auto simp: running_ok_def)
  have act: "active (State (T' ! t)) \<longleftrightarrow> active (State (T ! t))" if "t < TASKS_COUNT cfg" for t
    using that run n(4) by (auto simp: T')
  have susp: "State (T' ! t) = st \<longleftrightarrow> State (T ! t) = st"
    if "t < TASKS_COUNT cfg" "\<not> active st" for t st
    using that run n(4) by (auto simp: T')
  have sel: "Activations (T' ! t) = Activations (T ! t)" "Resources (T' ! t) = Resources (T ! t)"
    "ActualPriority (T' ! t) = ActualPriority (T ! t)" if "t < TASKS_COUNT cfg" for t
    using that by (simp_all add: T')
  have "counts_ok cfg q (T' ! t) t \<and> prio_ok cfg q (T' ! t) t" if "t < TASKS_COUNT cfg" for t
    using kd(3,4) [OF that] act [OF that] susp [OF that]
    by (simp add: counts_ok_def prio_ok_def sel [OF that])
  moreover have "running_ok cfg q T' n"
  proof -
    have "State (T' ! t) = RUNNING \<longleftrightarrow> t = n" if "t < TASKS_COUNT cfg" for t
      using that kd(5) by (auto simp: T' running_ok_def split: if_splits)
    with n show ?thesis by (simp add: running_ok_def)
  qed
  moreover have "ceiling_ok cfg T' n"
    using kd(6) above by (auto simp: ceiling_ok_def T')
  ultimately show ?thesis using kd(1,2) len by (simp add: kinv_def)
qed

definition settled :: "os_cfg \<Rightarrow> os_state \<Rightarrow> bool" where
  "settled cfg s \<longleftrightarrow> (\<forall>u<TASKS_COUNT cfg. active (State (TasksVar s ! u)) \<longrightarrow>
     RunningTask s \<noteq> INVALID_TASK \<and> prio_of cfg u \<le> ActualPriority (TasksVar s ! RunningTask s))"

text \<open>The context the kernel is in between two services.\<close>

definition ctx_ok :: "os_state \<Rightarrow> bool" where
  "ctx_ok s \<longleftrightarrow> ActualContext s = (if RunningTask s = INVALID_TASK then CONTEXT_SYS else CONTEXT_TASK)"

text \<open>What the scheduler leaves alone: everything but task states, the running task and the trace.\<close>

definition same_env :: "os_state \<Rightarrow> os_state \<Rightarrow> bool" where
  "same_env s s' \<longleftrightarrow> AlarmsVar s' = AlarmsVar s \<and> CountersVar s' = CountersVar s \<and>
     ApplicationMode s' = ApplicationMode s \<and> ErrorHooks s' = ErrorHooks s \<and>
     Callbacks s' = Callbacks s \<and> ErrorHookRunning s' = ErrorHookRunning s"

lemma os_inv_valid:
  assumes "cfg_ok cfg" and "t < TASKS_COUNT cfg" shows "t \<noteq> INVALID_TASK"
  using cfg_okD(1) [OF assms(1)] assms(2) by (simp add: INVALID_TASK_def)

lemma shape_TasksVar: "shape cfg s \<Longrightarrow> length T = TASKS_COUNT cfg \<Longrightarrow> shape cfg (s\<lparr>TasksVar := T\<rparr>)"
  by (simp add: shape_def)

lemma rq_simps [simp]:
  "rq (s\<lparr>TasksVar := T\<rparr>) = rq s" "rq (s\<lparr>RunningTask := r\<rparr>) = rq s"
  "rq (s\<lparr>ActualContext := x\<rparr>) = rq s" "rq (s\<lparr>TerminatingTask := r\<rparr>) = rq s"
  "rq (s\<lparr>WaitingTask := r\<rparr>) = rq s" "rq (s\<lparr>Switches := w\<rparr>) = rq s"
  "rq (s\<lparr>ErrorHooks := e\<rparr>) = rq s" "rq (s\<lparr>ErrorHookRunning := n\<rparr>) = rq s"
  "rq (s\<lparr>AlarmsVar := a\<rparr>) = rq s" "rq (s\<lparr>CountersVar := c\<rparr>) = rq s"
  "rq (s\<lparr>Callbacks := b\<rparr>) = rq s" "rq (s\<lparr>ApplicationMode := n\<rparr>) = rq s"
  by (simp_all add: rq_def fun_eq_iff)

lemma os_inv_simps [simp]:
  "os_inv cfg (s\<lparr>ActualContext := x\<rparr>) = os_inv cfg s"
  "os_inv cfg (s\<lparr>TerminatingTask := r\<rparr>) = os_inv cfg s"
  "os_inv cfg (s\<lparr>WaitingTask := r\<rparr>) = os_inv cfg s"
  "os_inv cfg (s\<lparr>Switches := w\<rparr>) = os_inv cfg s"
  "os_inv cfg (s\<lparr>ErrorHooks := e\<rparr>) = os_inv cfg s"
  "os_inv cfg (s\<lparr>ErrorHookRunning := n\<rparr>) = os_inv cfg s"
  "os_inv cfg (s\<lparr>AlarmsVar := a\<rparr>) = os_inv cfg s"
  "os_inv cfg (s\<lparr>CountersVar := c\<rparr>) = os_inv cfg s"
  "os_inv cfg (s\<lparr>Callbacks := b\<rparr>) = os_inv cfg s"
  "os_inv cfg (s\<lparr>ApplicationMode := n\<rparr>) = os_inv cfg s"
  by (simp_all add: os_inv_def shape_def)

lemma os_inv_SetError [simp]: "os_inv cfg (SetError cfg api ps ret s) = os_inv cfg s"
  by (simp add: SetError_def)

lemma SetError_sel [simp]:
  "RunningTask (SetError cfg api ps ret s) = RunningTask s"
  "ActualContext (SetError cfg api ps ret s) = ActualContext s"
  "TasksVar (SetError cfg api ps ret s) = TasksVar s"
  "AlarmsVar (SetError cfg api ps ret s) = AlarmsVar s"
  "CountersVar (SetError cfg api ps ret s) = CountersVar s"
  "rq (SetError cfg api ps ret s) = rq s"
  by (simp_all add: SetError_def)

lemma SetError_OK [simp]: "SetError cfg api ps E_OK s = s"
  by (simp add: SetError_def)

lemma ctx_ok_SetError [simp]: "ctx_ok (SetError cfg api ps ret s) = ctx_ok s"
  by (simp add: ctx_ok_def)

lemma settled_SetError [simp]: "settled cfg (SetError cfg api ps ret s) = settled cfg s"
  by (simp add: settled_def)

lemma dispatch_idle:
  assumes c: "cfg_ok cfg" and s: "os_inv cfg s" and idle: "RunningTask s = INVALID_TASK"
  shows "\<exists>s'. dispatch cfg s = Some s' \<and> os_inv cfg s' \<and> settled cfg s' \<and> same_env s s' \<and>
    (if RunningTask s' = INVALID_TASK then s' = s else ActualContext s' = CONTEXT_TASK) \<and>
    (\<forall>t. \<not> active (State (TasksVar s ! t)) \<longrightarrow> TasksVar s' ! t = TasksVar s ! t)"
proof -
  let ?T = "TasksVar s"
  note sh = os_invD(1) [OF s] and k = os_invD(2) [OF s]
  have T: "length ?T = TASKS_COUNT cfg" using kinvD(1) [OF k] .
  obtain n where n: "GetNextTask cfg s = Some n" "next_spec cfg (rq s) ?T n"
    using GetNextTask_spec [OF c s] by blast
  show ?thesis
  proof (cases "n = INVALID_TASK")
    case True
    have "\<forall>i<READYLISTS_COUNT cfg. rq s i = []"
      using n(2) True os_inv_valid [OF c] by (auto simp: next_spec_def split: if_splits)
    then have "\<not> active (State (?T ! u))" if "u < TASKS_COUNT cfg" for u
      using active_in_queue [OF k that] level_less [OF c] by auto
    then have "settled cfg s" by (simp add: settled_def)
    with n(1) True idle s show ?thesis by (auto simp: dispatch_def same_env_def)
  next
    case False
    then have nn: "n < TASKS_COUNT cfg" "heads cfg (rq s) n" "active (State (?T ! n))"
      and top: "\<And>u. u < TASKS_COUNT cfg \<Longrightarrow> active (State (?T ! u)) \<Longrightarrow>
        ActualPriority (?T ! u) \<le> ActualPriority (?T ! n)"
      and above: "\<And>v. v < TASKS_COUNT cfg \<Longrightarrow> v \<noteq> n \<Longrightarrow> holds (?T ! v) \<Longrightarrow>
        ActualPriority (?T ! v) < prio_of cfg n"
      using n(2) by (auto simp: next_spec_def split: if_splits)
    let ?T' = "?T[n := (?T ! n)\<lparr>State := RUNNING\<rparr>]"
    let ?s' = "JmpTask n (s\<lparr>TasksVar := ?T', RunningTask := n, ActualContext := CONTEXT_TASK\<rparr>)"
    have d: "dispatch cfg s = Some ?s'"
      using n(1) False idle nn(1) T by (simp add: dispatch_def mem_simps)
    have k': "kinv cfg (rq s) ?T' n"
      by (rule kinv_switch [OF k _ nn(1) False nn(2,3) _ above])
        (use idle nn(1) T in \<open>auto simp: nth_list_update\<close>)
    have "os_inv cfg ?s'"
      using k' sh T by (simp add: os_inv_def JmpTask_def shape_TasksVar shape_def)
    moreover have "prio_of cfg u \<le> ActualPriority (?T ! n)"
      if "u < TASKS_COUNT cfg" "active (State (?T ! u))" for u
      using top [OF that] kinvD(4) [OF k that(1)] that(2) by (auto simp: prio_ok_def)
    then have "settled cfg ?s'"
      using nn T False by (auto simp: settled_def JmpTask_def nth_list_update)
    moreover have "\<not> active (State (?T ! t)) \<longrightarrow> ?T' ! t = ?T ! t" for t
      using nn(3) by (metis nth_list_update_neq)
    ultimately show ?thesis
      using d False by (simp add: JmpTask_def same_env_def)
  qed
qed

text \<open>
  With a task running, the scheduler switches exactly when a task of higher priority is
  ready; the task that runs then has the highest priority.
\<close>

lemma dispatch_running:
  assumes c: "cfg_ok cfg" and s: "os_inv cfg s" and run: "RunningTask s \<noteq> INVALID_TASK"
  shows "\<exists>s'. dispatch cfg s = Some s' \<and> os_inv cfg s' \<and> settled cfg s' \<and> same_env s s' \<and>
    RunningTask s' \<noteq> INVALID_TASK \<and>
    (if RunningTask s' = RunningTask s then s' = s else ActualContext s' = CONTEXT_TASK)"
proof -
  let ?T = "TasksVar s" and ?a = "RunningTask s"
  note sh = os_invD(1) [OF s] and k = os_invD(2) [OF s]
  have T: "length ?T = TASKS_COUNT cfg" using kinvD(1) [OF k] .
  have a: "?a < TASKS_COUNT cfg" "heads cfg (rq s) ?a" "State (?T ! ?a) = RUNNING"
    using kinvD(5) [OF k] run by (auto simp: running_ok_def)
  obtain n where n: "GetNextTask cfg s = Some n" "next_spec cfg (rq s) ?T n"
    using GetNextTask_spec [OF c s] by blast
  have "\<not> (\<forall>i<READYLISTS_COUNT cfg. rq s i = [])"
    using a(2) level_less [OF c] by (auto simp: heads_def)
  then have nn: "n < TASKS_COUNT cfg" "heads cfg (rq s) n" "active (State (?T ! n))"
    and top: "\<And>u. u < TASKS_COUNT cfg \<Longrightarrow> active (State (?T ! u)) \<Longrightarrow>
      ActualPriority (?T ! u) \<le> ActualPriority (?T ! n)"
    and above: "\<And>v. v < TASKS_COUNT cfg \<Longrightarrow> v \<noteq> n \<Longrightarrow> holds (?T ! v) \<Longrightarrow>
      ActualPriority (?T ! v) < prio_of cfg n"
    using n(2) by (auto simp: next_spec_def split: if_splits)
  have ps: "prio_of cfg u \<le> ActualPriority (?T ! u)"
    "\<not> holds (?T ! u) \<Longrightarrow> ActualPriority (?T ! u) = prio_of cfg u"
    if "u < TASKS_COUNT cfg" "active (State (?T ! u))" for u
    using kinvD(4) [OF k that(1)] that(2) by (auto simp: prio_ok_def)
  show ?thesis
  proof (cases "ActualPriority (?T ! ?a) < prio_of cfg n")
    case True
    have na: "n \<noteq> ?a" using True ps(1) [OF a(1)] a(3) by auto
    let ?T' = "?T[?a := (?T ! ?a)\<lparr>State := READY\<rparr>, n := (?T ! n)\<lparr>State := RUNNING\<rparr>]"
    let ?s' = "CallTask ?a n (s\<lparr>TasksVar := ?T', RunningTask := n, ActualContext := CONTEXT_TASK\<rparr>)"
    have nv: "n \<noteq> INVALID_TASK" using os_inv_valid [OF c nn(1)] .
    have d: "dispatch cfg s = Some ?s'"
      using n(1) run nn(1) a(1) T True na na [symmetric] by (simp add: dispatch_def mem_simps Let_def)
    have k': "kinv cfg (rq s) ?T' n"
      by (rule kinv_switch [OF k _ nn(1) nv nn(2,3) _ above])
        (use run nn(1) a(1) T in \<open>auto simp: nth_list_update\<close>)
    have "os_inv cfg ?s'"
      using k' sh T by (simp add: os_inv_def CallTask_def shape_TasksVar shape_def)
    moreover have "prio_of cfg u \<le> ActualPriority (?T ! n)"
      if "u < TASKS_COUNT cfg" "active (State (?T ! u))" for u
      using top [OF that] ps(1) [OF that] by simp
    then have "settled cfg ?s'"
      using nn T nv a by (auto simp: settled_def CallTask_def nth_list_update)
    ultimately show ?thesis
      using d nv na by (auto simp: CallTask_def same_env_def)
  next
    case False
    then have d: "dispatch cfg s = Some s"
      using n(1) run nn(1) a(1) T by (simp add: dispatch_def mem_simps)
    have nle: "ActualPriority (?T ! n) \<le> ActualPriority (?T ! ?a)"
    proof (cases "n = ?a \<or> \<not> holds (?T ! n)")
      case True
      with ps(2) [OF nn(1,3)] False show ?thesis by auto
    next
      case holder: False
      then have "ActualPriority (?T ! n) < prio_of cfg ?a"
        using kinvD(6) [OF k] run nn(1) by (auto simp: ceiling_ok_def)
      with ps(1) [OF a(1)] a(3) show ?thesis by simp
    qed
    have "prio_of cfg u \<le> ActualPriority (?T ! ?a)"
      if "u < TASKS_COUNT cfg" "active (State (?T ! u))" for u
      using top [OF that] ps(1) [OF that] nle by simp
    then have "settled cfg s" using run by (simp add: settled_def)
    with d s run show ?thesis by (auto simp: same_env_def)
  qed
qed

section \<open>Services\<close>

lemma running_valid:
  assumes "cfg_ok cfg" and "os_inv cfg s" and "RunningTask s \<noteq> INVALID_TASK"
  shows "RunningTask s < TASKS_COUNT cfg" "State (TasksVar s ! RunningTask s) = RUNNING"
    "heads cfg (rq s) (RunningTask s)" "length (TasksVar s) = TASKS_COUNT cfg"
  using kinvD(1,5) [OF os_invD(2) [OF assms(2)]] assms(3) by (auto simp: running_ok_def)

lemma ctx_ok_run: "ctx_ok s \<Longrightarrow> ActualContext s = CONTEXT_TASK \<longleftrightarrow> RunningTask s \<noteq> INVALID_TASK"
  by (simp add: ctx_ok_def)

lemma same_env_simps [simp]:
  "same_env s s" "same_env s (s\<lparr>ActualContext := x\<rparr>)"
  "same_env (s\<lparr>ActualContext := x\<rparr>) s' = same_env s s'"
  "same_env s (s'\<lparr>ActualContext := x\<rparr>) = same_env s s'"
  by (simp_all add: same_env_def)

lemma same_env_trans: "same_env a b \<Longrightarrow> same_env b c \<Longrightarrow> same_env a c"
  by (simp add: same_env_def)

text \<open>The scheduler as the services call it, without the resource check.\<close>

lemma Schedule_sys:
  assumes c: "cfg_ok cfg" and s: "os_inv cfg s" and ctx: "ActualContext s = CONTEXT_SYS"
  shows "\<exists>s'. Schedule cfg s = Some (E_OK, s') \<and> os_inv cfg s' \<and> settled cfg s' \<and> same_env s s' \<and>
    (RunningTask s \<noteq> INVALID_TASK \<longrightarrow> RunningTask s' \<noteq> INVALID_TASK) \<and>
    (if RunningTask s' = RunningTask s then s' = s else ActualContext s' = CONTEXT_TASK) \<and>
    (RunningTask s = INVALID_TASK \<longrightarrow>
      (\<forall>t. \<not> active (State (TasksVar s ! t)) \<longrightarrow> TasksVar s' ! t = TasksVar s ! t))"
proof (cases "RunningTask s = INVALID_TASK")
  case True
  from dispatch_idle [OF c s True] ctx True show ?thesis
    by (auto simp: Schedule_Int_def sched_check_def)
next
  case False
  obtain s' where "dispatch cfg s = Some s'" "os_inv cfg s'" "settled cfg s'" "same_env s s'"
    "RunningTask s' \<noteq> INVALID_TASK"
    "if RunningTask s' = RunningTask s then s' = s else ActualContext s' = CONTEXT_TASK"
    using dispatch_running [OF c s False] by blast
  with ctx False show ?thesis by (simp add: Schedule_Int_def sched_check_def)
qed

lemma Schedule_task:
  assumes c: "cfg_ok cfg" and s: "os_inv cfg s" and x: "ctx_ok s" and run: "RunningTask s \<noteq> INVALID_TASK"
  shows "\<exists>ret s'. Schedule cfg s = Some (ret, s') \<and> os_inv cfg s' \<and> ctx_ok s' \<and>
    ret = (if holds (TasksVar s ! RunningTask s) then E_OS_RESOURCE else E_OK) \<and>
    RunningTask s' \<noteq> INVALID_TASK \<and> AlarmsVar s' = AlarmsVar s \<and> CountersVar s' = CountersVar s \<and>
    (ret = E_OK \<longrightarrow> settled cfg s' \<and> same_env s s') \<and>
    (ret \<noteq> E_OK \<longrightarrow> s' = SetError cfg Id_Schedule [] E_OS_RESOURCE s)"
proof (cases "holds (TasksVar s ! RunningTask s)")
  case True
  have "sched_check True s = Some E_OS_RESOURCE"
    using running_valid(1,4) [OF c s run] True run x by (simp add: sched_check_def mem_simps ctx_ok_def)
  with True run x s show ?thesis by (simp add: Schedule_Int_def)
next
  case False
  have ok: "sched_check True s = Some E_OK"
    using running_valid(1,4) [OF c s run] False run x by (simp add: sched_check_def mem_simps ctx_ok_def)
  obtain s' where d: "dispatch cfg s = Some s'" "os_inv cfg s'" "settled cfg s'" "same_env s s'"
    "RunningTask s' \<noteq> INVALID_TASK"
    "if RunningTask s' = RunningTask s then s' = s else ActualContext s' = CONTEXT_TASK"
    using dispatch_running [OF c s run] by blast
  have "ctx_ok s'" using d(5,6) x by (auto simp: ctx_ok_def split: if_splits)
  with ok d False show ?thesis by (simp add: Schedule_Int_def same_env_def)
qed

lemma word_some_bit: "(w :: 'a::len word) \<noteq> 0 \<Longrightarrow> \<exists>r. bit w r"
  using bit_eqI [of w 0] by auto

lemma activate_inv:
  assumes c: "cfg_ok cfg" and s: "os_inv cfg s" and t: "t < TASKS_COUNT cfg"
  shows "\<exists>ret s'. activate cfg t s = Some (ret, s') \<and> os_inv cfg s' \<and>
    RunningTask s' = RunningTask s \<and> ActualContext s' = ActualContext s \<and> same_env s s' \<and>
    ret = (if State (TasksVar s ! t) = SUSPENDED \<or> \<not> Extended (TasksConst cfg ! t) \<and>
        Activations (TasksVar s ! t) < MaxActivations (TasksConst cfg ! t)
      then E_OK else E_OS_LIMIT) \<and>
    (ret = E_OK \<longrightarrow> (\<forall>i<READYLISTS_COUNT cfg.
       rq s' i = (if i = level cfg t then rq s i @ [t] else rq s i))) \<and>
    (ret \<noteq> E_OK \<longrightarrow> s' = s)"
proof -
  let ?v = "TasksVar s ! t" and ?c = "TasksConst cfg ! t"
  note sh = os_invD(1) [OF s] and k = os_invD(2) [OF s]
  note kd = kinvD [OF k]
  have T: "length (TasksVar s) = TASKS_COUNT cfg" using kd(1) .
  show ?thesis
  proof (cases "State ?v = SUSPENDED \<or> \<not> Extended ?c \<and> Activations ?v < MaxActivations ?c")
    case True
    have tk: "1 \<le> MaxActivations ?c" "ResourcesMask ?c \<noteq> 0 \<Longrightarrow> MaxActivations ?c = 1"
      "MaxActivations ?c < 256"
    proof -
      show "1 \<le> MaxActivations ?c" "ResourcesMask ?c \<noteq> 0 \<Longrightarrow> MaxActivations ?c = 1"
        using cfg_okD(4) [OF c t] by (auto simp: task_ok_def)
      have "MaxActivations ?c \<le> list_room cfg (level cfg t)"
        unfolding list_room_def using t by (intro member_le_sum_list) auto
      then show "MaxActivations ?c < 256"
        using cfg_okD(6,7) [OF c level_less [OF c, of t]] by simp
    qed
    have st: "State ?v = SUSPENDED \<and> Activations ?v = 0 \<or> active (State ?v) \<and> State ?v \<noteq> SUSPENDED"
      using kd(3) [OF t] True by (cases "State ?v") (auto simp: counts_ok_def)
    have cnt: "count_list (rq s (level cfg t)) t = Activations ?v"
      using kd(3) [OF t] st by (auto simp: counts_ok_def)
    have less: "Activations ?v < MaxActivations ?c"
      using st True tk(1) by auto
    have nores: "\<not> holds ?v"
    proof
      assume h: "holds ?v"
      then obtain r where "bit (Resources ?v) r" using word_some_bit by blast
      then have "ResourcesMask ?c \<noteq> 0" using kd(4) [OF t] by (auto simp: prio_ok_def)
      with tk(2) less have "Activations ?v = 0" by simp
      with kd(3) [OF t] have "State ?v = SUSPENDED" by (simp add: counts_ok_def)
      with h kd(4) [OF t] show False by (simp add: prio_ok_def)
    qed
    let ?e = "if State ?v = SUSPENDED then ?v\<lparr>Activations := Suc (Activations ?v), State := READY, Events := 0\<rparr>
      else ?v\<lparr>Activations := Suc (Activations ?v)\<rparr>"
    let ?s1 = "s\<lparr>TasksVar := (TasksVar s)[t := ?e]\<rparr>"
    have m: "(Activations ?v + 1) mod 256 = Suc (Activations ?v)" using less tk(3) by simp
    have sh1: "shape cfg ?s1" using sh T by (simp add: shape_TasksVar)
    have room: "length (rq ?s1 (level cfg t)) < ListLength cfg ! level cfg t"
      using queue_room [OF c k t] cnt less by simp
    obtain rl rv where add: "AddReady cfg t ?s1 = Some (?s1\<lparr>TasksVar := (TasksVar ?s1)[t :=
        (TasksVar ?s1 ! t)\<lparr>ActualPriority := prio_of cfg t\<rparr>], ReadyLists := rl, ReadyVar := rv\<rparr>)"
      and shp: "\<And>T'. shape cfg (?s1\<lparr>TasksVar := T', ReadyLists := rl, ReadyVar := rv\<rparr>) \<longleftrightarrow>
        length T' = TASKS_COUNT cfg"
      and q: "\<And>T' i. i < READYLISTS_COUNT cfg \<Longrightarrow>
        rq (?s1\<lparr>TasksVar := T', ReadyLists := rl, ReadyVar := rv\<rparr>) i =
        (if i = level cfg t then rq ?s1 i @ [t] else rq ?s1 i)"
      using AddReady_queue [OF c sh1 t room] by blast
    let ?s' = "s\<lparr>TasksVar := (TasksVar s)[t := ?e\<lparr>ActualPriority := prio_of cfg t\<rparr>],
      ReadyLists := rl, ReadyVar := rv\<rparr>"
    have act: "activate cfg t s = Some (E_OK, ?s')"
      using True t T m add by (auto simp: activate_def mem_simps)
    have "kinv cfg ((rq s)(level cfg t := rq s (level cfg t) @ [t])) (TasksVar ?s') (RunningTask s)"
    proof -
      have "active (State ?e)" "State ?e = RUNNING \<longleftrightarrow> State ?v = RUNNING"
        "Activations ?e = Suc (count_list (rq s (level cfg t)) t)" "Resources ?e = 0"
        using st cnt nores by auto
      with kinv_append [OF c k t, of "?e\<lparr>ActualPriority := prio_of cfg t\<rparr>"] nores cnt less
      show ?thesis by simp
    qed
    moreover have q': "rq ?s' i = (if i = level cfg t then rq s i @ [t] else rq s i)"
      if "i < READYLISTS_COUNT cfg" for i
      using q [OF that] by simp
    ultimately have "kinv cfg (rq ?s') (TasksVar ?s') (RunningTask s)"
      using kinv_cong [OF c, of "rq ?s'" "(rq s)(level cfg t := rq s (level cfg t) @ [t])"] by simp
    moreover have "shape cfg ?s'" using shp T by simp
    ultimately have "os_inv cfg ?s'" by (simp add: os_inv_def)
    with act q' True show ?thesis by (auto simp: same_env_def)
  next
    case False
    then have "activate cfg t s = Some (E_OS_LIMIT, s)"
      using t T by (auto simp: activate_def mem_simps)
    with False s show ?thesis by auto
  qed
qed

text \<open>
  \<open>ActivateTask\<close> in any context: from a task it may switch, from an interrupt it only makes
  the task ready.
\<close>

lemma ActivateTask_inv:
  assumes c: "cfg_ok cfg" and s: "os_inv cfg s"
    and ctx: "ActualContext s = CONTEXT_TASK \<Longrightarrow> RunningTask s \<noteq> INVALID_TASK"
  shows "\<exists>ret s'. ActivateTask cfg t s = Some (ret, s') \<and> os_inv cfg s' \<and>
    ActualContext s' = ActualContext s \<and>
    (RunningTask s \<noteq> INVALID_TASK \<longrightarrow> RunningTask s' \<noteq> INVALID_TASK) \<and>
    (ActualContext s \<noteq> CONTEXT_TASK \<longrightarrow> RunningTask s' = RunningTask s) \<and>
    AlarmsVar s' = AlarmsVar s \<and> CountersVar s' = CountersVar s \<and>
    ret = (if TASKS_COUNT cfg \<le> t then E_OS_ID
      else if State (TasksVar s ! t) = SUSPENDED \<or> \<not> Extended (TasksConst cfg ! t) \<and>
        Activations (TasksVar s ! t) < MaxActivations (TasksConst cfg ! t)
      then E_OK else E_OS_LIMIT)"
proof (cases "t < TASKS_COUNT cfg")
  case True
  obtain ret s1 where a: "activate cfg t s = Some (ret, s1)" "os_inv cfg s1"
    "RunningTask s1 = RunningTask s" "ActualContext s1 = ActualContext s" "same_env s s1"
    and ret: "ret = (if State (TasksVar s ! t) = SUSPENDED \<or> \<not> Extended (TasksConst cfg ! t) \<and>
        Activations (TasksVar s ! t) < MaxActivations (TasksConst cfg ! t)
      then E_OK else E_OS_LIMIT)"
    using activate_inv [OF c s True] by blast
  show ?thesis
  proof (cases "ActualContext s = CONTEXT_TASK \<and> Preemtive (TasksConst cfg ! RunningTask s) \<and> ret = E_OK")
    case sched: True
    let ?s2 = "s1\<lparr>ActualContext := CONTEXT_SYS\<rparr>"
    have r: "RunningTask s < TASKS_COUNT cfg" using running_valid(1) [OF c s] ctx sched by blast
    obtain s' where "Schedule cfg ?s2 = Some (E_OK, s')" "os_inv cfg s'" "same_env ?s2 s'"
      "RunningTask ?s2 \<noteq> INVALID_TASK \<longrightarrow> RunningTask s' \<noteq> INVALID_TASK"
      using Schedule_sys [OF c, of ?s2] a(2) by auto
    with a sched True r ret show ?thesis
      by (simp add: ActivateTask_def mem_simps same_env_def)
  next
    case False
    have "rd (TasksConst cfg) (RunningTask s) = Some (TasksConst cfg ! RunningTask s)"
      if "ActualContext s = CONTEXT_TASK"
      using running_valid(1) [OF c s] ctx that by (simp add: mem_simps)
    with False a True ret show ?thesis
      by (cases "ActualContext s = CONTEXT_TASK") (auto simp: ActivateTask_def same_env_def)
  qed
next
  case False
  with s show ?thesis by (simp add: ActivateTask_def)
qed

lemma end_running_inv:
  assumes c: "cfg_ok cfg" and s: "os_inv cfg s" and run: "RunningTask s \<noteq> INVALID_TASK"
    and res: "\<not> holds (TasksVar s ! RunningTask s)"
  shows "\<exists>s'. end_running cfg s = Some s' \<and> os_inv cfg s' \<and> RunningTask s' = INVALID_TASK \<and>
    ActualContext s' = CONTEXT_SYS \<and> same_env s s' \<and> TasksVar s' = (TasksVar s)[RunningTask s :=
      (TasksVar s ! RunningTask s)\<lparr>Activations := Activations (TasksVar s ! RunningTask s) - 1,
        State := (if Activations (TasksVar s ! RunningTask s) = 1 then SUSPENDED else READY)\<rparr>] \<and>
    (\<forall>i<READYLISTS_COUNT cfg.
      rq s' i = (if i = level cfg (RunningTask s) then tl (rq s i) else rq s i))"
proof -
  let ?r = "RunningTask s" and ?v = "TasksVar s ! RunningTask s"
  note sh = os_invD(1) [OF s] and k = os_invD(2) [OF s]
  note r = running_valid [OF c s run]
  have cnt: "counts_ok cfg (rq s) ?v ?r" using kinvD(3) [OF k r(1)] .
  have a: "0 < Activations ?v" "Activations ?v < 256"
  proof -
    show "0 < Activations ?v" using cnt r(2) by (auto simp: counts_ok_def)
    have "Activations ?v \<le> length (rq s (level cfg ?r))"
      using cnt r(2) count_le_length [of "rq s (level cfg ?r)" ?r] by (simp add: counts_ok_def)
    also have "\<dots> \<le> ListLength cfg ! level cfg ?r"
      using sh level_less [OF c] by (simp add: shape_def)
    also have "\<dots> \<le> 128" using cfg_okD(6) [OF c level_less [OF c]] .
    finally show "Activations ?v < 256" by simp
  qed
  have "Activations ?v + 255 = Activations ?v - 1 + 256" using a(1) by simp
  then have "(Activations ?v + 255) mod 256 = (Activations ?v - 1 + 256) mod 256" by (simp only:)
  then have m: "(Activations ?v + 255) mod 256 = Activations ?v - 1" using a(2) by simp
  let ?v' = "?v\<lparr>Activations := Activations ?v - 1, State := (if Activations ?v = 1 then SUSPENDED else READY)\<rparr>"
  let ?s1 = "s\<lparr>TasksVar := (TasksVar s)[?r := ?v'], TerminatingTask := ?r\<rparr>"
  have "shape cfg ?s1" using sh r(4) by (simp add: shape_def)
  moreover have "rq ?s1 (level cfg ?r) \<noteq> []" using r(3) by (simp add: heads_def)
  ultimately obtain rv where rem: "RemoveTask cfg ?r ?s1 = Some (?s1\<lparr>ReadyVar := rv\<rparr>)"
    and sh': "shape cfg (?s1\<lparr>ReadyVar := rv\<rparr>)"
    and q: "\<And>i. i < READYLISTS_COUNT cfg \<Longrightarrow> rq (?s1\<lparr>ReadyVar := rv\<rparr>) i =
      (if i = level cfg ?r then tl (rq s i) else rq s i)"
    using RemoveTask_queue [OF c, of ?s1 ?r] r(1) by auto
  let ?s' = "?s1\<lparr>ReadyVar := rv, RunningTask := INVALID_TASK, ActualContext := CONTEXT_SYS\<rparr>"
  have e: "end_running cfg s = Some ?s'"
    using r(1,4) m rem a(1)
    by (cases "Activations ?v = 1") (auto simp: end_running_def mem_simps SetEntryPoint_def Let_def)
  have q': "rq ?s' i = (if i = level cfg ?r then tl (rq s i) else rq s i)"
    if "i < READYLISTS_COUNT cfg" for i
    using q [OF that] by (simp add: rq_def)
  have "kinv cfg ((rq s)(level cfg ?r := tl (rq s (level cfg ?r)))) (TasksVar ?s') INVALID_TASK"
    using kinv_leave [OF c k run, of ?v'] res a r(2) by auto
  then have "kinv cfg (rq ?s') (TasksVar ?s') INVALID_TASK"
    using kinv_cong [OF c, of "rq ?s'" "(rq s)(level cfg ?r := tl (rq s (level cfg ?r)))"] q' by simp
  moreover have "shape cfg ?s'" using sh' by (simp add: shape_def)
  ultimately have "os_inv cfg ?s'" by (simp add: os_inv_def)
  with e q' show ?thesis by (auto simp: same_env_def)
qed

lemma TerminateTask_inv:
  assumes c: "cfg_ok cfg" and s: "os_inv cfg s" and x: "ctx_ok s" and run: "RunningTask s \<noteq> INVALID_TASK"
  shows "\<exists>ret s'. TerminateTask cfg s = Some (ret, s') \<and> os_inv cfg s' \<and> ctx_ok s' \<and>
    AlarmsVar s' = AlarmsVar s \<and> CountersVar s' = CountersVar s \<and>
    ret = (if holds (TasksVar s ! RunningTask s) then E_OS_RESOURCE else E_OK) \<and>
    (ret = E_OK \<longrightarrow> settled cfg s' \<and> same_env s s')"
proof (cases "holds (TasksVar s ! RunningTask s)")
  case True
  with running_valid [OF c s run] s x run show ?thesis
    by (simp add: TerminateTask_def mem_simps ctx_ok_def)
next
  case False
  obtain s1 where e: "end_running cfg s = Some s1" "os_inv cfg s1" "RunningTask s1 = INVALID_TASK"
    "ActualContext s1 = CONTEXT_SYS" "same_env s s1"
    using end_running_inv [OF c s run False] by blast
  obtain s' where d: "Schedule cfg s1 = Some (E_OK, s')" "os_inv cfg s'" "settled cfg s'" "same_env s1 s'"
    "if RunningTask s' = RunningTask s1 then s' = s1 else ActualContext s' = CONTEXT_TASK"
    using Schedule_sys [OF c e(2,4)] by blast
  have "ctx_ok s'" using d(5) e(3,4) by (auto simp: ctx_ok_def split: if_splits)
  with d e False running_valid [OF c s run] x run show ?thesis
    using same_env_trans [OF e(5) d(4)]
    by (simp add: TerminateTask_def mem_simps ctx_ok_run) (simp add: same_env_def)
qed

end
