(* ===== verification/OsProtocol.thy ===== *)
theory OsProtocol
  imports OsScheduler
begin

text \<open>
  The event, resource and alarm services keep the kernel invariant. The steps of a running
  system are the services its tasks call, the tick interrupt and the idle loop; the states
  they reach satisfy the invariant, and no resource is ever held by two tasks.
\<close>

section \<open>Events\<close>

lemma os_inv_same:
  assumes "os_inv cfg s" and "t < TASKS_COUNT cfg"
    and "State v = State (TasksVar s ! t)" "Activations v = Activations (TasksVar s ! t)"
      "ActualPriority v = ActualPriority (TasksVar s ! t)" "Resources v = Resources (TasksVar s ! t)"
  shows "os_inv cfg (s\<lparr>TasksVar := (TasksVar s)[t := v]\<rparr>)"
proof -
  note k = os_invD(2) [OF assms(1)]
  have "length (TasksVar s) = TASKS_COUNT cfg" using kinvD(1) [OF k] .
  with kinv_same [OF k assms(2-6)] os_invD(1) [OF assms(1)] show ?thesis
    by (simp add: os_inv_def shape_TasksVar)
qed

text \<open>A waiting task is extended, so it has exactly one activation and holds nothing.\<close>

lemma waiting_task:
  assumes c: "cfg_ok cfg" and k: "kinv cfg q T r" and t: "t < TASKS_COUNT cfg"
    and w: "State (T ! t) = WAITING"
  shows "Activations (T ! t) = 1" "\<not> holds (T ! t)" "count_list (q (level cfg t)) t = 0"
    "MaxActivations (TasksConst cfg ! t) = 1"
proof -
  show m: "MaxActivations (TasksConst cfg ! t) = 1"
    using kinvD(3) [OF k t] w cfg_okD(4) [OF c t] by (auto simp: counts_ok_def task_ok_def)
  show "Activations (T ! t) = 1" "count_list (q (level cfg t)) t = 0"
    using kinvD(3) [OF k t] w m by (auto simp: counts_ok_def)
  show "\<not> holds (T ! t)" using kinvD(4) [OF k t] w by (auto simp: prio_ok_def)
qed

lemma wake_inv:
  assumes c: "cfg_ok cfg" and s: "os_inv cfg s" and t: "t < TASKS_COUNT cfg"
    and w: "State (TasksVar s ! t) = WAITING"
  shows "\<exists>s1. AddReady cfg t s = Some s1 \<and>
    (\<exists>s'. upd_task t (\<lambda>tv. tv\<lparr>State := READY\<rparr>) s1 = Some s' \<and> os_inv cfg s' \<and>
      RunningTask s' = RunningTask s \<and> ActualContext s' = ActualContext s \<and> same_env s s' \<and>
      TasksVar s' = (TasksVar s)[t := (TasksVar s ! t)\<lparr>ActualPriority := prio_of cfg t, State := READY\<rparr>] \<and>
      (\<forall>i<READYLISTS_COUNT cfg. rq s' i = (if i = level cfg t then rq s i @ [t] else rq s i)))"
proof -
  note sh = os_invD(1) [OF s] and k = os_invD(2) [OF s]
  have T: "length (TasksVar s) = TASKS_COUNT cfg" using kinvD(1) [OF k] .
  note wt = waiting_task [OF c k t w]
  have "length (rq s (level cfg t)) < ListLength cfg ! level cfg t"
    using queue_room [OF c k t] wt(3,4) by simp
  from AddReady_queue [OF c sh t this] obtain rl rv where
    add: "AddReady cfg t s = Some (s\<lparr>TasksVar := (TasksVar s)[t :=
      (TasksVar s ! t)\<lparr>ActualPriority := prio_of cfg t\<rparr>], ReadyLists := rl, ReadyVar := rv\<rparr>)"
    and shp: "\<And>T'. shape cfg (s\<lparr>TasksVar := T', ReadyLists := rl, ReadyVar := rv\<rparr>) \<longleftrightarrow>
      length T' = TASKS_COUNT cfg"
    and q: "\<And>T' i. i < READYLISTS_COUNT cfg \<Longrightarrow>
      rq (s\<lparr>TasksVar := T', ReadyLists := rl, ReadyVar := rv\<rparr>) i =
      (if i = level cfg t then rq s i @ [t] else rq s i)"
    by blast
  let ?v = "(TasksVar s ! t)\<lparr>ActualPriority := prio_of cfg t, State := READY\<rparr>"
  let ?s' = "s\<lparr>TasksVar := (TasksVar s)[t := ?v], ReadyLists := rl, ReadyVar := rv\<rparr>"
  have "kinv cfg ((rq s)(level cfg t := rq s (level cfg t) @ [t])) (TasksVar ?s') (RunningTask s)"
    using kinv_append [OF c k t, of ?v] wt w by simp
  then have "kinv cfg (rq ?s') (TasksVar ?s') (RunningTask s)"
    using kinv_cong [OF c, of "rq ?s'" "(rq s)(level cfg t := rq s (level cfg t) @ [t])"] q by simp
  then have "os_inv cfg ?s'" using shp T by (simp add: os_inv_def)
  moreover have "upd_task t (\<lambda>tv. tv\<lparr>State := READY\<rparr>) (s\<lparr>TasksVar := (TasksVar s)[t :=
      (TasksVar s ! t)\<lparr>ActualPriority := prio_of cfg t\<rparr>], ReadyLists := rl, ReadyVar := rv\<rparr>) = Some ?s'"
    using t T by (simp add: mem_simps)
  ultimately show ?thesis using add q by (auto simp: same_env_def)
qed

lemma ctx_task: "ctx_ok s \<Longrightarrow> RunningTask s \<noteq> INVALID_TASK \<Longrightarrow> ActualContext s = CONTEXT_TASK"
  by (simp add: ctx_ok_def)

lemma SetEvent_inv:
  assumes c: "cfg_ok cfg" and s: "os_inv cfg s"
    and ctx: "ActualContext s = CONTEXT_TASK \<Longrightarrow> RunningTask s \<noteq> INVALID_TASK"
  shows "\<exists>ret s'. SetEvent cfg t m s = Some (ret, s') \<and> os_inv cfg s' \<and>
    ActualContext s' = ActualContext s \<and>
    (RunningTask s \<noteq> INVALID_TASK \<longrightarrow> RunningTask s' \<noteq> INVALID_TASK) \<and>
    (ActualContext s \<noteq> CONTEXT_TASK \<longrightarrow> RunningTask s' = RunningTask s) \<and>
    AlarmsVar s' = AlarmsVar s \<and> CountersVar s' = CountersVar s"
proof (cases "TASKS_COUNT cfg \<le> t \<or> \<not> Extended (TasksConst cfg ! t) \<or> State (TasksVar s ! t) = SUSPENDED")
  case True
  have "length (TasksVar s) = TASKS_COUNT cfg" using kinvD(1) [OF os_invD(2) [OF s]] .
  with True s show ?thesis by (cases "TASKS_COUNT cfg \<le> t") (auto simp: SetEvent_def mem_simps)
next
  case False
  let ?v = "(TasksVar s ! t)\<lparr>Events := Events (TasksVar s ! t) OR (m AND EventsMask (TasksConst cfg ! t))\<rparr>"
  let ?s1 = "s\<lparr>TasksVar := (TasksVar s)[t := ?v]\<rparr>"
  have t: "t < TASKS_COUNT cfg" and T: "length (TasksVar s) = TASKS_COUNT cfg"
    using False kinvD(1) [OF os_invD(2) [OF s]] by auto
  have i1: "os_inv cfg ?s1" using os_inv_same [OF s t, of ?v] by simp
  show ?thesis
  proof (cases "State ?v = WAITING \<and> EventsWait ?v AND Events ?v \<noteq> 0")
    case wake: True
    then have "State (TasksVar ?s1 ! t) = WAITING" using t T by simp
    from wake_inv [OF c i1 t this] obtain s2 s3 where add: "AddReady cfg t ?s1 = Some s2"
      and upd: "upd_task t (\<lambda>tv. tv\<lparr>State := READY\<rparr>) s2 = Some s3" and i3: "os_inv cfg s3"
      and env: "RunningTask s3 = RunningTask s" "ActualContext s3 = ActualContext s" "same_env ?s1 s3"
      by auto
    have "\<exists>s'. SetEvent cfg t m s = Some (E_OK, s') \<and> os_inv cfg s' \<and>
        ActualContext s' = ActualContext s \<and>
        (RunningTask s \<noteq> INVALID_TASK \<longrightarrow> RunningTask s' \<noteq> INVALID_TASK) \<and>
        (ActualContext s \<noteq> CONTEXT_TASK \<longrightarrow> RunningTask s' = RunningTask s) \<and>
        AlarmsVar s' = AlarmsVar s \<and> CountersVar s' = CountersVar s"
    proof (cases "ActualContext s = CONTEXT_TASK")
      case task: True
      then have run: "RunningTask s3 \<noteq> INVALID_TASK" and x: "ctx_ok s3"
        using ctx env by (auto simp: ctx_ok_def)
      have r: "RunningTask s < TASKS_COUNT cfg" using running_valid(1) [OF c s] ctx task by blast
      obtain ret' s4 where sch: "Schedule cfg s3 = Some (ret', s4)" "os_inv cfg s4" "ctx_ok s4"
        "RunningTask s4 \<noteq> INVALID_TASK" "AlarmsVar s4 = AlarmsVar s3" "CountersVar s4 = CountersVar s3"
        using Schedule_task [OF c i3 x run] by blast
      have set: "SetEvent cfg t m s = Some (E_OK, if Preemtive (TasksConst cfg ! RunningTask s) then s4 else s3)"
        using False wake t T add upd env task r sch(1) by (simp add: SetEvent_def mem_simps)
      then show ?thesis
        using i3 sch(2-) run env x task
        by (auto simp: same_env_def ctx_ok_def split: if_splits)
    next
      case False
      with \<open>\<not> (TASKS_COUNT cfg \<le> t \<or> _)\<close> wake t T add upd env i3 show ?thesis
        by (auto simp: SetEvent_def mem_simps same_env_def)
    qed
    then show ?thesis by blast
  next
    case stay: False
    then have "SetEvent cfg t m s = Some (E_OK, ?s1)"
      using False t T by (auto simp: SetEvent_def mem_simps)
    with i1 show ?thesis by auto
  qed
qed

lemma ClearEvent_inv:
  assumes c: "cfg_ok cfg" and s: "os_inv cfg s" and x: "ctx_ok s" and run: "RunningTask s \<noteq> INVALID_TASK"
  shows "\<exists>ret s'. ClearEvent cfg m s = Some (ret, s') \<and> os_inv cfg s' \<and> ctx_ok s' \<and>
    AlarmsVar s' = AlarmsVar s \<and> CountersVar s' = CountersVar s"
proof -
  note r = running_valid [OF c s run]
  have inv: "os_inv cfg (s\<lparr>TasksVar := (TasksVar s)[RunningTask s := (TasksVar s ! RunningTask s)
      \<lparr>Events := e\<rparr>]\<rparr>)" for e
    using os_inv_same [OF s r(1), of "(TasksVar s ! RunningTask s)\<lparr>Events := e\<rparr>"] by simp
  then show ?thesis
    using r(1,4) s x ctx_task [OF x run]
    by (cases "Extended (TasksConst cfg ! RunningTask s)") (simp_all add: ClearEvent_def mem_simps ctx_ok_def)
qed

text \<open>The running task goes to sleep: it leaves its ready list and another task is chosen.\<close>

lemma SaveContext_inv:
  assumes c: "cfg_ok cfg" and s: "os_inv cfg s" and run: "RunningTask s \<noteq> INVALID_TASK"
    and ext: "Extended (TasksConst cfg ! RunningTask s)" and res: "\<not> holds (TasksVar s ! RunningTask s)"
  shows "\<exists>s'. SaveContext cfg (s\<lparr>TasksVar := (TasksVar s)[RunningTask s :=
      (TasksVar s ! RunningTask s)\<lparr>State := WAITING, EventsWait := m\<rparr>]\<rparr>) = Some s' \<and>
    os_inv cfg s' \<and> ctx_ok s' \<and> settled cfg s' \<and> same_env s s' \<and>
    TasksVar s' ! RunningTask s = (TasksVar s ! RunningTask s)\<lparr>State := WAITING, EventsWait := m\<rparr>"
proof -
  let ?r = "RunningTask s" and ?v = "(TasksVar s ! RunningTask s)\<lparr>State := WAITING, EventsWait := m\<rparr>"
  note sh = os_invD(1) [OF s] and k = os_invD(2) [OF s]
  note r = running_valid [OF c s run]
  have a1: "Activations (TasksVar s ! ?r) = 1"
    using kinvD(3) [OF k r(1)] r(2) cfg_okD(4) [OF c r(1)] ext by (auto simp: counts_ok_def task_ok_def)
  let ?s1 = "s\<lparr>TasksVar := (TasksVar s)[?r := ?v], WaitingTask := ?r\<rparr>"
  have "shape cfg ?s1" using sh r(4) by (simp add: shape_def)
  moreover have "rq ?s1 (level cfg ?r) \<noteq> []" using r(3) by (simp add: heads_def)
  ultimately obtain rv where rem: "RemoveTask cfg ?r ?s1 = Some (?s1\<lparr>ReadyVar := rv\<rparr>)"
    and sh': "shape cfg (?s1\<lparr>ReadyVar := rv\<rparr>)"
    and q: "\<And>i. i < READYLISTS_COUNT cfg \<Longrightarrow> rq (?s1\<lparr>ReadyVar := rv\<rparr>) i =
      (if i = level cfg ?r then tl (rq s i) else rq s i)"
    using RemoveTask_queue [OF c, of ?s1 ?r] r(1) by auto
  let ?s2 = "?s1\<lparr>ReadyVar := rv, ActualContext := CONTEXT_SYS, RunningTask := INVALID_TASK\<rparr>"
  have "kinv cfg ((rq s)(level cfg ?r := tl (rq s (level cfg ?r)))) (TasksVar ?s2) INVALID_TASK"
    using kinv_leave [OF c k run, of ?v] res a1 ext by simp
  moreover have "rq ?s2 i = (if i = level cfg ?r then tl (rq s i) else rq s i)"
    if "i < READYLISTS_COUNT cfg" for i
    using q [OF that] by (simp add: rq_def)
  ultimately have "kinv cfg (rq ?s2) (TasksVar ?s2) INVALID_TASK"
    using kinv_cong [OF c, of "rq ?s2" "(rq s)(level cfg ?r := tl (rq s (level cfg ?r)))"] by simp
  moreover have "shape cfg ?s2" using sh' by (simp add: shape_def)
  ultimately have i2: "os_inv cfg ?s2" by (simp add: os_inv_def)
  obtain s' where d: "Schedule cfg ?s2 = Some (E_OK, s')" "os_inv cfg s'" "settled cfg s'" "same_env ?s2 s'"
    "if RunningTask s' = RunningTask ?s2 then s' = ?s2 else ActualContext s' = CONTEXT_TASK"
    "\<forall>t. \<not> active (State (TasksVar ?s2 ! t)) \<longrightarrow> TasksVar s' ! t = TasksVar ?s2 ! t"
    using Schedule_sys [OF c i2] by auto
  have "ctx_ok s'" using d(5) by (auto simp: ctx_ok_def split: if_splits)
  moreover have "SaveContext cfg (s\<lparr>TasksVar := (TasksVar s)[?r := ?v]\<rparr>) = Some s'"
    using r(1,4) rem d(1) by (simp add: SaveContext_def mem_simps)
  moreover have "TasksVar s' ! ?r = ?v"
    using d(6) [rule_format, of ?r] r(1,4) by simp
  ultimately show ?thesis using d(2-4) by (auto simp: same_env_def)
qed

lemma WaitEvent_inv:
  assumes c: "cfg_ok cfg" and s: "os_inv cfg s" and x: "ctx_ok s" and run: "RunningTask s \<noteq> INVALID_TASK"
  shows "\<exists>ret s'. WaitEvent cfg m s = Some (ret, s') \<and> os_inv cfg s' \<and> ctx_ok s' \<and>
    AlarmsVar s' = AlarmsVar s \<and> CountersVar s' = CountersVar s \<and>
    ret = (if \<not> Extended (TasksConst cfg ! RunningTask s) then E_OS_ACCESS
      else if holds (TasksVar s ! RunningTask s) then E_OS_RESOURCE else E_OK)"
proof (cases "Extended (TasksConst cfg ! RunningTask s) \<and> \<not> holds (TasksVar s ! RunningTask s) \<and>
    m AND Events (TasksVar s ! RunningTask s) = 0")
  case True
  then obtain s' where "SaveContext cfg (s\<lparr>TasksVar := (TasksVar s)[RunningTask s :=
      (TasksVar s ! RunningTask s)\<lparr>State := WAITING, EventsWait := m\<rparr>]\<rparr>) = Some s'"
    "os_inv cfg s'" "ctx_ok s'" "AlarmsVar s' = AlarmsVar s" "CountersVar s' = CountersVar s"
    using SaveContext_inv [OF c s run] unfolding same_env_def by blast
  with True running_valid(1,4) [OF c s run] ctx_task [OF x run] show ?thesis
    by (simp add: WaitEvent_def mem_simps)
next
  case False
  with running_valid(1,4) [OF c s run] ctx_task [OF x run] s x show ?thesis
    by (auto simp: WaitEvent_def mem_simps)
qed

section \<open>Resources\<close>

lemma res_bit_iff: "(w AND res_bit i \<noteq> 0) \<longleftrightarrow> bit w i"
  by (simp add: res_bit_def push_bit_eq_mult and_exp_eq_0_iff_not_bit)

lemma bit_res_bit: "i < 32 \<Longrightarrow> bit (w OR res_bit i) j \<longleftrightarrow> bit w j \<or> j = i"
  "i < 32 \<Longrightarrow> bit (w AND NOT (res_bit i)) j \<longleftrightarrow> bit w j \<and> j \<noteq> i"
  by (auto simp: res_bit_def bit_simps dest: bit_imp_le_length)

lemma kinv_take:
  assumes c: "cfg_ok cfg" and k: "kinv cfg q T r" and r: "r \<noteq> INVALID_TASK" and i: "i < RESOURCES_COUNT cfg"
    and may: "bit (ResourcesMask (TasksConst cfg ! r)) i"
    and v: "v = (T ! r)\<lparr>ActualPriority := max (ActualPriority (T ! r)) (ResourcesPriority cfg ! i),
      Resources := Resources (T ! r) OR res_bit i\<rparr>"
  shows "kinv cfg q (T[r := v]) r"
proof -
  note kd = kinvD [OF k]
  have run: "r < TASKS_COUNT cfg" "heads cfg q r" "State (T ! r) = RUNNING"
    using kd(5) r by (auto simp: running_ok_def)
  have i32: "i < 32" using c i by (simp add: cfg_ok_def)
  have T: "T[r := v] ! u = (if u = r then v else T ! u)" if "u < TASKS_COUNT cfg" for u
    using that kd(1) by (simp add: nth_list_update)
  have "counts_ok cfg q (T[r := v] ! u) u" if "u < TASKS_COUNT cfg" for u
    using kd(3) [OF that] unfolding T [OF that] counts_ok_def by (auto simp: v)
  moreover have "prio_ok cfg q (T[r := v] ! u) u" if "u < TASKS_COUNT cfg" for u
  proof (cases "u = r")
    case True
    have "bit (Resources v) i" using i32 by (simp add: v bit_res_bit)
    then have "holds v" by auto
    with True kd(4) [OF run(1)] run i may show ?thesis
      unfolding T [OF that] prio_ok_def
      by (auto simp: v bit_res_bit(1) [OF i32] le_max_iff_disj)
  qed (use kd(4) [OF that] in \<open>simp add: T [OF that]\<close>)
  moreover have st: "State v = RUNNING" using run(3) by (simp add: v)
  then have "running_ok cfg q (T[r := v]) r"
    using kd(5) r by (auto simp: running_ok_def T)
  moreover have "ceiling_ok cfg (T[r := v]) r"
    using kd(6) r by (auto simp: ceiling_ok_def T)
  ultimately show ?thesis using kd(1,2) by (simp add: kinv_def)
qed

lemma GetResource_inv:
  assumes c: "cfg_ok cfg" and s: "os_inv cfg s" and x: "ctx_ok s" and run: "RunningTask s \<noteq> INVALID_TASK"
  shows "\<exists>ret s'. GetResource cfg i s = Some (ret, s') \<and> os_inv cfg s' \<and> ctx_ok s' \<and>
    AlarmsVar s' = AlarmsVar s \<and> CountersVar s' = CountersVar s \<and>
    RunningTask s' = RunningTask s \<and>
    ret = (if RESOURCES_COUNT cfg \<le> i then E_OS_ID
      else if bit (Resources (TasksVar s ! RunningTask s)) i \<or>
        \<not> bit (ResourcesMask (TasksConst cfg ! RunningTask s)) i then E_OS_ACCESS else E_OK) \<and>
    (ret = E_OK \<longrightarrow> TasksVar s' = (TasksVar s)[RunningTask s := (TasksVar s ! RunningTask s)
       \<lparr>ActualPriority := max (ActualPriority (TasksVar s ! RunningTask s)) (ResourcesPriority cfg ! i),
        Resources := Resources (TasksVar s ! RunningTask s) OR res_bit i\<rparr>])"
proof -
  let ?r = "RunningTask s" and ?v = "TasksVar s ! RunningTask s"
  note r = running_valid [OF c s run]
  show ?thesis
  proof (cases "RESOURCES_COUNT cfg \<le> i \<or> bit (Resources ?v) i \<or>
      \<not> bit (ResourcesMask (TasksConst cfg ! ?r)) i")
    case True
    with r(1,4) s x show ?thesis
      by (cases "RESOURCES_COUNT cfg \<le> i") (auto simp: GetResource_def mem_simps res_bit_iff)
  next
    case False
    let ?w = "?v\<lparr>ActualPriority := max (ActualPriority ?v) (ResourcesPriority cfg ! i),
      Resources := Resources ?v OR res_bit i\<rparr>"
    let ?s' = "s\<lparr>TasksVar := (TasksVar s)[?r := ?w]\<rparr>"
    have "GetResource cfg i s = Some (E_OK, ?s')"
      using False r(1,4) by (auto simp: GetResource_def mem_simps res_bit_iff max_def)
    moreover have "kinv cfg (rq s) (TasksVar ?s') ?r"
      using kinv_take [OF c os_invD(2) [OF s] run _ _ refl] False by simp
    then have "os_inv cfg ?s'" using os_invD(1) [OF s] r(4) by (simp add: os_inv_def shape_TasksVar)
    ultimately show ?thesis using False x by (simp add: ctx_ok_def)
  qed
qed

lemma held_ceiling_max:
  "set is \<subseteq> {..<RESOURCES_COUNT cfg} \<Longrightarrow> \<exists>p'. held_ceiling cfg R is p = Some p' \<and> p \<le> p' \<and>
    (\<forall>i\<in>set is. bit R i \<longrightarrow> ResourcesPriority cfg ! i \<le> p') \<and>
    (p' = p \<or> (\<exists>i\<in>set is. bit R i \<and> p' = ResourcesPriority cfg ! i))"
proof (induction "is" arbitrary: p)
  case (Cons i js)
  let ?c = "ResourcesPriority cfg ! i"
  have rd: "rd (ResourcesPriority cfg) i = Some ?c" using Cons.prems by (simp add: mem_simps)
  show ?case
  proof (cases "bit R i")
    case True
    with Cons.IH [of "if p < ?c then ?c else p"] Cons.prems rd show ?thesis
      by (fastforce simp: res_bit_iff split: if_splits)
  next
    case False
    with Cons.IH [of p] Cons.prems show ?thesis
      using res_bit_iff [of R i] by auto
  qed
qed simp

text \<open>
  Lowering the priority of the running task to what the resources it keeps ask for is safe:
  every other holder is below its static priority.
\<close>

lemma kinv_release:
  assumes k: "kinv cfg q T r" and r: "r \<noteq> INVALID_TASK" and i: "i < 32"
    and p: "prio_of cfg r \<le> p"
      "\<And>j. bit (Resources (T ! r)) j \<Longrightarrow> j \<noteq> i \<Longrightarrow> ResourcesPriority cfg ! j \<le> p"
      "Resources (T ! r) AND NOT (res_bit i) = 0 \<Longrightarrow> p = prio_of cfg r"
    and v: "v = (T ! r)\<lparr>Resources := Resources (T ! r) AND NOT (res_bit i), ActualPriority := p\<rparr>"
  shows "kinv cfg q (T[r := v]) r"
proof -
  note kd = kinvD [OF k]
  have run: "r < TASKS_COUNT cfg" "heads cfg q r" "State (T ! r) = RUNNING"
    using kd(5) r by (auto simp: running_ok_def)
  have T: "T[r := v] ! u = (if u = r then v else T ! u)" if "u < TASKS_COUNT cfg" for u
    using that kd(1) by (simp add: nth_list_update)
  have "counts_ok cfg q (T[r := v] ! u) u" if "u < TASKS_COUNT cfg" for u
    using kd(3) [OF that] unfolding T [OF that] counts_ok_def by (auto simp: v)
  moreover have "prio_ok cfg q (T[r := v] ! u) u" if "u < TASKS_COUNT cfg" for u
  proof (cases "u = r")
    case True
    with kd(4) [OF run(1)] run p show ?thesis
      unfolding T [OF that] prio_ok_def by (auto simp: v bit_res_bit(2) [OF i])
  qed (use kd(4) [OF that] in \<open>simp add: T [OF that]\<close>)
  moreover have st: "State v = RUNNING" using run(3) by (simp add: v)
  then have "running_ok cfg q (T[r := v]) r"
    using kd(5) r by (auto simp: running_ok_def T)
  moreover have "ceiling_ok cfg (T[r := v]) r"
    using kd(6) r by (auto simp: ceiling_ok_def T)
  ultimately show ?thesis using kd(1,2) by (simp add: kinv_def)
qed

lemma ReleaseResource_inv:
  assumes c: "cfg_ok cfg" and s: "os_inv cfg s" and x: "ctx_ok s" and run: "RunningTask s \<noteq> INVALID_TASK"
  shows "\<exists>ret s'. ReleaseResource cfg i s = Some (ret, s') \<and> os_inv cfg s' \<and> ctx_ok s' \<and>
    AlarmsVar s' = AlarmsVar s \<and> CountersVar s' = CountersVar s \<and>
    ret = (if RESOURCES_COUNT cfg \<le> i then E_OS_ID
      else if bit (Resources (TasksVar s ! RunningTask s)) i then E_OK else E_OS_NOFUNC)"
proof -
  let ?r = "RunningTask s" and ?v = "TasksVar s ! RunningTask s"
  note r = running_valid [OF c s run]
  show ?thesis
  proof (cases "i < RESOURCES_COUNT cfg \<and> bit (Resources ?v) i")
    case False
    have rc: "rd (TasksConst cfg) ?r = Some (TasksConst cfg ! ?r)" "rd (TasksVar s) ?r = Some ?v"
      using r by (simp_all add: mem_simps)
    from False show ?thesis
      using s x rc res_bit_iff [of "Resources ?v" i]
      by (cases "RESOURCES_COUNT cfg \<le> i") (auto simp: ReleaseResource_def)
  next
    case True
    let ?R = "Resources ?v AND NOT (res_bit i)"
    have i32: "i < 32" using c True by (simp add: cfg_ok_def)
    have "set [0..<RESOURCES_COUNT cfg] \<subseteq> {..<RESOURCES_COUNT cfg}" by auto
    from held_ceiling_max [OF this, of ?R "prio_of cfg ?r"]
    obtain p where p: "held_ceiling cfg ?R [0..<RESOURCES_COUNT cfg] (prio_of cfg ?r) = Some p"
      "prio_of cfg ?r \<le> p"
      "\<forall>j\<in>set [0..<RESOURCES_COUNT cfg]. bit ?R j \<longrightarrow> ResourcesPriority cfg ! j \<le> p"
      "p = prio_of cfg ?r \<or>
        (\<exists>j\<in>set [0..<RESOURCES_COUNT cfg]. bit ?R j \<and> p = ResourcesPriority cfg ! j)"
      by blast
    let ?w = "?v\<lparr>Resources := ?R, ActualPriority := p\<rparr>"
    let ?s1 = "s\<lparr>TasksVar := (TasksVar s)[?r := ?w]\<rparr>"
    have held: "bit (Resources ?v) j \<Longrightarrow> j < RESOURCES_COUNT cfg" for j
      using kinvD(4) [OF os_invD(2) [OF s] r(1)] by (auto simp: prio_ok_def)
    have "p = prio_of cfg ?r" if "?R = 0" using p(4) unfolding that by simp
    moreover have "ResourcesPriority cfg ! j \<le> p" if "bit (Resources ?v) j" "j \<noteq> i" for j
      using p(3) held [OF that(1)] that by (auto simp: bit_res_bit(2) [OF i32])
    ultimately have "kinv cfg (rq s) (TasksVar ?s1) ?r"
      using kinv_release [OF os_invD(2) [OF s] run i32 p(2) _ _ refl] by simp
    then have i1: "os_inv cfg ?s1" using os_invD(1) [OF s] r(4) by (simp add: os_inv_def shape_TasksVar)
    have x1: "ctx_ok ?s1" using x by (simp add: ctx_ok_def)
    obtain ret' s2 where sch: "Schedule cfg ?s1 = Some (ret', s2)" "os_inv cfg s2" "ctx_ok s2"
      "AlarmsVar s2 = AlarmsVar s" "CountersVar s2 = CountersVar s"
      using Schedule_task [OF c i1 x1] run by auto
    have "ReleaseResource cfg i s = Some (E_OK, if Preemtive (TasksConst cfg ! ?r) then s2 else ?s1)"
      using True r(1,4) p(1) sch(1) ctx_task [OF x run] res_bit_iff [of "Resources ?v" i]
      by (simp add: ReleaseResource_def mem_simps)
    then show ?thesis using True i1 x1 sch(2-) by simp
  qed
qed

end
