(* ===== verification/OsTiming.thy ===== *)
theory OsTiming
  imports OsProtocol
begin

text \<open>
  Counters and alarms: the two loops of the code end and compute what they should, and a
  tick keeps the kernel invariant and the bounds on the alarm times.
\<close>

section \<open>The loops\<close>

lemma counter_wrap_mod: "0 < m \<Longrightarrow> counter_wrap m t = Some (t mod m)"
proof (induction t rule: less_induct)
  case (less t)
  show ?case
  proof (cases "m \<le> t")
    case True
    with less.IH [of "t - m"] less.prems show ?thesis
      by (subst counter_wrap.simps) (simp add: le_mod_geq)
  next
    case False
    then show ?thesis by (subst counter_wrap.simps) simp
  qed
qed

text \<open>
  The number of cycles a cyclic alarm at \<open>t\<close> needs to pass an increment of \<open>n\<close>: the code
  adds cycles until the time is above the increment.
\<close>

definition expirations :: "nat \<Rightarrow> nat \<Rightarrow> nat \<Rightarrow> nat" where
  "expirations cycle n t = (if t \<le> n then Suc ((n - t) div cycle) else 0)"

lemma expirations_step:
  "0 < cycle \<Longrightarrow> t \<le> n \<Longrightarrow> expirations cycle n t = Suc (expirations cycle n (t + cycle))"
  by (auto simp: expirations_def le_div_geq not_le Suc_diff_le)

lemma alarm_catchup_expirations:
  assumes "0 < cycle" and "n + cycle < 2 ^ 32" and "t < 2 ^ 32" and "count + expirations cycle n t < 2 ^ 32"
  shows "alarm_catchup cycle n t count =
    Some (t + expirations cycle n t * cycle, count + expirations cycle n t)"
  using assms(3,4)
proof (induction "Suc n - t" arbitrary: t count rule: less_induct)
  case less
  show ?case
  proof (cases "t \<le> n")
    case True
    have e: "expirations cycle n t = Suc (expirations cycle n (t + cycle))"
      using expirations_step [OF assms(1) True] .
    have t': "(t + cycle) mod 2 ^ 32 = t + cycle" using True assms(2) by simp
    have c': "(count + 1) mod 2 ^ 32 = Suc count" using less.prems e by simp
    have "alarm_catchup cycle n (t + cycle) (Suc count) =
        Some (t + cycle + expirations cycle n (t + cycle) * cycle, Suc count + expirations cycle n (t + cycle))"
    proof (rule less.hyps)
      show "Suc n - (t + cycle) < Suc n - t" using True assms(1) by simp
      show "t + cycle < 2 ^ 32" using True assms(2) by simp
      show "Suc count + expirations cycle n (t + cycle) < 2 ^ 32" using less.prems e by simp
    qed
    with True t' c' e show ?thesis
      by (subst alarm_catchup.simps) (simp add: algebra_simps)
  next
    case False
    then show ?thesis by (subst alarm_catchup.simps) (simp add: expirations_def)
  qed
qed

text \<open>After the loop the alarm is due within one cycle after the increment.\<close>

lemma expirations_due:
  assumes "0 < cycle"
  shows "n < t + expirations cycle n t * cycle"
    "t \<le> n \<Longrightarrow> t + expirations cycle n t * cycle \<le> n + cycle"
    "expirations cycle n t \<le> Suc n"
proof -
  have d: "(n - t) div cycle * cycle \<le> n - t" "n - t < cycle + (n - t) div cycle * cycle"
    by (rule div_times_less_eq_dividend) (rule dividend_less_div_times [OF assms])
  have e: "expirations cycle n t * cycle = cycle + (n - t) div cycle * cycle" if "t \<le> n"
    using that by (simp add: expirations_def)
  show "n < t + expirations cycle n t * cycle"
  proof (cases "t \<le> n")
    case True
    with d e show ?thesis by linarith
  qed simp
  show "t + expirations cycle n t * cycle \<le> n + cycle" if "t \<le> n"
    using d that e [OF that] by linarith
  have "(n - t) div cycle \<le> n" by (metis div_le_dividend diff_le_self order_trans)
  then show "expirations cycle n t \<le> Suc n" by (simp add: expirations_def)
qed

section \<open>Configurations and alarm states\<close>

text \<open>
  Alarm and counter tables refer to each other within bounds, maxima fit in 31 bits, and
  every chain of alarms that increment counters is shorter than the fuel.
\<close>

fun nest_ok :: "os_cfg \<Rightarrow> nat \<Rightarrow> nat \<Rightarrow> bool" where
  "nest_ok cfg 0 c = False"
| "nest_ok cfg (Suc n) c \<longleftrightarrow> c < length (CountersConst cfg) \<and>
     (\<forall>a\<in>set (AlarmRef (CountersConst cfg ! c)). a < ALARMS_COUNT cfg \<and>
       (case AlarmAction (AlarmsConst cfg ! a) of INCREMENT c' \<Rightarrow> nest_ok cfg n c' | _ \<Rightarrow> True))"

definition alarm_cfg_ok :: "os_cfg \<Rightarrow> bool" where
  "alarm_cfg_ok cfg \<longleftrightarrow>
     (\<forall>a<ALARMS_COUNT cfg. AlarmCounter (AlarmsConst cfg ! a) < length (CountersConst cfg)) \<and>
     (\<forall>c<length (CountersConst cfg). 0 < MaxAllowedValue (CountersConst cfg ! c) \<and>
        MaxAllowedValue (CountersConst cfg ! c) < 2 ^ 31)"

definition alarms_ok :: "os_cfg \<Rightarrow> os_state \<Rightarrow> bool" where
  "alarms_ok cfg s \<longleftrightarrow> length (AlarmsVar s) = ALARMS_COUNT cfg \<and>
     length (CountersVar s) = length (CountersConst cfg) \<and>
     (\<forall>a<ALARMS_COUNT cfg. AlarmTime (AlarmsVar s ! a) < 2 ^ 32 \<and> AlarmCycleTime (AlarmsVar s ! a) < 2 ^ 31) \<and>
     (\<forall>c<length (CountersConst cfg). CountersVar s ! c < MaxAllowedValue (CountersConst cfg ! c))"

lemma upd_alarm_in [mem_simps]:
  "a < length (AlarmsVar s) \<Longrightarrow>
    upd_alarm a f s = Some (s\<lparr>AlarmsVar := (AlarmsVar s)[a := f (AlarmsVar s ! a)]\<rparr>)"
  by (simp add: upd_alarm_def mem_simps)

lemma alarms_ok_upd:
  "alarms_ok cfg s \<Longrightarrow> a < ALARMS_COUNT cfg \<Longrightarrow> AlarmTime v < 2 ^ 32 \<Longrightarrow> AlarmCycleTime v < 2 ^ 31 \<Longrightarrow>
    alarms_ok cfg (s\<lparr>AlarmsVar := (AlarmsVar s)[a := v]\<rparr>)"
  by (auto simp: alarms_ok_def nth_list_update)

text \<open>What the handling of a tick keeps.\<close>

definition tick_ok :: "os_cfg \<Rightarrow> os_state \<Rightarrow> os_state \<Rightarrow> bool" where
  "tick_ok cfg s s' \<longleftrightarrow> os_inv cfg s' \<and> alarms_ok cfg s' \<and> RunningTask s' = RunningTask s \<and>
     ActualContext s' = ActualContext s"

lemma tick_ok_trans: "tick_ok cfg a b \<Longrightarrow> tick_ok cfg b c \<Longrightarrow> tick_ok cfg a c"
  by (simp add: tick_ok_def)

lemma alarms_ok_cong:
  "AlarmsVar s' = AlarmsVar s \<Longrightarrow> CountersVar s' = CountersVar s \<Longrightarrow> alarms_ok cfg s' = alarms_ok cfg s"
  by (simp add: alarms_ok_def)

lemma alarm_actions_ok:
  assumes c: "cfg_ok cfg" and s: "os_inv cfg s" "alarms_ok cfg s" "ActualContext s \<noteq> CONTEXT_TASK"
  shows "\<exists>s'. alarm_actions cfg act n s = Some s' \<and> tick_ok cfg s s'"
  using s
proof (induction n arbitrary: s)
  case (Suc n)
  let ?one = "case act of
         ACTIVATETASK t \<Rightarrow> do { (_, s) \<leftarrow> ActivateTask cfg t s; Some s }
       | ALARMCALLBACK cb \<Rightarrow> Some (case cb of None \<Rightarrow> s | Some f \<Rightarrow> s\<lparr>Callbacks := Callbacks s @ [f]\<rparr>)
       | SETEVENT t e \<Rightarrow> do { (_, s) \<leftarrow> SetEvent cfg t e s; Some s }
       | INCREMENT c \<Rightarrow> Some s"
  have "\<exists>s1. ?one = Some s1 \<and> tick_ok cfg s s1"
  proof (cases act)
    case (ALARMCALLBACK cb)
    with Suc.prems show ?thesis
      by (cases cb) (auto simp: tick_ok_def alarms_ok_cong [of "s\<lparr>Callbacks := _\<rparr>" s])
  next
    case (SETEVENT t e)
    obtain ret s1 where "SetEvent cfg t e s = Some (ret, s1)" "os_inv cfg s1"
      "ActualContext s1 = ActualContext s" "RunningTask s1 = RunningTask s"
      "AlarmsVar s1 = AlarmsVar s" "CountersVar s1 = CountersVar s"
      using SetEvent_inv [OF c Suc.prems(1), of t e] Suc.prems(3) by auto
    with SETEVENT Suc.prems show ?thesis by (simp add: tick_ok_def alarms_ok_cong [of s1 s])
  next
    case (ACTIVATETASK t)
    obtain ret s1 where "ActivateTask cfg t s = Some (ret, s1)" "os_inv cfg s1"
      "ActualContext s1 = ActualContext s" "RunningTask s1 = RunningTask s"
      "AlarmsVar s1 = AlarmsVar s" "CountersVar s1 = CountersVar s"
      using ActivateTask_inv [OF c Suc.prems(1), of t] Suc.prems(3) by auto
    with ACTIVATETASK Suc.prems show ?thesis by (simp add: tick_ok_def alarms_ok_cong [of s1 s])
  next
    case (INCREMENT x)
    with Suc.prems show ?thesis by (simp add: tick_ok_def)
  qed
  then obtain s1 where s1: "?one = Some s1" "tick_ok cfg s s1" by blast
  moreover have "\<exists>s'. alarm_actions cfg act n s1 = Some s' \<and> tick_ok cfg s1 s'"
    using s1(2) Suc.prems(3) by (intro Suc.IH) (auto simp: tick_ok_def)
  ultimately show ?case by (auto intro: tick_ok_trans)
qed (simp add: tick_ok_def)

lemma alarm_advance_ok:
  assumes s: "os_inv cfg s" "alarms_ok cfg s" and a: "a < ALARMS_COUNT cfg" and inc: "inc < 2 ^ 31"
  shows "\<exists>rest exp s'. alarm_advance a inc s = Some (rest, exp, s') \<and> tick_ok cfg s s' \<and>
    (\<forall>n. exp = Some n \<longrightarrow> n \<le> Suc inc)"
proof -
  let ?v = "AlarmsVar s ! a"
  have l: "a < length (AlarmsVar s)" and b: "AlarmTime ?v < 2 ^ 32" "AlarmCycleTime ?v < 2 ^ 31"
    using s(2) a by (auto simp: alarms_ok_def)
  have up: "tick_ok cfg s (s\<lparr>AlarmsVar := (AlarmsVar s)[a := v]\<rparr>)"
    if "AlarmTime v < 2 ^ 32" "AlarmCycleTime v < 2 ^ 31" for v
    using s alarms_ok_upd [OF s(2) a that] by (simp add: tick_ok_def)
  consider (later) "inc < AlarmTime ?v" | (once) "AlarmTime ?v \<le> inc" "AlarmCycleTime ?v = 0"
    | (cyclic) "AlarmTime ?v \<le> inc" "0 < AlarmCycleTime ?v"
    by linarith
  then show ?thesis
  proof cases
    case later
    with l b up [of "?v\<lparr>AlarmTime := AlarmTime ?v - inc\<rparr>"] show ?thesis
      by (simp add: alarm_advance_def mem_simps)
  next
    case once
    with l b up [of "?v\<lparr>AlarmTime := 0, AlarmState := 0\<rparr>"] show ?thesis
      by (simp add: alarm_advance_def mem_simps)
  next
    case cyclic
    let ?e = "expirations (AlarmCycleTime ?v) inc (AlarmTime ?v)"
    note due = expirations_due [OF cyclic(2), where n = inc and t = "AlarmTime ?v"]
    have "alarm_catchup (AlarmCycleTime ?v) inc (AlarmTime ?v) 0 =
        Some (AlarmTime ?v + ?e * AlarmCycleTime ?v, ?e)"
      using alarm_catchup_expirations [OF cyclic(2), of inc "AlarmTime ?v" 0] inc b due(3) by simp
    moreover have "AlarmTime ?v + ?e * AlarmCycleTime ?v - inc < 2 ^ 32"
    proof -
      have "(2::nat) ^ 31 < 2 ^ 32" by simp
      with due(2) [OF cyclic(1)] b(2) show ?thesis by linarith
    qed
    ultimately show ?thesis
      using cyclic l b due(3) up [of "?v\<lparr>AlarmTime := AlarmTime ?v + ?e * AlarmCycleTime ?v - inc\<rparr>"]
      by (simp add: alarm_advance_def mem_simps)
  qed
qed

section \<open>A tick\<close>

lemma IncrementCounter_ok:
  assumes c: "cfg_ok cfg" and ac: "alarm_cfg_ok cfg"
    and "nest_ok cfg n k" and "inc + n < 2 ^ 31" and "os_inv cfg s" "alarms_ok cfg s"
      "ActualContext s \<noteq> CONTEXT_TASK"
  shows "\<exists>m s'. IncrementCounter cfg n k inc s = Some (m, s') \<and> tick_ok cfg s s'"
  using assms(3-)
proof (induction n arbitrary: k inc s)
  case (Suc n)
  let ?k = "CountersConst cfg ! k"
  have k: "k < length (CountersConst cfg)" using Suc.prems(1) by simp
  have one: "\<exists>m s'. IncrementAlarm cfg n a inc s1 = Some (m, s') \<and> tick_ok cfg s1 s'"
    if a: "a \<in> set (AlarmRef ?k)" and s1: "os_inv cfg s1" "alarms_ok cfg s1"
      "ActualContext s1 \<noteq> CONTEXT_TASK" for a s1
  proof -
    have al: "a < ALARMS_COUNT cfg" using Suc.prems(1) a by simp
    have "inc < 2 ^ 31" using Suc.prems(2) by simp
    from alarm_advance_ok [OF s1(1,2) al this] obtain rest e s2 where
      adv: "alarm_advance a inc s1 = Some (rest, e, s2)" and t2: "tick_ok cfg s1 s2"
      and e: "\<And>m. e = Some m \<Longrightarrow> m \<le> Suc inc"
      by blast
    have s2: "os_inv cfg s2" "alarms_ok cfg s2" "ActualContext s2 \<noteq> CONTEXT_TASK"
      using t2 s1(3) by (auto simp: tick_ok_def)
    show ?thesis
    proof (cases e)
      case None
      with adv t2 show ?thesis by simp
    next
      case (Some m)
      have rdc: "rd (AlarmsConst cfg) a = Some (AlarmsConst cfg ! a)" using al by (simp add: mem_simps)
      show ?thesis
      proof (cases "\<exists>k'. AlarmAction (AlarmsConst cfg ! a) = INCREMENT k'")
        case True
        then obtain k' where k': "AlarmAction (AlarmsConst cfg ! a) = INCREMENT k'" by blast
        then have "nest_ok cfg n k'" using Suc.prems(1) a by fastforce
        moreover have "m + n < 2 ^ 31" using e [OF Some] Suc.prems(2) by simp
        ultimately obtain m' s3 where "IncrementCounter cfg n k' m s2 = Some (m', s3)" "tick_ok cfg s2 s3"
          using Suc.IH [of k' m s2] s2 by blast
        moreover from this(2) have "a < length (AlarmsVar s3)"
          using al by (simp add: tick_ok_def alarms_ok_def)
        ultimately show ?thesis
          using adv Some rdc k' tick_ok_trans [OF t2] by (auto simp: mem_simps)
      next
        case False
        obtain s3 where "alarm_actions cfg (AlarmAction (AlarmsConst cfg ! a)) m s2 = Some s3" "tick_ok cfg s2 s3"
          using alarm_actions_ok [OF c s2] by blast
        with adv Some rdc False tick_ok_trans [OF t2] show ?thesis
          by (cases "AlarmAction (AlarmsConst cfg ! a)") auto
      qed
    qed
  qed
  have loop: "\<exists>m' s'. alarms_of cfg n as inc m s1 = Some (m', s') \<and> tick_ok cfg s1 s'"
    if "set as \<subseteq> set (AlarmRef ?k)" and "os_inv cfg s1" "alarms_ok cfg s1"
      "ActualContext s1 \<noteq> CONTEXT_TASK" for as m s1
    using that
  proof (induction as arbitrary: m s1)
    case (Cons a as)
    have "a < length (AlarmsVar s1)"
      using Suc.prems(1) Cons.prems by (auto simp: alarms_ok_def)
    then have av: "rd (AlarmsVar s1) a = Some (AlarmsVar s1 ! a)" by (simp add: mem_simps)
    show ?case
    proof (cases "AlarmState (AlarmsVar s1 ! a) = 1")
      case True
      obtain m1 s2 where s2: "IncrementAlarm cfg n a inc s1 = Some (m1, s2)" "tick_ok cfg s1 s2"
        using one [of a s1] Cons.prems by auto
      then have "os_inv cfg s2" "alarms_ok cfg s2" "ActualContext s2 \<noteq> CONTEXT_TASK"
        using Cons.prems(4) by (auto simp: tick_ok_def)
      with Cons.IH [of s2 "if m1 < m then m1 else m"] Cons.prems(1)
      obtain m' s' where "alarms_of cfg n as inc (if m1 < m then m1 else m) s2 = Some (m', s')"
        "tick_ok cfg s2 s'" by auto
      with av True s2 tick_ok_trans [OF s2(2)] show ?thesis by auto
    next
      case False
      with av Cons show ?thesis by auto
    qed
  qed (simp add: tick_ok_def)
  have max: "0 < MaxAllowedValue ?k" using ac k by (simp add: alarm_cfg_ok_def)
  let ?t = "((CountersVar s ! k + inc) mod 2 ^ 32) mod MaxAllowedValue ?k"
  let ?s1 = "s\<lparr>CountersVar := (CountersVar s)[k := ?t]\<rparr>"
  have lk: "k < length (CountersVar s)" using Suc.prems(4) k by (simp add: alarms_ok_def)
  have "alarms_ok cfg ?s1"
    using Suc.prems(4) max k by (auto simp: alarms_ok_def nth_list_update)
  then obtain m' s' where "alarms_of cfg n (AlarmRef ?k) inc (2 ^ 32 - 1) ?s1 = Some (m', s')" "tick_ok cfg ?s1 s'"
    using loop [of "AlarmRef ?k" ?s1 "2 ^ 32 - 1"] Suc.prems(3,5) by auto
  then show ?case
    using k lk counter_wrap_mod [OF max] by (auto simp: mem_simps tick_ok_def)
qed simp

lemma SysTick_inv:
  assumes c: "cfg_ok cfg" and ac: "alarm_cfg_ok cfg" and f: "nest_ok cfg fuel 0" "fuel < 2 ^ 31 - 1"
    and s: "os_inv cfg s" "alarms_ok cfg s" "ctx_ok s"
  shows "\<exists>s1 s'. SysTick_Handler cfg fuel s = Some s1 \<and> idle_loop cfg s1 = Some s' \<and>
    os_inv cfg s' \<and> alarms_ok cfg s' \<and> ctx_ok s' \<and>
    (RunningTask s \<noteq> INVALID_TASK \<longrightarrow> RunningTask s' \<noteq> INVALID_TASK)"
proof -
  let ?s0 = "s\<lparr>ActualContext := CONTEXT_ISR2\<rparr>"
  have "os_inv cfg ?s0" "alarms_ok cfg ?s0" "ActualContext ?s0 \<noteq> CONTEXT_TASK"
    using s by (simp_all add: alarms_ok_def)
  from IncrementCounter_ok [OF c ac f(1) _ this, of 1] f(2) obtain m s2 where
    inc: "IncrementCounter cfg fuel 0 1 ?s0 = Some (m, s2)" and t: "tick_ok cfg ?s0 s2"
    by auto
  let ?s3 = "s2\<lparr>ActualContext := ActualContext s\<rparr>"
  have s3: "os_inv cfg ?s3" "alarms_ok cfg ?s3" "RunningTask ?s3 = RunningTask s" "ctx_ok ?s3"
    using t s(3) by (auto simp: tick_ok_def alarms_ok_def ctx_ok_def)
  show ?thesis
  proof (cases "RunningTask s = INVALID_TASK")
    case True
    then have "SysTick_Handler cfg fuel s = Some ?s3"
      using inc s(3) by (simp add: SysTick_Handler_def ctx_ok_def)
    moreover obtain s' where "dispatch cfg ?s3 = Some s'" "os_inv cfg s'" "same_env ?s3 s'"
      "if RunningTask s' = INVALID_TASK then s' = ?s3 else ActualContext s' = CONTEXT_TASK"
      using dispatch_idle [OF c s3(1)] s3(3) True by metis
    ultimately show ?thesis
      using s3 True by (auto simp: idle_loop_def same_env_def alarms_ok_cong [of s' ?s3] ctx_ok_def split: if_splits)
  next
    case False
    have r: "RunningTask s < TASKS_COUNT cfg" using running_valid(1) [OF c s(1) False] .
    obtain s4 where d: "dispatch cfg ?s3 = Some s4" "os_inv cfg s4" "same_env ?s3 s4"
      "RunningTask s4 \<noteq> INVALID_TASK"
      "if RunningTask s4 = RunningTask ?s3 then s4 = ?s3 else ActualContext s4 = CONTEXT_TASK"
      using dispatch_running [OF c s3(1)] s3(3) False by metis
    have "alarms_ok cfg s4" using d(3) s3(2) by (simp add: same_env_def alarms_ok_def)
    moreover have "ctx_ok s4" using d(4,5) s3(4) by (auto simp: ctx_ok_def split: if_splits)
    moreover have "SysTick_Handler cfg fuel s =
        Some (if Preemtive (TasksConst cfg ! RunningTask s) then s4 else ?s3)"
      using inc r s3(3) d(1) ctx_task [OF s(3) False]
      by (simp add: SysTick_Handler_def mem_simps Schedule_Int_def sched_check_def)
    ultimately show ?thesis
      using d(2,4) s3 False by (auto simp: idle_loop_def)
  qed
qed

end
