(* ===== verification/OsReach.thy ===== *)
theory OsReach
  imports OsTiming
begin

text \<open>
  The running system: tasks call services, the timer ticks, an idle processor looks for
  work. The states reached from \<open>StartOS\<close> keep the kernel invariant, every step of them is
  defined, and the properties of the scheduler and of the resources hold in all of them.

  \<open>ChainTask\<close> is not among the steps: it leaves its target suspended while the target is in
  a ready list, and a later activation then enters it a second time (\<open>OsEvents.ChainTask_double\<close>).
\<close>

section \<open>Steps\<close>

datatype syscall = CActivateTask nat | CTerminateTask | CSchedule | CSetEvent nat uint32
  | CClearEvent uint32 | CWaitEvent uint32 | CGetResource nat | CReleaseResource nat
  | CSetRelAlarm nat nat nat | CSetAbsAlarm nat nat nat | CCancelAlarm nat

fun run_call :: "os_cfg \<Rightarrow> syscall \<Rightarrow> os_state \<Rightarrow> (StatusType \<times> os_state) option" where
  "run_call cfg (CActivateTask t) s = ActivateTask cfg t s"
| "run_call cfg CTerminateTask s = TerminateTask cfg s"
| "run_call cfg CSchedule s = Schedule cfg s"
| "run_call cfg (CSetEvent t m) s = SetEvent cfg t m s"
| "run_call cfg (CClearEvent m) s = ClearEvent cfg m s"
| "run_call cfg (CWaitEvent m) s = WaitEvent cfg m s"
| "run_call cfg (CGetResource r) s = GetResource cfg r s"
| "run_call cfg (CReleaseResource r) s = ReleaseResource cfg r s"
| "run_call cfg (CSetRelAlarm a i c) s = SetRelAlarm cfg a i c s"
| "run_call cfg (CSetAbsAlarm a i c) s = SetAbsAlarm cfg a i c s"
| "run_call cfg (CCancelAlarm a) s = CancelAlarm cfg a s"

inductive os_step :: "os_cfg \<Rightarrow> nat \<Rightarrow> os_state \<Rightarrow> os_state \<Rightarrow> bool" for cfg fuel where
  call: "RunningTask s \<noteq> INVALID_TASK \<Longrightarrow> run_call cfg c s = Some (ret, s') \<Longrightarrow> os_step cfg fuel s s'"
| tick: "SysTick_Handler cfg fuel s = Some s1 \<Longrightarrow> idle_loop cfg s1 = Some s' \<Longrightarrow> os_step cfg fuel s s'"

inductive os_reach :: "os_cfg \<Rightarrow> nat \<Rightarrow> nat \<Rightarrow> os_state \<Rightarrow> bool" for cfg fuel mode where
  start: "StartOS cfg mode (os_reset cfg) = Some s \<Longrightarrow> os_reach cfg fuel mode s"
| step: "os_reach cfg fuel mode s \<Longrightarrow> os_step cfg fuel s s' \<Longrightarrow> os_reach cfg fuel mode s'"

inductive_cases os_stepE: "os_step cfg fuel s s'"

definition sys_inv :: "os_cfg \<Rightarrow> os_state \<Rightarrow> bool" where
  "sys_inv cfg s \<longleftrightarrow> os_inv cfg s \<and> alarms_ok cfg s \<and> ctx_ok s"

text \<open>The configurations the results are about; \<open>fuel\<close> bounds the chains of counters.\<close>

definition sys_cfg :: "os_cfg \<Rightarrow> nat \<Rightarrow> bool" where
  "sys_cfg cfg fuel \<longleftrightarrow> cfg_ok cfg \<and> alarm_cfg_ok cfg \<and> nest_ok cfg fuel 0 \<and> fuel < 2 ^ 31 - 1"

section \<open>The alarm services\<close>

lemma alarm_set_ok:
  assumes ac: "alarm_cfg_ok cfg" and s: "alarms_ok cfg s" and a: "a < ALARMS_COUNT cfg"
  shows "\<exists>bad. bad_times cfg a i cy = Some bad \<and> (\<not> bad \<longrightarrow> i < 2 ^ 31 \<and> cy < 2 ^ 31 \<and>
    CountersVar s ! AlarmCounter (AlarmsConst cfg ! a) < 2 ^ 31)"
proof -
  let ?k = "AlarmCounter (AlarmsConst cfg ! a)"
  have k: "?k < length (CountersConst cfg)" "MaxAllowedValue (CountersConst cfg ! ?k) < 2 ^ 31"
    using ac a by (auto simp: alarm_cfg_ok_def)
  moreover have "CountersVar s ! ?k < MaxAllowedValue (CountersConst cfg ! ?k)"
    using s k by (simp add: alarms_ok_def)
  ultimately show ?thesis using a by (auto simp: bad_times_def mem_simps)
qed

lemma SetRelAlarm_inv:
  assumes ac: "alarm_cfg_ok cfg" and s: "sys_inv cfg s"
  shows "\<exists>ret s'. SetRelAlarm cfg a i cy s = Some (ret, s') \<and> sys_inv cfg s' \<and>
    RunningTask s' = RunningTask s"
proof (cases "a < ALARMS_COUNT cfg")
  case True
  have al: "alarms_ok cfg s" using s by (simp add: sys_inv_def)
  then have l: "a < length (AlarmsVar s)" using True by (simp add: alarms_ok_def)
  obtain bad where b: "bad_times cfg a i cy = Some bad" "\<not> bad \<Longrightarrow> i < 2 ^ 31 \<and> cy < 2 ^ 31"
    using alarm_set_ok [OF ac al True] by blast
  have "alarms_ok cfg (s\<lparr>AlarmsVar := (AlarmsVar s)[a := (AlarmsVar s ! a)\<lparr>AlarmState := 1,
      AlarmTime := i, AlarmCycleTime := cy\<rparr>]\<rparr>)" if "\<not> bad"
    using alarms_ok_upd [OF al True] b(2) [OF that] by simp
  with True l b(1) s show ?thesis
    by (auto simp: SetRelAlarm_def mem_simps sys_inv_def ctx_ok_def SetError_def alarms_ok_def)
next
  case False
  with s show ?thesis by (auto simp: SetRelAlarm_def sys_inv_def SetError_def ctx_ok_def alarms_ok_def)
qed

lemma SetAbsAlarm_inv:
  assumes ac: "alarm_cfg_ok cfg" and s: "sys_inv cfg s"
  shows "\<exists>ret s'. SetAbsAlarm cfg a i cy s = Some (ret, s') \<and> sys_inv cfg s' \<and>
    RunningTask s' = RunningTask s"
proof (cases "a < ALARMS_COUNT cfg")
  case True
  let ?k = "AlarmCounter (AlarmsConst cfg ! a)"
  have al: "alarms_ok cfg s" using s by (simp add: sys_inv_def)
  then have l: "a < length (AlarmsVar s)" and k: "?k < length (CountersVar s)"
    using True ac by (auto simp: alarms_ok_def alarm_cfg_ok_def)
  obtain bad where b: "bad_times cfg a i cy = Some bad" "\<not> bad \<Longrightarrow> i < 2 ^ 31 \<and> cy < 2 ^ 31"
    using alarm_set_ok [OF ac al True] by blast
  have "alarms_ok cfg (s\<lparr>AlarmsVar := (AlarmsVar s)[a := (AlarmsVar s ! a)\<lparr>AlarmState := 1,
      AlarmTime := (CountersVar s ! ?k + i) mod 2 ^ 32, AlarmCycleTime := cy\<rparr>]\<rparr>)" if "\<not> bad"
    using alarms_ok_upd [OF al True] b(2) [OF that] by simp
  with True l k b(1) s show ?thesis
    by (auto simp: SetAbsAlarm_def mem_simps sys_inv_def ctx_ok_def SetError_def alarms_ok_def)
next
  case False
  with s show ?thesis by (auto simp: SetAbsAlarm_def sys_inv_def SetError_def ctx_ok_def alarms_ok_def)
qed

lemma CancelAlarm_inv:
  assumes s: "sys_inv cfg s"
  shows "\<exists>ret s'. CancelAlarm cfg a s = Some (ret, s') \<and> sys_inv cfg s' \<and> RunningTask s' = RunningTask s"
proof (cases "a < ALARMS_COUNT cfg")
  case True
  have al: "alarms_ok cfg s" using s by (simp add: sys_inv_def)
  then have l: "a < length (AlarmsVar s)" "AlarmTime (AlarmsVar s ! a) < 2 ^ 32"
    "AlarmCycleTime (AlarmsVar s ! a) < 2 ^ 31"
    using True by (auto simp: alarms_ok_def)
  have "alarms_ok cfg (s\<lparr>AlarmsVar := (AlarmsVar s)[a := (AlarmsVar s ! a)\<lparr>AlarmState := 0\<rparr>]\<rparr>)"
    using alarms_ok_upd [OF al True] l by simp
  with True l s show ?thesis
    by (auto simp: CancelAlarm_def mem_simps sys_inv_def ctx_ok_def SetError_def alarms_ok_def)
next
  case False
  with s show ?thesis by (auto simp: CancelAlarm_def sys_inv_def SetError_def ctx_ok_def alarms_ok_def)
qed

section \<open>Every step keeps the invariant\<close>

lemma sys_invI: "os_inv cfg s' \<Longrightarrow> ctx_ok s' \<Longrightarrow> sys_inv cfg s \<Longrightarrow> AlarmsVar s' = AlarmsVar s \<Longrightarrow>
    CountersVar s' = CountersVar s \<Longrightarrow> sys_inv cfg s'"
  by (simp add: sys_inv_def alarms_ok_def)

lemma run_call_inv:
  assumes c: "sys_cfg cfg fuel" and s: "sys_inv cfg s" and run: "RunningTask s \<noteq> INVALID_TASK"
  shows "\<exists>ret s'. run_call cfg call s = Some (ret, s') \<and> sys_inv cfg s'"
proof -
  have cfg: "cfg_ok cfg" "alarm_cfg_ok cfg" using c by (simp_all add: sys_cfg_def)
  have i: "os_inv cfg s" and x: "ctx_ok s" using s by (simp_all add: sys_inv_def)
  have ctx: "ActualContext s = CONTEXT_TASK" using ctx_task [OF x run] .
  show ?thesis
  proof (cases call)
    case (CActivateTask t)
    then show ?thesis
      using ActivateTask_inv [OF cfg(1) i, of t] run ctx s by (fastforce simp: ctx_ok_def intro: sys_invI)
  next
    case CTerminateTask
    then show ?thesis using TerminateTask_inv [OF cfg(1) i x run] s by (fastforce intro: sys_invI)
  next
    case CSchedule
    then show ?thesis using Schedule_task [OF cfg(1) i x run] s by (fastforce intro: sys_invI)
  next
    case (CSetEvent t m)
    then show ?thesis
      using SetEvent_inv [OF cfg(1) i, of t m] run ctx s by (fastforce simp: ctx_ok_def intro: sys_invI)
  next
    case (CClearEvent m)
    then show ?thesis using ClearEvent_inv [OF cfg(1) i x run] s by (fastforce intro: sys_invI)
  next
    case (CWaitEvent m)
    then show ?thesis using WaitEvent_inv [OF cfg(1) i x run, of m] s by (fastforce intro: sys_invI)
  next
    case (CGetResource r)
    then show ?thesis using GetResource_inv [OF cfg(1) i x run, of r] s by (fastforce intro: sys_invI)
  next
    case (CReleaseResource r)
    then show ?thesis using ReleaseResource_inv [OF cfg(1) i x run, of r] s by (fastforce intro: sys_invI)
  next
    case (CSetRelAlarm a inc cy)
    then show ?thesis using SetRelAlarm_inv [OF cfg(2) s] by simp blast
  next
    case (CSetAbsAlarm a st cy)
    then show ?thesis using SetAbsAlarm_inv [OF cfg(2) s] by simp blast
  next
    case (CCancelAlarm a)
    then show ?thesis using CancelAlarm_inv [OF s] by simp blast
  qed
qed

lemma os_step_inv: "sys_cfg cfg fuel \<Longrightarrow> os_step cfg fuel s s' \<Longrightarrow> sys_inv cfg s \<Longrightarrow> sys_inv cfg s'"
proof (erule os_stepE)
  fix c ret
  assume "sys_cfg cfg fuel" "sys_inv cfg s" "RunningTask s \<noteq> INVALID_TASK" "run_call cfg c s = Some (ret, s')"
  then show "sys_inv cfg s'" using run_call_inv [of cfg fuel s c] by auto
next
  fix s1
  assume "sys_cfg cfg fuel" "sys_inv cfg s" "SysTick_Handler cfg fuel s = Some s1" "idle_loop cfg s1 = Some s'"
  then show "sys_inv cfg s'"
    using SysTick_inv [of cfg fuel s] by (auto simp: sys_cfg_def sys_inv_def)
qed

section \<open>The start\<close>

lemma reset_inv:
  assumes c: "cfg_ok cfg"
  shows "os_inv cfg ((os_reset cfg)\<lparr>RunningTask := INVALID_TASK\<rparr>)"
proof -
  let ?s = "(os_reset cfg)\<lparr>RunningTask := INVALID_TASK\<rparr>"
  have q: "rq ?s i = []" if "i < READYLISTS_COUNT cfg" for i
    using that by (simp add: rq_def os_reset_def)
  have "shape cfg ?s" using cfg_okD(5) [OF c] by (auto simp: shape_def os_reset_def Suc_le_eq)
  moreover have "queues_ok cfg (rq ?s)" using q by (simp add: queues_ok_def)
  moreover have "counts_ok cfg (rq ?s) (TasksVar ?s ! t) t \<and> prio_ok cfg (rq ?s) (TasksVar ?s ! t) t"
    if "t < TASKS_COUNT cfg" for t
    using that q level_less [OF c, of t] by (simp add: counts_ok_def prio_ok_def os_reset_def)
  moreover have "running_ok cfg (rq ?s) (TasksVar ?s) INVALID_TASK" "ceiling_ok cfg (TasksVar ?s) INVALID_TASK"
    by (auto simp: running_ok_def ceiling_ok_def os_reset_def)
  ultimately show ?thesis by (simp add: os_inv_def kinv_def os_reset_def)
qed

lemma start_tasks_inv:
  assumes "cfg_ok cfg"
  shows "os_inv cfg s \<Longrightarrow> ActualContext s = CONTEXT_SYS \<Longrightarrow>
    \<exists>s'. start_tasks cfg ts s = Some s' \<and> os_inv cfg s' \<and> ActualContext s' = CONTEXT_SYS \<and>
      RunningTask s' = RunningTask s \<and> AlarmsVar s' = AlarmsVar s \<and> CountersVar s' = CountersVar s"
proof (induction ts arbitrary: s)
  case (Cons t ts)
  obtain ret s1 where "ActivateTask cfg t s = Some (ret, s1)" "os_inv cfg s1"
    "ActualContext s1 = CONTEXT_SYS" "RunningTask s1 = RunningTask s"
    "AlarmsVar s1 = AlarmsVar s" "CountersVar s1 = CountersVar s"
    using ActivateTask_inv [OF assms Cons.prems(1), of t] Cons.prems(2) by auto
  with Cons.IH [of s1] show ?case by auto
qed simp

lemma start_alarms_inv:
  assumes "alarm_cfg_ok cfg"
  shows "sys_inv cfg s \<Longrightarrow> \<exists>s'. start_alarms cfg mode as s = Some s' \<and> sys_inv cfg s' \<and>
    RunningTask s' = RunningTask s"
proof (induction as arbitrary: s)
  case (Cons a as)
  show ?case
  proof (cases "AutoMode a = mode")
    case True
    obtain ret s1 where "SetRelAlarm cfg (AutoAlarm a) (AutoTime a) (AutoCycle a) s = Some (ret, s1)"
      "sys_inv cfg s1" "RunningTask s1 = RunningTask s"
      using SetRelAlarm_inv [OF assms Cons.prems] by blast
    with Cons.IH [of s1] True show ?thesis by auto
  next
    case False
    with Cons show ?thesis by auto
  qed
qed simp

lemma fold_SetEntryPoint:
  "fold SetEntryPoint ts s = s\<lparr>TerminatingTask := (if ts = [] then TerminatingTask s else last ts)\<rparr>"
  by (induction ts arbitrary: s) (simp_all add: SetEntryPoint_def)

lemma StartOS_inv:
  assumes c: "sys_cfg cfg fuel" and m: "mode < length (AutoStart cfg)"
  shows "\<exists>s. StartOS cfg mode (os_reset cfg) = Some s \<and> sys_inv cfg s \<and> settled cfg s"
proof -
  have cfg: "cfg_ok cfg" "alarm_cfg_ok cfg" using c by (simp_all add: sys_cfg_def)
  let ?s0 = "(fold SetEntryPoint [0..<TASKS_COUNT cfg] ((os_reset cfg)\<lparr>ApplicationMode := mode\<rparr>))
    \<lparr>ActualContext := CONTEXT_SYS, RunningTask := INVALID_TASK\<rparr>"
  have s0: "os_inv cfg ?s0"
    using reset_inv [OF cfg(1)] by (simp add: fold_SetEntryPoint os_inv_def shape_def)
  obtain s1 where s1: "start_tasks cfg (AutoStart cfg ! mode) ?s0 = Some s1" "os_inv cfg s1"
    "ActualContext s1 = CONTEXT_SYS" "RunningTask s1 = INVALID_TASK"
    "AlarmsVar s1 = AlarmsVar ?s0" "CountersVar s1 = CountersVar ?s0"
    using start_tasks_inv [OF cfg(1) s0, of "AutoStart cfg ! mode"] by auto
  have "alarms_ok cfg s1"
    using s1(5,6) cfg(2) by (simp add: alarms_ok_def fold_SetEntryPoint os_reset_def alarm_cfg_ok_def)
  then have "sys_inv cfg s1" using s1(2-4) by (simp add: sys_inv_def ctx_ok_def)
  then obtain s2 where s2: "start_alarms cfg mode (AutoStartAlarm cfg) s1 = Some s2" "sys_inv cfg s2"
    "RunningTask s2 = INVALID_TASK"
    using start_alarms_inv [OF cfg(2)] s1(4) by metis
  then have x2: "ActualContext s2 = CONTEXT_SYS" "os_inv cfg s2" by (auto simp: sys_inv_def ctx_ok_def)
  obtain s3 where s3: "Schedule cfg s2 = Some (E_OK, s3)" "os_inv cfg s3" "settled cfg s3" "same_env s2 s3"
    "if RunningTask s3 = RunningTask s2 then s3 = s2 else ActualContext s3 = CONTEXT_TASK"
    using Schedule_sys [OF cfg(1) x2(2,1)] by blast
  have "ctx_ok s3" using s3(5) s2(3) x2(1) by (auto simp: ctx_ok_def split: if_splits)
  then have "sys_inv cfg s3"
    using s3(2,4) s2(2) by (auto simp: same_env_def intro: sys_invI)
  moreover have "StartOS cfg mode (os_reset cfg) = Some s3"
    using m s1(1) s2(1) s3(1) by (simp add: StartOS_def mem_simps Let_def)
  ultimately show ?thesis using s3(3) by blast
qed

lemma os_reach_inv:
  assumes c: "sys_cfg cfg fuel" and m: "mode < length (AutoStart cfg)" and r: "os_reach cfg fuel mode s"
  shows "sys_inv cfg s"
  using r
proof (induction rule: os_reach.induct)
  case (start s)
  with StartOS_inv [OF c m] show ?case by auto
next
  case (step s s')
  then show ?case using os_step_inv [OF c] by blast
qed

end
