(* ===== verification/OsProps.thy ===== *)
theory OsProps
  imports OsReach
begin

text \<open>
  The project's configuration (\<^verbatim>\<open>etc/myproject.oil\<close>, as the generator turns it into tables)
  and the properties of the kernel.
\<close>

section \<open>The configuration of the project\<close>

text \<open>
  Tasks \<open>InitTask\<close>, \<open>SwitchesTask\<close>, \<open>PeriodicTask\<close>; the priorities 1, 2, 5 become 0, 1, 2.
  The alarms \<open>ActivateSwitchesTask\<close> and \<open>ActivatePeriodicTask\<close> are on the one counter.
\<close>

definition myproject_cfg :: os_cfg where
  "myproject_cfg = \<lparr>
     TasksConst = [
       \<lparr>StaticPriority = 0, MaxActivations = 1, Extended = True, Preemtive = False, EventsMask = 1, ResourcesMask = 1\<rparr>,
       \<lparr>StaticPriority = 1, MaxActivations = 1, Extended = True, Preemtive = True, EventsMask = 1, ResourcesMask = 1\<rparr>,
       \<lparr>StaticPriority = 2, MaxActivations = 1, Extended = True, Preemtive = False, EventsMask = 1, ResourcesMask = 1\<rparr>],
     ListLength = [1, 1, 1], ResourcesPriority = [2],
     AlarmsConst = [\<lparr>AlarmCounter = 0, AlarmAction = ACTIVATETASK 1\<rparr>, \<lparr>AlarmCounter = 0, AlarmAction = ACTIVATETASK 2\<rparr>],
     CountersConst = [\<lparr>AlarmRef = [0, 1], MaxAllowedValue = 1000, MinCycle = 1, TicksPerBase = 1\<rparr>],
     AutoStart = [[0]], AutoStartAlarm = [], HOOK_ERRORHOOK = True\<rparr>"

lemma all_less_code: "(\<forall>i<n. P i) \<longleftrightarrow> list_all P [0..<n]"
  by (auto simp: list_all_iff)

lemma myproject_sys_cfg: "sys_cfg myproject_cfg 1"
proof -
  have "cfg_ok myproject_cfg"
    unfolding cfg_ok_def all_less_code by code_simp
  moreover have "alarm_cfg_ok myproject_cfg"
    by (simp add: alarm_cfg_ok_def myproject_cfg_def all_less_code)
  moreover have "nest_ok myproject_cfg 1 0" by code_simp
  ultimately show ?thesis by (simp add: sys_cfg_def)
qed

text \<open>A run of service calls of the running task, from the start.\<close>

fun run_calls :: "os_cfg \<Rightarrow> syscall list \<Rightarrow> os_state \<Rightarrow> os_state option" where
  "run_calls cfg [] s = Some s"
| "run_calls cfg (c # cs) s =
     (if RunningTask s = INVALID_TASK then None
      else do { (_, s') \<leftarrow> run_call cfg c s; run_calls cfg cs s' })"

definition run_from_start :: "os_cfg \<Rightarrow> syscall list \<Rightarrow> os_state option" where
  "run_from_start cfg cs = do { s \<leftarrow> StartOS cfg 0 (os_reset cfg); run_calls cfg cs s }"

lemma run_calls_reach:
  "os_reach cfg fuel mode s \<Longrightarrow> run_calls cfg cs s = Some s' \<Longrightarrow> os_reach cfg fuel mode s'"
proof (induction cs arbitrary: s)
  case (Cons c cs)
  then obtain ret s1 where "RunningTask s \<noteq> INVALID_TASK" "run_call cfg c s = Some (ret, s1)"
    "run_calls cfg cs s1 = Some s'"
    by (auto split: if_splits bind_splits)
  with Cons.IH [of s1] Cons.prems(1) show ?case by (blast intro: os_step.call os_reach.step)
qed simp

lemma run_from_start_reach: "run_from_start cfg cs = Some s \<Longrightarrow> os_reach cfg fuel 0 s"
  by (auto simp: run_from_start_def bind_eq_Some_conv intro: run_calls_reach os_reach.start)

text \<open>\<open>InitTask\<close> runs and has taken the resource \<open>POSIXR\<close>.\<close>

definition holding_run :: "syscall list" where
  "holding_run = [CGetResource 0]"

lemma holding_state:
  "\<exists>s. run_from_start myproject_cfg holding_run = Some s \<and> RunningTask s = 0 \<and>
    bit (Resources (TasksVar s ! 0)) 0"
proof -
  have "(case run_from_start myproject_cfg holding_run of None \<Rightarrow> False
    | Some s \<Rightarrow> RunningTask s = 0 \<and> bit (Resources (TasksVar s ! 0)) 0)"
    by code_simp
  then show ?thesis by (auto split: option.splits)
qed

section \<open>Safety of the running kernel\<close>









section \<open>Scheduling\<close>

text \<open>C0: \<open>GetNextTask\<close> returns no task exactly when none is ready or running. Otherwise it returns the
  head of its own ready list, a task that no ready task beats in actual priority; and every
  other task that holds a resource is below its static priority.\<close>

theorem GetNextTask_correct:
  assumes "cfg_ok cfg" and "os_inv cfg s"
  shows "\<exists>n. GetNextTask cfg s = Some n \<and>
    (if \<forall>t<TASKS_COUNT cfg. \<not> active (State (TasksVar s ! t)) then n = INVALID_TASK
     else n < TASKS_COUNT cfg \<and> (\<exists>q. rq s (level cfg n) = n # q) \<and>
       (\<forall>u<TASKS_COUNT cfg. active (State (TasksVar s ! u)) \<longrightarrow>
          ActualPriority (TasksVar s ! u) \<le> ActualPriority (TasksVar s ! n)) \<and>
       (\<forall>v<TASKS_COUNT cfg. v \<noteq> n \<and> Resources (TasksVar s ! v) \<noteq> 0 \<longrightarrow>
          ActualPriority (TasksVar s ! v) < prio_of cfg n))"
proof -
  note k = os_invD(2) [OF assms(2)]
  obtain n where n: "GetNextTask cfg s = Some n" "next_spec cfg (rq s) (TasksVar s) n"
    using GetNextTask_spec [OF assms] by blast
  have "(\<forall>i<READYLISTS_COUNT cfg. rq s i = []) \<longleftrightarrow> (\<forall>t<TASKS_COUNT cfg. \<not> active (State (TasksVar s ! t)))"
  proof
    assume "\<forall>i<READYLISTS_COUNT cfg. rq s i = []"
    then show "\<forall>t<TASKS_COUNT cfg. \<not> active (State (TasksVar s ! t))"
      using active_in_queue [OF k] level_less [OF assms(1)] by fastforce
  next
    assume "\<forall>t<TASKS_COUNT cfg. \<not> active (State (TasksVar s ! t))"
    then show "\<forall>i<READYLISTS_COUNT cfg. rq s i = []"
      using in_queue_active [OF k] by (metis list.set_intros(1) neq_Nil_conv)
  qed
  with n show ?thesis
    by (auto simp: next_spec_def heads_def neq_Nil_conv split: if_splits)
qed

lemma holding_inv:
  "\<exists>s. run_from_start myproject_cfg holding_run = Some s \<and> sys_inv myproject_cfg s \<and>
    RunningTask s = 0 \<and> bit (Resources (TasksVar s ! 0)) 0 \<and> State (TasksVar s ! 0) = RUNNING"
proof -
  obtain s where s: "run_from_start myproject_cfg holding_run = Some s" "RunningTask s = 0"
    "bit (Resources (TasksVar s ! 0)) 0"
    using holding_state by blast
  have m: "0 < length (AutoStart myproject_cfg)" by (simp add: myproject_cfg_def)
  have i: "sys_inv myproject_cfg s"
    using os_reach_inv [OF myproject_sys_cfg m run_from_start_reach [OF s(1)]] .
  then have "State (TasksVar s ! 0) = RUNNING"
    using running_valid(2) [of myproject_cfg s] myproject_sys_cfg s(2)
    by (simp add: sys_inv_def sys_cfg_def INVALID_TASK_def)
  with s i show ?thesis by blast
qed

theorem GetNextTask_correct_witness:
  "\<exists>s. RunningTask s = 0 \<and> GetNextTask myproject_cfg s \<noteq> None \<and> GetNextTask myproject_cfg s \<noteq> Some INVALID_TASK"
proof -
  obtain s where s: "sys_inv myproject_cfg s" "RunningTask s = 0" "State (TasksVar s ! 0) = RUNNING"
    using holding_inv by blast
  have c: "cfg_ok myproject_cfg" using myproject_sys_cfg by (simp add: sys_cfg_def)
  have i: "os_inv myproject_cfg s" using s(1) by (simp add: sys_inv_def)
  have "0 < TASKS_COUNT myproject_cfg" by (simp add: myproject_cfg_def)
  with GetNextTask_correct [OF c i] s(2,3) show ?thesis
    by (auto simp: active_def INVALID_TASK_def myproject_cfg_def split: if_splits)
qed

text \<open>C0: when a task calls \<open>Schedule\<close> without resources, or gives up the processor by \<open>TerminateTask\<close>,
  the task that runs afterwards has at least the priority of every task that is ready; if no
  task runs, none is ready. A task that holds a resource cannot do either: the call is refused
  with \<open>E_OS_RESOURCE\<close>.\<close>

theorem reschedule_highest:
  assumes "cfg_ok cfg" and "os_inv cfg s" and "ctx_ok s" and "RunningTask s \<noteq> INVALID_TASK"
    and "call = CSchedule \<or> call = CTerminateTask"
  shows "\<exists>ret s'. run_call cfg call s = Some (ret, s') \<and>
    ret = (if Resources (TasksVar s ! RunningTask s) \<noteq> 0 then E_OS_RESOURCE else E_OK) \<and>
    (if ret = E_OK
     then \<forall>u<TASKS_COUNT cfg. \<not> active (State (TasksVar s' ! u)) \<or> RunningTask s' \<noteq> INVALID_TASK \<and>
       prio_of cfg u \<le> ActualPriority (TasksVar s' ! RunningTask s')
     else TasksVar s' = TasksVar s \<and> RunningTask s' = RunningTask s)"
  using assms(5)
proof
  assume call: "call = CSchedule"
  obtain ret s' where "Schedule cfg s = Some (ret, s')"
    "ret = (if holds (TasksVar s ! RunningTask s) then E_OS_RESOURCE else E_OK)"
    "ret = E_OK \<longrightarrow> settled cfg s' \<and> same_env s s'"
    "ret \<noteq> E_OK \<longrightarrow> s' = SetError cfg Id_Schedule [] E_OS_RESOURCE s"
    using Schedule_task [OF assms(1-4)] by blast
  with call show ?thesis by (auto simp: settled_def)
next
  assume call: "call = CTerminateTask"
  obtain ret s' where t: "TerminateTask cfg s = Some (ret, s')"
    "ret = (if holds (TasksVar s ! RunningTask s) then E_OS_RESOURCE else E_OK)"
    "ret = E_OK \<longrightarrow> settled cfg s' \<and> same_env s s'"
    using TerminateTask_inv [OF assms(1-4)] by blast
  have "TasksVar s' = TasksVar s \<and> RunningTask s' = RunningTask s"
    if "holds (TasksVar s ! RunningTask s)"
    using t(1) that running_valid(1,4) [OF assms(1,2,4)] ctx_task [OF assms(3,4)]
    by (auto simp: TerminateTask_def mem_simps)
  with call t show ?thesis by (auto simp: settled_def)
qed

theorem reschedule_highest_witness:
  "\<exists>s s'. RunningTask s = 0 \<and> run_call myproject_cfg CTerminateTask s = Some (E_OS_RESOURCE, s') \<and>
    RunningTask s' = 0"
proof -
  obtain s where s: "sys_inv myproject_cfg s" "RunningTask s = 0" "bit (Resources (TasksVar s ! 0)) 0"
    using holding_inv by blast
  have c: "cfg_ok myproject_cfg" using myproject_sys_cfg by (simp add: sys_cfg_def)
  have i: "os_inv myproject_cfg s" "ctx_ok s" "RunningTask s \<noteq> INVALID_TASK"
    using s by (simp_all add: sys_inv_def INVALID_TASK_def)
  have "Resources (TasksVar s ! 0) \<noteq> 0" using s(3) by auto
  with reschedule_highest [OF c i, of CTerminateTask] s(2) show ?thesis by auto
qed



end
