(* ===== verification/OsEvents.thy ===== *)
theory OsEvents
  imports OsProps
begin

text \<open>
  The event services on all their branches, the times at which an alarm expires, and a sequence of calls
  around \<open>ChainTask\<close> that breaks the ready lists.
\<close>

section \<open>Events\<close>

lemma WaitEvent_step:
  assumes c: "cfg_ok cfg" and s: "os_inv cfg s" and x: "ctx_ok s" and run: "RunningTask s \<noteq> INVALID_TASK"
  shows "\<exists>ret s'. WaitEvent cfg m s = Some (ret, s') \<and> os_inv cfg s' \<and>
    ret = (if \<not> Extended (TasksConst cfg ! RunningTask s) then E_OS_ACCESS
      else if holds (TasksVar s ! RunningTask s) then E_OS_RESOURCE else E_OK) \<and>
    (if ret = E_OK \<and> m AND Events (TasksVar s ! RunningTask s) = 0
     then TasksVar s' ! RunningTask s = (TasksVar s ! RunningTask s)\<lparr>State := WAITING, EventsWait := m\<rparr> \<and> settled cfg s'
     else TasksVar s' = TasksVar s \<and> RunningTask s' = RunningTask s)"
proof (cases "Extended (TasksConst cfg ! RunningTask s) \<and> \<not> holds (TasksVar s ! RunningTask s) \<and>
    m AND Events (TasksVar s ! RunningTask s) = 0")
  case True
  then obtain s' where "SaveContext cfg (s\<lparr>TasksVar := (TasksVar s)[RunningTask s :=
      (TasksVar s ! RunningTask s)\<lparr>State := WAITING, EventsWait := m\<rparr>]\<rparr>) = Some s'"
    "os_inv cfg s'" "settled cfg s'"
    "TasksVar s' ! RunningTask s = (TasksVar s ! RunningTask s)\<lparr>State := WAITING, EventsWait := m\<rparr>"
    using SaveContext_inv [OF c s run] by blast
  with True running_valid(1,4) [OF c s run] ctx_task [OF x run] show ?thesis
    by (simp add: WaitEvent_def mem_simps)
next
  case False
  with running_valid(1,4) [OF c s run] ctx_task [OF x run] s x show ?thesis
    by (auto simp: WaitEvent_def mem_simps)
qed

lemma not_in_queue:
  "os_inv cfg s \<Longrightarrow> t < TASKS_COUNT cfg \<Longrightarrow> \<not> active (State (TasksVar s ! t)) \<Longrightarrow> t \<notin> set (rq s (level cfg t))"
  using kinvD(3) [OF os_invD(2)] by (fastforce simp: counts_ok_def count_list_0_iff)



lemma SetEvent_step:
  assumes c: "cfg_ok cfg" and s: "os_inv cfg s"
    and ctx: "ActualContext s = CONTEXT_ISR2 \<or> ctx_ok s \<and> RunningTask s \<noteq> INVALID_TASK \<and>
      \<not> Preemtive (TasksConst cfg ! RunningTask s)"
  shows "\<exists>ret s'. SetEvent cfg t m s = Some (ret, s') \<and> RunningTask s' = RunningTask s \<and>
    ret = (if TASKS_COUNT cfg \<le> t then E_OS_ID
      else if \<not> Extended (TasksConst cfg ! t) then E_OS_ACCESS
      else if State (TasksVar s ! t) = SUSPENDED then E_OS_STATE else E_OK) \<and>
    (if ret \<noteq> E_OK then TasksVar s' = TasksVar s \<and> (\<forall>i<READYLISTS_COUNT cfg. rq s' i = rq s i)
     else let ev = Events (TasksVar s ! t) OR (m AND EventsMask (TasksConst cfg ! t));
         wakes = (State (TasksVar s ! t) = WAITING \<and> EventsWait (TasksVar s ! t) AND ev \<noteq> 0)
       in Events (TasksVar s' ! t) = ev \<and>
         State (TasksVar s' ! t) = (if wakes then READY else State (TasksVar s ! t)) \<and>
         (\<forall>u<TASKS_COUNT cfg. u \<noteq> t \<longrightarrow> TasksVar s' ! u = TasksVar s ! u) \<and>
         (\<forall>i<READYLISTS_COUNT cfg. rq s' i = (if wakes \<and> i = level cfg t then rq s i @ [t] else rq s i)))"
proof (cases "TASKS_COUNT cfg \<le> t \<or> \<not> Extended (TasksConst cfg ! t) \<or> State (TasksVar s ! t) = SUSPENDED")
  case True
  have "length (TasksVar s) = TASKS_COUNT cfg" using kinvD(1) [OF os_invD(2) [OF s]] .
  with True show ?thesis by (cases "TASKS_COUNT cfg \<le> t") (auto simp: SetEvent_def mem_simps)
next
  case False
  let ?v = "(TasksVar s ! t)\<lparr>Events := Events (TasksVar s ! t) OR (m AND EventsMask (TasksConst cfg ! t))\<rparr>"
  let ?s1 = "s\<lparr>TasksVar := (TasksVar s)[t := ?v]\<rparr>"
  have t: "t < TASKS_COUNT cfg" and T: "length (TasksVar s) = TASKS_COUNT cfg"
    using False kinvD(1) [OF os_invD(2) [OF s]] by auto
  have i1: "os_inv cfg ?s1" using os_inv_same [OF s t, of ?v] by simp
  have q1: "rq ?s1 i = rq s i" for i by (simp add: rq_def)
  show ?thesis
  proof (cases "State ?v = WAITING \<and> EventsWait ?v AND Events ?v \<noteq> 0")
    case wake: True
    then have "State (TasksVar ?s1 ! t) = WAITING" using t T by simp
    from wake_inv [OF c i1 t this] obtain s2 s3 where add: "AddReady cfg t ?s1 = Some s2"
      and upd: "upd_task t (\<lambda>tv. tv\<lparr>State := READY\<rparr>) s2 = Some s3"
      and env: "RunningTask s3 = RunningTask s" "ActualContext s3 = ActualContext s"
      and tv: "TasksVar s3 = (TasksVar ?s1)[t := (TasksVar ?s1 ! t)\<lparr>ActualPriority := prio_of cfg t, State := READY\<rparr>]"
      and q3: "\<forall>i<READYLISTS_COUNT cfg. rq s3 i = (if i = level cfg t then rq ?s1 i @ [t] else rq ?s1 i)"
      by auto
    have "SetEvent cfg t m s = Some (E_OK, s3)"
      using ctx
    proof
      assume "ActualContext s = CONTEXT_ISR2"
      with False wake t T add upd env show ?thesis by (simp add: SetEvent_def mem_simps)
    next
      assume x: "ctx_ok s \<and> RunningTask s \<noteq> INVALID_TASK \<and> \<not> Preemtive (TasksConst cfg ! RunningTask s)"
      then have "RunningTask s < TASKS_COUNT cfg" using running_valid(1) [OF c s] by blast
      with x False wake t T add upd env show ?thesis by (simp add: SetEvent_def mem_simps ctx_ok_def)
    qed
    with False wake t T tv q3 q1 env show ?thesis by (simp add: Let_def)
  next
    case stay: False
    then have "SetEvent cfg t m s = Some (E_OK, ?s1)"
      using False t T by (auto simp: SetEvent_def mem_simps)
    with False stay t T q1 show ?thesis by (auto simp: Let_def)
  qed
qed



section \<open>The times of an alarm\<close>

text \<open>The alarm alone, over a number of ticks: how often it expires. The loop of \<open>IncrementCounter\<close> passes over
  an alarm that is not active.\<close>

fun alarm_ticks :: "nat \<Rightarrow> nat \<Rightarrow> os_state \<Rightarrow> (nat \<times> os_state) option" where
  "alarm_ticks a 0 s = Some (0, s)"
| "alarm_ticks a (Suc k) s = do {
     av \<leftarrow> rd (AlarmsVar s) a;
     if AlarmState av \<noteq> 1 then alarm_ticks a k s
     else do {
       (rest, e, s) \<leftarrow> alarm_advance a 1 s;
       (n, s) \<leftarrow> alarm_ticks a k s;
       Some ((case e of None \<Rightarrow> 0 | Some c \<Rightarrow> c) + n, s) } }"

text \<open>The specification: the first expiration after \<open>i\<close> ticks (at the next tick if \<open>i\<close> is 0), then one every
  \<open>cycle\<close> ticks counted from there, or no more if the cycle is 0.\<close>

definition schedule_of :: "nat \<Rightarrow> nat \<Rightarrow> nat \<Rightarrow> nat" where
  "schedule_of i cycle k = (if k = 0 \<or> k < i then 0 else if cycle = 0 then 1 else Suc ((k - i) div cycle))"

lemma alarm_off: "a < length (AlarmsVar s) \<Longrightarrow> AlarmState (AlarmsVar s ! a) \<noteq> 1 \<Longrightarrow> alarm_ticks a k s = Some (0, s)"
  by (induction k) (simp_all add: mem_simps)

lemma schedule_of_0: "schedule_of i cy 0 = 0"
  by (simp add: schedule_of_def)

lemma schedule_of_later: "1 < i \<Longrightarrow> schedule_of i cy (Suc k) = schedule_of (i - 1) cy k"
  by (auto simp: schedule_of_def)

lemma schedule_of_now:
  assumes "i \<le> 1" and "0 < cy"
  shows "schedule_of i cy (Suc k) =
    expirations cy 1 i + schedule_of (i + expirations cy 1 i * cy - 1) cy k"
proof (cases "i = 1")
  case True
  then have "expirations cy 1 i = 1" by (simp add: expirations_def)
  with True assms show ?thesis
    by (cases k) (auto simp: schedule_of_def le_div_geq not_less)
next
  case False
  with assms have i: "i = 0" by simp
  show ?thesis
  proof (cases "cy = 1")
    case True
    with i show ?thesis by (cases k) (auto simp: schedule_of_def expirations_def)
  next
    case False
    with assms have e: "expirations cy 1 i = 1" "1 \<le> cy - 1" using i by (auto simp: expirations_def)
    have "Suc k div cy = (if k < cy - 1 then 0 else Suc ((k - (cy - 1)) div cy))"
    proof (cases "k < cy - 1")
      case False
      then have "Suc k - cy = k - (cy - 1)" "cy \<le> Suc k" using assms(2) by auto
      with False assms(2) show ?thesis by (simp add: le_div_geq)
    qed simp
    with e i assms(2) show ?thesis by (auto simp: schedule_of_def)
  qed
qed

lemma alarm_ticks_schedule:
  assumes "a < length (AlarmsVar s)" and "AlarmState (AlarmsVar s ! a) = 1"
    and "AlarmTime (AlarmsVar s ! a) = i" and "AlarmCycleTime (AlarmsVar s ! a) = cy" and "cy < 2 ^ 31" and "i < 2 ^ 32"
  shows "\<exists>s'. alarm_ticks a k s = Some (schedule_of i cy k, s')"
  using assms
proof (induction k arbitrary: s i)
  case 0
  then show ?case by (simp add: schedule_of_0)
next
  case (Suc k)
  let ?v = "AlarmsVar s ! a"
  have rd: "rd (AlarmsVar s) a = Some ?v" using Suc.prems(1) by (simp add: mem_simps)
  consider (later) "1 < i" | (once) "i \<le> 1" "cy = 0" | (cyclic) "i \<le> 1" "0 < cy" by linarith
  then show ?case
  proof cases
    case later
    let ?s = "s\<lparr>AlarmsVar := (AlarmsVar s)[a := ?v\<lparr>AlarmTime := i - 1\<rparr>]\<rparr>"
    have "\<exists>s'. alarm_ticks a k ?s = Some (schedule_of (i - 1) cy k, s')"
      by (rule Suc.IH) (use Suc.prems in simp_all)
    moreover have "alarm_advance a 1 s = Some (i - 1, None, ?s)"
      using Suc.prems later by (simp add: alarm_advance_def mem_simps)
    ultimately show ?thesis using rd Suc.prems(2) schedule_of_later [OF later] by auto
  next
    case once
    let ?s = "s\<lparr>AlarmsVar := (AlarmsVar s)[a := ?v\<lparr>AlarmTime := 0, AlarmState := 0\<rparr>]\<rparr>"
    have "alarm_advance a 1 s = Some (0, Some 1, ?s)"
      using Suc.prems once by (simp add: alarm_advance_def mem_simps)
    moreover have "alarm_ticks a k ?s = Some (0, ?s)" using Suc.prems by (intro alarm_off) simp_all
    ultimately show ?thesis using rd Suc.prems(2) once by (simp add: schedule_of_def)
  next
    case cyclic
    let ?e = "expirations cy 1 i"
    let ?s = "s\<lparr>AlarmsVar := (AlarmsVar s)[a := ?v\<lparr>AlarmTime := i + ?e * cy - 1\<rparr>]\<rparr>"
    note due = expirations_due [OF cyclic(2), where n = 1 and t = i]
    have "alarm_catchup cy 1 i 0 = Some (i + ?e * cy, ?e)"
      using alarm_catchup_expirations [OF cyclic(2), of 1 i 0] Suc.prems(5,6) due(3) by simp
    then have "alarm_advance a 1 s = Some (i + ?e * cy - 1, Some ?e, ?s)"
      using Suc.prems cyclic by (simp add: alarm_advance_def mem_simps)
    moreover have "\<exists>s'. alarm_ticks a k ?s = Some (schedule_of (i + ?e * cy - 1) cy k, s')"
    proof (rule Suc.IH)
      have "(2::nat) ^ 31 < 2 ^ 32" by simp
      with due(2) [OF cyclic(1)] Suc.prems(5) show "i + ?e * cy - 1 < 2 ^ 32" by linarith
    qed (use Suc.prems in simp_all)
    ultimately show ?thesis using rd Suc.prems(2) schedule_of_now [OF cyclic] by auto
  qed
qed



section \<open>Chaining to a suspended task\<close>

text \<open>\<open>ChainTask\<close> enters its target in a ready list but leaves it suspended. If another task runs first and
  activates the target, this succeeds again: in the project's configuration \<open>SwitchesTask\<close> then has two
  activations, of at most one, and a ready list of one place counts two entries.\<close>

lemma ChainTask_double:
  "case do { s \<leftarrow> run_from_start myproject_cfg [CActivateTask 2];
             (ret1, s1) \<leftarrow> ChainTask myproject_cfg 1 s;
             (ret2, s2) \<leftarrow> ActivateTask myproject_cfg 1 s1;
             Some (ret1, s1, ret2, s2) } of
     None \<Rightarrow> False
   | Some (ret1, s1, ret2, s2) \<Rightarrow>
       ret1 = E_OK \<and> RunningTask s1 = 2 \<and> State (TasksVar s1 ! 1) = SUSPENDED \<and> ListCount (ReadyVar s1 ! 1) = 1 \<and>
       ret2 = E_OK \<and> MaxActivations (TasksConst myproject_cfg ! 1) = 1 \<and> Activations (TasksVar s2 ! 1) = 2 \<and>
       ListLength myproject_cfg ! 1 = 1 \<and> ListCount (ReadyVar s2 ! 1) = 2"
  by code_simp

end
