(* ===== verification/LedPanel.thy ===== *)
theory LedPanel
  imports CIAA_Prelude
begin

text \<open>
  The LED matrix (\<^verbatim>\<open>projects/myproject/src/LedControl.c\<close>): the font of \<open>printChar\<close>, the drawing
  routines and the scrolling of the message, on a MAX7219 driver behind the SSP port.

  The port and the waits are a trace \<open>bus\<close>. A frame of 16 bits addresses a register of the driver
  in its high byte and carries the value in its low byte; \<open>latch\<close> is the driver's register file,
  whose registers 1 to 8 are the columns of the matrix. What a passer-by sees is the list of
  column contents at the waits (\<open>screens\<close>). A C string is a list of bytes with its terminator;
  running past it, or drawing a character the font does not have (the code then reads an
  automatic array it never set), is \<open>None\<close>.
\<close>

section \<open>The font\<close>

text \<open>The five inner columns of each character of the \<open>switch\<close> of \<open>printChar\<close>.\<close>

definition font1 :: "(char \<times> uint8 list) list" where
  "font1 = [
    (CHR 0x20, [0x00, 0x00, 0x00, 0x00, 0x00]), (CHR ''!'', [0x00, 0x00, 0x2f, 0x00, 0x00]),
    (CHR 0x22, [0x00, 0x07, 0x00, 0x07, 0x00]), (CHR ''#'', [0x14, 0x7f, 0x14, 0x7f, 0x14]),
    (CHR ''$'', [0x24, 0x2a, 0x7f, 0x2a, 0x12]), (CHR ''%'', [0x62, 0x64, 0x08, 0x13, 0x23]),
    (CHR ''&'', [0x36, 0x49, 0x55, 0x22, 0x50]), (CHR ''('', [0x00, 0x1c, 0x22, 0x41, 0x00]),
    (CHR '')'', [0x00, 0x41, 0x22, 0x1c, 0x00]), (CHR ''*'', [0x14, 0x08, 0x3e, 0x08, 0x14]),
    (CHR ''+'', [0x08, 0x08, 0x3e, 0x08, 0x08]), (CHR '','', [0x00, 0xa0, 0x60, 0x00, 0x00]),
    (CHR ''-'', [0x08, 0x08, 0x08, 0x08, 0x08]), (CHR ''.'', [0x00, 0x60, 0x60, 0x00, 0x00]),
    (CHR ''/'', [0x20, 0x10, 0x08, 0x04, 0x02]), (CHR ''0'', [0x3e, 0x51, 0x49, 0x45, 0x3e]),
    (CHR ''1'', [0x00, 0x42, 0x7f, 0x40, 0x00]), (CHR ''2'', [0x42, 0x61, 0x51, 0x49, 0x46])]"

definition font2 :: "(char \<times> uint8 list) list" where
  "font2 = [
    (CHR ''3'', [0x21, 0x41, 0x45, 0x4b, 0x31]), (CHR ''4'', [0x18, 0x14, 0x12, 0x7f, 0x10]),
    (CHR ''5'', [0x27, 0x45, 0x45, 0x45, 0x39]), (CHR ''6'', [0x3c, 0x4a, 0x49, 0x49, 0x30]),
    (CHR ''7'', [0x01, 0x71, 0x09, 0x05, 0x03]), (CHR ''8'', [0x36, 0x49, 0x49, 0x49, 0x36]),
    (CHR ''9'', [0x06, 0x49, 0x49, 0x29, 0x1e]), (CHR '':'', [0x00, 0x36, 0x36, 0x00, 0x00]),
    (CHR '';'', [0x00, 0x56, 0x36, 0x00, 0x00]), (CHR ''<'', [0x08, 0x14, 0x22, 0x41, 0x00]),
    (CHR ''='', [0x14, 0x14, 0x14, 0x14, 0x14]), (CHR ''>'', [0x00, 0x41, 0x22, 0x14, 0x08]),
    (CHR ''?'', [0x02, 0x01, 0x51, 0x09, 0x06]), (CHR ''@'', [0x32, 0x49, 0x59, 0x51, 0x3e]),
    (CHR ''A'', [0x7c, 0x12, 0x11, 0x12, 0x7c]), (CHR ''B'', [0x7f, 0x49, 0x49, 0x49, 0x36]),
    (CHR ''C'', [0x3e, 0x41, 0x41, 0x41, 0x22]), (CHR ''D'', [0x7f, 0x41, 0x41, 0x22, 0x1c])]"

definition font3 :: "(char \<times> uint8 list) list" where
  "font3 = [
    (CHR ''E'', [0x7f, 0x49, 0x49, 0x49, 0x41]), (CHR ''F'', [0x7f, 0x09, 0x09, 0x09, 0x01]),
    (CHR ''G'', [0x3e, 0x41, 0x49, 0x49, 0x7a]), (CHR ''H'', [0x7f, 0x08, 0x08, 0x08, 0x7f]),
    (CHR ''I'', [0x00, 0x41, 0x7f, 0x41, 0x00]), (CHR ''J'', [0x20, 0x40, 0x41, 0x3f, 0x01]),
    (CHR ''K'', [0x7f, 0x08, 0x14, 0x22, 0x41]), (CHR ''L'', [0x7f, 0x40, 0x40, 0x40, 0x40]),
    (CHR ''M'', [0x7f, 0x02, 0x0c, 0x02, 0x7f]), (CHR ''N'', [0x7f, 0x04, 0x08, 0x10, 0x7f]),
    (CHR ''O'', [0x3e, 0x41, 0x41, 0x41, 0x3e]), (CHR ''P'', [0x7f, 0x09, 0x09, 0x09, 0x06]),
    (CHR ''Q'', [0x3e, 0x41, 0x51, 0x21, 0x5e]), (CHR ''R'', [0x7f, 0x09, 0x19, 0x29, 0x46]),
    (CHR ''S'', [0x46, 0x49, 0x49, 0x49, 0x31]), (CHR ''T'', [0x01, 0x01, 0x7f, 0x01, 0x01]),
    (CHR ''U'', [0x3f, 0x40, 0x40, 0x40, 0x3f]), (CHR ''V'', [0x1f, 0x20, 0x40, 0x20, 0x1f])]"

definition font4 :: "(char \<times> uint8 list) list" where
  "font4 = [
    (CHR ''W'', [0x3f, 0x40, 0x38, 0x40, 0x3f]), (CHR ''X'', [0x63, 0x14, 0x08, 0x14, 0x63]),
    (CHR ''Y'', [0x07, 0x08, 0x70, 0x08, 0x07]), (CHR ''Z'', [0x61, 0x51, 0x49, 0x45, 0x43]),
    (CHR ''['', [0x00, 0x7f, 0x41, 0x41, 0x00]), (CHR 0x5C, [0x55, 0xaa, 0x55, 0xaa, 0x55]),
    (CHR '']'', [0x00, 0x41, 0x41, 0x7f, 0x00]), (CHR ''^'', [0x04, 0x02, 0x01, 0x02, 0x04]),
    (CHR ''_'', [0x40, 0x40, 0x40, 0x40, 0x40]), (CHR 0x60, [0x00, 0x03, 0x05, 0x00, 0x00]),
    (CHR ''a'', [0x20, 0x54, 0x54, 0x54, 0x78]), (CHR ''b'', [0x7f, 0x48, 0x44, 0x44, 0x38]),
    (CHR ''c'', [0x38, 0x44, 0x44, 0x44, 0x20]), (CHR ''d'', [0x38, 0x44, 0x44, 0x48, 0x7f]),
    (CHR ''e'', [0x38, 0x54, 0x54, 0x54, 0x18]), (CHR ''f'', [0x08, 0x7e, 0x09, 0x01, 0x02]),
    (CHR ''g'', [0x18, 0xa4, 0xa4, 0xa4, 0x7c]), (CHR ''h'', [0x7f, 0x08, 0x04, 0x04, 0x78])]"

definition font5 :: "(char \<times> uint8 list) list" where
  "font5 = [
    (CHR ''i'', [0x00, 0x44, 0x7d, 0x40, 0x00]), (CHR ''j'', [0x40, 0x80, 0x84, 0x7d, 0x00]),
    (CHR ''k'', [0x7f, 0x10, 0x28, 0x44, 0x00]), (CHR ''l'', [0x00, 0x41, 0x7f, 0x40, 0x00]),
    (CHR ''m'', [0x7c, 0x04, 0x18, 0x04, 0x78]), (CHR ''n'', [0x7c, 0x08, 0x04, 0x04, 0x78]),
    (CHR ''o'', [0x38, 0x44, 0x44, 0x44, 0x38]), (CHR ''p'', [0xfc, 0x24, 0x24, 0x24, 0x18]),
    (CHR ''q'', [0x18, 0x24, 0x24, 0x18, 0xfc]), (CHR ''r'', [0x7c, 0x08, 0x04, 0x04, 0x08]),
    (CHR ''s'', [0x48, 0x54, 0x54, 0x54, 0x20]), (CHR ''t'', [0x04, 0x3f, 0x44, 0x40, 0x20]),
    (CHR ''u'', [0x3c, 0x40, 0x40, 0x20, 0x7c]), (CHR ''v'', [0x1c, 0x20, 0x40, 0x20, 0x1c]),
    (CHR ''w'', [0x3c, 0x40, 0x30, 0x40, 0x3c]), (CHR ''x'', [0x44, 0x28, 0x10, 0x28, 0x44]),
    (CHR ''y'', [0x1c, 0xa0, 0xa0, 0xa0, 0x7c]), (CHR ''z'', [0x44, 0x64, 0x54, 0x4c, 0x44])]"

definition font6 :: "(char \<times> uint8 list) list" where
  "font6 = [
    (CHR ''{'', [0x00, 0x10, 0x7c, 0x82, 0x00]), (CHR ''|'', [0x00, 0x00, 0xff, 0x00, 0x00]),
    (CHR ''}'', [0x00, 0x82, 0x7c, 0x10, 0x00]), (CHR 0xBA, [0x00, 0x06, 0x09, 0x09, 0x06])]"

definition font :: "(char \<times> uint8 list) list" where
  "font = font1 @ font2 @ font3 @ font4 @ font5 @ font6"

section \<open>The driver and the drawing routines\<close>

abbreviation (input) NUL :: char where "NUL \<equiv> CHR 0x00"

datatype led_event = Frame uint16 | Delay int

text \<open>\<open>beyond\<close> is the byte of memory behind the array \<open>status\<close>, which \<open>Init_MAX7219\<close> writes.\<close>

record led_panel =
  status :: "uint8 list"
  beyond :: uint8
  bus :: "led_event list"

definition sendByte :: "uint8 \<Rightarrow> uint8 \<Rightarrow> led_panel \<Rightarrow> led_panel" where
  "sendByte reg data p = p\<lparr>bus := bus p @ [Frame (push_bit 8 (ucast reg) OR ucast data)]\<rparr>"

definition panel_delay :: "int \<Rightarrow> led_panel \<Rightarrow> led_panel" where
  "panel_delay t p = p\<lparr>bus := bus p @ [Delay t]\<rparr>"

definition clearDisplay :: "led_panel \<Rightarrow> led_panel" where
  "clearDisplay p = fold (\<lambda>i. sendByte (word_of_nat (i + 1)) 0) [0..<8] p"

definition setRow :: "int \<Rightarrow> uint8 \<Rightarrow> led_panel \<Rightarrow> led_panel option" where
  "setRow row value p =
     (if row < 0 \<or> 7 < row then Some p
      else do {
        st \<leftarrow> wr (status p) (nat row) value;
        v \<leftarrow> rd st (nat row);
        Some (sendByte (word_of_int (row + 1)) v (p\<lparr>status := st\<rparr>)) })"

fun set_rows :: "int \<Rightarrow> uint8 list \<Rightarrow> led_panel \<Rightarrow> led_panel option" where
  "set_rows pos [] p = Some p"
| "set_rows pos (v # vs) p = do { p \<leftarrow> setRow pos v p; set_rows (pos + 1) vs p }"

definition printChar :: "int \<Rightarrow> char \<Rightarrow> led_panel \<Rightarrow> led_panel option" where
  "printChar pos c p = do {
     glyph \<leftarrow> map_of font c;
     set_rows pos (0 # glyph @ [0]) p }"

fun printString_from :: "int \<Rightarrow> int \<Rightarrow> char list \<Rightarrow> led_panel \<Rightarrow> led_panel option" where
  "printString_from i pos [] p = None"
| "printString_from i pos (c # cs) p =
     (if c = NUL then Some p
      else do { p \<leftarrow> printChar (6 * i + pos) c p; printString_from (i + 1) pos cs p })"

definition printString :: "int \<Rightarrow> char list \<Rightarrow> led_panel \<Rightarrow> led_panel option" where
  "printString = printString_from 0"

fun c_strlen :: "char list \<Rightarrow> nat option" where
  "c_strlen [] = None"
| "c_strlen (c # cs) = (if c = NUL then Some 0 else do { n \<leftarrow> c_strlen cs; Some (Suc n) })"

text \<open>The frames of a scroll: the string at each position of the list, with a wait after it.\<close>

fun scroll_frames :: "int list \<Rightarrow> char list \<Rightarrow> int \<Rightarrow> led_panel \<Rightarrow> led_panel option" where
  "scroll_frames [] str tDelay p = Some p"
| "scroll_frames (q # qs) str tDelay p = do {
     p \<leftarrow> printString q str p;
     scroll_frames qs str tDelay (panel_delay tDelay p) }"

definition printStringScroll :: "int \<Rightarrow> char list \<Rightarrow> int \<Rightarrow> char \<Rightarrow> led_panel \<Rightarrow> led_panel option" where
  "printStringScroll pos str tDelay sentido p = do {
     c \<leftarrow> c_strlen str;
     if sentido = CHR ''<'' then scroll_frames (map (\<lambda>i. - int i + pos) [0..<c * 6 + 1]) str tDelay p
     else if sentido = CHR ''>''
     then scroll_frames (map (\<lambda>i. (- (int c * 6) + int i) + pos) [0..<c * 6 + 1]) str tDelay p
     else Some p }"

definition put_status :: "nat \<Rightarrow> uint8 \<Rightarrow> led_panel \<Rightarrow> led_panel" where
  "put_status i v p = (if i < length (status p) then p\<lparr>status := (status p)[i := v]\<rparr> else p\<lparr>beyond := v\<rparr>)"

definition Init_MAX7219 :: "uint8 \<Rightarrow> led_panel \<Rightarrow> led_panel" where
  "Init_MAX7219 intensity p =
     (let p = fold (\<lambda>i. put_status i 0) [1..<65] p;
          p = sendByte 15 0 p;
          p = sendByte 11 7 p;
          p = sendByte 9 0 p;
          p = clearDisplay p;
          p = sendByte 12 0 p;
          p = sendByte 12 1 p;
          p = sendByte 10 (intensity * 3) p
      in clearDisplay p)"

definition velocidad_of :: "uint8 \<Rightarrow> int" where
  "velocidad_of speed =
     (if speed = 1 then 200 else if speed = 2 then 185 else if speed = 3 then 170
      else if speed = 4 then 155 else if speed = 5 then 140 else 170)"

text \<open>The loop of mode 1, which spells the message.\<close>

fun spell :: "char list \<Rightarrow> int \<Rightarrow> led_panel \<Rightarrow> led_panel option" where
  "spell [] t p = Some p"
| "spell (c # cs) t p = do {
     p \<leftarrow> printChar 2 c (clearDisplay p);
     spell cs t (panel_delay t p) }"

definition msjScroll :: "uint8 \<Rightarrow> uint8 \<Rightarrow> char list \<Rightarrow> led_panel \<Rightarrow> led_panel option" where
  "msjScroll speed mode mensaje_actual p =
     (let velocidad = velocidad_of speed in
      if mode = 1 then do {
        c \<leftarrow> c_strlen mensaje_actual;
        spell (take c mensaje_actual) (velocidad * 4) p }
      else if mode = 2 then do {
        p \<leftarrow> printStringScroll 1 mensaje_actual velocidad (CHR ''<'') (clearDisplay p);
        Some (clearDisplay (panel_delay 250 p)) }
      else if mode = 3 then do {
        p \<leftarrow> printStringScroll 1 mensaje_actual velocidad (CHR ''<'') (clearDisplay p);
        p \<leftarrow> printStringScroll 1 mensaje_actual velocidad (CHR ''>'') (panel_delay 250 p);
        Some (clearDisplay (panel_delay 250 p)) }
      else Some p)"

section \<open>What the panel shows\<close>

text \<open>The register file of the driver: the frame's bits 8 to 11 select the register.\<close>

definition latch :: "uint16 \<Rightarrow> uint8 list \<Rightarrow> uint8 list" where
  "latch f regs = regs[unat (drop_bit 8 f AND 15) := ucast f]"

fun regs_after :: "uint8 list \<Rightarrow> led_event list \<Rightarrow> uint8 list" where
  "regs_after regs [] = regs"
| "regs_after regs (Frame f # es) = regs_after (latch f regs) es"
| "regs_after regs (Delay t # es) = regs_after regs es"

definition matrix_columns :: "uint8 list \<Rightarrow> uint8 list" where
  "matrix_columns regs = take 8 (drop 1 regs)"

text \<open>What is seen, and for how long.\<close>

fun screens :: "uint8 list \<Rightarrow> led_event list \<Rightarrow> (uint8 list \<times> int) list" where
  "screens regs [] = []"
| "screens regs (Frame f # es) = screens (latch f regs) es"
| "screens regs (Delay t # es) = (matrix_columns regs, t) # screens regs es"

text \<open>A text as the columns it is drawn with, and a window of eight columns onto it: the text stands at
  column \<open>off\<close> and everything around it is dark.\<close>

definition text_columns :: "char list \<Rightarrow> uint8 list" where
  "text_columns cs = concat (map (\<lambda>c. 0 # the (map_of font c)) cs) @ [0]"

definition text_at :: "char list \<Rightarrow> int \<Rightarrow> uint8" where
  "text_at cs k = (if 0 \<le> k \<and> k < int (length (text_columns cs)) then text_columns cs ! nat k else 0)"

definition window :: "char list \<Rightarrow> int \<Rightarrow> uint8 list" where
  "window cs off = map (\<lambda>j. text_at cs (int j - off)) [0..<8]"

definition drawable :: "char list \<Rightarrow> bool" where
  "drawable cs \<longleftrightarrow> (\<forall>c\<in>set cs. c \<noteq> NUL \<and> map_of font c \<noteq> None)"

section \<open>The driver's registers\<close>

lemma frame_parts:
  "drop_bit 8 (push_bit 8 (ucast reg) OR ucast data :: uint16) = ucast (reg :: uint8)"
  "ucast (push_bit 8 (ucast reg) OR ucast data :: uint16) = (data :: uint8)"
  by (rule bit_word_eqI; auto simp: bit_simps dest: bit_imp_le_length)+

lemma low_nibble: "unat (w AND 15 :: 'a :: len word) = unat w mod 16"
  using unat_and_mask [of w 4] by (simp add: mask_eq_exp_minus_1)

lemma unat_ucast_16 [simp]: "unat (ucast (w :: uint8) :: uint16) = unat w"
  by transfer (simp add: take_bit_eq_mod)

lemma latch_frame:
  "latch (push_bit 8 (ucast reg) OR ucast data) regs = regs[unat (reg :: uint8) mod 16 := data]"
  unfolding latch_def frame_parts low_nibble by simp

lemma regs_after_append: "regs_after regs (es @ fs) = regs_after (regs_after regs es) fs"
  by (induction regs es rule: regs_after.induct) auto

lemma screens_append: "screens regs (es @ fs) = screens regs es @ screens (regs_after regs es) fs"
  by (induction regs es rule: regs_after.induct) auto

lemma length_regs_after [simp]: "length (regs_after regs es) = length regs"
  by (induction regs es rule: regs_after.induct) (auto simp: latch_def)

lemma length_matrix_columns [simp]: "length regs = 16 \<Longrightarrow> length (matrix_columns regs) = 8"
  by (simp add: matrix_columns_def)

lemma matrix_columns_update:
  "matrix_columns (regs[Suc k := v]) = (if k < 8 then (matrix_columns regs)[k := v] else matrix_columns regs)"
  by (auto simp: matrix_columns_def drop_update_swap take_update_swap list_update_beyond)

lemma matrix_columns_other [simp]: "k = 0 \<or> 8 < k \<Longrightarrow> matrix_columns (regs[k := v]) = matrix_columns regs"
  by (cases k) (simp add: matrix_columns_def, simp add: matrix_columns_update)

text \<open>The panel's state as the driver has it: \<open>regs0\<close> are the registers at power up.\<close>

definition panel_ok :: "uint8 list \<Rightarrow> led_panel \<Rightarrow> bool" where
  "panel_ok regs0 p \<longleftrightarrow> length regs0 = 16 \<and> length (status p) = 64"

definition picture :: "uint8 list \<Rightarrow> led_panel \<Rightarrow> uint8 list" where
  "picture regs0 p = matrix_columns (regs_after regs0 (bus p))"

definition seen :: "uint8 list \<Rightarrow> led_panel \<Rightarrow> (uint8 list \<times> int) list" where
  "seen regs0 p = screens regs0 (bus p)"

lemma length_picture [simp]: "panel_ok regs0 p \<Longrightarrow> length (picture regs0 p) = 8"
  by (simp add: picture_def panel_ok_def)

lemma sendByte_picture:
  "panel_ok regs0 (sendByte reg v p) = panel_ok regs0 p"
  "seen regs0 (sendByte reg v p) = seen regs0 p"
  "picture regs0 (sendByte reg v p) =
     (if 0 < unat reg mod 16 \<and> unat reg mod 16 \<le> 8 then (picture regs0 p)[unat reg mod 16 - 1 := v]
      else picture regs0 p)"
  using matrix_columns_update [of "regs_after regs0 (bus p)" "unat reg mod 16 - 1" v]
  by (auto simp: panel_ok_def sendByte_def seen_def screens_append picture_def regs_after_append latch_frame)

lemma panel_delay_picture [simp]:
  "panel_ok regs0 (panel_delay t p) = panel_ok regs0 p"
  "seen regs0 (panel_delay t p) = seen regs0 p @ [(picture regs0 p, t)]"
  "picture regs0 (panel_delay t p) = picture regs0 p"
  by (simp_all add: panel_ok_def panel_delay_def seen_def screens_append picture_def regs_after_append)

abbreviation dark :: "uint8 list" where "dark \<equiv> replicate 8 0"

lemma unat_plus1: "n < 255 \<Longrightarrow> unat (1 + word_of_nat n :: uint8) = Suc n"
proof -
  assume "n < 255"
  moreover have "1 + word_of_nat n = (word_of_nat (Suc n) :: uint8)" by simp
  ultimately show ?thesis by (simp only: unat_of_nat) simp
qed

lemma clearDisplay_picture [simp]:
  assumes "panel_ok regs0 p"
  shows "panel_ok regs0 (clearDisplay p)" "seen regs0 (clearDisplay p) = seen regs0 p"
    "picture regs0 (clearDisplay p) = dark"
proof -
  let ?row = "\<lambda>i. sendByte (word_of_nat (i + 1)) 0"
  have "panel_ok regs0 (fold ?row [0..<n] p) \<and> seen regs0 (fold ?row [0..<n] p) = seen regs0 p \<and>
      take n (picture regs0 (fold ?row [0..<n] p)) = replicate n 0" if "n \<le> 8" for n
    using that
  proof (induction n)
    case (Suc n)
    let ?q = "fold ?row [0..<n] p"
    from Suc have q: "panel_ok regs0 ?q" "seen regs0 ?q = seen regs0 p" "take n (picture regs0 ?q) = replicate n 0"
      by simp_all
    from Suc.prems q have "take (Suc n) ((picture regs0 ?q)[n := 0]) = replicate n 0 @ [0]"
      by (simp add: take_Suc_conv_app_nth)
    with Suc.prems q show ?case
      by (simp add: sendByte_picture unat_plus1 replicate_append_same)
  qed (simp add: assms)
  from this [of 8] have fin: "panel_ok regs0 (clearDisplay p)" "seen regs0 (clearDisplay p) = seen regs0 p"
    "take 8 (picture regs0 (clearDisplay p)) = dark"
    unfolding clearDisplay_def by simp_all
  with length_picture [OF fin(1)] show "panel_ok regs0 (clearDisplay p)"
    "seen regs0 (clearDisplay p) = seen regs0 p" "picture regs0 (clearDisplay p) = dark"
    by simp_all
qed

section \<open>Drawing\<close>

text \<open>What drawing a list of columns at a position does to a picture.\<close>

fun paint :: "int \<Rightarrow> uint8 list \<Rightarrow> uint8 list \<Rightarrow> uint8 list" where
  "paint pos [] pic = pic"
| "paint pos (v # vs) pic = paint (pos + 1) vs (if 0 \<le> pos \<and> pos < 8 then pic[nat pos := v] else pic)"

lemma length_paint [simp]: "length (paint pos vs pic) = length pic"
  by (induction pos vs pic rule: paint.induct) auto

lemma nth_paint:
  "length pic = 8 \<Longrightarrow> j < 8 \<Longrightarrow> paint pos vs pic ! j =
    (if pos \<le> int j \<and> int j < pos + int (length vs) then vs ! nat (int j - pos) else pic ! j)"
proof (induction pos vs pic rule: paint.induct)
  case (2 pos v vs pic)
  let ?pic = "if 0 \<le> pos \<and> pos < 8 then pic[nat pos := v] else pic"
  have ih: "paint (pos + 1) vs ?pic ! j =
      (if pos + 1 \<le> int j \<and> int j < pos + 1 + int (length vs) then vs ! nat (int j - (pos + 1)) else ?pic ! j)"
    using "2.IH" "2.prems" by simp
  have now: "?pic ! j = (if int j = pos then v else pic ! j)"
    using "2.prems" by (auto simp: nth_list_update)
  consider "int j < pos" | "int j = pos" | "pos < int j" by linarith
  then show ?case
  proof cases
    case 3
    then have eq: "nat (int j - pos) = Suc (nat (int j - (pos + 1)))" by simp
    have "(v # vs) ! nat (int j - pos) = vs ! nat (int j - (pos + 1))"
      unfolding eq by simp
    moreover have "pos + 1 \<le> int j" "pos \<le> int j" "int j \<noteq> pos"
      "int j < pos + 1 + int (length vs) \<longleftrightarrow> int j < pos + int (length (v # vs))"
      using 3 by auto
    ultimately show ?thesis unfolding paint.simps ih now by presburger
  qed (unfold paint.simps ih now, simp_all)
qed auto

lemma paint_append: "paint pos (us @ vs) pic = paint (pos + int (length us)) vs (paint pos us pic)"
  by (induction pos us pic rule: paint.induct) (auto simp: algebra_simps)

definition drew :: "uint8 list \<Rightarrow> led_panel \<Rightarrow> uint8 list \<Rightarrow> led_panel \<Rightarrow> bool" where
  "drew regs0 p pic p' \<longleftrightarrow> panel_ok regs0 p' \<and> seen regs0 p' = seen regs0 p \<and> picture regs0 p' = pic"

lemma set_rows_draws:
  "panel_ok regs0 p \<Longrightarrow>
    \<exists>p'. set_rows pos vs p = Some p' \<and> drew regs0 p (paint pos vs (picture regs0 p)) p'"
proof (induction vs arbitrary: pos p)
  case (Cons v vs)
  have "\<exists>p1. setRow pos v p = Some p1 \<and>
    drew regs0 p (if 0 \<le> pos \<and> pos < 8 then (picture regs0 p)[nat pos := v] else picture regs0 p) p1"
  proof (cases "0 \<le> pos \<and> pos < 8")
    case True
    then obtain n where n: "pos = int n" "n < 8" using nonneg_int_cases [of pos] by auto
    then have "unat (word_of_int (pos + 1) :: uint8) = Suc (nat pos)"
      using unat_plus1 [of n] by (simp add: add.commute)
    moreover have "nat pos < 8" "length (status p) = 64" "length regs0 = 16"
      using True Cons.prems by (auto simp: panel_ok_def)
    ultimately have row: "setRow pos v p = Some (sendByte (word_of_int (pos + 1)) v (p\<lparr>status := (status p)[nat pos := v]\<rparr>))"
      "unat (word_of_int (pos + 1) :: uint8) = Suc (nat pos)"
      "panel_ok regs0 (p\<lparr>status := (status p)[nat pos := v]\<rparr>)"
      using True by (simp_all add: setRow_def mem_simps panel_ok_def)
    have "seen regs0 (p\<lparr>status := st\<rparr>) = seen regs0 p" "picture regs0 (p\<lparr>status := st\<rparr>) = picture regs0 p" for st
      by (simp_all add: seen_def picture_def)
    moreover have "Suc (nat pos) mod 16 = Suc (nat pos)" "nat pos < 8" using n by simp_all
    ultimately show ?thesis using row True by (simp add: drew_def sendByte_picture)
  next
    case False
    with Cons.prems show ?thesis by (auto simp: setRow_def drew_def)
  qed
  then obtain p1 where "setRow pos v p = Some p1"
    "drew regs0 p (if 0 \<le> pos \<and> pos < 8 then (picture regs0 p)[nat pos := v] else picture regs0 p) p1"
    by blast
  with Cons.IH [of p1 "pos + 1"] show ?case by (auto simp: drew_def)
qed (simp add: drew_def)

lemma glyph_lengths:
  "list_all (\<lambda>(c, g). length g = 5) font1" "list_all (\<lambda>(c, g). length g = 5) font2"
  "list_all (\<lambda>(c, g). length g = 5) font3" "list_all (\<lambda>(c, g). length g = 5) font4"
  "list_all (\<lambda>(c, g). length g = 5) font5" "list_all (\<lambda>(c, g). length g = 5) font6"
  by (simp add: font1_def, simp add: font2_def, simp add: font3_def, simp add: font4_def,
      simp add: font5_def, simp add: font6_def)

lemma font_glyph: "map_of font c = Some g \<Longrightarrow> length g = 5"
proof -
  assume "map_of font c = Some g"
  then have "(c, g) \<in> set font" by (rule map_of_SomeD)
  moreover have "list_all (\<lambda>(c, g). length g = 5) font"
    by (simp add: font_def glyph_lengths)
  ultimately show ?thesis by (auto simp: list_all_iff)
qed

lemma printChar_draws:
  assumes "panel_ok regs0 p" and "map_of font c = Some g"
  shows "\<exists>p'. printChar pos c p = Some p' \<and> drew regs0 p (paint pos (0 # g @ [0]) (picture regs0 p)) p'"
  using set_rows_draws [OF assms(1), of pos "0 # g @ [0]"] by (simp add: printChar_def assms(2))

lemma text_columns_Cons: "text_columns (c # cs) = 0 # the (map_of font c) @ text_columns cs"
  by (simp add: text_columns_def)

lemma text_columns_Nil [simp]: "text_columns [] = [0]"
  by (simp add: text_columns_def)

lemma length_text_columns: "drawable cs \<Longrightarrow> length (text_columns cs) = 6 * length cs + 1"
proof (induction cs)
  case (Cons c cs)
  then obtain g where "map_of font c = Some g" "drawable cs" by (auto simp: drawable_def)
  with Cons.IH font_glyph show ?case by (simp add: text_columns_Cons)
qed simp

lemma hd_text_columns: "\<exists>vs. text_columns cs = 0 # vs"
  by (cases cs) (auto simp: text_columns_Cons)

text \<open>The gap column of a character is drawn over by the next one.\<close>

lemma printString_draws:
  assumes "panel_ok regs0 p" and "drawable cs" and "cs \<noteq> []"
  shows "\<exists>p'. printString_from i pos (cs @ NUL # rest) p = Some p' \<and>
    drew regs0 p (paint (6 * i + pos) (text_columns cs) (picture regs0 p)) p'"
  using assms
proof (induction cs arbitrary: i p)
  case (Cons c cs)
  from Cons.prems(2) obtain g where g: "c \<noteq> NUL" "map_of font c = Some g" "length g = 5" "drawable cs"
    using font_glyph by (auto simp: drawable_def)
  obtain p1 where p1: "printChar (6 * i + pos) c p = Some p1"
    "drew regs0 p (paint (6 * i + pos) (0 # g @ [0]) (picture regs0 p)) p1"
    using printChar_draws [OF Cons.prems(1) g(2)] by blast
  show ?case
  proof (cases "cs = []")
    case True
    with p1 g show ?thesis by (simp add: text_columns_Cons)
  next
    case False
    have ok1: "panel_ok regs0 p1" using p1(2) by (simp add: drew_def)
    from Cons.IH [OF ok1 g(4) False, of "i + 1"] obtain p2 where
      p2: "printString_from (i + 1) pos (cs @ NUL # rest) p1 = Some p2"
      "drew regs0 p1 (paint (6 * (i + 1) + pos) (text_columns cs) (picture regs0 p1)) p2"
      by blast
    obtain vs where vs: "text_columns cs = 0 # vs" using hd_text_columns by blast
    have "paint (q + 6) (0 # vs) (paint q (0 # g @ [0]) pic) = paint q ((0 # g) @ 0 # vs) pic" for q pic
      using g(3) paint_append [of q "0 # g" "[0]" pic] paint_append [of q "0 # g" "0 # vs" pic]
      by (simp add: algebra_simps)
    from this [of "6 * i + pos"] p1 p2 g vs show ?thesis
      by (simp add: drew_def text_columns_Cons algebra_simps)
  qed
qed simp

section \<open>Scrolling\<close>

lemma text_at_edge: "drawable cs \<Longrightarrow> k \<le> 0 \<or> 6 * int (length cs) \<le> k \<Longrightarrow> text_at cs k = 0"
proof -
  assume cs: "drawable cs" and k: "k \<le> 0 \<or> 6 * int (length cs) \<le> k"
  obtain vs where vs: "text_columns cs = 0 # vs" using hd_text_columns by blast
  have last: "text_columns cs ! (6 * length cs) = 0"
    using length_text_columns [OF cs] by (simp add: text_columns_def nth_append)
  consider "k < 0" | "k = 0" | "k = 6 * int (length cs)" | "6 * int (length cs) < k" using k by linarith
  then show ?thesis
  proof cases
    case 3
    then have "nat k = 6 * length cs" by simp
    with last show ?thesis by (simp add: text_at_def)
  next
    case 4
    then show ?thesis by (simp add: text_at_def length_text_columns [OF cs])
  qed (simp_all add: text_at_def vs)
qed

text \<open>A text drawn over a dark panel, or over itself one column aside, leaves nothing of the old picture.\<close>

lemma paint_window:
  assumes cs: "drawable cs" and old: "pic = dark \<or> pic = window cs q0 \<and> \<bar>q - q0\<bar> \<le> 1"
  shows "paint q (text_columns cs) pic = window cs q"
proof (rule nth_equalityI)
  have len: "length pic = 8" using old by (auto simp: window_def)
  then show "length (paint q (text_columns cs) pic) = length (window cs q)" by (simp add: window_def)
  fix j assume "j < length (paint q (text_columns cs) pic)"
  then have j: "j < 8" using len by simp
  have "pic ! j = 0" if out: "\<not> (q \<le> int j \<and> int j < q + int (length (text_columns cs)))"
    using old
  proof
    assume w: "pic = window cs q0 \<and> \<bar>q - q0\<bar> \<le> 1"
    then have "int j - q0 \<le> 0 \<or> 6 * int (length cs) \<le> int j - q0"
      using out length_text_columns [OF cs] by auto
    with w j text_at_edge [OF cs] show ?thesis by (simp add: window_def)
  qed (simp add: j)
  then show "paint q (text_columns cs) pic ! j = window cs q ! j"
    using j by (auto simp: nth_paint [OF len] window_def text_at_def)
qed

lemma window_empty: "window [] q = dark"
  by (rule nth_equalityI) (auto simp: window_def text_at_def nth_Cons')

lemma printString_window:
  assumes "panel_ok regs0 p" and cs: "drawable cs"
    and old: "picture regs0 p = dark \<or> picture regs0 p = window cs q0 \<and> \<bar>q - q0\<bar> \<le> 1"
  shows "\<exists>p'. printString q (cs @ NUL # rest) p = Some p' \<and> drew regs0 p (window cs q) p'"
proof (cases "cs = []")
  case True
  with assms show ?thesis by (auto simp: printString_def drew_def window_empty)
next
  case False
  with printString_draws [OF assms(1) cs, of 0 q rest] paint_window [OF cs old] show ?thesis
    by (simp add: printString_def)
qed

lemma scroll_frames_window:
  assumes "panel_ok regs0 p" and "drawable cs"
    and "picture regs0 p = dark \<or> picture regs0 p = window cs q0 \<and> \<bar>q - q0\<bar> \<le> 1"
    and "successively (\<lambda>a b. \<bar>b - a\<bar> \<le> 1) (q # qs)"
  shows "\<exists>p'. scroll_frames (q # qs) (cs @ NUL # rest) t p = Some p' \<and> panel_ok regs0 p' \<and>
    seen regs0 p' = seen regs0 p @ map (\<lambda>q. (window cs q, t)) (q # qs) \<and>
    picture regs0 p' = window cs (last (q # qs))"
  using assms
proof (induction qs arbitrary: q q0 p)
  case Nil
  with printString_window [OF Nil.prems(1-3), of rest] show ?case by (auto simp: drew_def)
next
  case (Cons r qs)
  from printString_window [OF Cons.prems(1-3), of rest] obtain p1 where
    p1: "printString q (cs @ NUL # rest) p = Some p1" "drew regs0 p (window cs q) p1" by blast
  have "panel_ok regs0 (panel_delay t p1)"
    "picture regs0 (panel_delay t p1) = dark \<or>
      picture regs0 (panel_delay t p1) = window cs q \<and> \<bar>r - q\<bar> \<le> 1"
    "successively (\<lambda>a b. \<bar>b - a\<bar> \<le> 1) (r # qs)"
    using p1(2) Cons.prems(4) by (auto simp: drew_def)
  from Cons.IH [OF this(1) Cons.prems(2) this(2,3)]
  show ?case using p1 by (auto simp: drew_def)
qed

lemma c_strlen_text: "drawable cs \<Longrightarrow> c_strlen (cs @ NUL # rest) = Some (length cs)"
  by (induction cs) (auto simp: drawable_def)

lemma successively_left: "successively (\<lambda>a b. \<bar>b - a\<bar> \<le> 1) (map (\<lambda>i. - int i + pos) [0..<n])"
  by (simp add: successively_conv_nth)

lemma successively_right: "successively (\<lambda>a b. \<bar>b - a\<bar> \<le> 1) (map (\<lambda>i. (- m + int i) + pos) [0..<n])"
  by (simp add: successively_conv_nth)

lemma window_gone: "drawable cs \<Longrightarrow> q \<le> - 6 * int (length cs) \<Longrightarrow> window cs q = dark"
  by (rule nth_equalityI) (auto simp: window_def text_at_edge)

text \<open>Both directions of a scroll over a dark panel, or over the text at most one column aside.\<close>

definition clean :: "char list \<Rightarrow> int \<Rightarrow> uint8 list \<Rightarrow> bool" where
  "clean cs q pic \<longleftrightarrow> pic = dark \<or> (\<exists>q0. pic = window cs q0 \<and> \<bar>q - q0\<bar> \<le> 1)"

lemma clean_dark [simp]: "clean cs q dark"
  by (simp add: clean_def)

lemma clean_self [simp]: "clean cs q (window cs q)"
  by (auto simp: clean_def)

lemma scroll_clean:
  assumes "panel_ok regs0 p" and "drawable cs" and "clean cs (hd qs) (picture regs0 p)"
    and "successively (\<lambda>a b. \<bar>b - a\<bar> \<le> 1) qs" and "qs \<noteq> []"
  shows "\<exists>p'. scroll_frames qs (cs @ NUL # rest) t p = Some p' \<and> panel_ok regs0 p' \<and>
    seen regs0 p' = seen regs0 p @ map (\<lambda>q. (window cs q, t)) qs \<and>
    picture regs0 p' = window cs (last qs)"
proof -
  obtain q0 where "picture regs0 p = dark \<or> picture regs0 p = window cs q0 \<and> \<bar>hd qs - q0\<bar> \<le> 1"
    using assms(3) by (auto simp: clean_def)
  from scroll_frames_window [OF assms(1,2) this, of "tl qs" rest t] assms(4,5) show ?thesis by simp
qed

lemma scroll_left:
  assumes "panel_ok regs0 p" and "drawable cs" and "clean cs pos (picture regs0 p)"
  shows "\<exists>p'. printStringScroll pos (cs @ NUL # rest) t (CHR ''<'') p = Some p' \<and> panel_ok regs0 p' \<and>
    seen regs0 p' = seen regs0 p @ map (\<lambda>i. (window cs (pos - int i), t)) [0..<6 * length cs + 1] \<and>
    picture regs0 p' = window cs (pos - 6 * int (length cs))"
proof -
  have "clean cs (hd (map (\<lambda>i. - int i + pos) [0..<length cs * 6 + 1])) (picture regs0 p)"
    using assms(3) by (simp add: hd_map del: upt_Suc)
  from scroll_clean [OF assms(1,2) this successively_left, of rest t] show ?thesis
    by (simp add: printStringScroll_def c_strlen_text [OF assms(2)] o_def algebra_simps)
qed

lemma scroll_right:
  assumes "panel_ok regs0 p" and "drawable cs" and "clean cs (pos - 6 * int (length cs)) (picture regs0 p)"
  shows "\<exists>p'. printStringScroll pos (cs @ NUL # rest) t (CHR ''>'') p = Some p' \<and> panel_ok regs0 p' \<and>
    seen regs0 p' = seen regs0 p @
      map (\<lambda>i. (window cs (pos - 6 * int (length cs) + int i), t)) [0..<6 * length cs + 1] \<and>
    picture regs0 p' = window cs pos"
proof -
  have "clean cs (hd (map (\<lambda>i. (- int (length cs * 6) + int i) + pos) [0..<length cs * 6 + 1])) (picture regs0 p)"
    using assms(3) by (simp add: hd_map algebra_simps del: upt_Suc)
  from scroll_clean [OF assms(1,2) this successively_right, of rest t] show ?thesis
    by (simp add: printStringScroll_def c_strlen_text [OF assms(2)] o_def algebra_simps)
qed

lemma spell_shows:
  assumes "panel_ok regs0 p" and "drawable cs"
  shows "\<exists>p'. spell cs t p = Some p' \<and> panel_ok regs0 p' \<and>
    seen regs0 p' = seen regs0 p @ map (\<lambda>c. (window [c] 2, t)) cs"
  using assms
proof (induction cs arbitrary: p)
  case (Cons c cs)
  then obtain g where g: "map_of font c = Some g" "drawable [c]" "drawable cs" by (auto simp: drawable_def)
  have q: "panel_ok regs0 (clearDisplay p)" using Cons.prems by simp
  obtain p1 where p1: "printChar 2 c (clearDisplay p) = Some p1"
    "drew regs0 (clearDisplay p) (paint 2 (0 # g @ [0]) (picture regs0 (clearDisplay p))) p1"
    using printChar_draws [OF q g(1)] by blast
  have "paint 2 (0 # g @ [0]) dark = window [c] 2"
    using paint_window [OF g(2), of dark 0 2] by (simp add: text_columns_Cons g(1))
  with p1(2) Cons.prems have ok: "panel_ok regs0 (panel_delay t p1)"
    and s1: "seen regs0 (panel_delay t p1) = seen regs0 p @ [(window [c] 2, t)]"
    by (simp_all add: drew_def)
  from Cons.IH [OF ok g(3)] p1(1) s1 show ?case by auto
qed simp

section \<open>The properties of the panel\<close>

text \<open>A panel after reset and the message \<open>Hi\<close> in the 17 bytes of the message array.\<close>

definition panel0 :: led_panel where
  "panel0 = \<lparr>status = replicate 64 0, beyond = 7, bus = []\<rparr>"

abbreviation regs_zero :: "uint8 list" where "regs_zero \<equiv> replicate 16 0"

lemma panel0_ok [simp]: "panel_ok regs_zero panel0"
  by (simp add: panel_ok_def panel0_def)

lemma panel0_dark [simp]: "picture regs_zero panel0 = dark"
  by (simp add: picture_def panel0_def matrix_columns_def eval_nat_numeral)

lemma drawable_code: "drawable cs = list_all (\<lambda>c. c \<noteq> NUL \<and> c \<in> set (map fst font)) cs"
  by (auto simp: drawable_def list_all_iff map_of_eq_None_iff)

lemma drawable_Hi: "drawable ''Hi''"
  unfolding drawable_code by code_simp

text \<open>\<open>printString\<close> draws a text of characters the font has at any position, also one partly or
  wholly outside the matrix, without an access outside \<open>status\<close>: each of the eight columns then
  shows the column of the text that falls on it and keeps its old contents where the text does
  not reach; characters stand six columns apart.\<close>

lemma printString_correct:
  assumes "panel_ok regs0 p" and "drawable cs" and "cs \<noteq> []"
  shows "\<exists>p'. printString pos (cs @ NUL # rest) p = Some p' \<and> panel_ok regs0 p' \<and>
    length (text_columns cs) = 6 * length cs + 1 \<and>
    (\<forall>j<8. picture regs0 p' ! j =
      (if pos \<le> int j \<and> int j \<le> pos + 6 * int (length cs) then text_columns cs ! nat (int j - pos)
       else picture regs0 p ! j))"
  using printString_draws [OF assms, of 0 pos rest] length_text_columns [OF assms(2)]
    length_picture [OF assms(1)]
  by (auto simp: printString_def drew_def nth_paint)

lemma msjScroll_shows:
  assumes ok: "panel_ok regs0 p" and cs: "drawable cs"
  shows "\<exists>p'. msjScroll speed mode (cs @ NUL # rest) p = Some p' \<and> panel_ok regs0 p' \<and>
    (mode = 2 \<or> mode = 3 \<longrightarrow> picture regs0 p' = dark) \<and>
    seen regs0 p' = seen regs0 p @
      (if mode = 1 then map (\<lambda>c. (window [c] 2, 4 * velocidad_of speed)) cs
       else if mode = 2 then
         map (\<lambda>i. (window cs (1 - int i), velocidad_of speed)) [0..<6 * length cs + 1] @
         [(window cs (1 - 6 * int (length cs)), 250)]
       else if mode = 3 then
         map (\<lambda>i. (window cs (1 - int i), velocidad_of speed)) [0..<6 * length cs + 1] @
         [(window cs (1 - 6 * int (length cs)), 250)] @
         map (\<lambda>i. (window cs (1 - 6 * int (length cs) + int i), velocidad_of speed)) [0..<6 * length cs + 1] @
         [(window cs 1, 250)]
       else [])"
proof -
  have c0: "panel_ok regs0 (clearDisplay p)" "picture regs0 (clearDisplay p) = dark"
    "seen regs0 (clearDisplay p) = seen regs0 p"
    using ok by simp_all
  obtain p1 where p1: "printStringScroll 1 (cs @ NUL # rest) (velocidad_of speed) (CHR ''<'') (clearDisplay p) = Some p1"
    "panel_ok regs0 p1" "picture regs0 p1 = window cs (1 - 6 * int (length cs))"
    "seen regs0 p1 = seen regs0 p @ map (\<lambda>i. (window cs (1 - int i), velocidad_of speed)) [0..<6 * length cs + 1]"
    using scroll_left [OF c0(1) cs, of 1 rest "velocidad_of speed"] c0 by auto
  have left: "clean cs (1 - 6 * int (length cs)) (picture regs0 (panel_delay 250 p1))"
    using p1(3) by simp
  obtain p2 where p2: "printStringScroll 1 (cs @ NUL # rest) (velocidad_of speed) (CHR ''>'') (panel_delay 250 p1) = Some p2"
    "panel_ok regs0 p2" "picture regs0 p2 = window cs 1"
    "seen regs0 p2 = seen regs0 (panel_delay 250 p1) @
      map (\<lambda>i. (window cs (1 - 6 * int (length cs) + int i), velocidad_of speed)) [0..<6 * length cs + 1]"
    using scroll_right [OF _ cs left, of rest "velocidad_of speed"] p1(2) by auto
  obtain p3 where p3: "spell cs (velocidad_of speed * 4) p = Some p3" "panel_ok regs0 p3"
    "seen regs0 p3 = seen regs0 p @ map (\<lambda>c. (window [c] 2, velocidad_of speed * 4)) cs"
    using spell_shows [OF ok cs] by blast
  consider "mode = 1" | "mode = 2" | "mode = 3" | "mode \<noteq> 1" "mode \<noteq> 2" "mode \<noteq> 3" by blast
  then show ?thesis
  proof cases
    case 1
    with p3 show ?thesis by (simp add: msjScroll_def c_strlen_text [OF cs] mult.commute)
  next
    case 2
    with p1 show ?thesis by (simp add: msjScroll_def del: upt_Suc)
  next
    case 3
    with p1 p2 show ?thesis by (simp add: msjScroll_def del: upt_Suc)
  next
    case 4
    with ok show ?thesis by (simp add: msjScroll_def)
  qed
qed

text \<open>At speed 5 in mode 1 the panel spells \<open>Hi\<close>.\<close>

text \<open>C0: \<open>msjScroll\<close> shows the message in the chosen mode: mode 1 spells it character by character,
  mode 2 moves it through to the left, mode 3 to the left and back; the waits follow the chosen
  speed; it ends in every mode, with the panel dark in modes 2 and 3, and any other mode shows
  nothing.\<close>

theorem msjScroll_correct:
  assumes ok: "panel_ok regs0 p" and cs: "drawable cs"
  shows "\<exists>p'. msjScroll speed mode (cs @ NUL # rest) p = Some p' \<and> panel_ok regs0 p' \<and>
    (mode = 2 \<or> mode = 3 \<longrightarrow> picture regs0 p' = dark) \<and>
    seen regs0 p' = seen regs0 p @
      (if mode = 1 then map (\<lambda>c. (window [c] 2, 4 * velocidad_of speed)) cs
       else if mode = 2 then
         map (\<lambda>i. (window cs (1 - int i), velocidad_of speed)) [0..<6 * length cs + 1] @
         [(window cs (1 - 6 * int (length cs)), 250)]
       else if mode = 3 then
         map (\<lambda>i. (window cs (1 - int i), velocidad_of speed)) [0..<6 * length cs + 1] @
         [(window cs (1 - 6 * int (length cs)), 250)] @
         map (\<lambda>i. (window cs (1 - 6 * int (length cs) + int i), velocidad_of speed)) [0..<6 * length cs + 1] @
         [(window cs 1, 250)]
       else [])"
  by (rule msjScroll_shows [OF ok cs])

theorem msjScroll_correct_witness:
  "\<exists>p'. msjScroll 5 1 (''Hi'' @ [NUL]) panel0 = Some p' \<and>
    seen regs_zero p' = [(window ''H'' 2, 560), (window ''i'' 2, 560)]"
proof -
  have "seen regs_zero panel0 = []" by (simp add: seen_def panel0_def)
  with msjScroll_correct [OF panel0_ok drawable_Hi, of 5 1 "[]"] show ?thesis
    by (auto simp: velocidad_of_def)
qed

lemma fold_put_status:
  "n \<le> length (status p) \<Longrightarrow> 0 < n \<Longrightarrow>
    fold (\<lambda>i. put_status i 0) [1..<n] p = p\<lparr>status := take 1 (status p) @ replicate (n - 1) 0 @ drop n (status p)\<rparr>"
proof (induction n)
  case (Suc n)
  show ?case
  proof (cases "n = 0")
    case False
    let ?xs = "take 1 (status p) @ replicate (n - 1) 0"
    have "drop n (status p) = status p ! n # drop (Suc n) (status p)" "length ?xs = n"
      using Suc.prems False by (simp_all add: Cons_nth_drop_Suc)
    then have "(?xs @ drop n (status p))[n := 0] = ?xs @ 0 # drop (Suc n) (status p)"
      by (metis list_update_length)
    moreover have "replicate (n - 1) 0 @ 0 # ys = replicate n 0 @ ys" for ys :: "uint8 list"
      using False by (cases n) (simp_all add: replicate_app_Cons_same)
    ultimately have "(take 1 (status p) @ replicate (n - 1) 0 @ drop n (status p))[n := 0] =
        take 1 (status p) @ replicate n 0 @ drop (Suc n) (status p)"
      by simp
    with Suc False show ?thesis by (simp add: put_status_def)
  qed (use Suc.prems in \<open>simp\<close>)
qed simp

lemma sendByte_regs [simp]:
  "regs_after regs0 (bus (sendByte reg v p)) = (regs_after regs0 (bus p))[unat reg mod 16 := v]"
  "status (sendByte reg v p) = status p" "beyond (sendByte reg v p) = beyond p"
  by (simp_all add: sendByte_def regs_after_append latch_frame)

lemma clearDisplay_regs [simp]:
  "8 < k \<Longrightarrow> regs_after regs0 (bus (clearDisplay p)) ! k = regs_after regs0 (bus p) ! k"
  "status (clearDisplay p) = status p" "beyond (clearDisplay p) = beyond p"
proof -
  let ?row = "\<lambda>i. sendByte (word_of_nat (i + 1)) 0"
  have "(8 < k \<longrightarrow> regs_after regs0 (bus (fold ?row [0..<n] p)) ! k = regs_after regs0 (bus p) ! k) \<and>
      status (fold ?row [0..<n] p) = status p \<and> beyond (fold ?row [0..<n] p) = beyond p" if "n \<le> 8" for n
    using that
  proof (induction n)
    case (Suc n)
    from Suc.prems have "n + 1 < 256" "(n + 1) mod 16 = n + 1" by simp_all
    with Suc show ?case by (simp add: unat_plus1)
  qed simp
  from this [of 8] show "8 < k \<Longrightarrow> regs_after regs0 (bus (clearDisplay p)) ! k = regs_after regs0 (bus p) ! k"
    "status (clearDisplay p) = status p" "beyond (clearDisplay p) = beyond p"
    by (simp_all add: clearDisplay_def)
qed

lemma fold_put_status_bus [simp]: "bus (fold (\<lambda>i. put_status i 0) is p) = bus p"
  by (induction "is" arbitrary: p) (auto simp: put_status_def)

lemma wipe_status:
  assumes "length (status p) = 64"
  shows "status (fold (\<lambda>i. put_status i 0) [1..<65] p) = status p ! 0 # replicate 63 0"
    "beyond (fold (\<lambda>i. put_status i 0) [1..<65] p) = 0"
proof -
  have "[1..<65] = [1..<64] @ [64]" using upt_Suc_append [of 1 64] by simp
  moreover have "take 1 (status p) = [status p ! 0]"
    using assms by (cases "status p") auto
  ultimately show "status (fold (\<lambda>i. put_status i 0) [1..<65] p) = status p ! 0 # replicate 63 0"
    "beyond (fold (\<lambda>i. put_status i 0) [1..<65] p) = 0"
    using fold_put_status [of 64 p] assms by (simp_all add: put_status_def)
qed

text \<open>\<open>Init_MAX7219\<close> leaves the driver with the test off, all eight columns scanned, no decoding,
  the shutdown ended, three times the chosen intensity and a dark matrix, and clears entries 1 to 63 of
  \<open>status\<close>. It also clears the byte of memory behind that array, whatever variable lies there.\<close>

lemma Init_MAX7219_correct:
  assumes "panel_ok regs0 p"
  shows "(let p' = Init_MAX7219 i p; regs = regs_after regs0 (bus p') in
    panel_ok regs0 p' \<and> seen regs0 p' = seen regs0 p \<and> matrix_columns regs = dark \<and>
    regs ! 15 = 0 \<and> regs ! 11 = 7 \<and> regs ! 9 = 0 \<and> regs ! 12 = 1 \<and> regs ! 10 = i * 3 \<and>
    status p' = status p ! 0 # replicate 63 0 \<and> beyond p' = 0)"
proof -
  let ?p0 = "fold (\<lambda>i. put_status i 0) [1..<65] p"
  let ?p1 = "sendByte 9 0 (sendByte 11 7 (sendByte 15 0 ?p0))"
  let ?p2 = "sendByte 10 (i * 3) (sendByte 12 1 (sendByte 12 0 (clearDisplay ?p1)))"
  have len: "length (status p) = 64" "length regs0 = 16" using assms by (simp_all add: panel_ok_def)
  note w = wipe_status [OF len(1)]
  have p0: "panel_ok regs0 ?p0" "seen regs0 ?p0 = seen regs0 p"
    using w(1) len by (simp_all add: panel_ok_def seen_def)
  then have p1: "panel_ok regs0 ?p1" "seen regs0 ?p1 = seen regs0 p" by (simp_all add: sendByte_picture)
  then have p2: "panel_ok regs0 ?p2" "seen regs0 ?p2 = seen regs0 p" by (simp_all add: sendByte_picture)
  have def_: "Init_MAX7219 i p = clearDisplay ?p2"
    by (simp add: Init_MAX7219_def Let_def)
  have regs: "regs_after regs0 (bus (clearDisplay ?p2)) ! 15 = 0"
    "regs_after regs0 (bus (clearDisplay ?p2)) ! 11 = 7" "regs_after regs0 (bus (clearDisplay ?p2)) ! 9 = 0"
    "regs_after regs0 (bus (clearDisplay ?p2)) ! 12 = 1" "regs_after regs0 (bus (clearDisplay ?p2)) ! 10 = i * 3"
    using len by simp_all
  have pic: "matrix_columns (regs_after regs0 (bus (clearDisplay ?p2))) = dark"
    using clearDisplay_picture(3) [OF p2(1)] by (simp only: picture_def)
  have mem: "status (clearDisplay ?p2) = status p ! 0 # replicate 63 0" "beyond (clearDisplay ?p2) = 0"
    by (simp_all only: clearDisplay_regs sendByte_regs w)
  show ?thesis
    unfolding def_ Let_def using regs pic mem p2 by simp
qed

end
