(* ===== verification/Lcd.thy ===== *)
theory Lcd
  imports CIAA_Prelude
begin

text \<open>
  The character display (\<^verbatim>\<open>projects/myproject/src/lcd.c\<close>): an HD44780 in 4-bit mode on the port
  \<open>outputs\<close>, whose bits 10 to 13 are the data lines, bit 14 the register select and bit 15 the
  enable line. The lower bits of the port belong to the keypad.

  The words the code writes to the port and its waits are the trace \<open>wire\<close>. The display's side is
  modelled too: it takes a nibble at each falling edge of the enable line (\<open>latched\<close>), two nibbles
  are a byte, and a byte is an instruction or a character for its memory (\<open>exec\<close>).
\<close>

section \<open>The routines\<close>

datatype out_event = OutWrite uint16 | OutDelay int

record lcd_io =
  outputs :: uint16
  lcd_mode :: uint8
  wire :: "out_event list"

definition port_write :: "uint16 \<Rightarrow> lcd_io \<Rightarrow> lcd_io" where
  "port_write w io = io\<lparr>outputs := w, wire := wire io @ [OutWrite w]\<rparr>"

definition LCD_delay_ms :: "int \<Rightarrow> lcd_io \<Rightarrow> lcd_io" where
  "LCD_delay_ms time io = io\<lparr>wire := wire io @ [OutDelay time]\<rparr>"

definition nibble_lines :: "uint8 \<Rightarrow> uint16 \<Rightarrow> uint16" where
  "nibble_lines data w0 =
     (let w1 = (if bit data 0 then w0 OR 0x0400 else w0 AND 0xFBFF);
          w2 = (if bit data 1 then w1 OR 0x0800 else w1 AND 0xF7FF);
          w3 = (if bit data 2 then w2 OR 0x1000 else w2 AND 0xEFFF)
      in if bit data 3 then w3 OR 0x2000 else w3 AND 0xDFFF)"

definition LCD_send_nibble :: "uint8 \<Rightarrow> lcd_io \<Rightarrow> lcd_io" where
  "LCD_send_nibble data io =
     (let io = port_write (nibble_lines data (outputs io)) io;
          io = port_write (outputs io OR 0x8000) io
      in port_write (outputs io AND 0x7FFF) io)"

definition LCD_send_byte :: "uint8 \<Rightarrow> uint8 \<Rightarrow> lcd_io \<Rightarrow> lcd_io" where
  "LCD_send_byte address data io =
     (let io = port_write (if address = 0 then outputs io AND 0xBFFF else outputs io OR 0x4000) io;
          io = port_write (outputs io AND 0x7FFF) io;
          io = LCD_send_nibble (drop_bit 4 data) io;
          io = LCD_send_nibble (data AND 0x0F) io
      in LCD_delay_ms 3 io)"

definition LCD_SEC_LINE :: uint8 where "LCD_SEC_LINE = 0x40"

definition LCD_pos_xy :: "uint8 \<Rightarrow> uint8 \<Rightarrow> lcd_io \<Rightarrow> lcd_io" where
  "LCD_pos_xy x y io =
     (let address = (if y \<noteq> 0 then LCD_SEC_LINE else 0) + x in LCD_send_byte 0 (0x80 OR address) io)"

definition LCD_write_char :: "char \<Rightarrow> lcd_io \<Rightarrow> lcd_io" where
  "LCD_write_char c io =
     (if c = CHR 0x0C then LCD_delay_ms 5 (LCD_send_byte 0 1 io)
      else if c = CHR 0x0A then io
      else if c = CHR 0x0D then LCD_pos_xy 0 1 io
      else LCD_send_byte 1 (of_char c) io)"

text \<open>The pointer is read before the count is tested: a string without terminator is read past its end.\<close>

fun LCD_write_string :: "char list \<Rightarrow> uint8 \<Rightarrow> lcd_io \<Rightarrow> lcd_io option" where
  "LCD_write_string [] fin io = None"
| "LCD_write_string (c # cs) fin io =
     (if c \<noteq> CHR 0x00 \<and> 0 < fin then LCD_write_string cs (fin - 1) (LCD_write_char c io) else Some io)"

definition lcd_set_mode :: "uint8 \<Rightarrow> lcd_io \<Rightarrow> lcd_io" where
  "lcd_set_mode m io = LCD_send_byte 0 m (io\<lparr>lcd_mode := m\<rparr>)"

definition LCD_display_on :: "lcd_io \<Rightarrow> lcd_io" where
  "LCD_display_on io = lcd_set_mode (lcd_mode io OR 4) io"

definition LCD_display_off :: "lcd_io \<Rightarrow> lcd_io" where
  "LCD_display_off io = lcd_set_mode (lcd_mode io AND 0b11111011) io"

definition LCD_cursor_on :: "lcd_io \<Rightarrow> lcd_io" where
  "LCD_cursor_on io = lcd_set_mode (lcd_mode io OR 2) io"

definition LCD_cursor_off :: "lcd_io \<Rightarrow> lcd_io" where
  "LCD_cursor_off io = lcd_set_mode (lcd_mode io AND 0b11111101) io"

definition LCD_cursor_blink_on :: "lcd_io \<Rightarrow> lcd_io" where
  "LCD_cursor_blink_on io = lcd_set_mode (lcd_mode io OR 1) io"

definition LCD_cursor_blink_off :: "lcd_io \<Rightarrow> lcd_io" where
  "LCD_cursor_blink_off io = lcd_set_mode (lcd_mode io AND 0b11111110) io"

definition update_LCD :: "char list \<Rightarrow> uint8 \<Rightarrow> uint8 \<Rightarrow> lcd_io \<Rightarrow> lcd_io option" where
  "update_LCD cadena numLinea fin io = LCD_write_string cadena fin (LCD_pos_xy 0 numLinea io)"

definition LCD_init :: "uint8 \<Rightarrow> uint8 \<Rightarrow> lcd_io \<Rightarrow> lcd_io" where
  "LCD_init mode1 mode2 io =
     (let io = port_write (outputs io AND 0x03FF) io;
          io = LCD_delay_ms 15 io;
          io = fold (\<lambda>_ io. LCD_delay_ms 5 (LCD_send_nibble 3 io)) [0..<3] io;
          io = LCD_send_nibble 2 io;
          io = LCD_send_byte 0 (0x20 OR mode1) io;
          io = LCD_send_byte 0 (0x08 OR mode2) io;
          io = io\<lparr>lcd_mode := 0x08 OR mode2\<rparr>;
          io = LCD_send_byte 0 1 io;
          io = LCD_delay_ms 5 io
      in LCD_send_byte 0 6 io)"

section \<open>The display\<close>

text \<open>A nibble with the register select at each falling edge of the enable line.\<close>

fun latched :: "bool \<Rightarrow> out_event list \<Rightarrow> (bool \<times> uint8) list" where
  "latched e [] = []"
| "latched e (OutWrite w # es) =
     (if e \<and> \<not> bit w 15 then [(bit w 14, ucast (drop_bit 10 w) AND 15)] else []) @ latched (bit w 15) es"
| "latched e (OutDelay t # es) = latched e es"

fun enable_after :: "bool \<Rightarrow> out_event list \<Rightarrow> bool" where
  "enable_after e [] = e"
| "enable_after e (OutWrite w # es) = enable_after (bit w 15) es"
| "enable_after e (OutDelay t # es) = enable_after e es"

fun lcd_bytes :: "(bool \<times> uint8) list \<Rightarrow> (bool \<times> uint8) list" where
  "lcd_bytes ((rs, h) # (_, l) # ns) = (rs, push_bit 4 h OR l) # lcd_bytes ns"
| "lcd_bytes _ = []"

record lcd_ctrl =
  ddram :: "nat \<Rightarrow> uint8"
  addr :: nat

definition next_addr :: "nat \<Rightarrow> nat" where
  "next_addr a = (if a = 0x27 then 0x40 else if a = 0x67 then 0 else a + 1)"

definition exec :: "bool \<times> uint8 \<Rightarrow> lcd_ctrl \<Rightarrow> lcd_ctrl" where
  "exec b d =
     (if fst b then d\<lparr>ddram := (ddram d)(addr d := snd b), addr := next_addr (addr d)\<rparr>
      else if 0x80 \<le> snd b then d\<lparr>addr := unat (snd b AND 0x7F)\<rparr>
      else if snd b = 1 then d\<lparr>ddram := (\<lambda>_. 0x20), addr := 0\<rparr>
      else d)"

section \<open>What the display receives\<close>

lemma port_lines:
  "w AND 0xFBFF = unset_bit 10 w" "w AND 0xF7FF = unset_bit 11 w" "w AND 0xEFFF = unset_bit 12 w"
  "w AND 0xDFFF = unset_bit 13 w" "w AND 0xBFFF = unset_bit 14 w" "w AND 0x7FFF = unset_bit 15 w"
  "w OR 0x0400 = set_bit 10 w" "w OR 0x0800 = set_bit 11 w" "w OR 0x1000 = set_bit 12 w"
  "w OR 0x2000 = set_bit 13 w" "w OR 0x4000 = set_bit 14 w" "w OR 0x8000 = set_bit 15 w"
  for w :: uint16
proof -
  have "(0xFBFF :: uint16) = - 1025" "(0xF7FF :: uint16) = - 2049" "(0xEFFF :: uint16) = - 4097"
    "(0xDFFF :: uint16) = - 8193" "(0xBFFF :: uint16) = - 16385" "(0x7FFF :: uint16) = - 32769"
    by simp_all
  note this [simp]
  show "w AND 0xFBFF = unset_bit 10 w" "w AND 0xF7FF = unset_bit 11 w" "w AND 0xEFFF = unset_bit 12 w"
    "w AND 0xDFFF = unset_bit 13 w" "w AND 0xBFFF = unset_bit 14 w" "w AND 0x7FFF = unset_bit 15 w"
    "w OR 0x0400 = set_bit 10 w" "w OR 0x0800 = set_bit 11 w" "w OR 0x1000 = set_bit 12 w"
    "w OR 0x2000 = set_bit 13 w" "w OR 0x4000 = set_bit 14 w" "w OR 0x8000 = set_bit 15 w"
    by (simp_all add: unset_bit_eq_and_not set_bit_eq_or not_numeral_eq)
qed

lemma bit_15 [simp]: "bit (15 :: uint8) n \<longleftrightarrow> n < 4" "bit (15 :: int) n \<longleftrightarrow> n < 4"
  using bit_mask_iff [of 4 n, where 'a = uint8] bit_mask_iff [of 4 n, where 'a = int]
  by (auto simp: mask_eq_exp_minus_1)

lemma bit_nibble_lines:
  "bit (nibble_lines d w) n \<longleftrightarrow> (if 10 \<le> n \<and> n < 14 then bit d (n - 10) else bit w n)"
proof -
  have "n - 10 = 0 \<longleftrightarrow> n = 10 \<or> n < 10" by auto
  consider "n = 10" | "n = 11" | "n = 12" | "n = 13" | "n < 10" | "13 < n" by linarith
  then show ?thesis
    by cases (auto simp: nibble_lines_def Let_def port_lines bit_set_bit_iff bit_unset_bit_iff dest: bit_imp_le_length)
qed

text \<open>\<open>sends io ns io'\<close>: from \<open>io\<close> to \<open>io'\<close> the display takes the nibbles \<open>ns\<close>, the enable line is low
  again, and the lower ten lines of the port never change.\<close>

definition sends :: "lcd_io \<Rightarrow> (bool \<times> uint8) list \<Rightarrow> lcd_io \<Rightarrow> bool" where
  "sends io ns io' \<longleftrightarrow> (\<exists>es. wire io' = wire io @ es \<and> latched False es = ns \<and> \<not> enable_after False es \<and>
     (\<forall>w. OutWrite w \<in> set es \<longrightarrow> take_bit 10 w = take_bit 10 (outputs io))) \<and>
     \<not> bit (outputs io') 15 \<and> take_bit 10 (outputs io') = take_bit 10 (outputs io)"

lemma latched_append: "latched e (xs @ ys) = latched e xs @ latched (enable_after e xs) ys"
  by (induction e xs rule: latched.induct) auto

lemma enable_after_append: "enable_after e (xs @ ys) = enable_after (enable_after e xs) ys"
  by (induction e xs rule: latched.induct) auto

lemma sends_trans [trans]: "sends io ns io1 \<Longrightarrow> sends io1 ms io2 \<Longrightarrow> sends io (ns @ ms) io2"
  unfolding sends_def by (fastforce simp: latched_append enable_after_append)

lemma sends_refl [simp]: "\<not> bit (outputs io) 15 \<Longrightarrow> sends io [] io"
  by (auto simp: sends_def)

lemma sends_delay: "sends io ns io' \<Longrightarrow> sends io ns (LCD_delay_ms t io')"
  unfolding sends_def LCD_delay_ms_def by (fastforce simp: latched_append enable_after_append)

lemma sends_idle: "sends io ns io' \<Longrightarrow> \<not> bit (outputs io') 15"
  by (simp add: sends_def)

lemma take_10_lines [simp]:
  "10 \<le> n \<Longrightarrow> take_bit 10 (set_bit n w) = take_bit 10 (w :: uint16)"
  "10 \<le> n \<Longrightarrow> take_bit 10 (unset_bit n w) = take_bit 10 w"
  by (rule bit_word_eqI; auto simp: bit_take_bit_iff bit_set_bit_iff bit_unset_bit_iff)+

lemma nibble_on_lines:
  "ucast (drop_bit 10 (unset_bit 15 (set_bit 15 (nibble_lines d w)))) AND 15 = (d AND 15 :: uint8)"
proof (rule bit_word_eqI)
  fix n assume n: "n < LENGTH(8)"
  then show "bit (ucast (drop_bit 10 (unset_bit 15 (set_bit 15 (nibble_lines d w)))) AND 15 :: uint8) n =
      bit (d AND 15) n"
    by (auto simp: bit_simps bit_nibble_lines)
qed

lemma sends_nibble:
  assumes "\<not> bit (outputs io) 15"
  shows "sends io [(bit (outputs io) 14, data AND 15)] (LCD_send_nibble data io)"
    "bit (outputs (LCD_send_nibble data io)) 14 = bit (outputs io) 14"
proof -
  let ?n = "nibble_lines data (outputs io)"
  let ?es = "[OutWrite ?n, OutWrite (set_bit 15 ?n), OutWrite (unset_bit 15 (set_bit 15 ?n))]"
  have io: "LCD_send_nibble data io =
      io\<lparr>outputs := unset_bit 15 (set_bit 15 ?n), wire := wire io @ ?es\<rparr>"
    by (simp add: LCD_send_nibble_def port_write_def Let_def port_lines)
  have low: "take_bit 10 ?n = take_bit 10 (outputs io)"
    by (rule bit_word_eqI) (simp add: bit_take_bit_iff bit_nibble_lines)
  have "latched False ?es = [(bit (outputs io) 14, data AND 15)]"
    using assms by (simp add: bit_nibble_lines nibble_on_lines bit_set_bit_iff bit_unset_bit_iff)
  with assms low show "sends io [(bit (outputs io) 14, data AND 15)] (LCD_send_nibble data io)"
    unfolding sends_def io by (auto simp: bit_set_bit_iff bit_unset_bit_iff)
  show "bit (outputs (LCD_send_nibble data io)) 14 = bit (outputs io) 14"
    unfolding io by (simp add: bit_nibble_lines bit_set_bit_iff bit_unset_bit_iff)
qed

lemma sends_byte:
  assumes "\<not> bit (outputs io) 15"
  shows "sends io [(a \<noteq> 0, drop_bit 4 data), (a \<noteq> 0, data AND 15)] (LCD_send_byte a data io)"
proof -
  let ?w1 = "if a = 0 then outputs io AND 0xBFFF else outputs io OR 0x4000"
  let ?io2 = "port_write (?w1 AND 0x7FFF) (port_write ?w1 io)"
  have rs: "sends io [] ?io2" "bit (outputs ?io2) 14 = (a \<noteq> 0)"
    using assms by (auto simp: sends_def port_write_def port_lines bit_set_bit_iff bit_unset_bit_iff)
  note n1 = sends_nibble [OF sends_idle [OF rs(1)], of "drop_bit 4 data"]
  note n2 = sends_nibble [OF sends_idle [OF n1(1)], of "data AND 0x0F"]
  have "drop_bit 4 data AND 15 = drop_bit 4 data"
    by (rule bit_word_eqI) (auto simp: bit_simps dest: bit_imp_le_length)
  with sends_trans [OF sends_trans [OF rs(1) n1(1)] n2(1)] n1(2) rs(2)
  have "sends io [(a \<noteq> 0, drop_bit 4 data), (a \<noteq> 0, data AND 15)]
      (LCD_send_nibble (data AND 0x0F) (LCD_send_nibble (drop_bit 4 data) ?io2))"
    by (simp add: and.assoc)
  from sends_delay [OF this, of 3] show ?thesis
    by (simp add: LCD_send_byte_def Let_def port_write_def)
qed

lemma enable_low [simp]: "sends io ns io' \<Longrightarrow> \<not> bit (outputs io') 15"
  by (simp add: sends_def)

section \<open>Bytes and text\<close>

definition nibbles :: "bool \<times> uint8 \<Rightarrow> (bool \<times> uint8) list" where
  "nibbles b = [(fst b, drop_bit 4 (snd b)), (fst b, snd b AND 15)]"

lemma lcd_bytes_nibbles [simp]: "lcd_bytes (concat (map nibbles bs)) = bs"
proof (induction bs)
  case (Cons b bs)
  have "push_bit 4 (drop_bit 4 v) OR (v AND 15) = v" for v :: uint8
    by (rule bit_word_eqI) (auto simp: bit_simps)
  with Cons show ?case by (simp add: nibbles_def)
qed simp

text \<open>The display receives the bytes \<open>bs\<close>.\<close>

definition shows_bytes :: "lcd_io \<Rightarrow> (bool \<times> uint8) list \<Rightarrow> lcd_io \<Rightarrow> bool" where
  "shows_bytes io bs io' \<longleftrightarrow> sends io (concat (map nibbles bs)) io'"

lemma shows_bytes_trans: "shows_bytes io bs io1 \<Longrightarrow> shows_bytes io1 cs io2 \<Longrightarrow> shows_bytes io (bs @ cs) io2"
  using sends_trans by (auto simp: shows_bytes_def)

lemma shows_bytes_delay: "shows_bytes io bs io' \<Longrightarrow> shows_bytes io bs (LCD_delay_ms t io')"
  by (simp add: shows_bytes_def sends_delay)

lemma shows_bytes_low: "shows_bytes io bs io' \<Longrightarrow> \<not> bit (outputs io') 15"
  by (simp add: shows_bytes_def)

lemma shows_none: "\<not> bit (outputs io) 15 \<Longrightarrow> shows_bytes io [] io"
  by (simp add: shows_bytes_def)

lemma shows_byte: "\<not> bit (outputs io) 15 \<Longrightarrow> shows_bytes io [(a \<noteq> 0, data)] (LCD_send_byte a data io)"
  using sends_byte by (simp add: shows_bytes_def nibbles_def)

lemma shows_mode: "sends io ns io' \<longleftrightarrow> sends io ns (io'\<lparr>lcd_mode := m\<rparr>)"
  "sends (io\<lparr>lcd_mode := m\<rparr>) ns io' \<longleftrightarrow> sends io ns io'"
  by (simp_all add: sends_def)

text \<open>What a character becomes.\<close>

definition char_bytes :: "char \<Rightarrow> (bool \<times> uint8) list" where
  "char_bytes c =
     (if c = CHR 0x0C then [(False, 1)] else if c = CHR 0x0A then []
      else if c = CHR 0x0D then [(False, 0xC0)] else [(True, of_char c)])"

definition pos_byte :: "uint8 \<Rightarrow> bool \<times> uint8" where
  "pos_byte y = (False, 0x80 OR (if y \<noteq> 0 then LCD_SEC_LINE else 0))"

lemma shows_pos: "\<not> bit (outputs io) 15 \<Longrightarrow> shows_bytes io [pos_byte y] (LCD_pos_xy 0 y io)"
  using shows_byte [of io 0] by (simp add: LCD_pos_xy_def pos_byte_def)

lemma shows_char: "\<not> bit (outputs io) 15 \<Longrightarrow> shows_bytes io (char_bytes c) (LCD_write_char c io)"
  using shows_byte [of io 0 1] shows_byte [of io 1 "of_char c"] shows_pos [of io 1]
    shows_none [of io]
  by (auto simp: LCD_write_char_def char_bytes_def shows_bytes_delay pos_byte_def LCD_SEC_LINE_def)

lemma shows_string:
  "\<not> bit (outputs io) 15 \<Longrightarrow> CHR 0x00 \<notin> set cs \<Longrightarrow>
    \<exists>io'. LCD_write_string (cs @ CHR 0x00 # rest) fin io = Some io' \<and>
      shows_bytes io (concat (map char_bytes (take (unat fin) cs))) io'"
proof (induction cs arbitrary: fin io)
  case Nil
  then show ?case by (simp add: shows_bytes_def)
next
  case (Cons c cs)
  show ?case
  proof (cases "fin = 0")
    case True
    with Cons.prems show ?thesis by (simp add: shows_bytes_def)
  next
    case False
    note c = shows_char [OF Cons.prems(1), of c]
    from Cons.IH [OF shows_bytes_low [OF c], of "fin - 1"] Cons.prems(2) obtain io' where
      "LCD_write_string (cs @ CHR 0x00 # rest) (fin - 1) (LCD_write_char c io) = Some io'"
      "shows_bytes (LCD_write_char c io) (concat (map char_bytes (take (unat (fin - 1)) cs))) io'"
      by auto
    moreover have "0 < fin" "unat fin = Suc (unat (fin - 1))"
      using False by (simp_all add: word_gt_0 unat_minus_one) (metis Suc_pred unat_gt_0 word_neq_0_conv)
    ultimately show ?thesis using c Cons.prems(2) by (auto intro: shows_bytes_trans)
  qed
qed

section \<open>The properties of the display\<close>

definition received :: "lcd_io \<Rightarrow> lcd_io \<Rightarrow> (bool \<times> uint8) list" where
  "received io io' = lcd_bytes (latched False (drop (length (wire io)) (wire io')))"

lemma shows_received: "shows_bytes io bs io' \<Longrightarrow> received io io' = bs"
  by (auto simp: shows_bytes_def sends_def received_def)

definition keypad_lines_kept :: "lcd_io \<Rightarrow> lcd_io \<Rightarrow> bool" where
  "keypad_lines_kept io io' \<longleftrightarrow> (\<forall>w. OutWrite w \<in> set (drop (length (wire io)) (wire io')) \<longrightarrow>
     take_bit 10 w = take_bit 10 (outputs io)) \<and> take_bit 10 (outputs io') = take_bit 10 (outputs io)"

lemma shows_kept: "shows_bytes io bs io' \<Longrightarrow> keypad_lines_kept io io'"
  by (auto simp: shows_bytes_def sends_def keypad_lines_kept_def)

definition lcd_io0 :: lcd_io where
  "lcd_io0 = \<lparr>outputs = 0x0140, lcd_mode = 0, wire = []\<rparr>"

text \<open>the display receives from \<open>LCD_send_byte\<close> exactly the byte sent, as an instruction when the
  address is 0 and as a character otherwise; the enable line is low again afterwards and no write
  disturbs the lower lines of the port, the keypad's.\<close>

lemma LCD_send_byte_received:
  assumes "\<not> bit (outputs io) 15"
  shows "received io (LCD_send_byte address data io) = [(address \<noteq> 0, data)] \<and>
    \<not> bit (outputs (LCD_send_byte address data io)) 15 \<and> keypad_lines_kept io (LCD_send_byte address data io)"
  using shows_byte [OF assms, of address data] shows_received shows_bytes_low shows_kept by metis

text \<open>Writing characters without control characters into the memory of the display.\<close>

definition plain :: "char list \<Rightarrow> bool" where
  "plain cs \<longleftrightarrow> (\<forall>c\<in>set cs. c \<notin> {CHR 0x00, CHR 0x0A, CHR 0x0C, CHR 0x0D})"

lemma plain_bytes: "plain cs \<Longrightarrow> concat (map char_bytes cs) = map (\<lambda>c. (True, of_char c)) cs"
  by (induction cs) (auto simp: plain_def char_bytes_def)

definition line_base :: "uint8 \<Rightarrow> nat" where "line_base y = (if y \<noteq> 0 then 0x40 else 0)"

lemma exec_pos: "exec (pos_byte y) d = d\<lparr>addr := line_base y\<rparr>"
  by (simp add: exec_def pos_byte_def line_base_def LCD_SEC_LINE_def)

lemma exec_text:
  "n + length cs \<le> 40 \<Longrightarrow> addr d = line_base y + n \<Longrightarrow>
    ddram (fold exec (map (\<lambda>c. (True, of_char c)) cs) d) a =
      (if line_base y + n \<le> a \<and> a < line_base y + n + length cs then of_char (cs ! (a - (line_base y + n)))
       else ddram d a)"
proof (induction cs arbitrary: n d)
  case (Cons c cs)
  let ?d = "exec (True, of_char c) d"
  show ?case
  proof (cases "cs = []")
    case True
    with Cons.prems show ?thesis by (auto simp: exec_def)
  next
    case False
    with Cons.prems have "n + 1 < 40" by (cases cs) auto
    with Cons.prems have "addr ?d = line_base y + (n + 1)"
      by (auto simp: exec_def next_addr_def line_base_def)
    from Cons.IH [OF _ this] Cons.prems have
      "ddram (fold exec (map (\<lambda>c. (True, of_char c)) cs) ?d) a =
        (if line_base y + (n + 1) \<le> a \<and> a < line_base y + (n + 1) + length cs
         then of_char (cs ! (a - (line_base y + (n + 1)))) else ddram ?d a)" by simp
    moreover have "ddram ?d a = (if a = line_base y + n then of_char c else ddram d a)"
      using Cons.prems by (simp add: exec_def)
    moreover have "(c # cs) ! (a - (line_base y + n)) = cs ! (a - (line_base y + (n + 1)))"
      if "line_base y + (n + 1) \<le> a"
    proof -
      have "a - (line_base y + n) = Suc (a - (line_base y + (n + 1)))" using that by simp
      then show ?thesis by (simp only: nth_Cons_Suc)
    qed
    ultimately show ?thesis
      by (cases "a = line_base y + n"; cases "line_base y + (n + 1) \<le> a") simp_all
  qed
qed auto

text \<open>C0: \<open>update_LCD\<close> puts the text, up to its terminator or the given count, at the start of the line,
  and leaves every other cell of the display's memory and the keypad's lines alone.\<close>

theorem update_LCD_correct:
  assumes "\<not> bit (outputs io) 15" and "plain cs" and "min (unat fin) (length cs) \<le> 40"
  shows "\<exists>io'. update_LCD (cs @ CHR 0x00 # rest) y fin io = Some io' \<and> \<not> bit (outputs io') 15 \<and>
    keypad_lines_kept io io' \<and>
    (\<forall>d a. ddram (fold exec (received io io') d) a =
      (if line_base y \<le> a \<and> a < line_base y + min (unat fin) (length cs)
       then of_char (cs ! (a - line_base y)) else ddram d a))"
proof -
  let ?cs = "take (unat fin) cs"
  have "CHR 0x00 \<notin> set cs" using assms(2) by (auto simp: plain_def)
  note pos = shows_pos [OF assms(1), of y]
  obtain io' where io': "LCD_write_string (cs @ CHR 0x00 # rest) fin (LCD_pos_xy 0 y io) = Some io'"
    "shows_bytes (LCD_pos_xy 0 y io) (concat (map char_bytes ?cs)) io'"
    using shows_string [OF shows_bytes_low [OF pos] \<open>CHR 0x00 \<notin> set cs\<close>] by blast
  have "plain ?cs" using assms(2) by (auto simp: plain_def dest: in_set_takeD)
  with shows_bytes_trans [OF pos io'(2)]
  have all: "shows_bytes io (pos_byte y # map (\<lambda>c. (True, of_char c)) ?cs) io'"
    by (simp add: plain_bytes)
  have "ddram (fold exec (received io io') d) a =
      (if line_base y \<le> a \<and> a < line_base y + min (unat fin) (length cs)
       then of_char (cs ! (a - line_base y)) else ddram d a)" for d a
    using exec_text [of 0 ?cs "d\<lparr>addr := line_base y\<rparr>" y a] assms(3) shows_received [OF all]
    by (auto simp: exec_pos min.commute)
  with io'(1) shows_bytes_low [OF all] shows_kept [OF all] show ?thesis by (simp add: update_LCD_def)
qed

theorem update_LCD_correct_witness:
  "\<exists>io'. update_LCD (''Hi'' @ CHR 0x00 # []) 1 16 lcd_io0 = Some io' \<and>
    ddram (fold exec (received lcd_io0 io') \<lparr>ddram = \<lambda>_. 0x20, addr = 0\<rparr>) 0x41 = 0x69"
proof -
  have "plain ''Hi''" "\<not> bit (outputs lcd_io0) 15" by (simp_all add: plain_def lcd_io0_def)
  from update_LCD_correct [OF this(2,1), of 16 "[]" 1] show ?thesis
    by (auto simp: line_base_def)
qed

lemma LCD_init_sends:
  assumes "\<not> bit (outputs io) 15"
  shows "latched False (drop (length (wire io)) (wire (LCD_init mode1 mode2 io))) =
      [(False, 3), (False, 3), (False, 3), (False, 2)] @
      concat (map nibbles [(False, 0x20 OR mode1), (False, 0x08 OR mode2), (False, 1), (False, 6)]) \<and>
    lcd_mode (LCD_init mode1 mode2 io) = 0x08 OR mode2 \<and>
    \<not> bit (outputs (LCD_init mode1 mode2 io)) 15 \<and> keypad_lines_kept io (LCD_init mode1 mode2 io)"
proof -
  let ?io1 = "LCD_delay_ms 15 (port_write (outputs io AND 0x03FF) io)"
  let ?step = "\<lambda>io. LCD_delay_ms 5 (LCD_send_nibble 3 io)"
  let ?io2 = "LCD_send_nibble 2 (?step (?step (?step ?io1)))"
  let ?io3 = "LCD_send_byte 0 (0x08 OR mode2) (LCD_send_byte 0 (0x20 OR mode1) ?io2)"
  let ?io4 = "LCD_send_byte 0 6 (LCD_delay_ms 5 (LCD_send_byte 0 1 (?io3\<lparr>lcd_mode := 0x08 OR mode2\<rparr>)))"
  have init: "LCD_init mode1 mode2 io = ?io4"
    by (simp add: LCD_init_def Let_def upt_rec)
  have m: "(0x03FF :: uint16) = mask 10" by (simp add: mask_eq_exp_minus_1)
  have low: "outputs io AND 0x03FF = take_bit 10 (outputs io)" unfolding m by (simp add: take_bit_eq_mask)
  have s1: "sends io [] ?io1 \<and> \<not> bit (outputs ?io1) 14"
    using assms by (auto simp: sends_def port_write_def LCD_delay_ms_def low bit_take_bit_iff)
  have step: "sends io (ns @ [(False, 3)]) (?step j) \<and> \<not> bit (outputs (?step j)) 14"
    if "sends io ns j \<and> \<not> bit (outputs j) 14" for ns j
    using that sends_trans [of io ns j] sends_nibble [of j 3] sends_delay by (auto simp: LCD_delay_ms_def)
  from step [OF step [OF step [OF s1]]] have s2: "sends io [(False, 3), (False, 3), (False, 3), (False, 2)] ?io2"
    using sends_trans [of io _ "?step (?step (?step ?io1))"]
      sends_nibble(1) [of "?step (?step (?step ?io1))" 2] by fastforce
  have b: "sends io (ns @ nibbles (False, v)) (LCD_send_byte 0 v j)" if "sends io ns j" for ns v j
    using sends_trans [OF that sends_byte [OF enable_low [OF that], of 0 v]] by (simp add: nibbles_def)
  from b [OF b [OF s2]] have s3: "sends io ([(False, 3), (False, 3), (False, 3), (False, 2)] @
      concat (map nibbles [(False, 0x20 OR mode1), (False, 0x08 OR mode2)])) (?io3\<lparr>lcd_mode := 0x08 OR mode2\<rparr>)"
    using shows_mode(1) by simp
  from b [OF sends_delay [OF b [OF s3]]] have s4: "sends io ([(False, 3), (False, 3), (False, 3), (False, 2)] @
      concat (map nibbles [(False, 0x20 OR mode1), (False, 0x08 OR mode2), (False, 1), (False, 6)])) ?io4"
    by simp
  have mode: "lcd_mode ?io4 = 0x08 OR mode2"
    by (simp add: LCD_send_byte_def LCD_send_nibble_def LCD_delay_ms_def port_write_def Let_def)
  from s4 mode show ?thesis
    unfolding init by (auto simp: sends_def keypad_lines_kept_def)
qed

end
