(* ===== verification/Keypad.thy ===== *)
theory Keypad
  imports LedPanel Lcd
begin

text \<open>
  The keypad and the editor of the message (\<^verbatim>\<open>projects/myproject/src/botonera.c\<close>): the scan of the
  buttons, the multi-tap input of characters, the cursor, and the choice of speed, intensity
  and mode after the start.

  The global variables of the application are the record \<open>app\<close>. The bytes read from the input port
  are an argument: \<open>inp 0\<close> is the reading of the four buttons of the board, \<open>inp k\<close> the one after
  row \<open>k\<close> of the keypad is driven low. The code samples the port once per row; the waiting loop
  and the second test of each button look at the same sample. Activations of tasks are the trace
  \<open>activated\<close>. Bytes that count are \<open>nat\<close> with the wrap-around written out; flags are \<open>bool\<close>.
\<close>

section \<open>The state\<close>

datatype State = VELOCIDAD | INTENSIDAD | MODO | ACTIVO

record app =
  io :: lcd_io
  panel :: led_panel
  mensaje_buffer :: "char list"
  mensaje_actual :: "char list"
  cursor :: nat
  matrix_aux :: "nat list"
  shift :: bool
  mayus :: bool
  boton_actual :: nat
  boton_seleccionado :: nat
  conteo_salto :: nat
  conteo_funcionalidad :: nat
  flag_escribiendo :: bool
  first_touch :: bool
  flag_inicio :: bool
  flag_inicializacion :: bool
  valor :: nat
  app_state :: State
  speed :: nat
  intensity :: nat
  mode :: nat
  flag_cartel :: bool
  activated :: "nat list"

definition MAX_LENGTH_MESSAGE :: nat where "MAX_LENGTH_MESSAGE = 17"
definition MAX_TIME_WAITING :: nat where "MAX_TIME_WAITING = 20"
definition CONFIRMAR :: nat where "CONFIRMAR = 10"
definition BORRAR :: nat where "BORRAR = 11"
definition SHIFT :: nat where "SHIFT = 12"
definition IZQUIERDA :: nat where "IZQUIERDA = 13"
definition DERECHA :: nat where "DERECHA = 14"
definition ENTER :: nat where "ENTER = 15"

text \<open>The code \<open>'e'\<close> for no button.\<close>

definition EMPTY :: nat where "EMPTY = 101"

lemmas button_defs = CONFIRMAR_def BORRAR_def SHIFT_def IZQUIERDA_def DERECHA_def ENTER_def EMPTY_def

definition charmap :: "char list list" where
  "charmap = [
     ''  ?!#$%&*()'',
     '' 0123456789'',
     '' aAbBcC    '',
     '' dDeEfF    '',
     '' gGhHiI    '',
     '' jJkKlL    '',
     '' mMnNoO    '',
     '' pPqQrRsS  '',
     '' tTuUvV    '',
     '' wWxXyYzZ  '']"

definition get_charmap :: "nat \<Rightarrow> nat \<Rightarrow> char option" where
  "get_charmap fila columna = do { row \<leftarrow> rd charmap fila; rd row columna }"

definition SwitchesTask :: nat where "SwitchesTask = 1"

definition write_LCD :: "char list \<Rightarrow> nat \<Rightarrow> nat \<Rightarrow> app \<Rightarrow> app option" where
  "write_LCD s numLinea fin a = do {
     io' \<leftarrow> update_LCD s (word_of_nat numLinea) (word_of_nat fin) (io a);
     Some (a\<lparr>io := io'\<rparr>) }"

section \<open>The multi-tap input\<close>

definition set_aux :: "nat \<Rightarrow> nat \<Rightarrow> app \<Rightarrow> app option" where
  "set_aux i v a = do { m \<leftarrow> wr (matrix_aux a) i (v mod 256); Some (a\<lparr>matrix_aux := m\<rparr>) }"

definition contar_tiempo :: "app \<Rightarrow> app option" where
  "contar_tiempo a =
     (if conteo_salto a < MAX_TIME_WAITING
      then Some (a\<lparr>conteo_salto := (conteo_salto a + 1) mod 256\<rparr>)
      else do {
        a \<leftarrow> set_aux (boton_actual a) 0
          (a\<lparr>conteo_salto := 0, flag_escribiendo := False, cursor := (cursor a + 1) mod 256\<rparr>);
        Some (a\<lparr>boton_actual := EMPTY, boton_seleccionado := EMPTY\<rparr>) })"

definition check_boton_anterior :: "app \<Rightarrow> app option" where
  "check_boton_anterior a =
     (if flag_escribiendo a \<and> boton_actual a \<noteq> boton_seleccionado a
      then do {
        a \<leftarrow> set_aux (boton_actual a) 0 a;
        Some (a\<lparr>first_touch := True, boton_actual := boton_seleccionado a\<rparr>) }
      else if \<not> flag_escribiendo a
      then Some (a\<lparr>flag_escribiendo := True, first_touch := True, boton_actual := boton_seleccionado a\<rparr>)
      else Some a)"

definition mayusculas :: "app \<Rightarrow> app option" where
  "mayusculas a =
     (if shift a then do {
        v \<leftarrow> rd (matrix_aux a) (boton_actual a);
        a \<leftarrow> (if \<not> mayus a
              then do { a \<leftarrow> set_aux (boton_actual a) (v + 1) a; Some (a\<lparr>mayus := True\<rparr>) }
              else do { a \<leftarrow> set_aux (boton_actual a) (v + 255) a; Some (a\<lparr>mayus := False\<rparr>) });
        Some (a\<lparr>shift := False\<rparr>) }
      else Some a)"

definition primera_vez :: "app \<Rightarrow> app option" where
  "primera_vez a =
     (if first_touch a then do {
        a \<leftarrow> set_aux (boton_actual a) (if mayus a then 2 else 1) a;
        Some (a\<lparr>first_touch := False\<rparr>) }
      else Some a)"

definition escribir_buffer :: "app \<Rightarrow> app option" where
  "escribir_buffer a = do {
     v \<leftarrow> rd (matrix_aux a) (boton_actual a);
     c \<leftarrow> get_charmap (boton_actual a) v;
     buf \<leftarrow> wr (mensaje_buffer a) (cursor a) c;
     a \<leftarrow> write_LCD buf 1 (cursor a + 1) (a\<lparr>mensaje_buffer := buf\<rparr>);
     Some (a\<lparr>conteo_salto := 0\<rparr>) }"

text \<open>The cyclic movement of keys 2 to 9: upper case on even, lower case on odd positions.\<close>

definition cycle_aux :: "nat \<Rightarrow> bool \<Rightarrow> nat \<Rightarrow> nat" where
  "cycle_aux b may v =
     (let top = (if b = 7 \<or> b = 9 then 8 else 6)
      in if may then (if top \<le> v then 2 else v + 2) else (if top - 1 \<le> v then 1 else v + 2))"

definition mover_tecla :: "app \<Rightarrow> app option" where
  "mover_tecla a =
     (if 1 < boton_actual a \<and> boton_actual a < 10 then do {
        a \<leftarrow> mayusculas a;
        v \<leftarrow> rd (matrix_aux a) (boton_actual a);
        a \<leftarrow> set_aux (boton_actual a) (cycle_aux (boton_actual a) (mayus a) v) a;
        primera_vez a }
      else do {
        v \<leftarrow> rd (matrix_aux a) (boton_actual a);
        set_aux (boton_actual a) (if v < 10 then v + 1 else 1) a })"

definition funcionalidad_numeros :: "app \<Rightarrow> app option" where
  "funcionalidad_numeros a =
     (if boton_seleccionado a < 10 then do {
        a \<leftarrow> check_boton_anterior a;
        a \<leftarrow> mover_tecla a;
        escribir_buffer a }
      else Some a)"

section \<open>The editing keys\<close>

definition funcionalidad_confirmar :: "app \<Rightarrow> app option" where
  "funcionalidad_confirmar a =
     (if boton_seleccionado a = CONFIRMAR \<and> flag_escribiendo a \<and> cursor a < MAX_LENGTH_MESSAGE - 1
      then do {
        a \<leftarrow> set_aux (boton_actual a) 0
          (a\<lparr>conteo_salto := 0, flag_escribiendo := False, cursor := (cursor a + 1) mod 256\<rparr>);
        Some (a\<lparr>boton_actual := EMPTY, boton_seleccionado := EMPTY\<rparr>) }
      else Some a)"

definition funcionalidad_derecha :: "app \<Rightarrow> app option" where
  "funcionalidad_derecha a =
     (if boton_seleccionado a = DERECHA \<and> cursor a < MAX_LENGTH_MESSAGE - 1
      then do {
        c \<leftarrow> rd (mensaje_buffer a) (cursor a + 1);
        if c \<noteq> NUL
        then write_LCD (mensaje_buffer a) 1 ((cursor a + 1) mod 256 + 1) (a\<lparr>cursor := (cursor a + 1) mod 256\<rparr>)
        else Some a }
      else Some a)"

definition funcionalidad_shift :: "app \<Rightarrow> app" where
  "funcionalidad_shift a = (if boton_seleccionado a = SHIFT then a\<lparr>shift := \<not> shift a\<rparr> else a)"

definition funcionalidad_borrar_cancelar :: "app \<Rightarrow> app option" where
  "funcionalidad_borrar_cancelar a =
     (if boton_seleccionado a = BORRAR then do {
        a \<leftarrow> (if flag_escribiendo a then do {
                a \<leftarrow> set_aux (boton_actual a) 0 (a\<lparr>conteo_salto := 0, flag_escribiendo := False\<rparr>);
                Some (a\<lparr>boton_actual := EMPTY, boton_seleccionado := EMPTY\<rparr>) }
              else Some (a\<lparr>cursor := (cursor a + 255) mod 256\<rparr>));
        buf \<leftarrow> wr (mensaje_buffer a) (cursor a) (CHR 0x20);
        write_LCD buf 1 (cursor a + 1) (a\<lparr>mensaje_buffer := buf\<rparr>) }
      else Some a)"

definition funcionalidad_izquierda :: "app \<Rightarrow> app option" where
  "funcionalidad_izquierda a =
     (if boton_seleccionado a = IZQUIERDA
      then write_LCD (mensaje_buffer a) 1 ((cursor a + 255) mod 256 + 1) (a\<lparr>cursor := (cursor a + 255) mod 256\<rparr>)
      else Some a)"

text \<open>The loop that copies the message, entry by entry.\<close>

fun copy_message :: "nat list \<Rightarrow> char list \<Rightarrow> char list \<Rightarrow> char list option" where
  "copy_message [] src dst = Some dst"
| "copy_message (i # is) src dst = do { c \<leftarrow> rd src i; dst \<leftarrow> wr dst i c; copy_message is src dst }"

definition funcionalidad_enter :: "app \<Rightarrow> app option" where
  "funcionalidad_enter a =
     (if boton_seleccionado a = ENTER then do {
        a \<leftarrow> set_aux (boton_actual a) 0 (a\<lparr>conteo_salto := 0, flag_escribiendo := False\<rparr>);
        let a = a\<lparr>boton_actual := EMPTY, boton_seleccionado := EMPTY\<rparr>;
        msg \<leftarrow> copy_message [0..<cursor a + 1] (mensaje_buffer a) (mensaje_actual a);
        msg \<leftarrow> wr msg (cursor a + 1) NUL;
        let a = a\<lparr>mensaje_actual := msg\<rparr>;
        Some (if \<not> flag_inicio a then a\<lparr>activated := activated a @ [SwitchesTask], flag_inicio := True\<rparr> else a) }
      else Some a)"

text \<open>What \<open>obtener_funcionalidad\<close> does every third call.\<close>

definition atender_tecla :: "app \<Rightarrow> app option" where
  "atender_tecla a = do {
     a \<leftarrow> (if cursor a < MAX_LENGTH_MESSAGE - 1 then do {
             a \<leftarrow> funcionalidad_numeros a;
             a \<leftarrow> funcionalidad_confirmar a;
             a \<leftarrow> funcionalidad_derecha a;
             Some (funcionalidad_shift a) }
           else Some a);
     a \<leftarrow> (if 0 < cursor a then do {
             a \<leftarrow> funcionalidad_borrar_cancelar a;
             funcionalidad_izquierda a }
           else Some a);
     a \<leftarrow> funcionalidad_enter a;
     Some (a\<lparr>boton_seleccionado := EMPTY\<rparr>) }"

definition obtener_funcionalidad :: "app \<Rightarrow> app option" where
  "obtener_funcionalidad a = do {
     let a = a\<lparr>conteo_funcionalidad := (conteo_funcionalidad a + 1) mod 256\<rparr>;
     a \<leftarrow> (if flag_escribiendo a then contar_tiempo a else Some a);
     if conteo_funcionalidad a = 3 then atender_tecla (a\<lparr>conteo_funcionalidad := 0\<rparr>)
     else Some a }"

section \<open>The scan of the buttons\<close>

definition botonera_CIAA :: "uint8 \<Rightarrow> app \<Rightarrow> app" where
  "botonera_CIAA inp a =
     (let a = (if inp AND 0x01 = 0 then a\<lparr>boton_seleccionado := SHIFT\<rparr> else a);
          a = (if inp AND 0x02 = 0 then a\<lparr>boton_seleccionado := IZQUIERDA\<rparr> else a);
          a = (if inp AND 0x04 = 0 then a\<lparr>boton_seleccionado := DERECHA\<rparr> else a)
      in if inp AND 0x08 = 0 then a\<lparr>boton_seleccionado := ENTER\<rparr> else a)"

definition scan_row :: "uint16 \<Rightarrow> uint16 \<Rightarrow> nat \<Rightarrow> nat \<Rightarrow> nat \<Rightarrow> uint8 \<Rightarrow> app \<Rightarrow> app" where
  "scan_row low high b1 b2 b3 inp a =
     (let a = a\<lparr>io := port_write ((outputs (io a) AND low) OR high) (io a)\<rparr>;
          a = (if inp AND 0x10 = 0 then a\<lparr>boton_seleccionado := b1\<rparr> else a);
          a = (if inp AND 0x20 = 0 then a\<lparr>boton_seleccionado := b2\<rparr> else a)
      in if inp AND 0x40 = 0 then a\<lparr>boton_seleccionado := b3\<rparr> else a)"

definition obtener_boton :: "(nat \<Rightarrow> uint8) \<Rightarrow> app \<Rightarrow> app" where
  "obtener_boton inp a =
     (let a = botonera_CIAA (inp 0) a;
          a = scan_row 0xFFBF 0x0380 1 2 3 (inp 1) a;
          a = scan_row 0xFF7F 0x0340 4 5 6 (inp 2) a;
          a = scan_row 0xFEFF 0x02C0 7 8 9 (inp 3) a
      in scan_row 0xFDFF 0x01C0 BORRAR 0 CONFIRMAR (inp 4) a)"

section \<open>The invariant of the editor\<close>

text \<open>The last position of a key in its row of \<open>charmap\<close>.\<close>

definition key_top :: "nat \<Rightarrow> nat" where
  "key_top b = (if b < 2 then 10 else if b = 7 \<or> b = 9 then 8 else 6)"

text \<open>The position of the key that is being pressed: upper case letters are even.\<close>

definition pos_ok :: "nat \<Rightarrow> bool \<Rightarrow> nat \<Rightarrow> bool" where
  "pos_ok b may v \<longleftrightarrow> 1 \<le> v \<and> v \<le> key_top b \<and> (2 \<le> b \<longrightarrow> (even v \<longleftrightarrow> may))"

text \<open>The counters: only the key that is being pressed has one.\<close>

definition aux_ok :: "app \<Rightarrow> bool" where
  "aux_ok a \<longleftrightarrow> length (matrix_aux a) = 16 \<and>
     (\<forall>i<10. if flag_escribiendo a \<and> i = boton_actual a then pos_ok i (mayus a) (matrix_aux a ! i)
             else matrix_aux a ! i = 0) \<and>
     (flag_escribiendo a \<longrightarrow> boton_actual a < 10 \<and> cursor a < 16 \<and> (2 \<le> boton_actual a \<longrightarrow> \<not> first_touch a))"

definition typable :: "char \<Rightarrow> bool" where
  "typable c \<longleftrightarrow> c \<in> set (concat charmap)"

definition text_ok :: "app \<Rightarrow> bool" where
  "text_ok a \<longleftrightarrow> length (mensaje_buffer a) = 17 \<and> mensaje_buffer a ! 16 = NUL \<and>
     (\<forall>i<16. typable (mensaje_buffer a ! i)) \<and> cursor a \<le> 16"

definition message_ok :: "app \<Rightarrow> bool" where
  "message_ok a \<longleftrightarrow> length (mensaje_actual a) = 17 \<and>
     (\<exists>n<17. mensaje_actual a ! n = NUL \<and> (\<forall>i<n. typable (mensaje_actual a ! i)))"

definition lcd_idle :: "app \<Rightarrow> bool" where
  "lcd_idle a \<longleftrightarrow> \<not> bit (outputs (io a)) 15"

definition ed_inv :: "app \<Rightarrow> bool" where
  "ed_inv a \<longleftrightarrow> aux_ok a \<and> text_ok a \<and> message_ok a \<and> lcd_idle a"

lemmas ed_defs = ed_inv_def aux_ok_def text_ok_def message_ok_def lcd_idle_def

lemma charmap_typable:
  "b < 10 \<Longrightarrow> v \<le> 10 \<Longrightarrow> \<exists>c. get_charmap b v = Some c \<and> typable c"
proof -
  assume bv: "b < 10" "v \<le> 10"
  have len: "length charmap = 10" "list_all (\<lambda>r. length r = 11) charmap" by (simp_all add: charmap_def)
  with bv have "length (charmap ! b) = 11" by (simp add: list_all_length)
  with bv len have "get_charmap b v = Some (charmap ! b ! v)" "charmap ! b ! v \<in> set (concat charmap)"
    by (auto simp: get_charmap_def mem_simps intro!: bexI [of _ "charmap ! b"])
  then show ?thesis by (simp add: typable_def)
qed

lemma typable_not_NUL: "typable c \<Longrightarrow> c \<noteq> NUL"
  unfolding typable_def charmap_def by auto

lemma key_top_le: "key_top b \<le> 10"
  by (simp add: key_top_def)

lemma write_LCD_defined:
  assumes "NUL \<in> set s" and "lcd_idle a"
  shows "\<exists>io'. write_LCD s l fin a = Some (a\<lparr>io := io'\<rparr>) \<and> lcd_idle (a\<lparr>io := io'\<rparr>) \<and>
    take_bit 10 (outputs io') = take_bit 10 (outputs (io a))"
proof -
  obtain cs rest where s: "s = cs @ NUL # rest" "NUL \<notin> set cs"
    using split_list_first [OF assms(1)] by blast
  note pos = shows_pos [of "io a" "word_of_nat l"]
  obtain io' where "LCD_write_string s (word_of_nat fin) (LCD_pos_xy 0 (word_of_nat l) (io a)) = Some io'"
    "shows_bytes (LCD_pos_xy 0 (word_of_nat l) (io a)) (concat (map char_bytes (take (unat (word_of_nat fin :: uint8)) cs))) io'"
    using shows_string [OF shows_bytes_low [OF pos] s(2)] assms(2) s(1) by (auto simp: lcd_idle_def)
  moreover from this(2) pos assms(2) have "\<not> bit (outputs io') 15"
    "take_bit 10 (outputs io') = take_bit 10 (outputs (io a))"
    using shows_kept [OF shows_bytes_trans [OF pos]] shows_bytes_low by (auto simp: lcd_idle_def keypad_lines_kept_def)
  ultimately show ?thesis
    by (intro exI [of _ io']) (simp add: write_LCD_def update_LCD_def lcd_idle_def)
qed

lemma buffer_NUL: "text_ok a \<Longrightarrow> NUL \<in> set (mensaje_buffer a)"
  using nth_mem [of 16 "mensaje_buffer a"] by (simp add: text_ok_def)

lemma set_aux_in: "length (matrix_aux a) = 16 \<Longrightarrow> i < 16 \<Longrightarrow> set_aux i v a = Some (a\<lparr>matrix_aux := (matrix_aux a)[i := v mod 256]\<rparr>)"
  by (simp add: set_aux_def mem_simps)

text \<open>The frame of the editor: what its operations leave alone.\<close>

definition same_app :: "app \<Rightarrow> app \<Rightarrow> bool" where
  "same_app a a' \<longleftrightarrow> panel a' = panel a \<and> app_state a' = app_state a \<and> speed a' = speed a \<and>
     intensity a' = intensity a \<and> mode a' = mode a \<and> flag_cartel a' = flag_cartel a \<and>
     flag_inicializacion a' = flag_inicializacion a \<and> valor a' = valor a"

lemma contar_tiempo_inv:
  assumes "ed_inv a" and "flag_escribiendo a"
  shows "\<exists>a'. contar_tiempo a = Some a' \<and> ed_inv a' \<and> same_app a a' \<and>
    mensaje_buffer a' = mensaje_buffer a \<and> mensaje_actual a' = mensaje_actual a \<and>
    activated a' = activated a \<and> flag_inicio a' = flag_inicio a \<and>
    conteo_funcionalidad a' = conteo_funcionalidad a \<and>
    (if conteo_salto a < MAX_TIME_WAITING
     then a' = a\<lparr>conteo_salto := (conteo_salto a + 1) mod 256\<rparr>
     else \<not> flag_escribiendo a' \<and> cursor a' = cursor a + 1 \<and> boton_seleccionado a' = EMPTY \<and> boton_actual a' = EMPTY)"
proof (cases "conteo_salto a < MAX_TIME_WAITING")
  case True
  with assms show ?thesis by (simp add: contar_tiempo_def ed_defs same_app_def)
next
  case False
  with assms show ?thesis
    by (simp add: contar_tiempo_def ed_defs same_app_def set_aux_in) (auto simp: nth_list_update)
qed

section \<open>Pressing a character key\<close>

text \<open>A press of key \<open>b\<close> as the abstract keypad does it: a new key starts at its first letter, the
  pressed key again moves to the next letter of its case and back to the first after the last;
  a pending shift changes the case.\<close>

definition next_case :: "nat \<Rightarrow> app \<Rightarrow> bool" where
  "next_case b a = (if 2 \<le> b \<and> shift a then \<not> mayus a else mayus a)"

definition held :: "nat \<Rightarrow> app \<Rightarrow> bool" where
  "held b a \<longleftrightarrow> flag_escribiendo a \<and> boton_actual a = b"

text \<open>The letters of a case are counted from 0; \<open>letters b\<close> is their number.\<close>

definition letters :: "nat \<Rightarrow> nat" where
  "letters b = (if b < 2 then 10 else if b = 7 \<or> b = 9 then 4 else 3)"

definition letter_pos :: "nat \<Rightarrow> bool \<Rightarrow> nat \<Rightarrow> nat" where
  "letter_pos b may k = (if b < 2 then k + 1 else if may then 2 * k + 2 else 2 * k + 1)"

definition letter_of :: "nat \<Rightarrow> nat \<Rightarrow> nat" where
  "letter_of b v = (if b < 2 then v - 1 else (v - 1) div 2)"

definition next_pos :: "nat \<Rightarrow> app \<Rightarrow> nat" where
  "next_pos b a = letter_pos b (next_case b a)
     (if held b a then (letter_of b (matrix_aux a ! b) + 1) mod letters b else 0)"

lemma halves:
  "1 \<le> v \<Longrightarrow> even v \<Longrightarrow> 2 * ((v - 1) div 2) + 2 = (v :: nat)"
  "odd v \<Longrightarrow> 2 * ((v - 1) div 2) + 1 = v"
  by presburger+

lemma pos_ok_letters: "b < 10 \<Longrightarrow> pos_ok b may v \<longleftrightarrow> (\<exists>k<letters b. v = letter_pos b may k)"
proof -
  assume "b < 10"
  show ?thesis
  proof
    assume v: "pos_ok b may v"
    have "letter_of b v < letters b"
      using v by (auto simp: pos_ok_def letter_of_def letters_def key_top_def split: if_splits)
    moreover have "v = letter_pos b may (letter_of b v)"
      using v halves [of v] by (auto simp: pos_ok_def letter_of_def letter_pos_def)
    ultimately show "\<exists>k<letters b. v = letter_pos b may k" by blast
  qed (auto simp: pos_ok_def letters_def letter_pos_def key_top_def split: if_splits)
qed

lemma letter_pos_le: "k < letters b \<Longrightarrow> letter_pos b may k \<le> 10"
  by (auto simp: letters_def letter_pos_def split: if_splits)

lemma next_pos_ok: "b < 10 \<Longrightarrow> pos_ok b (next_case b a) (next_pos b a)"
proof -
  assume "b < 10"
  moreover have "(if held b a then (letter_of b (matrix_aux a ! b) + 1) mod letters b else 0) < letters b"
    by (simp add: letters_def)
  ultimately show ?thesis unfolding next_pos_def by (subst pos_ok_letters) blast+
qed

lemma check_boton_anterior_eq:
  assumes "ed_inv a" and "boton_seleccionado a < 10"
  shows "check_boton_anterior a = Some (a\<lparr>flag_escribiendo := True, boton_actual := boton_seleccionado a,
    first_touch := (if held (boton_seleccionado a) a then first_touch a else True),
    matrix_aux := (if flag_escribiendo a \<and> \<not> held (boton_seleccionado a) a
      then (matrix_aux a)[boton_actual a := 0] else matrix_aux a)\<rparr>)"
  using assms by (auto simp: check_boton_anterior_def held_def ed_defs set_aux_in)

lemma even_cases: "pos_ok b may v \<Longrightarrow> 2 \<le> b \<Longrightarrow> b < 10 \<Longrightarrow>
    v \<in> (if may then {2, 4, 6, 8} else {1, 3, 5, 7}) \<and> (key_top b = 6 \<longrightarrow> v \<le> 6)"
  by (auto simp: pos_ok_letters letters_def letter_pos_def key_top_def less_Suc_eq numeral_eq_Suc split: if_splits)

lemma cycle_held:
  assumes "pos_ok b may v" and "2 \<le> b" and "b < 10"
  shows "cycle_aux b (may \<noteq> sh) (if sh then (if may then v - 1 else v + 1) else v) =
    letter_pos b (may \<noteq> sh) ((letter_of b v + 1) mod letters b)"
  using even_cases [OF assms] assms(2)
  by (cases sh; cases may) (auto simp: cycle_aux_def letter_pos_def letter_of_def letters_def key_top_def Let_def split: if_splits)

lemma mover_tecla_eq:
  assumes len: "length (matrix_aux a) = 16" and b: "boton_actual a = b" "b < 10"
    and v: "if fresh then matrix_aux a ! b = 0 \<and> first_touch a
      else pos_ok b (mayus a) (matrix_aux a ! b) \<and> (2 \<le> b \<longrightarrow> \<not> first_touch a)"
  shows "mover_tecla a = Some (a\<lparr>mayus := next_case b a, shift := (if 2 \<le> b then False else shift a),
      first_touch := (if 2 \<le> b then False else first_touch a),
      matrix_aux := (matrix_aux a)[b := letter_pos b (next_case b a)
        (if fresh then 0 else (letter_of b (matrix_aux a ! b) + 1) mod letters b)]\<rparr>)"
proof (cases "2 \<le> b")
  case False
  let ?v = "matrix_aux a ! b"
  have "b < 16" "\<not> 1 < b" using b False by auto
  moreover have "(if ?v < 10 then ?v + 1 else 1) mod 256 =
      letter_pos b may (if fresh then 0 else (letter_of b ?v + 1) mod letters b)" for may
    using v False by (auto simp: letter_pos_def letter_of_def letters_def pos_ok_def key_top_def split: if_splits)
  ultimately show ?thesis
    using False len b by (simp add: mover_tecla_def mem_simps set_aux_in next_case_def del: One_nat_def)
next
  case True
  let ?v = "matrix_aux a ! b" and ?may = "next_case b a"
  let ?w = "if shift a then (if mayus a then (?v + 255) mod 256 else (?v + 1) mod 256) else ?v"
  have m: "mayusculas a = Some (a\<lparr>shift := False, mayus := ?may, matrix_aux := (matrix_aux a)[b := ?w]\<rparr>)"
    using True len b by (simp add: mayusculas_def mem_simps set_aux_in next_case_def)
  have c: "cycle_aux b ?may ?w mod 256 < 256" by simp
  have e: "mover_tecla a = primera_vez (a\<lparr>shift := False, mayus := ?may,
      matrix_aux := (matrix_aux a)[b := cycle_aux b ?may ?w mod 256]\<rparr>)"
    using True len b by (simp add: mover_tecla_def m mem_simps set_aux_in)
  show ?thesis
  proof (cases fresh)
    case fresh: True
    then show ?thesis
      using True v len b by (simp add: e primera_vez_def set_aux_in letter_pos_def numeral_2_eq_2)
  next
    case held: False
    with v have pos: "pos_ok b (mayus a) ?v" "\<not> first_touch a" using True by simp_all
    have w: "?w = (if shift a then (if mayus a then ?v - 1 else ?v + 1) else ?v)"
      using even_cases [OF pos(1) True b(2)] by (auto split: if_splits)
    have "cycle_aux b ?may ?w = letter_pos b ?may ((letter_of b ?v + 1) mod letters b)"
      using cycle_held [OF pos(1) True b(2), of "shift a"] True unfolding w
      by (cases "shift a") (simp_all add: next_case_def)
    moreover have "letter_pos b ?may ((letter_of b ?v + 1) mod letters b) \<le> 10"
      by (rule letter_pos_le) (simp add: letters_def)
    ultimately show ?thesis
      using pos(2) held True by (simp add: e primera_vez_def)
  qed
qed

lemma numeros_inv:
  assumes inv: "ed_inv a" and b: "boton_seleccionado a = b" "b < 10" and c: "cursor a < 16"
  shows "\<exists>a' ch. funcionalidad_numeros a = Some a' \<and> ed_inv a' \<and> same_app a a' \<and>
    get_charmap b (next_pos b a) = Some ch \<and> mensaje_buffer a' = (mensaje_buffer a)[cursor a := ch] \<and>
    held b a' \<and> matrix_aux a' ! b = next_pos b a \<and> mayus a' = next_case b a \<and>
    shift a' = (if 2 \<le> b then False else shift a) \<and> cursor a' = cursor a \<and>
    mensaje_actual a' = mensaje_actual a \<and> activated a' = activated a \<and> flag_inicio a' = flag_inicio a \<and>
    conteo_funcionalidad a' = conteo_funcionalidad a \<and> boton_seleccionado a' = b \<and> conteo_salto a' = 0"
proof -
  let ?fresh = "\<not> held b a"
  let ?m = "if flag_escribiendo a \<and> \<not> held b a then (matrix_aux a)[boton_actual a := 0] else matrix_aux a"
  let ?a1 = "a\<lparr>flag_escribiendo := True, boton_actual := b, first_touch := (if held b a then first_touch a else True),
    matrix_aux := ?m\<rparr>"
  have aux: "aux_ok a" "text_ok a" "lcd_idle a" "message_ok a" using inv by (simp_all add: ed_inv_def)
  have c1: "check_boton_anterior a = Some ?a1" using check_boton_anterior_eq [OF inv] b by simp
  have m: "length ?m = 16" "\<forall>i<10. ?m ! i = (if held b a \<and> i = b then matrix_aux a ! b else 0)"
    using aux(1) by (auto simp: aux_ok_def held_def nth_list_update)
  have v: "if ?fresh then matrix_aux ?a1 ! b = 0 \<and> first_touch ?a1
      else pos_ok b (mayus ?a1) (matrix_aux ?a1 ! b) \<and> (2 \<le> b \<longrightarrow> \<not> first_touch ?a1)"
    using m(2) b aux(1) by (auto simp: aux_ok_def held_def)
  have nc: "next_case b ?a1 = next_case b a" by (simp add: next_case_def)
  have np: "letter_pos b (next_case b ?a1) (if ?fresh then 0 else (letter_of b (matrix_aux ?a1 ! b) + 1) mod letters b) =
      next_pos b a"
    using m(2) b by (simp add: next_pos_def nc)
  let ?a2 = "a\<lparr>flag_escribiendo := True, boton_actual := b, mayus := next_case b a,
    shift := (if 2 \<le> b then False else shift a),
    first_touch := (if 2 \<le> b then False else if held b a then first_touch a else True),
    matrix_aux := ?m[b := next_pos b a]\<rparr>"
  have c2: "mover_tecla ?a1 = Some ?a2"
    using mover_tecla_eq [OF _ _ b(2) v] m(1) unfolding np unfolding nc by simp
  note pos = next_pos_ok [OF b(2), of a]
  have "next_pos b a \<le> 10" using pos key_top_le [of b] by (simp add: pos_ok_def)
  then obtain ch where ch: "get_charmap b (next_pos b a) = Some ch" "typable ch"
    using charmap_typable [OF b(2)] by blast
  let ?buf = "(mensaje_buffer a)[cursor a := ch]"
  have t2: "text_ok (?a2\<lparr>mensaje_buffer := ?buf\<rparr>)"
    using aux(2) ch(2) c by (auto simp: text_ok_def nth_list_update)
  have idle2: "lcd_idle (?a2\<lparr>mensaje_buffer := ?buf\<rparr>)" using aux(3) by (simp add: lcd_idle_def)
  have has_NUL: "NUL \<in> set ?buf" using buffer_NUL [OF t2] by simp
  obtain io' where io': "write_LCD ?buf 1 (cursor a + 1) (?a2\<lparr>mensaje_buffer := ?buf\<rparr>) =
      Some (?a2\<lparr>mensaje_buffer := ?buf, io := io'\<rparr>)" "lcd_idle (?a2\<lparr>mensaje_buffer := ?buf, io := io'\<rparr>)"
    using write_LCD_defined [OF has_NUL idle2, of 1 "cursor a + 1"] by blast
  let ?a3 = "?a2\<lparr>mensaje_buffer := ?buf, io := io', conteo_salto := 0\<rparr>"
  have "escribir_buffer ?a2 = Some ?a3"
    using m(1) b(2) ch(1) aux(2) c io'(1) by (simp add: escribir_buffer_def mem_simps text_ok_def)
  then have e: "funcionalidad_numeros a = Some ?a3"
    using b c1 c2 by (simp add: funcionalidad_numeros_def)
  have "aux_ok ?a3"
    using m b(2) c pos by (auto simp: aux_ok_def nth_list_update)
  moreover have "text_ok ?a3" "message_ok ?a3" "lcd_idle ?a3"
    using t2 aux(4) io'(2) by (simp_all add: text_ok_def message_ok_def lcd_idle_def)
  ultimately have "ed_inv ?a3" by (simp add: ed_inv_def)
  moreover have "same_app a ?a3" by (simp add: same_app_def)
  ultimately show ?thesis
    using e ch(1) m(1) b by (intro exI [of _ ?a3] exI [of _ ch]) (simp add: held_def)
qed

section \<open>The editing keys keep the invariant\<close>

lemma ed_inv_io: "ed_inv (a\<lparr>io := j\<rparr>) \<longleftrightarrow> aux_ok a \<and> text_ok a \<and> message_ok a \<and> \<not> bit (outputs j) 15"
  by (simp add: ed_defs cong: if_cong)

lemma pred_256: "0 < c \<Longrightarrow> c \<le> 256 \<Longrightarrow> (c + 255) mod 256 = c - (1 :: nat)"
  by (cases c) simp_all

lemma confirmar_inv:
  assumes "ed_inv a"
  shows "\<exists>a'. funcionalidad_confirmar a = Some a' \<and> ed_inv a' \<and> same_app a a' \<and>
    (boton_seleccionado a \<noteq> CONFIRMAR \<longrightarrow> a' = a) \<and> (boton_seleccionado a = CONFIRMAR \<longrightarrow>
      boton_seleccionado a' \<in> {CONFIRMAR, EMPTY})"
proof (cases "boton_seleccionado a = CONFIRMAR \<and> flag_escribiendo a \<and> cursor a < 16")
  case True
  with assms show ?thesis
    by (simp add: funcionalidad_confirmar_def MAX_LENGTH_MESSAGE_def ed_defs same_app_def set_aux_in)
      (auto simp: nth_list_update)
next
  case False
  with assms show ?thesis
    by (auto simp: funcionalidad_confirmar_def MAX_LENGTH_MESSAGE_def same_app_def)
qed

lemma write_LCD_buffer:
  assumes "text_ok a" and "lcd_idle a"
  shows "\<exists>io'. write_LCD (mensaje_buffer a) l fin a = Some (a\<lparr>io := io'\<rparr>) \<and> lcd_idle (a\<lparr>io := io'\<rparr>)"
  using write_LCD_defined [OF buffer_NUL [OF assms(1)] assms(2)] by blast

lemma text_ok_next: "text_ok a \<Longrightarrow> cursor a < 16 \<Longrightarrow> mensaje_buffer a ! (cursor a + 1) \<noteq> NUL \<Longrightarrow> cursor a + 1 < 16"
  unfolding text_ok_def by (metis Suc_eq_plus1 Suc_lessI)

lemma derecha_inv:
  assumes "ed_inv a"
  shows "\<exists>a'. funcionalidad_derecha a = Some a' \<and> ed_inv a' \<and> same_app a a' \<and>
    boton_seleccionado a' = boton_seleccionado a \<and> (boton_seleccionado a \<noteq> DERECHA \<longrightarrow> a' = a)"
proof (cases "boton_seleccionado a = DERECHA \<and> cursor a < 16 \<and> mensaje_buffer a ! (cursor a + 1) \<noteq> NUL")
  case True
  let ?a = "a\<lparr>cursor := cursor a + 1\<rparr>"
  have t: "text_ok a" "lcd_idle a" "aux_ok a" "message_ok a" using assms by (simp_all add: ed_inv_def)
  have c: "cursor a + 1 < 16" using text_ok_next t(1) True by blast
  then have ok: "text_ok ?a" "lcd_idle ?a" "aux_ok ?a" "message_ok ?a"
    using t by (simp_all add: text_ok_def lcd_idle_def aux_ok_def message_ok_def)
  obtain io' where "write_LCD (mensaje_buffer ?a) 1 (cursor a + 1 + 1) ?a = Some (?a\<lparr>io := io'\<rparr>)"
    "lcd_idle (?a\<lparr>io := io'\<rparr>)"
    using write_LCD_buffer [OF ok(1,2)] by blast
  moreover have "ed_inv (?a\<lparr>io := io'\<rparr>)" using ok calculation(2) by (simp add: ed_inv_io lcd_idle_def)
  moreover have "length (mensaje_buffer a) = 17" using t(1) by (simp add: text_ok_def)
  ultimately show ?thesis
    using True c by (simp add: funcionalidad_derecha_def MAX_LENGTH_MESSAGE_def mem_simps same_app_def)
next
  case False
  have "length (mensaje_buffer a) = 17" using assms by (simp add: ed_defs)
  with False assms show ?thesis
    by (auto simp: funcionalidad_derecha_def MAX_LENGTH_MESSAGE_def mem_simps same_app_def)
qed

lemma shift_inv: "ed_inv a \<Longrightarrow> ed_inv (funcionalidad_shift a) \<and> same_app a (funcionalidad_shift a) \<and>
    boton_seleccionado (funcionalidad_shift a) = boton_seleccionado a \<and>
    (boton_seleccionado a \<noteq> SHIFT \<longrightarrow> funcionalidad_shift a = a)"
  by (simp add: funcionalidad_shift_def ed_defs same_app_def)

lemma typable_space: "typable (CHR 0x20)"
  by (simp add: typable_def charmap_def)

lemma same_app_refl [simp]: "same_app a a"
  by (simp add: same_app_def)

lemma same_app_trans [trans]: "same_app a b \<Longrightarrow> same_app b c \<Longrightarrow> same_app a c"
  by (simp add: same_app_def)

text \<open>\<open>BORRAR\<close> blanks the character under the cursor while it is being typed, and the one before it
  otherwise; \<open>IZQUIERDA\<close> only moves.\<close>

lemma borrar_inv:
  assumes inv: "ed_inv a" and c: "0 < cursor a" and b: "boton_seleccionado a = BORRAR"
  shows "\<exists>a'. funcionalidad_borrar_cancelar a = Some a' \<and> ed_inv a' \<and> same_app a a' \<and>
    \<not> flag_escribiendo a' \<and> boton_seleccionado a' \<in> {BORRAR, EMPTY} \<and>
    cursor a' = (if flag_escribiendo a then cursor a else cursor a - 1) \<and>
    mensaje_buffer a' = (mensaje_buffer a)[cursor a' := CHR 0x20]"
proof -
  let ?pos = "if flag_escribiendo a then cursor a else cursor a - 1"
  have t: "text_ok a" "lcd_idle a" "aux_ok a" "message_ok a" using inv by (simp_all add: ed_inv_def)
  have m: "(cursor a + 255) mod 256 = cursor a - 1"
    using c t(1) by (simp add: text_ok_def pred_256)
  have "\<exists>a1. (if flag_escribiendo a then do {
        a \<leftarrow> set_aux (boton_actual a) 0 (a\<lparr>conteo_salto := 0, flag_escribiendo := False\<rparr>);
        Some (a\<lparr>boton_actual := EMPTY, boton_seleccionado := EMPTY\<rparr>) }
      else Some (a\<lparr>cursor := (cursor a + 255) mod 256\<rparr>)) = Some a1 \<and> ed_inv a1 \<and> same_app a a1 \<and>
      \<not> flag_escribiendo a1 \<and> cursor a1 = ?pos \<and> mensaje_buffer a1 = mensaje_buffer a \<and>
      boton_seleccionado a1 \<in> {BORRAR, EMPTY}"
  proof (cases "flag_escribiendo a")
    case True
    with t b show ?thesis
      by (simp add: aux_ok_def text_ok_def message_ok_def lcd_idle_def ed_inv_def set_aux_in same_app_def)
        (auto simp: nth_list_update)
  next
    case False
    with t b m c show ?thesis
      by (auto simp: aux_ok_def text_ok_def message_ok_def lcd_idle_def ed_inv_def same_app_def)
  qed
  then obtain a1 where a1: "(if flag_escribiendo a then do {
        a \<leftarrow> set_aux (boton_actual a) 0 (a\<lparr>conteo_salto := 0, flag_escribiendo := False\<rparr>);
        Some (a\<lparr>boton_actual := EMPTY, boton_seleccionado := EMPTY\<rparr>) }
      else Some (a\<lparr>cursor := (cursor a + 255) mod 256\<rparr>)) = Some a1"
    "ed_inv a1" "same_app a a1" "\<not> flag_escribiendo a1" "cursor a1 = ?pos" "mensaje_buffer a1 = mensaje_buffer a"
    "boton_seleccionado a1 \<in> {BORRAR, EMPTY}"
    by blast
  have pos: "?pos < 16" using t c by (auto simp: text_ok_def aux_ok_def)
  let ?a2 = "a1\<lparr>mensaje_buffer := (mensaje_buffer a)[?pos := CHR 0x20]\<rparr>"
  have ok2: "aux_ok ?a2" "text_ok ?a2" "message_ok ?a2" "lcd_idle ?a2"
    using a1(2,5,6) pos typable_space by (auto simp: ed_defs nth_list_update)
  obtain io' where io': "write_LCD (mensaje_buffer ?a2) 1 (?pos + 1) ?a2 = Some (?a2\<lparr>io := io'\<rparr>)"
    "lcd_idle (?a2\<lparr>io := io'\<rparr>)"
    using write_LCD_buffer [OF ok2(2,4)] by blast
  have len: "length (mensaje_buffer a) = 17" using t(1) by (simp add: text_ok_def)
  have "funcionalidad_borrar_cancelar a = Some (?a2\<lparr>io := io'\<rparr>)"
    using b a1(1,5,6) io'(1) pos len
    by (simp only: funcionalidad_borrar_cancelar_def a1(1) bind.bind_lunit) (simp add: mem_simps)
  moreover have "ed_inv (?a2\<lparr>io := io'\<rparr>)" using ok2 io'(2) by (simp add: ed_inv_io lcd_idle_def)
  ultimately show ?thesis using a1 by (auto simp: same_app_def)
qed

lemma izquierda_inv:
  assumes "ed_inv a" and "0 < cursor a"
  shows "\<exists>a'. funcionalidad_izquierda a = Some a' \<and> ed_inv a' \<and> same_app a a' \<and>
    boton_seleccionado a' = boton_seleccionado a \<and> (boton_seleccionado a \<noteq> IZQUIERDA \<longrightarrow> a' = a)"
proof (cases "boton_seleccionado a = IZQUIERDA")
  case True
  let ?a = "a\<lparr>cursor := cursor a - 1\<rparr>"
  have m: "(cursor a + 255) mod 256 = cursor a - 1"
    using assms by (simp add: ed_defs pred_256)
  have ok: "text_ok ?a" "lcd_idle ?a" "aux_ok ?a" "message_ok ?a"
    using assms by (auto simp: ed_defs)
  obtain io' where "write_LCD (mensaje_buffer ?a) 1 (cursor a - 1 + 1) ?a = Some (?a\<lparr>io := io'\<rparr>)"
    "lcd_idle (?a\<lparr>io := io'\<rparr>)"
    using write_LCD_buffer [OF ok(1,2)] by blast
  moreover have "ed_inv (?a\<lparr>io := io'\<rparr>)" using ok calculation(2) by (simp add: ed_inv_io lcd_idle_def)
  ultimately show ?thesis using True by (simp add: funcionalidad_izquierda_def m same_app_def)
qed (use assms in \<open>simp add: funcionalidad_izquierda_def\<close>)

lemma copy_message_append:
  "copy_message (xs @ ys) src dst = do { d \<leftarrow> copy_message xs src dst; copy_message ys src d }"
proof (induction xs arbitrary: dst)
  case (Cons x xs)
  show ?case
    by (cases "rd src x"; cases "wr dst x (the (rd src x))") (simp_all add: Cons.IH)
qed simp

lemma copy_message_prefix:
  "n \<le> length src \<Longrightarrow> n \<le> length dst \<Longrightarrow> copy_message [0..<n] src dst = Some (take n src @ drop n dst)"
proof (induction n)
  case (Suc n)
  have "(take n src @ drop n dst)[n := src ! n] = take (Suc n) src @ drop (Suc n) dst"
    using Suc.prems min.absorb2 [of n "length src"] list_update_length [of "take n src" "dst ! n" "drop (Suc n) dst" "src ! n"]
    by (simp add: Cons_nth_drop_Suc take_Suc_conv_app_nth)
  with Suc show ?case by (simp add: copy_message_append mem_simps)
qed simp

lemma enter_correct:
  assumes inv: "ed_inv a" and b: "boton_seleccionado a = ENTER"
  shows "if 16 \<le> boton_actual a \<or> cursor a = 16 then funcionalidad_enter a = None
    else \<exists>a'. funcionalidad_enter a = Some a' \<and> ed_inv a' \<and> same_app a a' \<and> \<not> flag_escribiendo a' \<and>
      boton_actual a' = EMPTY \<and> flag_inicio a' \<and> cursor a' = cursor a \<and> mensaje_buffer a' = mensaje_buffer a \<and>
      mensaje_actual a' = take (cursor a + 1) (mensaje_buffer a) @ NUL # drop (cursor a + 2) (mensaje_actual a) \<and>
      activated a' = activated a @ (if flag_inicio a then [] else [SwitchesTask])"
proof -
  have t: "length (matrix_aux a) = 16" "length (mensaje_buffer a) = 17" "length (mensaje_actual a) = 17" "cursor a \<le> 16"
    using inv by (simp_all add: ed_defs)
  have copy: "copy_message [0..<cursor a + 1] (mensaje_buffer a) (mensaje_actual a) =
      Some (take (cursor a + 1) (mensaje_buffer a) @ drop (cursor a + 1) (mensaje_actual a))"
    using copy_message_prefix [of "cursor a + 1"] t by (simp del: upt_Suc)
  consider "16 \<le> boton_actual a" | "boton_actual a < 16" "cursor a = 16" | "boton_actual a < 16" "cursor a < 16"
    using t(4) by linarith
  then show ?thesis
  proof cases
    case 1
    with b t show ?thesis by (simp add: funcionalidad_enter_def set_aux_def wr_def)
  next
    case 2
    with b t copy show ?thesis
      by (simp add: funcionalidad_enter_def set_aux_in wr_def del: upt_Suc)
  next
    case 3
    let ?msg = "take (cursor a + 1) (mensaje_buffer a) @ NUL # drop (cursor a + 2) (mensaje_actual a)"
    have msg: "wr (take (cursor a + 1) (mensaje_buffer a) @ drop (cursor a + 1) (mensaje_actual a)) (cursor a + 1) NUL =
        Some ?msg"
      using 3 t list_update_length [of "take (cursor a + 1) (mensaje_buffer a)" "mensaje_actual a ! (cursor a + 1)"
          "drop (cursor a + 2) (mensaje_actual a)" NUL]
      by (simp add: wr_def Cons_nth_drop_Suc)
    let ?a = "a\<lparr>conteo_salto := 0, flag_escribiendo := False, matrix_aux := (matrix_aux a)[boton_actual a := 0],
      boton_actual := EMPTY, boton_seleccionado := EMPTY, mensaje_actual := ?msg\<rparr>"
    let ?a' = "if \<not> flag_inicio a then ?a\<lparr>activated := activated a @ [SwitchesTask], flag_inicio := True\<rparr> else ?a"
    have e: "funcionalidad_enter a = Some ?a'"
      using b t 3 copy msg by (simp add: funcionalidad_enter_def set_aux_in del: upt_Suc)
    have "?msg ! (cursor a + 1) = NUL \<and> (\<forall>i<cursor a + 1. typable (?msg ! i))" "length ?msg = 17"
      using inv 3 t by (auto simp: nth_append text_ok_def ed_inv_def)
    then have "length ?msg = 17 \<and> (\<exists>n<17. ?msg ! n = NUL \<and> (\<forall>i<n. typable (?msg ! i)))"
      using 3 by (intro conjI exI [of _ "cursor a + 1"]) auto
    moreover have "mensaje_actual ?a' = ?msg" by simp
    ultimately have "message_ok ?a'" by (simp only: message_ok_def)
    moreover have "aux_ok ?a'" "text_ok ?a'" "lcd_idle ?a'"
      using inv 3 by (auto simp: ed_defs nth_list_update)
    ultimately have "ed_inv ?a'" by (simp add: ed_inv_def)
    with e 3 show ?thesis by (simp add: same_app_def)
  qed
qed

section \<open>One call of the editor\<close>

lemma other_keys:
  "10 \<le> boton_seleccionado a \<Longrightarrow> funcionalidad_numeros a = Some a"
  "boton_seleccionado a \<noteq> CONFIRMAR \<Longrightarrow> funcionalidad_confirmar a = Some a"
  "boton_seleccionado a \<noteq> DERECHA \<Longrightarrow> funcionalidad_derecha a = Some a"
  "boton_seleccionado a \<noteq> SHIFT \<Longrightarrow> funcionalidad_shift a = a"
  "boton_seleccionado a \<noteq> BORRAR \<Longrightarrow> funcionalidad_borrar_cancelar a = Some a"
  "boton_seleccionado a \<noteq> IZQUIERDA \<Longrightarrow> funcionalidad_izquierda a = Some a"
  "boton_seleccionado a \<noteq> ENTER \<Longrightarrow> funcionalidad_enter a = Some a"
  by (simp_all add: funcionalidad_numeros_def funcionalidad_confirmar_def funcionalidad_derecha_def
      funcionalidad_shift_def funcionalidad_borrar_cancelar_def funcionalidad_izquierda_def funcionalidad_enter_def)

text \<open>\<open>steps a f\<close>: the operation \<open>f\<close> runs from \<open>a\<close>, keeps the invariant and does not invent an \<open>ENTER\<close>.\<close>

definition steps :: "app \<Rightarrow> app option \<Rightarrow> bool" where
  "steps a r \<longleftrightarrow> (\<exists>a'. r = Some a' \<and> ed_inv a' \<and> same_app a a' \<and>
     (boton_seleccionado a' = boton_seleccionado a \<or> boton_seleccionado a' = EMPTY))"

lemma steps_bind: "steps a r \<Longrightarrow> (\<And>a'. ed_inv a' \<Longrightarrow> same_app a a' \<Longrightarrow>
    boton_seleccionado a' = boton_seleccionado a \<or> boton_seleccionado a' = EMPTY \<Longrightarrow> r = Some a' \<Longrightarrow> steps a' (f a')) \<Longrightarrow>
    steps a (r \<bind> f)"
  unfolding steps_def by (fastforce intro: same_app_trans)

lemma steps_self: "ed_inv a \<Longrightarrow> steps a (Some a)"
  by (simp add: steps_def)

lemma steps_numeros: "ed_inv a \<Longrightarrow> cursor a < 16 \<Longrightarrow> steps a (funcionalidad_numeros a)"
proof -
  assume a: "ed_inv a" "cursor a < 16"
  show ?thesis
  proof (cases "boton_seleccionado a < 10")
    case True
    with numeros_inv [OF a(1) refl True a(2)] show ?thesis by (auto simp: steps_def)
  next
    case False
    with a show ?thesis by (simp add: other_keys steps_self)
  qed
qed

lemma steps_keys:
  "ed_inv a \<Longrightarrow> steps a (funcionalidad_confirmar a)" "ed_inv a \<Longrightarrow> steps a (funcionalidad_derecha a)"
  "ed_inv a \<Longrightarrow> steps a (Some (funcionalidad_shift a))"
  "ed_inv a \<Longrightarrow> 0 < cursor a \<Longrightarrow> steps a (funcionalidad_izquierda a)"
  using confirmar_inv [of a] derecha_inv [of a] shift_inv [of a] izquierda_inv [of a]
  by (auto simp: steps_def)

lemma steps_borrar: "ed_inv a \<Longrightarrow> 0 < cursor a \<Longrightarrow> steps a (funcionalidad_borrar_cancelar a \<bind> funcionalidad_izquierda)"
proof -
  assume a: "ed_inv a" "0 < cursor a"
  show ?thesis
  proof (cases "boton_seleccionado a = BORRAR")
    case True
    from borrar_inv [OF a True] obtain a' where a': "funcionalidad_borrar_cancelar a = Some a'" "ed_inv a'"
      "same_app a a'" "boton_seleccionado a' \<in> {BORRAR, EMPTY}" by blast
    with True show ?thesis by (auto simp: steps_def other_keys button_defs)
  next
    case False
    with a steps_keys(4) show ?thesis by (simp add: other_keys)
  qed
qed

lemma atender_tecla_correct:
  assumes inv: "ed_inv a"
  shows "if boton_seleccionado a = ENTER \<and> (16 \<le> boton_actual a \<or> cursor a = 16) then atender_tecla a = None
    else \<exists>a'. atender_tecla a = Some a' \<and> ed_inv a' \<and> same_app a a' \<and> boton_seleccionado a' = EMPTY"
proof (cases "boton_seleccionado a = ENTER")
  case True
  then have "boton_seleccionado a \<notin> {CONFIRMAR, DERECHA, SHIFT, BORRAR, IZQUIERDA}" "10 \<le> boton_seleccionado a"
    by (simp_all add: button_defs)
  then have e: "atender_tecla a = funcionalidad_enter a \<bind> (\<lambda>a. Some (a\<lparr>boton_seleccionado := EMPTY\<rparr>))"
    by (simp add: atender_tecla_def other_keys)
  have keep: "ed_inv (a'\<lparr>boton_seleccionado := EMPTY\<rparr>) = ed_inv a'" for a'
    by (simp add: ed_defs cong: if_cong)
  show ?thesis
    using enter_correct [OF inv True] True unfolding e
    by (auto simp: keep same_app_def split: if_splits)
next
  case False
  let ?first = "if cursor a < 16 then do {
      a \<leftarrow> funcionalidad_numeros a; a \<leftarrow> funcionalidad_confirmar a; a \<leftarrow> funcionalidad_derecha a;
      Some (funcionalidad_shift a) } else Some a"
  have "steps a ?first"
  proof (cases "cursor a < 16")
    case True
    have "steps a (do { a \<leftarrow> funcionalidad_numeros a; a \<leftarrow> funcionalidad_confirmar a; a \<leftarrow> funcionalidad_derecha a;
      Some (funcionalidad_shift a) })"
      by (intro steps_bind steps_numeros steps_keys inv True)
    with True show ?thesis by simp
  qed (simp add: steps_self inv)
  then obtain a1 where a1: "?first = Some a1" "ed_inv a1" "same_app a a1"
    "boton_seleccionado a1 = boton_seleccionado a \<or> boton_seleccionado a1 = EMPTY"
    unfolding steps_def by blast
  have "steps a1 (if 0 < cursor a1 then funcionalidad_borrar_cancelar a1 \<bind> funcionalidad_izquierda else Some a1)"
    using a1(2) steps_borrar steps_self by simp
  then obtain a2 where a2: "(if 0 < cursor a1 then funcionalidad_borrar_cancelar a1 \<bind> funcionalidad_izquierda else Some a1) = Some a2"
    "ed_inv a2" "same_app a1 a2" "boton_seleccionado a2 = boton_seleccionado a1 \<or> boton_seleccionado a2 = EMPTY"
    unfolding steps_def by blast
  have "boton_seleccionado a2 \<noteq> ENTER" using False a1(4) a2(4) by (auto simp: button_defs)
  then have "funcionalidad_enter a2 = Some a2" by (simp add: other_keys)
  then have "atender_tecla a = Some (a2\<lparr>boton_seleccionado := EMPTY\<rparr>)"
    using a1(1) a2(1) by (simp add: atender_tecla_def MAX_LENGTH_MESSAGE_def)
  moreover have "ed_inv (a2\<lparr>boton_seleccionado := EMPTY\<rparr>)" using a2(2) by (simp add: ed_defs cong: if_cong)
  moreover have "same_app a (a2\<lparr>boton_seleccionado := EMPTY\<rparr>)" using a1(3) a2(3) by (simp add: same_app_def)
  ultimately show ?thesis using False by simp
qed

section \<open>The properties of the editor\<close>

text \<open>The editor with an empty message and no key pressed.\<close>

definition app0 :: app where
  "app0 = \<lparr>io = lcd_io0, panel = panel0, mensaje_buffer = replicate 16 (CHR 0x20) @ [NUL],
     mensaje_actual = replicate 16 (CHR 0x20) @ [NUL], cursor = 0, matrix_aux = replicate 16 0, shift = False,
     mayus = False, boton_actual = 0, boton_seleccionado = 0, conteo_salto = 0, conteo_funcionalidad = 2,
     flag_escribiendo = False, first_touch = False, flag_inicio = False, flag_inicializacion = False, valor = 0,
     app_state = VELOCIDAD, speed = 0, intensity = 0, mode = 0, flag_cartel = False, activated = []\<rparr>"

lemma app0_inv [simp]: "ed_inv app0"
proof -
  have "text_ok app0"
    by (auto simp: text_ok_def app0_def nth_append typable_space)
  moreover have "message_ok app0"
    unfolding message_ok_def by (auto simp: app0_def nth_append typable_space intro!: exI [of _ 16])
  ultimately show ?thesis
    by (auto simp: ed_inv_def aux_ok_def lcd_idle_def app0_def lcd_io0_def)
qed

lemma ed_inv_conteo: "ed_inv (a\<lparr>conteo_funcionalidad := n\<rparr>) = ed_inv a"
  by (simp add: ed_defs cong: if_cong)

lemma obtener_funcionalidad_step:
  assumes inv: "ed_inv a"
  shows "if (conteo_funcionalidad a + 1) mod 256 = 3 \<and> boton_seleccionado a = ENTER \<and> \<not> flag_escribiendo a \<and>
      (16 \<le> boton_actual a \<or> cursor a = 16)
    then obtener_funcionalidad a = None
    else \<exists>a'. obtener_funcionalidad a = Some a' \<and> ed_inv a' \<and> same_app a a'"
proof -
  let ?n = "(conteo_funcionalidad a + 1) mod 256"
  let ?a1 = "a\<lparr>conteo_funcionalidad := ?n\<rparr>"
  have a1: "ed_inv ?a1" using inv by (simp only: ed_inv_conteo)
  have "\<exists>a2. (if flag_escribiendo ?a1 then contar_tiempo ?a1 else Some ?a1) = Some a2 \<and> ed_inv a2 \<and>
      same_app a a2 \<and> conteo_funcionalidad a2 = ?n \<and>
      (flag_escribiendo a \<longrightarrow> boton_seleccionado a2 \<noteq> ENTER \<or> boton_actual a2 < 16 \<and> cursor a2 < 16) \<and>
      (\<not> flag_escribiendo a \<longrightarrow> a2 = ?a1)"
  proof (cases "flag_escribiendo a")
    case True
    then obtain a2 where a2: "contar_tiempo ?a1 = Some a2" "ed_inv a2" "same_app ?a1 a2" "conteo_funcionalidad a2 = ?n"
      "if conteo_salto a < MAX_TIME_WAITING then a2 = ?a1\<lparr>conteo_salto := (conteo_salto a + 1) mod 256\<rparr>
       else boton_seleccionado a2 = EMPTY"
      using contar_tiempo_inv [OF a1] by (auto split: if_splits)
    moreover have "same_app a a2" using a2(3) by (simp add: same_app_def)
    moreover have "boton_seleccionado a2 \<noteq> ENTER \<or> boton_actual a2 < 16 \<and> cursor a2 < 16"
      using a2(5) inv True by (auto simp: button_defs ed_defs split: if_splits)
    ultimately show ?thesis using True by simp
  next
    case False
    with a1 show ?thesis by (simp add: same_app_def)
  qed
  then obtain a2 where a2: "(if flag_escribiendo ?a1 then contar_tiempo ?a1 else Some ?a1) = Some a2" "ed_inv a2"
    "same_app a a2" "conteo_funcionalidad a2 = ?n"
    "flag_escribiendo a \<longrightarrow> boton_seleccionado a2 \<noteq> ENTER \<or> boton_actual a2 < 16 \<and> cursor a2 < 16"
    "\<not> flag_escribiendo a \<longrightarrow> a2 = ?a1"
    by blast
  let ?a3 = "a2\<lparr>conteo_funcionalidad := 0\<rparr>"
  have e: "obtener_funcionalidad a = (if ?n = 3 then atender_tecla ?a3 else Some a2)"
    by (simp only: obtener_funcionalidad_def Let_def a2(1,4) bind.bind_lunit)
  have a3: "ed_inv ?a3" "same_app a ?a3" using a2(2,3) by (simp_all only: ed_inv_conteo same_app_def) simp
  note key = atender_tecla_correct [OF a3(1)]
  show ?thesis
  proof (cases "?n = 3")
    case True
    show ?thesis
    proof (cases "flag_escribiendo a")
      case w: True
      then have "\<not> (boton_seleccionado ?a3 = ENTER \<and> (16 \<le> boton_actual ?a3 \<or> cursor ?a3 = 16))"
        using a2(5) by auto
      with key obtain a' where "atender_tecla ?a3 = Some a'" "ed_inv a'" "same_app ?a3 a'" by auto
      with True w a3(2) same_app_trans show ?thesis by (auto simp: e)
    next
      case False
      with a2(6) have "boton_seleccionado ?a3 = boton_seleccionado a" "boton_actual ?a3 = boton_actual a" "cursor ?a3 = cursor a"
        by simp_all
      with key True False a3(2) same_app_trans show ?thesis by (auto simp: e split: if_splits)
    qed
  next
    case False
    with a2(2,3) show ?thesis by (auto simp: e)
  qed
qed

lemma letter_of_pos [simp]: "letter_of b (letter_pos b may k) = k"
  by (simp add: letter_of_def letter_pos_def)

text \<open>The letters of the keys, as they are printed on them.\<close>

definition keyboard :: "nat \<Rightarrow> bool \<Rightarrow> char list" where
  "keyboard b may =
     (if b = 0 then '' ?!#$%&*()'' else if b = 1 then ''0123456789''
      else if may then [''ABC'', ''DEF'', ''GHI'', ''JKL'', ''MNO'', ''PQRS'', ''TUV'', ''WXYZ''] ! (b - 2)
      else [''abc'', ''def'', ''ghi'', ''jkl'', ''mno'', ''pqrs'', ''tuv'', ''wxyz''] ! (b - 2))"

lemma keyboard_charmap:
  assumes "b < 10" and "k < letters b"
  shows "get_charmap b (letter_pos b may k) = Some (keyboard b may ! k) \<and> k < length (keyboard b may)"
proof -
  have "list_all (\<lambda>b. list_all (\<lambda>may. list_all (\<lambda>k. get_charmap b (letter_pos b may k) = Some (keyboard b may ! k) \<and>
      k < length (keyboard b may)) [0..<letters b]) [False, True]) [0..<10]"
    by code_simp
  with assms show ?thesis by (cases may) (auto simp: list_all_iff)
qed

text \<open>C13: pressing a character key types as printed on the keypad: the first press of a key writes its
  first letter at the cursor, each further press replaces it by the next letter of the key and
  comes back to the first after the last; a pending shift changes the case for this and the
  following presses of the letter keys; nothing else of the message changes.\<close>

theorem multi_tap_correct:
  assumes inv: "ed_inv a" and b: "boton_seleccionado a = b" "b < 10" and c: "cursor a < 16"
    and now: "(conteo_funcionalidad a + 1) mod 256 = 3" and time: "flag_escribiendo a \<longrightarrow> conteo_salto a < MAX_TIME_WAITING"
  shows "\<exists>a'. obtener_funcionalidad a = Some a' \<and> held b a' \<and> cursor a' = cursor a \<and>
    mensaje_buffer a' = (mensaje_buffer a)[cursor a := keyboard b (mayus a') !
      (if held b a then (letter_of b (matrix_aux a ! b) + 1) mod length (keyboard b (mayus a')) else 0)] \<and>
    letter_of b (matrix_aux a' ! b) =
      (if held b a then (letter_of b (matrix_aux a ! b) + 1) mod length (keyboard b (mayus a')) else 0) \<and>
    mayus a' = (if 2 \<le> b \<and> shift a then \<not> mayus a else mayus a) \<and> (2 \<le> b \<longrightarrow> \<not> shift a')"
proof -
  let ?a1 = "a\<lparr>conteo_funcionalidad := 3\<rparr>"
  let ?a2 = "if flag_escribiendo a then ?a1\<lparr>conteo_salto := (conteo_salto a + 1) mod 256\<rparr> else ?a1"
  let ?a3 = "?a2\<lparr>conteo_funcionalidad := 0\<rparr>"
  have e: "obtener_funcionalidad a = atender_tecla ?a3"
    using now time by (simp add: obtener_funcionalidad_def contar_tiempo_def Let_def)
  have same: "held b ?a3 = held b a" "matrix_aux ?a3 = matrix_aux a" "next_case b ?a3 = next_case b a"
    "boton_seleccionado ?a3 = b" "cursor ?a3 = cursor a" "mensaje_buffer ?a3 = mensaje_buffer a" "shift ?a3 = shift a"
    using b(1) by (simp_all add: held_def next_case_def)
  have inv3: "ed_inv ?a3" using inv by (simp add: ed_defs cong: if_cong)
  let ?k = "if held b a then (letter_of b (matrix_aux a ! b) + 1) mod letters b else 0"
  have k: "?k < letters b" by (simp add: letters_def)
  have np: "next_pos b ?a3 = letter_pos b (next_case b a) ?k" by (simp add: next_pos_def same)
  have len: "length (keyboard b may) = letters b" for may
    using b(2) by (auto simp: keyboard_def letters_def less_Suc_eq numeral_eq_Suc)
  obtain a4 where a4: "funcionalidad_numeros ?a3 = Some a4"
    "mensaje_buffer a4 = (mensaje_buffer a)[cursor a := keyboard b (next_case b a) ! ?k]"
    "held b a4" "matrix_aux a4 ! b = letter_pos b (next_case b a) ?k" "mayus a4 = next_case b a"
    "shift a4 = (if 2 \<le> b then False else shift a)" "cursor a4 = cursor a" "boton_seleccionado a4 = b"
    using numeros_inv [OF inv3 same(4) b(2)] c keyboard_charmap [OF b(2) k, of "next_case b a"]
    unfolding np same by auto
  have keys: "b \<notin> {CONFIRMAR, DERECHA, SHIFT, BORRAR, IZQUIERDA, ENTER}" using b(2) by (auto simp: button_defs)
  have run: "atender_tecla ?a3 = Some (a4\<lparr>boton_seleccionado := EMPTY\<rparr>)"
    using a4(1,7,8) keys c same(5) by (auto simp: atender_tecla_def MAX_LENGTH_MESSAGE_def other_keys)
  show ?thesis
    using a4 run e by (simp add: held_def len next_case_def)
qed

theorem multi_tap_correct_witness:
  "\<exists>a'. obtener_funcionalidad (app0\<lparr>boton_seleccionado := 7, shift := True\<rparr>) = Some a' \<and>
    mensaje_buffer a' ! 0 = CHR ''P'' \<and> mayus a'"
proof -
  have "ed_inv (app0\<lparr>boton_seleccionado := 7, shift := True\<rparr>)" using app0_inv by (auto simp: ed_defs app0_def)
  from multi_tap_correct [OF this, of 7] show ?thesis
    by (auto simp: app0_def held_def keyboard_def)
qed

text \<open>\<open>ENTER\<close> takes over the text up to and including the cursor as the message, terminated, and
  activates the task of the panel, but only the first time; this holds whenever \<open>ENTER\<close> stays inside its arrays.\<close>

lemma enter_takes_message:
  assumes inv: "ed_inv a" and b: "boton_seleccionado a = ENTER" and now: "(conteo_funcionalidad a + 1) mod 256 = 3"
    and time: "flag_escribiendo a \<longrightarrow> conteo_salto a < MAX_TIME_WAITING"
    and ok: "boton_actual a < 16" "cursor a < 16"
  shows "\<exists>a'. obtener_funcionalidad a = Some a' \<and>
    mensaje_actual a' = take (cursor a + 1) (mensaje_buffer a) @ NUL # drop (cursor a + 2) (mensaje_actual a) \<and>
    activated a' = activated a @ (if flag_inicio a then [] else [SwitchesTask]) \<and> flag_inicio a' \<and>
    \<not> flag_escribiendo a' \<and> cursor a' = cursor a \<and> mensaje_buffer a' = mensaje_buffer a"
proof -
  let ?a1 = "a\<lparr>conteo_funcionalidad := 3\<rparr>"
  let ?a2 = "if flag_escribiendo a then ?a1\<lparr>conteo_salto := (conteo_salto a + 1) mod 256\<rparr> else ?a1"
  let ?a3 = "?a2\<lparr>conteo_funcionalidad := 0\<rparr>"
  have e: "obtener_funcionalidad a = atender_tecla ?a3"
    using now time by (simp add: obtener_funcionalidad_def contar_tiempo_def Let_def)
  have inv3: "ed_inv ?a3" using inv by (simp add: ed_defs cong: if_cong)
  have same: "boton_seleccionado ?a3 = ENTER" "boton_actual ?a3 = boton_actual a" "cursor ?a3 = cursor a"
    "mensaje_buffer ?a3 = mensaje_buffer a" "mensaje_actual ?a3 = mensaje_actual a" "activated ?a3 = activated a"
    "flag_inicio ?a3 = flag_inicio a"
    using b by simp_all
  have keys: "ENTER \<notin> {CONFIRMAR, DERECHA, SHIFT, BORRAR, IZQUIERDA}" "10 \<le> ENTER" by (simp_all add: button_defs)
  have run: "atender_tecla ?a3 = funcionalidad_enter ?a3 \<bind> (\<lambda>a. Some (a\<lparr>boton_seleccionado := EMPTY\<rparr>))"
    using keys same(1) unfolding atender_tecla_def by (simp only: other_keys) (auto simp: other_keys)
  have "\<not> (16 \<le> boton_actual ?a3 \<or> cursor ?a3 = 16)" using ok same by auto
  with enter_correct [OF inv3 same(1)] obtain a' where "funcionalidad_enter ?a3 = Some a'" "flag_inicio a'" "\<not> flag_escribiendo a'"
    "cursor a' = cursor a" "mensaje_buffer a' = mensaje_buffer a"
    "mensaje_actual a' = take (cursor a + 1) (mensaje_buffer a) @ NUL # drop (cursor a + 2) (mensaje_actual a)"
    "activated a' = activated a @ (if flag_inicio a then [] else [SwitchesTask])"
    unfolding same by auto
  with e run show ?thesis by simp
qed

section \<open>The property of the scan\<close>

text \<open>The keys that are down: \<open>K r c\<close> on the keypad, \<open>B i\<close> on the board. The port has pull-ups: a line
  reads 0 when a pressed key joins it to a row that is driven low.\<close>

definition reads :: "(nat \<Rightarrow> bool) \<Rightarrow> (nat \<Rightarrow> nat \<Rightarrow> bool) \<Rightarrow> uint16 \<Rightarrow> uint8 \<Rightarrow> bool" where
  "reads B K w v \<longleftrightarrow> (\<forall>i<4. bit v i \<longleftrightarrow> \<not> B i) \<and>
     (\<forall>c<3. bit v (4 + c) \<longleftrightarrow> \<not> (\<exists>r<4. K r c \<and> \<not> bit w (6 + r)))"

text \<open>The words the scan puts on the port, row by row.\<close>

definition scan_words :: "uint16 \<Rightarrow> uint16 list" where
  "scan_words w =
     (let w1 = (w AND 0xFFBF) OR 0x0380; w2 = (w1 AND 0xFF7F) OR 0x0340; w3 = (w2 AND 0xFEFF) OR 0x02C0
      in [w1, w2, w3, (w3 AND 0xFDFF) OR 0x01C0])"

text \<open>The labels in the order of the scan; the last one that is down wins.\<close>

definition down :: "(bool \<times> nat) list \<Rightarrow> nat list" where
  "down ps = map snd (filter fst ps)"

definition buttons_down :: "(nat \<Rightarrow> bool) \<Rightarrow> (nat \<Rightarrow> nat \<Rightarrow> bool) \<Rightarrow> nat list" where
  "buttons_down B K = down (
     ([(B 0, SHIFT), (B 1, IZQUIERDA), (B 2, DERECHA), (B 3, ENTER)] @
      [(K 0 0, 1), (K 0 1, 2), (K 0 2, 3), (K 1 0, 4), (K 1 1, 5), (K 1 2, 6),
       (K 2 0, 7), (K 2 1, 8), (K 2 2, 9), (K 3 0, BORRAR), (K 3 1, 0), (K 3 2, CONFIRMAR)]))"

lemma row_lines:
  "w AND 0xFFBF = unset_bit 6 w" "w AND 0xFF7F = unset_bit 7 w" "w AND 0xFEFF = unset_bit 8 w"
  "w AND 0xFDFF = unset_bit 9 w"
  "w OR 0x0380 = set_bit 7 (set_bit 8 (set_bit 9 w))" "w OR 0x0340 = set_bit 6 (set_bit 8 (set_bit 9 w))"
  "w OR 0x02C0 = set_bit 6 (set_bit 7 (set_bit 9 w))" "w OR 0x01C0 = set_bit 6 (set_bit 7 (set_bit 8 w))"
  for w :: uint16
proof -
  have "(0xFFBF :: uint16) = - 65" "(0xFF7F :: uint16) = - 129" "(0xFEFF :: uint16) = - 257" "(0xFDFF :: uint16) = - 513"
    by simp_all
  note this [simp]
  show "w AND 0xFFBF = unset_bit 6 w" "w AND 0xFF7F = unset_bit 7 w" "w AND 0xFEFF = unset_bit 8 w"
    "w AND 0xFDFF = unset_bit 9 w"
    "w OR 0x0380 = set_bit 7 (set_bit 8 (set_bit 9 w))" "w OR 0x0340 = set_bit 6 (set_bit 8 (set_bit 9 w))"
    "w OR 0x02C0 = set_bit 6 (set_bit 7 (set_bit 9 w))" "w OR 0x01C0 = set_bit 6 (set_bit 7 (set_bit 8 w))"
    by (simp_all add: unset_bit_eq_and_not set_bit_eq_or not_numeral_eq or.assoc)
qed

lemma scan_words_bits:
  "k < 4 \<Longrightarrow> r < 4 \<Longrightarrow> bit (scan_words w ! k) (6 + r) \<longleftrightarrow> r \<noteq> k"
  "k < 4 \<Longrightarrow> 10 \<le> n \<Longrightarrow> bit (scan_words w ! k) n \<longleftrightarrow> bit w n"
  by (auto simp: scan_words_def Let_def row_lines bit_set_bit_iff bit_unset_bit_iff less_Suc_eq numeral_eq_Suc
      dest: bit_imp_le_length)

lemma mask_bit: "v AND 0x01 = 0 \<longleftrightarrow> \<not> bit v 0" "v AND 0x02 = 0 \<longleftrightarrow> \<not> bit v 1" "v AND 0x04 = 0 \<longleftrightarrow> \<not> bit v 2"
  "v AND 0x08 = 0 \<longleftrightarrow> \<not> bit v 3" "v AND 0x10 = 0 \<longleftrightarrow> \<not> bit v 4" "v AND 0x20 = 0 \<longleftrightarrow> \<not> bit v 5" "v AND 0x40 = 0 \<longleftrightarrow> \<not> bit v 6"
  for v :: uint8
  using and_exp_eq_0_iff_not_bit [of v 0] and_exp_eq_0_iff_not_bit [of v 1] and_exp_eq_0_iff_not_bit [of v 2]
    and_exp_eq_0_iff_not_bit [of v 3] and_exp_eq_0_iff_not_bit [of v 4] and_exp_eq_0_iff_not_bit [of v 5]
    and_exp_eq_0_iff_not_bit [of v 6]
  by simp_all

lemma scan_row_sel:
  "boton_seleccionado (scan_row low high b1 b2 b3 v a) =
    last (boton_seleccionado a # down [(\<not> bit v 4, b1), (\<not> bit v 5, b2), (\<not> bit v 6, b3)])"
  by (simp add: scan_row_def mask_bit Let_def down_def)

lemma botonera_sel:
  "boton_seleccionado (botonera_CIAA v a) =
    last (boton_seleccionado a # down [(\<not> bit v 0, SHIFT), (\<not> bit v 1, IZQUIERDA), (\<not> bit v 2, DERECHA), (\<not> bit v 3, ENTER)])"
  by (simp add: botonera_CIAA_def mask_bit Let_def down_def)

lemma scan_row_io [simp]:
  "io (scan_row low high b1 b2 b3 v a) = port_write ((outputs (io a) AND low) OR high) (io a)"
  "io (botonera_CIAA v a) = io a"
  by (simp_all add: scan_row_def botonera_CIAA_def Let_def)

definition sel_frame :: "app \<Rightarrow> app \<Rightarrow> bool" where
  "sel_frame a x \<longleftrightarrow> x = a\<lparr>io := io x, boton_seleccionado := boton_seleccionado x\<rparr>"

lemma sel_frame_scan: "sel_frame a (scan_row low high b1 b2 b3 v a)" "sel_frame a (botonera_CIAA v a)"
  by (simp_all add: sel_frame_def scan_row_def botonera_CIAA_def Let_def)

lemma sel_frame_trans: "sel_frame a x \<Longrightarrow> sel_frame x y \<Longrightarrow> sel_frame a y"
proof -
  assume x: "sel_frame a x" and y: "sel_frame x y"
  have "x\<lparr>io := io y, boton_seleccionado := boton_seleccionado y\<rparr> = a\<lparr>io := io y, boton_seleccionado := boton_seleccionado y\<rparr>"
    by (subst x [unfolded sel_frame_def]) simp
  with y show ?thesis unfolding sel_frame_def by metis
qed

lemma obtener_boton_frame: "sel_frame a (obtener_boton inp a)"
  unfolding obtener_boton_def Let_def
  by (rule sel_frame_trans [OF sel_frame_trans [OF sel_frame_trans [OF sel_frame_trans]]];
      rule sel_frame_scan)

lemma last_down: "last (last (x # down ps) # down qs) = last (x # down (ps @ qs))"
  by (auto simp: down_def)

text \<open>the scan finds the button that is down: with the keypad's keys and the board's buttons read
  through the port, the selected button becomes the last one down in the order of the scan and stays
  when none is; the four words written drive exactly one row low each and leave the display's lines alone.\<close>

lemma obtener_boton_correct:
  assumes "reads B K w0 (inp 0)" and "\<forall>k<4. reads B K (scan_words (outputs (io a)) ! k) (inp (k + 1))"
  shows "boton_seleccionado (obtener_boton inp a) = last (boton_seleccionado a # buttons_down B K) \<and>
    wire (io (obtener_boton inp a)) = wire (io a) @ map OutWrite (scan_words (outputs (io a))) \<and>
    (\<forall>k<4. (\<forall>r<4. bit (scan_words (outputs (io a)) ! k) (6 + r) \<longleftrightarrow> r \<noteq> k) \<and>
      (\<forall>n\<ge>10. bit (scan_words (outputs (io a)) ! k) n \<longleftrightarrow> bit (outputs (io a)) n)) \<and>
    obtener_boton inp a = a\<lparr>io := io (obtener_boton inp a), boton_seleccionado := boton_seleccionado (obtener_boton inp a)\<rparr>"
proof -
  let ?w = "outputs (io a)"
  have col: "bit (inp k) (4 + c) \<longleftrightarrow> \<not> K (k - 1) c" if "0 < k" "k \<le> 4" "c < 3" for k c
  proof -
    have "reads B K (scan_words ?w ! (k - 1)) (inp k)" "k - 1 < 4"
      using assms(2) [rule_format, of "k - 1"] that by simp_all
    with that scan_words_bits(1) [of "k - 1" _ ?w] show ?thesis by (auto simp: reads_def)
  qed
  have board: "bit (inp 0) i \<longleftrightarrow> \<not> B i" if "i < 4" for i
    using assms(1) that by (simp add: reads_def)
  note cols = col [of 1 0] col [of 1 1] col [of 1 2] col [of 2 0] col [of 2 1] col [of 2 2]
    col [of 3 0] col [of 3 1] col [of 3 2] col [of 4 0] col [of 4 1] col [of 4 2]
    board [of 0] board [of 1] board [of 2] board [of 3]
  have "boton_seleccionado (obtener_boton inp a) = last (boton_seleccionado a # buttons_down B K)"
    unfolding obtener_boton_def Let_def scan_row_sel botonera_sel last_down
    using cols by (simp add: buttons_down_def)
  moreover have "wire (io (obtener_boton inp a)) = wire (io a) @ map OutWrite (scan_words ?w)"
    by (simp add: obtener_boton_def port_write_def Let_def scan_words_def)
  moreover have "obtener_boton inp a = a\<lparr>io := io (obtener_boton inp a), boton_seleccionado := boton_seleccionado (obtener_boton inp a)\<rparr>"
    using obtener_boton_frame [of a inp] by (simp only: sel_frame_def)
  ultimately show ?thesis using scan_words_bits by blast
qed

text \<open>Key 8 is held down and nothing else.\<close>

end
