(* ===== verification/AppMain.thy ===== *)
theory AppMain
  imports Keypad
begin

text \<open>
  The application (\<^verbatim>\<open>projects/myproject/src/myproject.c\<close> and the start-up part of \<^verbatim>\<open>botonera.c\<close>): the
  choice of speed, intensity and mode, the state machine \<open>maquina_estados\<close> that the periodic task
  runs, the initial task, and the task that shows the message.

  \<open>maquina_estados\<close> is one step of the periodic task and \<open>SwitchesTask_round\<close> one round of the endless
  loop of the panel's task; \<open>app_reach\<close> are the states any sequence of them reaches from the state
  the initial task leaves. The round is one step: that a change of the message in the middle of a
  round, by the periodic task preempting it, is seen at once is not modelled.
\<close>

section \<open>The choice of the settings\<close>

definition cstr :: "char list \<Rightarrow> char list" where "cstr s = s @ [NUL]"

text \<open>\<open>SHIFT\<close> steps through the options of the current stage.\<close>

definition siguiente_modo :: "app \<Rightarrow> app option" where
  "siguiente_modo a = do {
     v \<leftarrow> rd (matrix_aux a) 1;
     a \<leftarrow> (if 2 < v then set_aux 1 0 a else Some a);
     v \<leftarrow> rd (matrix_aux a) 1;
     set_aux 1 (v + 1) a }"

definition siguiente_numero :: "app \<Rightarrow> app option" where
  "siguiente_numero a = do {
     v \<leftarrow> rd (matrix_aux a) 1;
     a \<leftarrow> (if 4 < valor a \<and> 4 < v then set_aux 1 1 a else Some a);
     v \<leftarrow> rd (matrix_aux a) 1;
     set_aux 1 (v + 1) (a\<lparr>valor := v\<rparr>) }"

definition elegir_opcion :: "app \<Rightarrow> app option" where
  "elegir_opcion a =
     (if app_state a = MODO then do {
        a \<leftarrow> siguiente_modo a;
        v \<leftarrow> rd (matrix_aux a) 1;
        buf \<leftarrow> (if v = 1 then copy_message [0..<16] (cstr ''DELETREO        '') (mensaje_buffer a)
                else if v = 2 then copy_message [0..<16] (cstr ''CIRCULAR        '') (mensaje_buffer a)
                else if v = 3 then copy_message [0..<16] (cstr ''PING - PONG     '') (mensaje_buffer a)
                else Some (mensaje_buffer a));
        write_LCD buf 1 16 (a\<lparr>mensaje_buffer := buf, valor := v\<rparr>) }
      else do {
        a \<leftarrow> siguiente_numero a;
        v \<leftarrow> rd (matrix_aux a) 1;
        c \<leftarrow> get_charmap 1 v;
        buf \<leftarrow> wr (mensaje_buffer a) 0 c;
        write_LCD buf 1 1 (a\<lparr>mensaje_buffer := buf\<rparr>) })"

definition next_state :: "State \<Rightarrow> State option" where
  "next_state s = (case s of VELOCIDAD \<Rightarrow> Some INTENSIDAD | INTENSIDAD \<Rightarrow> Some MODO | MODO \<Rightarrow> Some ACTIVO | ACTIVO \<Rightarrow> None)"

text \<open>\<open>ENTER\<close> takes the option over and goes on to the next stage.\<close>

definition confirmar_opcion :: "app \<Rightarrow> app option" where
  "confirmar_opcion a = do {
     a \<leftarrow> (case app_state a of
        VELOCIDAD \<Rightarrow> do {
          a \<leftarrow> set_aux 1 1 (a\<lparr>speed := valor a\<rparr>);
          write_LCD (cstr '' '') 1 1 (a\<lparr>flag_cartel := False\<rparr>) }
      | INTENSIDAD \<Rightarrow> do {
          a \<leftarrow> set_aux 1 0 (a\<lparr>intensity := valor a\<rparr>);
          write_LCD (cstr '' '') 1 1 (a\<lparr>flag_cartel := False\<rparr>) }
      | MODO \<Rightarrow> do {
          a \<leftarrow> set_aux 1 0 (a\<lparr>mode := valor a\<rparr>);
          buf \<leftarrow> copy_message [0..<16] (replicate 16 (CHR 0x20)) (mensaje_buffer a);
          a \<leftarrow> write_LCD (cstr '' '') 1 1 (a\<lparr>mensaje_buffer := buf, flag_cartel := False\<rparr>);
          Some (a\<lparr>panel := Init_MAX7219 (word_of_nat (intensity a)) (panel a)\<rparr>) }
      | ACTIVO \<Rightarrow> Some a);
     s \<leftarrow> next_state (app_state a);
     write_LCD (cstr (replicate 16 (CHR 0x20))) 1 16 (a\<lparr>app_state := s\<rparr>) }"

definition inicializar_sistema :: "app \<Rightarrow> app option" where
  "inicializar_sistema a = do {
     let a = a\<lparr>conteo_funcionalidad := (conteo_funcionalidad a + 1) mod 256\<rparr>;
     a \<leftarrow> (if \<not> flag_inicializacion a
           then do { a \<leftarrow> set_aux 1 1 a; Some (a\<lparr>flag_inicializacion := True\<rparr>) } else Some a);
     if conteo_funcionalidad a = 3 then do {
       let a = a\<lparr>conteo_funcionalidad := 0\<rparr>;
       a \<leftarrow> (if boton_seleccionado a = SHIFT then elegir_opcion a else Some a);
       a \<leftarrow> (if boton_seleccionado a = ENTER then confirmar_opcion a else Some a);
       Some (a\<lparr>boton_seleccionado := EMPTY\<rparr>) }
     else Some a }"

section \<open>The tasks\<close>

definition cartel :: "char list \<Rightarrow> nat \<Rightarrow> app \<Rightarrow> app option" where
  "cartel s n a =
     (if \<not> flag_cartel a
      then do { a \<leftarrow> write_LCD (cstr s) 0 n a; Some (a\<lparr>flag_cartel := True\<rparr>) } else Some a)"

definition maquina_estados :: "(nat \<Rightarrow> uint8) \<Rightarrow> app \<Rightarrow> app option" where
  "maquina_estados inp a =
     (case app_state a of
        VELOCIDAD \<Rightarrow> do { a \<leftarrow> cartel ''Selec Velocidad '' 15 a; inicializar_sistema (botonera_CIAA (inp 0) a) }
      | INTENSIDAD \<Rightarrow> do { a \<leftarrow> cartel ''Selec Intensidad'' 16 a; inicializar_sistema (botonera_CIAA (inp 0) a) }
      | MODO \<Rightarrow> do { a \<leftarrow> cartel ''Selec Modo      '' 16 a; inicializar_sistema (botonera_CIAA (inp 0) a) }
      | ACTIVO \<Rightarrow> do { a \<leftarrow> cartel ''--CIAA Message--'' 16 a; obtener_funcionalidad (obtener_boton inp a) })"

text \<open>The variables as the C initialisers leave them; the panel's driver is reset only in stage \<open>MODO\<close>.\<close>

definition app_reset :: app where
  "app_reset = \<lparr>io = \<lparr>outputs = 0, lcd_mode = 0, wire = []\<rparr>,
     panel = \<lparr>status = replicate 64 0, beyond = 0, bus = []\<rparr>,
     mensaje_buffer = cstr (replicate 16 (CHR 0x20)), mensaje_actual = cstr (replicate 16 (CHR 0x20)), cursor = 0,
     matrix_aux = replicate 16 0, shift = False, mayus = False, boton_actual = 0, boton_seleccionado = 0,
     conteo_salto = 0, conteo_funcionalidad = 0, flag_escribiendo = False, first_touch = False, flag_inicio = False,
     flag_inicializacion = False, valor = 0, app_state = VELOCIDAD, speed = 0, intensity = 0, mode = 0,
     flag_cartel = False, activated = []\<rparr>"

text \<open>What \<open>InitTask\<close> does to these variables: \<open>outputs\<close> and the display.\<close>

definition InitTask :: "app \<Rightarrow> app" where
  "InitTask a = a\<lparr>io := LCD_init 8 7 ((io a)\<lparr>outputs := 0\<rparr>)\<rparr>"

definition SwitchesTask_round :: "app \<Rightarrow> app option" where
  "SwitchesTask_round a = do {
     p \<leftarrow> msjScroll (word_of_nat (speed a)) (word_of_nat (mode a)) (mensaje_actual a) (panel a);
     Some (a\<lparr>panel := p\<rparr>) }"

inductive app_step :: "app \<Rightarrow> app \<Rightarrow> bool" where
  periodic: "maquina_estados inp a = Some a' \<Longrightarrow> app_step a a'"
| round: "SwitchesTask \<in> set (activated a) \<Longrightarrow> SwitchesTask_round a = Some a' \<Longrightarrow> app_step a a'"

inductive app_reach :: "app \<Rightarrow> bool" where
  start: "app_reach (InitTask app_reset)"
| step: "app_reach a \<Longrightarrow> app_step a a' \<Longrightarrow> app_reach a'"

inductive_cases app_stepE: "app_step a a'"

section \<open>The invariant of the application\<close>

definition buffer_ok :: "app \<Rightarrow> bool" where
  "buffer_ok a \<longleftrightarrow> length (mensaje_buffer a) = 17 \<and> mensaje_buffer a ! 16 = NUL \<and>
     (app_state a \<noteq> MODO \<longrightarrow> (\<forall>i<16. typable (mensaje_buffer a ! i)))"

text \<open>Before \<open>ACTIVO\<close> only entry 1 of the counters is in use, as the number of the next option.\<close>

definition choice_ok :: "app \<Rightarrow> bool" where
  "choice_ok a \<longleftrightarrow> length (matrix_aux a) = 16 \<and> (\<forall>i<10. i \<noteq> 1 \<longrightarrow> matrix_aux a ! i = 0) \<and>
     \<not> flag_escribiendo a \<and> cursor a = 0 \<and> boton_actual a = 0 \<and> valor a \<le> 5 \<and>
     (if app_state a = MODO then flag_inicializacion a \<and> matrix_aux a ! 1 \<le> 3
      else if \<not> flag_inicializacion a then app_state a = VELOCIDAD
      else matrix_aux a ! 1 = 1 \<or> matrix_aux a ! 1 = valor a + 1 \<and> 1 \<le> valor a)"

definition app_inv :: "app \<Rightarrow> bool" where
  "app_inv a \<longleftrightarrow> lcd_idle a \<and> length (status (panel a)) = 64 \<and> message_ok a \<and> buffer_ok a \<and>
     speed a \<le> 5 \<and> intensity a \<le> 5 \<and> mode a \<le> 5 \<and>
     (if app_state a = ACTIVO then ed_inv a else choice_ok a)"

lemmas app_defs = app_inv_def lcd_idle_def message_ok_def buffer_ok_def choice_ok_def

lemma writes:
  assumes "NUL \<in> set s" and "lcd_idle a"
  obtains io' where "write_LCD s l n a = Some (a\<lparr>io := io'\<rparr>)" "\<not> bit (outputs io') 15"
  using write_LCD_defined [OF assms, of l n] by (auto simp: lcd_idle_def)

lemma NUL_cstr [simp]: "NUL \<in> set (cstr s)"
  by (simp add: cstr_def)

lemma NUL_buffer: "buffer_ok a \<Longrightarrow> NUL \<in> set (mensaje_buffer a)"
  using nth_mem [of 16 "mensaje_buffer a"] by (simp add: buffer_ok_def)

lemma copy_16:
  "length s = 16 \<Longrightarrow> length buf = 17 \<Longrightarrow> copy_message [0..<16] (cstr s) buf = Some (s @ drop 16 buf)"
  using copy_message_prefix [of 16 "cstr s" buf] by (simp add: cstr_def)

lemma copy_16':
  "length s = 16 \<Longrightarrow> length buf = 17 \<Longrightarrow> copy_message [0..<16] s buf = Some (s @ drop 16 buf)"
  using copy_message_prefix [of 16 s buf] by simp

lemma ok_io [simp]:
  "aux_ok (a\<lparr>io := j\<rparr>) = aux_ok a" "text_ok (a\<lparr>io := j\<rparr>) = text_ok a" "message_ok (a\<lparr>io := j\<rparr>) = message_ok a"
  "buffer_ok (a\<lparr>io := j\<rparr>) = buffer_ok a" "choice_ok (a\<lparr>io := j\<rparr>) = choice_ok a"
  by (simp_all add: ed_defs buffer_ok_def choice_ok_def cong: if_cong)

lemma app_inv_io: "app_inv a \<Longrightarrow> \<not> bit (outputs j) 15 \<Longrightarrow> app_inv (a\<lparr>io := j\<rparr>)"
  by (auto simp: app_inv_def ed_inv_def lcd_idle_def split: if_splits)

text \<open>The digit of an option.\<close>

definition digit :: "nat \<Rightarrow> char" where "digit n = ''0123456789'' ! n"

lemma charmap_digit: "n \<le> 5 \<Longrightarrow> get_charmap 1 (n + 1) = Some (digit n)"
  using keyboard_charmap [of 1 n False] by (simp add: letters_def letter_pos_def keyboard_def digit_def)

lemma typable_digit: "n \<le> 5 \<Longrightarrow> typable (digit n)"
  using charmap_digit [of n] charmap_typable [of 1 "n + 1"] by auto

definition mode_name :: "nat \<Rightarrow> char list" where
  "mode_name n = (if n = 1 then ''DELETREO        '' else if n = 2 then ''CIRCULAR        '' else ''PING - PONG     '')"

text \<open>The option that follows: 1 to 5 cyclically, or 1 to 3 for the mode.\<close>

definition next_option :: "app \<Rightarrow> nat" where
  "next_option a =
     (if app_state a = MODO then (if matrix_aux a ! 1 = 3 then 1 else matrix_aux a ! 1 + 1)
      else if matrix_aux a ! 1 = 1 \<or> valor a = 5 then 1 else valor a + 1)"

lemma elegir_numero:
  assumes inv: "app_inv a" and st: "app_state a \<noteq> ACTIVO" "app_state a \<noteq> MODO" and f: "flag_inicializacion a"
  shows "\<exists>io'. elegir_opcion a = Some (a\<lparr>valor := next_option a, matrix_aux := (matrix_aux a)[1 := next_option a + 1],
      mensaje_buffer := (mensaje_buffer a)[0 := digit (next_option a)], io := io'\<rparr>) \<and> \<not> bit (outputs io') 15 \<and>
    1 \<le> next_option a \<and> next_option a \<le> 5"
proof -
  let ?v = "matrix_aux a ! 1" and ?n = "next_option a"
  have ch: "choice_ok a" "buffer_ok a" using inv st by (simp_all add: app_inv_def)
  have v: "?v = 1 \<or> ?v = valor a + 1 \<and> 1 \<le> valor a" "valor a \<le> 5" "length (matrix_aux a) = 16"
    using ch(1) st f by (auto simp: choice_ok_def)
  have n: "?n = (if 4 < valor a \<and> 4 < ?v then 1 else ?v)" "1 \<le> ?n" "?n \<le> 5"
    using v st by (auto simp: next_option_def)
  let ?buf = "(mensaje_buffer a)[0 := digit ?n]"
  let ?a = "a\<lparr>valor := ?n, matrix_aux := (matrix_aux a)[1 := ?n + 1], mensaje_buffer := ?buf\<rparr>"
  have "NUL \<in> set ?buf"
    using ch(2) nth_mem [of 16 ?buf] by (simp add: buffer_ok_def)
  moreover have "lcd_idle ?a" using inv by (simp add: app_defs)
  ultimately obtain io' where io': "write_LCD ?buf 1 1 ?a = Some (?a\<lparr>io := io'\<rparr>)" "\<not> bit (outputs io') 15"
    by (rule writes)
  have step: "siguiente_numero a = Some (a\<lparr>valor := ?n, matrix_aux := (matrix_aux a)[1 := ?n + 1]\<rparr>)"
  proof (cases "4 < valor a \<and> 4 < ?v")
    case True
    then show ?thesis using v(3) n(1) by (simp add: siguiente_numero_def mem_simps set_aux_in)
  next
    case False
    then have "?n = ?v" "(?v + 1) mod 256 = ?v + 1" using n by auto
    with False v(3) show ?thesis by (auto simp: siguiente_numero_def mem_simps set_aux_in)
  qed
  have "length (mensaje_buffer a) = 17" using ch(2) by (simp add: buffer_ok_def)
  then have "elegir_opcion a = Some (?a\<lparr>io := io'\<rparr>)"
    using st(2) v(3) n io'(1) charmap_digit [OF n(3)]
    by (simp add: elegir_opcion_def step mem_simps)
  with io'(2) n show ?thesis by auto
qed

lemma elegir_modo:
  assumes inv: "app_inv a" and st: "app_state a = MODO"
  shows "\<exists>io'. elegir_opcion a = Some (a\<lparr>matrix_aux := (matrix_aux a)[1 := next_option a],
      mensaje_buffer := mode_name (next_option a) @ [NUL], valor := next_option a, io := io'\<rparr>) \<and> \<not> bit (outputs io') 15 \<and>
    1 \<le> next_option a \<and> next_option a \<le> 3"
proof -
  let ?v = "matrix_aux a ! 1" and ?n = "next_option a"
  have ch: "choice_ok a" "buffer_ok a" using inv st by (simp_all add: app_inv_def)
  have v: "?v \<le> 3" "length (matrix_aux a) = 16"
    using ch(1) st by (auto simp: choice_ok_def)
  have n: "?n = (if 2 < ?v then 0 else ?v) + 1" "1 \<le> ?n" "?n \<le> 3"
    using v st by (auto simp: next_option_def)
  have buf: "length (mensaje_buffer a) = 17" "drop 16 (mensaje_buffer a) = [NUL]"
    using ch(2) Cons_nth_drop_Suc [of 16 "mensaje_buffer a"] by (simp_all add: buffer_ok_def)
  let ?a = "a\<lparr>matrix_aux := (matrix_aux a)[1 := ?n], mensaje_buffer := mode_name ?n @ [NUL], valor := ?n\<rparr>"
  have "NUL \<in> set (mode_name ?n @ [NUL])" "lcd_idle ?a" using inv by (simp_all add: app_defs)
  then obtain io' where io': "write_LCD (mode_name ?n @ [NUL]) 1 16 ?a = Some (?a\<lparr>io := io'\<rparr>)" "\<not> bit (outputs io') 15"
    by (rule writes)
  have name: "(if ?n = 1 then copy_message [0..<16] (cstr ''DELETREO        '') (mensaje_buffer a)
      else if ?n = 2 then copy_message [0..<16] (cstr ''CIRCULAR        '') (mensaje_buffer a)
      else if ?n = 3 then copy_message [0..<16] (cstr ''PING - PONG     '') (mensaje_buffer a)
      else Some (mensaje_buffer a)) = Some (mode_name ?n @ [NUL])"
    using n(2,3) copy_16 [OF _ buf(1)] buf(2) by (auto simp: mode_name_def)
  have step: "siguiente_modo a = Some (a\<lparr>matrix_aux := (matrix_aux a)[1 := ?n]\<rparr>)"
    using v n(1) by (cases "2 < ?v") (simp_all add: siguiente_modo_def mem_simps set_aux_in)
  have "elegir_opcion a = Some (?a\<lparr>io := io'\<rparr>)"
  proof -
    have "elegir_opcion a = do {
        buf \<leftarrow> (if ?n = 1 then copy_message [0..<16] (cstr ''DELETREO        '') (mensaje_buffer a)
                else if ?n = 2 then copy_message [0..<16] (cstr ''CIRCULAR        '') (mensaje_buffer a)
                else if ?n = 3 then copy_message [0..<16] (cstr ''PING - PONG     '') (mensaje_buffer a)
                else Some (mensaje_buffer a));
        write_LCD buf 1 16 (a\<lparr>matrix_aux := (matrix_aux a)[1 := ?n], mensaje_buffer := buf, valor := ?n\<rparr>) }"
      using st step v(2) by (simp add: elegir_opcion_def mem_simps)
    then show ?thesis unfolding name using io'(1) by simp
  qed
  with io'(2) n show ?thesis by auto
qed

lemma confirmar_opcion_eq:
  assumes inv: "app_inv a" and st: "app_state a \<noteq> ACTIVO"
  shows "\<exists>io'. \<not> bit (outputs io') 15 \<and> confirmar_opcion a = Some (
    case app_state a of
      VELOCIDAD \<Rightarrow> a\<lparr>speed := valor a, matrix_aux := (matrix_aux a)[1 := 1], flag_cartel := False,
        io := io', app_state := INTENSIDAD\<rparr>
    | INTENSIDAD \<Rightarrow> a\<lparr>intensity := valor a, matrix_aux := (matrix_aux a)[1 := 0], flag_cartel := False,
        io := io', app_state := MODO\<rparr>
    | _ \<Rightarrow> a\<lparr>mode := valor a, matrix_aux := (matrix_aux a)[1 := 0],
        mensaje_buffer := replicate 16 (CHR 0x20) @ [NUL], flag_cartel := False, io := io',
        panel := Init_MAX7219 (word_of_nat (intensity a)) (panel a), app_state := ACTIVO\<rparr>)"
proof -
  have len: "length (matrix_aux a) = 16" "length (mensaje_buffer a) = 17" "lcd_idle a"
    using inv st by (simp_all add: app_inv_def choice_ok_def buffer_ok_def)
  have "drop 16 (mensaje_buffer a) = [NUL]"
    using inv Cons_nth_drop_Suc [of 16 "mensaje_buffer a"] by (simp add: app_defs)
  then have blank: "copy_message [0..<16] (replicate 16 (CHR 0x20)) (mensaje_buffer a) =
      Some (replicate 16 (CHR 0x20) @ [NUL])"
    using copy_16' [OF _ len(2)] by simp
  have two: "\<exists>io'. \<not> bit (outputs io') 15 \<and> write_LCD (cstr '' '') 1 1 b \<bind> g = Some (c io')"
    if b: "lcd_idle b" and g: "\<And>j. g (b\<lparr>io := j\<rparr>) = write_LCD (cstr (replicate 16 (CHR 0x20))) 1 16 (c j)"
      and c: "\<And>j. io (c j) = j" "\<And>j k. (c j)\<lparr>io := k\<rparr> = c k" for b c g
  proof -
    obtain j where j: "write_LCD (cstr '' '') 1 1 b = Some (b\<lparr>io := j\<rparr>)" "\<not> bit (outputs j) 15"
      by (rule writes [OF NUL_cstr b])
    have "lcd_idle (c j)" using j(2) c(1) by (simp add: lcd_idle_def)
    then obtain k where "write_LCD (cstr (replicate 16 (CHR 0x20))) 1 16 (c j) = Some ((c j)\<lparr>io := k\<rparr>)"
      "\<not> bit (outputs k) 15"
      by (rule writes [OF NUL_cstr])
    with j g c(2) show ?thesis by (intro exI [of _ k]) simp
  qed
  let ?g = "\<lambda>a. next_state (app_state a) \<bind>
    (\<lambda>s. write_LCD (cstr (replicate 16 (CHR 0x20))) 1 16 (a\<lparr>app_state := s\<rparr>))"
  have idle: "lcd_idle b" if "io b = io a" for b using len(3) that by (simp add: lcd_idle_def)
  show ?thesis
  proof (cases "app_state a")
    case VELOCIDAD
    let ?b = "a\<lparr>speed := valor a, matrix_aux := (matrix_aux a)[1 := 1], flag_cartel := False\<rparr>"
    have "\<exists>io'. \<not> bit (outputs io') 15 \<and> write_LCD (cstr '' '') 1 1 ?b \<bind> ?g =
        Some (?b\<lparr>io := io', app_state := INTENSIDAD\<rparr>)"
      by (rule two [where c = "\<lambda>j. ?b\<lparr>io := j, app_state := INTENSIDAD\<rparr>"]) (use VELOCIDAD idle in \<open>simp_all add: next_state_def\<close>)
    then show ?thesis using VELOCIDAD len(1) by (simp add: confirmar_opcion_def set_aux_in)
  next
    case INTENSIDAD
    let ?b = "a\<lparr>intensity := valor a, matrix_aux := (matrix_aux a)[1 := 0], flag_cartel := False\<rparr>"
    have "\<exists>io'. \<not> bit (outputs io') 15 \<and> write_LCD (cstr '' '') 1 1 ?b \<bind> ?g =
        Some (?b\<lparr>io := io', app_state := MODO\<rparr>)"
      by (rule two [where c = "\<lambda>j. ?b\<lparr>io := j, app_state := MODO\<rparr>"]) (use INTENSIDAD idle in \<open>simp_all add: next_state_def\<close>)
    then show ?thesis using INTENSIDAD len(1) by (simp add: confirmar_opcion_def set_aux_in)
  next
    case MODO
    let ?b = "a\<lparr>mode := valor a, matrix_aux := (matrix_aux a)[1 := 0],
      mensaje_buffer := replicate 16 (CHR 0x20) @ [NUL], flag_cartel := False\<rparr>"
    let ?p = "\<lambda>a. a\<lparr>panel := Init_MAX7219 (word_of_nat (intensity a)) (panel a)\<rparr>"
    have "\<exists>io'. \<not> bit (outputs io') 15 \<and> write_LCD (cstr '' '') 1 1 ?b \<bind> (\<lambda>a. ?g (?p a)) =
        Some (?b\<lparr>io := io', panel := Init_MAX7219 (word_of_nat (intensity a)) (panel a), app_state := ACTIVO\<rparr>)"
      by (rule two [where c = "\<lambda>j. ?b\<lparr>io := j, panel := Init_MAX7219 (word_of_nat (intensity a)) (panel a), app_state := ACTIVO\<rparr>"]) (use MODO idle in \<open>simp_all add: next_state_def\<close>)
    then show ?thesis using MODO len(1) blank by (simp add: confirmar_opcion_def set_aux_in)
  next
    case ACTIVO
    with st show ?thesis by simp
  qed
qed

lemma Init_status: "length (status p) = 64 \<Longrightarrow> length (status (Init_MAX7219 i p)) = 64"
  by (simp only: Init_MAX7219_def Let_def clearDisplay_regs sendByte_regs wipe_status) simp

lemma app_inv_conteo: "app_inv (a\<lparr>conteo_funcionalidad := n\<rparr>) = app_inv a"
  by (simp add: app_defs ed_defs cong: if_cong)

text \<open>The stage and the settings, and what \<open>ENTER\<close> makes of them.\<close>

definition chosen :: "app \<Rightarrow> State \<times> nat \<times> nat \<times> nat" where
  "chosen a = (app_state a, speed a, intensity a, mode a)"

definition confirmed :: "app \<Rightarrow> State \<times> nat \<times> nat \<times> nat" where
  "confirmed a = (case app_state a of
     VELOCIDAD \<Rightarrow> (INTENSIDAD, valor a, intensity a, mode a)
   | INTENSIDAD \<Rightarrow> (MODO, speed a, valor a, mode a)
   | MODO \<Rightarrow> (ACTIVO, speed a, intensity a, valor a)
   | ACTIVO \<Rightarrow> chosen a)"

lemma confirmar_opcion_inv:
  assumes inv: "app_inv a" and st: "app_state a \<noteq> ACTIVO" and f: "flag_inicializacion a"
  shows "\<exists>a'. confirmar_opcion a = Some a' \<and> app_inv a' \<and> chosen a' = confirmed a"
proof -
  obtain io' where io': "\<not> bit (outputs io') 15" "confirmar_opcion a = Some (
    case app_state a of
      VELOCIDAD \<Rightarrow> a\<lparr>speed := valor a, matrix_aux := (matrix_aux a)[1 := 1], flag_cartel := False,
        io := io', app_state := INTENSIDAD\<rparr>
    | INTENSIDAD \<Rightarrow> a\<lparr>intensity := valor a, matrix_aux := (matrix_aux a)[1 := 0], flag_cartel := False,
        io := io', app_state := MODO\<rparr>
    | _ \<Rightarrow> a\<lparr>mode := valor a, matrix_aux := (matrix_aux a)[1 := 0],
        mensaje_buffer := replicate 16 (CHR 0x20) @ [NUL], flag_cartel := False, io := io',
        panel := Init_MAX7219 (word_of_nat (intensity a)) (panel a), app_state := ACTIVO\<rparr>)"
    using confirmar_opcion_eq [OF inv st] by blast
  show ?thesis
  proof (cases "app_state a")
    case VELOCIDAD
    with inv f io' show ?thesis by (simp add: app_defs chosen_def confirmed_def)
  next
    case INTENSIDAD
    with inv f io' show ?thesis by (simp add: app_defs chosen_def confirmed_def)
  next
    case MODO
    let ?a = "a\<lparr>mode := valor a, matrix_aux := (matrix_aux a)[1 := 0],
        mensaje_buffer := replicate 16 (CHR 0x20) @ [NUL], flag_cartel := False, io := io',
        panel := Init_MAX7219 (word_of_nat (intensity a)) (panel a), app_state := ACTIVO\<rparr>"
    have c: "choice_ok a" using inv MODO by (simp add: app_inv_def)
    have "aux_ok ?a" using c by (auto simp: aux_ok_def choice_ok_def nth_list_update)
    moreover have "text_ok ?a" "buffer_ok ?a"
      using c by (auto simp: text_ok_def buffer_ok_def choice_ok_def nth_append typable_space)
    moreover have "message_ok ?a" using inv by (simp add: app_inv_def message_ok_def)
    moreover have "length (status (panel ?a)) = 64" using inv by (simp add: app_inv_def Init_status)
    ultimately have "app_inv ?a"
      using inv c io'(1) by (auto simp: app_inv_def ed_inv_def lcd_idle_def choice_ok_def)
    with io'(2) MODO show ?thesis by (simp add: chosen_def confirmed_def)
  next
    case ACTIVO
    with st show ?thesis by simp
  qed
qed

lemma inicializar_inv:
  assumes inv: "app_inv a" and st: "app_state a \<noteq> ACTIVO"
  shows "\<exists>a'. inicializar_sistema a = Some a' \<and> app_inv a' \<and>
    (chosen a' = chosen a \<or> boton_seleccionado a = ENTER \<and> chosen a' = confirmed a)"
proof -
  let ?n = "(conteo_funcionalidad a + 1) mod 256"
  let ?a1 = "a\<lparr>conteo_funcionalidad := ?n\<rparr>"
  let ?a2 = "if flag_inicializacion a then ?a1
    else ?a1\<lparr>matrix_aux := (matrix_aux a)[1 := 1], flag_inicializacion := True\<rparr>"
  have len: "length (matrix_aux a) = 16" using inv st by (simp add: app_inv_def choice_ok_def)
  have a2: "(if \<not> flag_inicializacion ?a1
      then do { a \<leftarrow> set_aux 1 1 ?a1; Some (a\<lparr>flag_inicializacion := True\<rparr>) } else Some ?a1) = Some ?a2"
    using len by (simp add: set_aux_in)
  have inv2: "app_inv ?a2" "app_state ?a2 = app_state a" "flag_inicializacion ?a2"
    using inv st len by (auto simp: app_inv_def lcd_idle_def message_ok_def buffer_ok_def choice_ok_def)
  let ?a3 = "?a2\<lparr>conteo_funcionalidad := 0\<rparr>"
  have inv3: "app_inv ?a3" "app_state ?a3 = app_state a" "flag_inicializacion ?a3" "app_state ?a3 \<noteq> ACTIVO"
    "boton_seleccionado ?a3 = boton_seleccionado a" "chosen ?a3 = chosen a" "valor ?a3 = valor a"
    using inv2 st by (simp_all only: app_inv_conteo) (simp_all add: chosen_def)
  have "\<exists>a4. (if boton_seleccionado ?a3 = SHIFT then elegir_opcion ?a3 else Some ?a3) = Some a4 \<and> app_inv a4 \<and>
      app_state a4 = app_state a \<and> boton_seleccionado a4 = boton_seleccionado a \<and> flag_inicializacion a4 \<and>
      chosen a4 = chosen a \<and> (boton_seleccionado a = ENTER \<longrightarrow> valor a4 = valor a)"
  proof (cases "boton_seleccionado ?a3 = SHIFT")
    case True
    show ?thesis
    proof (cases "app_state a = MODO")
      case modo: True
      with inv3(2) elegir_modo [OF inv3(1)] obtain io' where e: "elegir_opcion ?a3 =
          Some (?a3\<lparr>matrix_aux := (matrix_aux ?a3)[1 := next_option ?a3],
            mensaje_buffer := mode_name (next_option ?a3) @ [NUL], valor := next_option ?a3, io := io'\<rparr>)"
        "\<not> bit (outputs io') 15" "1 \<le> next_option ?a3" "next_option ?a3 \<le> 3" by auto
      have "length (mode_name n) = 16" for n by (simp add: mode_name_def)
      then have "app_inv (?a3\<lparr>matrix_aux := (matrix_aux ?a3)[1 := next_option ?a3],
            mensaje_buffer := mode_name (next_option ?a3) @ [NUL], valor := next_option ?a3, io := io'\<rparr>)"
        using inv3 modo e(2-4) by (auto simp: app_inv_def lcd_idle_def message_ok_def buffer_ok_def choice_ok_def nth_append)
      with e(1) True inv3(2,3,5,6) show ?thesis by (auto simp: chosen_def button_defs)
    next
      case num: False
      with inv3(2) elegir_numero [OF inv3(1,4) _ inv3(3)] obtain io' where e: "elegir_opcion ?a3 =
          Some (?a3\<lparr>valor := next_option ?a3, matrix_aux := (matrix_aux ?a3)[1 := next_option ?a3 + 1],
            mensaje_buffer := (mensaje_buffer ?a3)[0 := digit (next_option ?a3)], io := io'\<rparr>)"
        "\<not> bit (outputs io') 15" "1 \<le> next_option ?a3" "next_option ?a3 \<le> 5" by auto
      have "app_inv (?a3\<lparr>valor := next_option ?a3, matrix_aux := (matrix_aux ?a3)[1 := next_option ?a3 + 1],
            mensaje_buffer := (mensaje_buffer ?a3)[0 := digit (next_option ?a3)], io := io'\<rparr>)"
        using inv3 num e(2-4) typable_digit [OF e(4)]
        by (auto simp: app_inv_def lcd_idle_def message_ok_def buffer_ok_def choice_ok_def nth_list_update)
      with e(1) True inv3(2,3,5,6) show ?thesis by (auto simp: chosen_def button_defs)
    qed
  next
    case False
    with inv3 show ?thesis by auto
  qed
  then obtain a4 where a4: "(if boton_seleccionado ?a3 = SHIFT then elegir_opcion ?a3 else Some ?a3) = Some a4"
    "app_inv a4" "app_state a4 = app_state a" "boton_seleccionado a4 = boton_seleccionado a" "flag_inicializacion a4"
    "chosen a4 = chosen a" "boton_seleccionado a = ENTER \<longrightarrow> valor a4 = valor a" by blast
  have "\<exists>a5. (if boton_seleccionado a4 = ENTER then confirmar_opcion a4 else Some a4) = Some a5 \<and> app_inv a5 \<and>
      (chosen a5 = chosen a \<or> boton_seleccionado a = ENTER \<and> chosen a5 = confirmed a)"
  proof (cases "boton_seleccionado a4 = ENTER")
    case True
    then have "confirmed a4 = confirmed a"
      using a4(3,4,6,7) by (simp add: confirmed_def chosen_def split: State.split)
    with True show ?thesis using confirmar_opcion_inv [OF a4(2)] st a4(3-5) by auto
  next
    case False
    with a4(2,6) show ?thesis by simp
  qed
  then obtain a5 where "(if boton_seleccionado a4 = ENTER then confirmar_opcion a4 else Some a4) = Some a5" "app_inv a5"
    "chosen a5 = chosen a \<or> boton_seleccionado a = ENTER \<and> chosen a5 = confirmed a" by blast
  moreover have "app_inv (a5\<lparr>boton_seleccionado := EMPTY\<rparr>)"
    using calculation(2) by (auto simp: app_defs ed_defs split: if_splits)
  moreover have run: "inicializar_sistema a = (if conteo_funcionalidad ?a2 = 3 then
      (if boton_seleccionado ?a3 = SHIFT then elegir_opcion ?a3 else Some ?a3) \<bind>
      (\<lambda>a. (if boton_seleccionado a = ENTER then confirmar_opcion a else Some a) \<bind>
      (\<lambda>a. Some (a\<lparr>boton_seleccionado := EMPTY\<rparr>))) else Some ?a2)"
    by (simp only: inicializar_sistema_def Let_def a2 bind.bind_lunit)
  ultimately show ?thesis
    using inv2(1) inv3(6) unfolding run a4(1)
    by (cases "conteo_funcionalidad ?a2 = 3") (simp_all add: chosen_def)
qed

lemma app_inv_cartel: "app_inv (a\<lparr>flag_cartel := b\<rparr>) = app_inv a"
  by (simp add: app_defs ed_defs cong: if_cong)

lemma cartel_inv: "app_inv a \<Longrightarrow> \<exists>a'. cartel s n a = Some a' \<and> app_inv a' \<and> (\<exists>j c. a' = a\<lparr>io := j, flag_cartel := c\<rparr>)"
proof -
  assume inv: "app_inv a"
  then have "lcd_idle a" by (simp add: app_inv_def)
  then obtain j where j: "write_LCD (cstr s) 0 n a = Some (a\<lparr>io := j\<rparr>)" "\<not> bit (outputs j) 15"
    by (rule writes [OF NUL_cstr])
  have inv': "app_inv (a\<lparr>io := j, flag_cartel := True\<rparr>)"
    using app_inv_io [OF inv j(2)] by (simp only: app_inv_cartel)
  show ?thesis
  proof (cases "flag_cartel a")
    case True
    then have "a = a\<lparr>io := io a, flag_cartel := True\<rparr>" by simp
    moreover have "cartel s n a = Some a" using True by (simp add: cartel_def)
    ultimately show ?thesis using inv by metis
  next
    case False
    then have "cartel s n a = Some (a\<lparr>io := j, flag_cartel := True\<rparr>)" using j(1) by (simp add: cartel_def)
    with inv' show ?thesis by blast
  qed
qed

lemma app_inv_sel:
  "sel_frame a x \<Longrightarrow> app_inv a \<Longrightarrow> \<not> bit (outputs (io x)) 15 \<Longrightarrow> app_inv x"
proof -
  assume f: "sel_frame a x" and inv: "app_inv a" and idle: "\<not> bit (outputs (io x)) 15"
  have "app_inv (a\<lparr>io := io x, boton_seleccionado := boton_seleccionado x\<rparr>)"
    using inv idle by (auto simp: app_defs ed_defs split: if_splits)
  with f show ?thesis by (simp add: sel_frame_def)
qed

lemma scan_idle: "\<not> bit (outputs (io a)) 15 \<Longrightarrow> \<not> bit (outputs (io (obtener_boton inp a))) 15"
  by (simp add: obtener_boton_def Let_def port_write_def row_lines bit_set_bit_iff bit_unset_bit_iff)

text \<open>The one press the code does not survive.\<close>

definition enter_overruns :: "(nat \<Rightarrow> uint8) \<Rightarrow> app \<Rightarrow> bool" where
  "enter_overruns inp a \<longleftrightarrow> app_state a = ACTIVO \<and> (conteo_funcionalidad a + 1) mod 256 = 3 \<and>
     boton_seleccionado (obtener_boton inp a) = ENTER \<and> \<not> flag_escribiendo a \<and> (16 \<le> boton_actual a \<or> cursor a = 16)"

lemma obtener_funcionalidad_inv:
  assumes "ed_inv a" and "\<not> ((conteo_funcionalidad a + 1) mod 256 = 3 \<and> boton_seleccionado a = ENTER \<and>
    \<not> flag_escribiendo a \<and> (16 \<le> boton_actual a \<or> cursor a = 16))"
  shows "\<exists>a'. obtener_funcionalidad a = Some a' \<and> ed_inv a' \<and> same_app a a'"
  using obtener_funcionalidad_step [OF assms(1)] assms(2) by (simp only: if_False)

lemma sel_frame_same:
  assumes "sel_frame a x"
  shows "app_state x = app_state a" "speed x = speed a" "intensity x = intensity a" "mode x = mode a"
    "valor x = valor a" "conteo_funcionalidad x = conteo_funcionalidad a" "flag_escribiendo x = flag_escribiendo a"
    "boton_actual x = boton_actual a" "cursor x = cursor a"
proof -
  obtain u v where "x = a\<lparr>io := u, boton_seleccionado := v\<rparr>"
    using assms unfolding sel_frame_def by blast
  then show "app_state x = app_state a" "speed x = speed a" "intensity x = intensity a" "mode x = mode a"
    "valor x = valor a" "conteo_funcionalidad x = conteo_funcionalidad a" "flag_escribiendo x = flag_escribiendo a"
    "boton_actual x = boton_actual a" "cursor x = cursor a" by simp_all
qed

lemma chosen_frames:
  "sel_frame a x \<Longrightarrow> chosen x = chosen a" "sel_frame a x \<Longrightarrow> confirmed x = confirmed a"
  "same_app a a' \<Longrightarrow> chosen a' = chosen a"
  by (simp_all add: sel_frame_same chosen_def confirmed_def same_app_def cong: State.case_cong)

lemma chosen_title [simp]:
  "chosen (a\<lparr>io := j, flag_cartel := c\<rparr>) = chosen a" "confirmed (a\<lparr>io := j, flag_cartel := c\<rparr>) = confirmed a"
  by (simp_all add: chosen_def confirmed_def cong: State.case_cong)

text \<open>One stage of the choice: the title once, the buttons of the board, then the options.\<close>

lemma eleccion_inv:
  assumes inv: "app_inv a" and st: "app_state a \<noteq> ACTIVO"
  shows "\<exists>a'. cartel s n a \<bind> (\<lambda>a. inicializar_sistema (botonera_CIAA v a)) = Some a' \<and> app_inv a' \<and>
    (chosen a' = chosen a \<or> boton_seleccionado (botonera_CIAA v a) = ENTER \<and> chosen a' = confirmed a)"
proof -
  obtain a1 j c where a1: "cartel s n a = Some a1" "app_inv a1" "a1 = a\<lparr>io := j, flag_cartel := c\<rparr>"
    using cartel_inv [OF inv] by blast
  let ?a2 = "botonera_CIAA v a1"
  have f: "sel_frame a1 ?a2" by (rule sel_frame_scan)
  have io: "io ?a2 = io a1" by (simp add: botonera_CIAA_def)
  have "app_state a1 \<noteq> ACTIVO" using a1(3) st by simp
  have "\<not> bit (outputs (io ?a2)) 15" using a1(2) io by (simp add: app_inv_def lcd_idle_def)
  with f a1(2) have i2: "app_inv ?a2" by (rule app_inv_sel)
  have s2: "app_state ?a2 \<noteq> ACTIVO" using \<open>app_state a1 \<noteq> ACTIVO\<close> by (simp add: sel_frame_same [OF f])
  have "boton_seleccionado ?a2 = boton_seleccionado (botonera_CIAA v a)"
    using a1(3) by (simp add: botonera_CIAA_def)
  moreover have "chosen ?a2 = chosen a" "confirmed ?a2 = confirmed a"
    unfolding chosen_frames(1,2) [OF f] using a1(3) by simp_all
  ultimately show ?thesis using inicializar_inv [OF i2 s2] a1(1) by simp
qed

lemma escritura_inv:
  assumes inv: "app_inv a" and st: "app_state a = ACTIVO"
  shows "if enter_overruns inp a
    then cartel s n a \<bind> (\<lambda>a. obtener_funcionalidad (obtener_boton inp a)) = None
    else \<exists>a'. cartel s n a \<bind> (\<lambda>a. obtener_funcionalidad (obtener_boton inp a)) = Some a' \<and> app_inv a' \<and>
      chosen a' = chosen a"
proof -
  obtain a1 j c where a1: "cartel s n a = Some a1" "app_inv a1" "a1 = a\<lparr>io := j, flag_cartel := c\<rparr>"
    using cartel_inv [OF inv] by blast
  let ?a2 = "obtener_boton inp a1"
  have f: "sel_frame a1 ?a2" by (rule obtener_boton_frame)
  have i2: "app_inv ?a2" using app_inv_sel [OF f a1(2) scan_idle] a1(2) by (simp add: app_inv_def lcd_idle_def)
  have ch: "chosen ?a2 = chosen a" unfolding chosen_frames(1) [OF f] using a1(3) by simp
  have same: "conteo_funcionalidad ?a2 = conteo_funcionalidad a" "flag_escribiendo ?a2 = flag_escribiendo a"
    "boton_actual ?a2 = boton_actual a" "cursor ?a2 = cursor a" "app_state ?a2 = ACTIVO"
    unfolding sel_frame_same [OF f] using st a1(3) by simp_all
  have e2: "ed_inv ?a2" using i2 same(5) by (simp add: app_inv_def)
  have sel: "boton_seleccionado ?a2 = boton_seleccionado (obtener_boton inp a)"
    using a1(3) by (simp add: obtener_boton_def scan_row_sel botonera_sel Let_def)
  have run: "cartel s n a \<bind> (\<lambda>a. obtener_funcionalidad (obtener_boton inp a)) = obtener_funcionalidad ?a2"
    using a1(1) by simp
  have step: "if enter_overruns inp a then obtener_funcionalidad ?a2 = None
      else \<exists>a'. obtener_funcionalidad ?a2 = Some a' \<and> ed_inv a' \<and> same_app ?a2 a'"
    using obtener_funcionalidad_step [OF e2] st unfolding enter_overruns_def same(1-4) sel by simp
  show ?thesis
  proof (cases "enter_overruns inp a")
    case True
    with step show ?thesis unfolding run by simp
  next
    case False
    with step obtain a' where a': "obtener_funcionalidad ?a2 = Some a'" "ed_inv a'" "same_app ?a2 a'" by auto
    have "chosen a' = chosen a" using chosen_frames(3) [OF a'(3)] ch by simp
    moreover have "app_inv a'"
      using i2 a'(2,3) same(5) by (simp add: app_inv_def same_app_def ed_inv_def buffer_ok_def text_ok_def)
    ultimately show ?thesis using False a'(1) unfolding run by auto
  qed
qed

lemma maquina_estados_inv:
  assumes inv: "app_inv a"
  shows "if enter_overruns inp a then maquina_estados inp a = None
    else \<exists>a'. maquina_estados inp a = Some a' \<and> app_inv a' \<and> (chosen a' = chosen a \<or>
      app_state a \<noteq> ACTIVO \<and> boton_seleccionado (botonera_CIAA (inp 0) a) = ENTER \<and> chosen a' = confirmed a)"
proof (cases "app_state a = ACTIVO")
  case True
  with escritura_inv [OF inv, of inp] show ?thesis by (auto simp: maquina_estados_def split: if_splits)
next
  case False
  then have "\<not> enter_overruns inp a" by (simp add: enter_overruns_def)
  with False eleccion_inv [OF inv False, of _ _ "inp 0"] show ?thesis
    by (cases "app_state a") (simp_all add: maquina_estados_def)
qed

section \<open>Every state the application reaches\<close>

lemma drawable_typable: "typable c \<Longrightarrow> drawable [c]"
proof -
  have "list_all (\<lambda>c. c \<noteq> NUL \<and> c \<in> set (map fst font)) (concat charmap)" by code_simp
  moreover assume "typable c"
  ultimately show ?thesis unfolding drawable_code typable_def by (auto simp: list_all_iff)
qed

lemma message_text:
  assumes "message_ok a"
  obtains cs rest where "mensaje_actual a = cs @ NUL # rest" "drawable cs" "length cs \<le> 16"
proof -
  obtain n where n: "n < 17" "mensaje_actual a ! n = NUL" "\<forall>i<n. typable (mensaje_actual a ! i)" "length (mensaje_actual a) = 17"
    using assms by (auto simp: message_ok_def)
  have "mensaje_actual a = take n (mensaje_actual a) @ NUL # drop (Suc n) (mensaje_actual a)"
    using n(1,2,4) id_take_nth_drop [of n "mensaje_actual a"] by simp
  moreover have "drawable (take n (mensaje_actual a))"
    using n drawable_typable by (fastforce simp: drawable_def in_set_conv_nth)
  ultimately show thesis using that n(1) by fastforce
qed

lemma InitTask_inv: "app_inv (InitTask app_reset)"
proof -
  have "\<not> bit (outputs (LCD_init 8 7 \<lparr>outputs = 0, lcd_mode = 0, wire = []\<rparr>)) 15"
    using LCD_init_sends [of "\<lparr>outputs = 0, lcd_mode = 0, wire = []\<rparr>"] by simp
  moreover have "cstr (replicate 16 (CHR 0x20)) ! i = (if i = 16 then NUL else CHR 0x20)" if "i < 17" for i
    using that by (simp add: cstr_def nth_append)
  ultimately show ?thesis
    by (auto simp: app_defs InitTask_def app_reset_def cstr_def typable_space nth_append)
qed

lemma SwitchesTask_inv:
  assumes inv: "app_inv a"
  shows "\<exists>p. SwitchesTask_round a = Some (a\<lparr>panel := p\<rparr>) \<and> app_inv (a\<lparr>panel := p\<rparr>)"
proof -
  have "message_ok a" "length (status (panel a)) = 64" using inv by (simp_all add: app_inv_def)
  then obtain cs rest where cs: "mensaje_actual a = cs @ NUL # rest" "drawable cs" using message_text by metis
  have "panel_ok regs_zero (panel a)" using \<open>length (status (panel a)) = 64\<close> by (simp add: panel_ok_def)
  from msjScroll_shows [OF this cs(2)] obtain p where
    p: "msjScroll (word_of_nat (speed a)) (word_of_nat (mode a)) (mensaje_actual a) (panel a) = Some p"
       "panel_ok regs_zero p" unfolding cs(1) by blast
  have "app_inv (a\<lparr>panel := p\<rparr>)"
    using inv p(2) by (auto simp: panel_ok_def app_defs ed_defs split: if_splits)
  with p(1) show ?thesis by (intro exI [of _ p]) (simp add: SwitchesTask_round_def)
qed

lemma app_reach_inv: "app_reach a \<Longrightarrow> app_inv a"
proof (induction rule: app_reach.induct)
  case start
  show ?case by (rule InitTask_inv)
next
  case (step a a')
  from step.hyps(2) show ?case
  proof (cases rule: app_step.cases)
    case (periodic inp)
    with maquina_estados_inv [OF step.IH, of inp] show ?thesis by (auto split: if_splits)
  next
    case round
    with SwitchesTask_inv [OF step.IH] show ?thesis by auto
  qed
qed

section \<open>The properties of the application\<close>

text \<open>C3: in every state the application reaches, whatever the buttons do, the settings stay in range (the
  intensity register of the panel's driver is at most 15), the cursor is within the line, and the message
  is a terminated text of at most 16 characters that the panel's font has, so that a round of the panel's
  task always completes.\<close>

theorem app_reach_safe:
  assumes "app_reach a"
  shows "speed a \<le> 5 \<and> mode a \<le> 5 \<and> intensity a * 3 \<le> 15 \<and> cursor a \<le> 16 \<and>
    length (mensaje_buffer a) = 17 \<and> length (matrix_aux a) = 16 \<and> \<not> bit (outputs (io a)) 15 \<and>
    (\<exists>cs rest. mensaje_actual a = cs @ NUL # rest \<and> drawable cs \<and> length cs \<le> 16) \<and>
    (\<exists>p. SwitchesTask_round a = Some (a\<lparr>panel := p\<rparr>))"
proof -
  have inv: "app_inv a" by (rule app_reach_inv [OF assms])
  have "cursor a \<le> 16" "length (mensaje_buffer a) = 17" "length (matrix_aux a) = 16"
    using inv by (auto simp: app_defs ed_defs split: if_splits)
  moreover have "\<exists>cs rest. mensaje_actual a = cs @ NUL # rest \<and> drawable cs \<and> length cs \<le> 16"
    using inv message_text [of a] unfolding app_inv_def by metis
  ultimately show ?thesis using inv SwitchesTask_inv [OF inv] by (auto simp: app_inv_def lcd_idle_def)
qed

theorem app_reach_safe_witness:
  "\<exists>p. SwitchesTask_round (InitTask app_reset) = Some ((InitTask app_reset)\<lparr>panel := p\<rparr>)"
  using app_reach_safe [OF app_reach.start] by blast

text \<open>C0: the periodic task completes in every reachable state, except for one press, which it does not
  survive: \<open>ENTER\<close> while a message is being written, with no key selected or with the line full, writes
  outside an array.\<close>

theorem maquina_estados_completes:
  assumes "app_reach a"
  shows "maquina_estados inp a = None \<longleftrightarrow> enter_overruns inp a"
  using maquina_estados_inv [OF app_reach_inv [OF assms], of inp] by (auto split: if_splits)

theorem maquina_estados_completes_witness:
  "maquina_estados (\<lambda>_. 0) (InitTask app_reset) \<noteq> None"
proof -
  have "\<not> enter_overruns (\<lambda>_. 0) (InitTask app_reset)"
    by (simp add: enter_overruns_def InitTask_def app_reset_def)
  with maquina_estados_completes [OF app_reach.start] show ?thesis by blast
qed

text \<open>C0: the stages follow one another and each setting is taken once: a step of the periodic task keeps the
  stage and the settings, or \<open>ENTER\<close> is pressed, the current option becomes the setting of the stage and
  the next stage starts; in \<open>ACTIVO\<close> nothing changes any more.\<close>

theorem maquina_estados_stages:
  assumes "app_reach a" and "maquina_estados inp a = Some a'"
  shows "chosen a' = chosen a \<or>
    app_state a \<noteq> ACTIVO \<and> boton_seleccionado (botonera_CIAA (inp 0) a) = ENTER \<and> chosen a' = confirmed a"
  using maquina_estados_inv [OF app_reach_inv [OF assms(1)], of inp] assms(2) by (auto split: if_splits)

theorem maquina_estados_stages_witness:
  "\<exists>a'. maquina_estados (\<lambda>_. - 1) (InitTask app_reset) = Some a' \<and> chosen a' = (VELOCIDAD, 0, 0, 0)"
proof -
  have n: "\<not> enter_overruns (\<lambda>_. - 1) (InitTask app_reset)" "chosen (InitTask app_reset) = (VELOCIDAD, 0, 0, 0)"
    by (simp_all add: enter_overruns_def InitTask_def app_reset_def chosen_def)
  with maquina_estados_inv [OF InitTask_inv, of "\<lambda>_. - 1"] obtain a' where
    a': "maquina_estados (\<lambda>_. - 1) (InitTask app_reset) = Some a'" by auto
  have "boton_seleccionado (botonera_CIAA (- 1) (InitTask app_reset)) = 0"
    by (simp add: botonera_CIAA_def InitTask_def app_reset_def Let_def)
  with maquina_estados_stages [OF app_reach.start a'] n(2) a' show ?thesis by (auto simp: button_defs)
qed

text \<open>\<open>SHIFT\<close> steps through the options of a stage in a circle, 1 to 5 for the speed and the intensity and
  1 to 3 for the mode, and the display's buffer names the option that \<open>ENTER\<close> would take: its digit, or
  the name of the mode.\<close>

lemma elegir_opcion_correct:
  assumes "app_reach a" and "app_state a \<noteq> ACTIVO" and "flag_inicializacion a"
  shows "\<exists>a'. elegir_opcion a = Some a' \<and> valor a' = next_option a \<and> chosen a' = chosen a \<and>
    (if app_state a = MODO
     then valor a' = (if matrix_aux a ! 1 = 3 then 1 else matrix_aux a ! 1 + 1) \<and> matrix_aux a' ! 1 = valor a' \<and>
       valor a' \<le> 3 \<and> mensaje_buffer a' = mode_name (valor a') @ [NUL]
     else valor a' = (if matrix_aux a ! 1 = 1 \<or> valor a = 5 then 1 else valor a + 1) \<and>
       matrix_aux a' ! 1 = valor a' + 1 \<and> valor a' \<le> 5 \<and> mensaje_buffer a' ! 0 = digit (valor a'))"
proof -
  have inv: "app_inv a" by (rule app_reach_inv [OF assms(1)])
  then have len: "length (matrix_aux a) = 16" "length (mensaje_buffer a) = 17"
    using assms(2) by (simp_all add: app_inv_def choice_ok_def buffer_ok_def)
  show ?thesis
  proof (cases "app_state a = MODO")
    case True
    with elegir_modo [OF inv] len show ?thesis by (auto simp: chosen_def next_option_def)
  next
    case False
    with elegir_numero [OF inv assms(2) False assms(3)] len show ?thesis by (auto simp: chosen_def next_option_def)
  qed
qed

text \<open>A first period with no button down.\<close>

lemma first_period:
  "\<exists>a. app_reach a \<and> app_state a = VELOCIDAD \<and> flag_inicializacion a \<and> matrix_aux a ! 1 = 1"
proof -
  let ?a = "InitTask app_reset"
  have "lcd_idle ?a" using InitTask_inv by (simp add: app_inv_def)
  then obtain j where j: "write_LCD (cstr ''Selec Velocidad '') 0 15 ?a = Some (?a\<lparr>io := j\<rparr>)"
    by (rule writes [OF NUL_cstr])
  let ?b = "?a\<lparr>io := j, flag_cartel := True, conteo_funcionalidad := 1, matrix_aux := (replicate 16 0)[1 := 1],
    flag_inicializacion := True\<rparr>"
  have "cartel ''Selec Velocidad '' 15 ?a = Some (?a\<lparr>io := j, flag_cartel := True\<rparr>)"
    using j by (simp add: cartel_def InitTask_def app_reset_def)
  moreover have "botonera_CIAA (- 1) (?a\<lparr>io := j, flag_cartel := True\<rparr>) = ?a\<lparr>io := j, flag_cartel := True\<rparr>"
    by (simp add: botonera_CIAA_def Let_def)
  moreover have "inicializar_sistema (?a\<lparr>io := j, flag_cartel := True\<rparr>) = Some ?b"
    by (simp add: inicializar_sistema_def InitTask_def app_reset_def set_aux_in)
  ultimately have "maquina_estados (\<lambda>_. - 1) ?a = Some ?b"
    by (simp add: maquina_estados_def InitTask_def app_reset_def)
  then have "app_reach ?b" by (rule app_reach.step [OF app_reach.start app_step.periodic])
  then show ?thesis by (intro exI [of _ ?b]) (simp add: InitTask_def app_reset_def)
qed

end
