(* ===== verification/PosixHeap.thy ===== *)
theory PosixHeap
  imports CIAA_Prelude
begin

text \<open>
  The heap of \<^verbatim>\<open>modules/posix/src/ciaaPOSIX_stdlib.c\<close>: first-fit allocation in an array of 10000 bytes, with a
  header in front of every chunk and the chunks in a linked list.

  The store maps the offset of a header in the array to the header; \<open>next\<close> is an offset, \<open>None\<close> the null
  pointer. A header that is not in the store cannot be read, which is \<open>None\<close>; a walk along the list that does
  not end is \<open>None\<close> too. The semaphore around the two functions does nothing in the source. A header has 12
  bytes on the 32-bit ports.
\<close>

section \<open>The store\<close>

record chunk_header =
  next_chunk :: "nat option"
  size_of :: nat
  is_available :: bool

type_synonym heap = "nat \<rightharpoonup> chunk_header"

definition CIAA_HEAP_MEM_SIZE :: nat where "CIAA_HEAP_MEM_SIZE = 10000"
definition HEADER :: nat where "HEADER = 12"

definition stdlib_init :: "heap \<Rightarrow> heap" where
  "stdlib_init h = h(0 \<mapsto> \<lparr>next_chunk = None, size_of = CIAA_HEAP_MEM_SIZE - HEADER, is_available = True\<rparr>)"

definition chunk_partition :: "nat \<Rightarrow> nat \<Rightarrow> heap \<Rightarrow> heap option" where
  "chunk_partition a sz h = do {
     c \<leftarrow> h a;
     let (c, h) =
       (if (sz + HEADER) mod 2 ^ 32 < size_of c
        then (c\<lparr>next_chunk := Some (a + sz + HEADER), size_of := sz\<rparr>,
              h(a + sz + HEADER \<mapsto> \<lparr>next_chunk = next_chunk c, size_of = size_of c - sz - HEADER, is_available = True\<rparr>))
        else (c, h));
     Some (h(a \<mapsto> c\<lparr>is_available := False\<rparr>)) }"

text \<open>The loop of \<open>ciaaPOSIX_malloc\<close>; the result is the offset of the block, or the null pointer.\<close>

partial_function (option) malloc_from :: "nat option \<Rightarrow> nat \<Rightarrow> heap \<Rightarrow> (nat option \<times> heap) option" where
  "malloc_from p sz h =
     (case p of
        None \<Rightarrow> Some (None, h)
      | Some a \<Rightarrow> do {
          c \<leftarrow> h a;
          if is_available c \<and> sz \<le> size_of c
          then do { h \<leftarrow> chunk_partition a sz h; Some (Some (a + HEADER), h) }
          else malloc_from (next_chunk c) sz h })"

definition ciaaPOSIX_malloc :: "nat \<Rightarrow> heap \<Rightarrow> (nat option \<times> heap) option" where
  "ciaaPOSIX_malloc sz h = malloc_from (Some 0) sz h"

text \<open>The first loop of \<open>ciaaPOSIX_free\<close> looks for the chunk; an offset below the first block is no chunk's.\<close>

partial_function (option) mark_free :: "nat option \<Rightarrow> int \<Rightarrow> heap \<Rightarrow> heap option" where
  "mark_free p target h =
     (case p of
        None \<Rightarrow> Some h
      | Some a \<Rightarrow> do {
          c \<leftarrow> h a;
          if int a = target then Some (h(a \<mapsto> c\<lparr>is_available := True\<rparr>))
          else mark_free (next_chunk c) target h })"

text \<open>The two loops of the defragmentation.\<close>

partial_function (option) absorb :: "nat \<Rightarrow> heap \<Rightarrow> heap option" where
  "absorb a h = do {
     c \<leftarrow> h a;
     case next_chunk c of
       None \<Rightarrow> Some h
     | Some b \<Rightarrow> do {
         d \<leftarrow> h b;
         if is_available d
         then absorb a (h(a \<mapsto> c\<lparr>size_of := (size_of c + size_of d + HEADER) mod 2 ^ 32, next_chunk := next_chunk d\<rparr>))
         else Some h } }"

partial_function (option) defragment :: "nat option \<Rightarrow> heap \<Rightarrow> heap option" where
  "defragment p h =
     (case p of
        None \<Rightarrow> Some h
      | Some a \<Rightarrow> do {
          c \<leftarrow> h a;
          h \<leftarrow> (if is_available c then absorb a h else Some h);
          c \<leftarrow> h a;
          defragment (next_chunk c) h })"

definition ciaaPOSIX_free :: "nat \<Rightarrow> heap \<Rightarrow> heap option" where
  "ciaaPOSIX_free ptr h = do {
     h \<leftarrow> mark_free (Some 0) (int ptr - int HEADER) h;
     defragment (Some 0) h }"

section \<open>The list of the chunks\<close>

text \<open>A chunk of the list: its offset, its size and whether it is free.\<close>

type_synonym chunk = "nat \<times> nat \<times> bool"

fun chain :: "heap \<Rightarrow> nat option \<Rightarrow> chunk list \<Rightarrow> bool" where
  "chain h p [] \<longleftrightarrow> p = None"
| "chain h p ((a, n, f) # cs) \<longleftrightarrow>
     p = Some a \<and> (\<exists>q. h a = Some \<lparr>next_chunk = q, size_of = n, is_available = f\<rparr> \<and> chain h q cs)"

text \<open>The chunks tile the array from \<open>lo\<close> to its end.\<close>

fun tiles :: "nat \<Rightarrow> chunk list \<Rightarrow> bool" where
  "tiles lo [] \<longleftrightarrow> lo = CIAA_HEAP_MEM_SIZE"
| "tiles lo ((a, n, f) # cs) \<longleftrightarrow> a = lo \<and> tiles (lo + HEADER + n) cs"

definition heap_ok :: "heap \<Rightarrow> chunk list \<Rightarrow> bool" where
  "heap_ok h cs \<longleftrightarrow> chain h (Some 0) cs \<and> tiles 0 cs"

text \<open>The blocks that are in use: offset of the block and size.\<close>

definition blocks :: "chunk list \<Rightarrow> (nat \<times> nat) set" where
  "blocks cs = {(a + HEADER, n) | a n. (a, n, False) \<in> set cs}"

text \<open>What the operations do to the list.\<close>

definition split_chunk :: "nat \<Rightarrow> nat \<Rightarrow> nat \<Rightarrow> chunk list" where
  "split_chunk sz a n =
     (if sz + HEADER < n then [(a, sz, False), (a + sz + HEADER, n - sz - HEADER, True)] else [(a, n, False)])"

fun first_fit :: "nat \<Rightarrow> chunk list \<Rightarrow> (nat \<times> chunk list) option" where
  "first_fit sz [] = None"
| "first_fit sz ((a, n, f) # cs) =
     (if f \<and> sz \<le> n then Some (a + HEADER, split_chunk sz a n @ cs)
      else map_option (\<lambda>(r, cs). (r, (a, n, f) # cs)) (first_fit sz cs))"

fun mark :: "int \<Rightarrow> chunk list \<Rightarrow> chunk list" where
  "mark t [] = []"
| "mark t ((a, n, f) # cs) = (if int a = t then (a, n, True) # cs else (a, n, f) # mark t cs)"

text \<open>A free chunk takes in the free chunks that follow it.\<close>

fun swallow :: "nat \<Rightarrow> chunk list \<Rightarrow> nat \<times> chunk list" where
  "swallow n ((b, m, True) # cs) = swallow (n + m + HEADER) cs"
| "swallow n cs = (n, cs)"

lemma swallow_length: "length (snd (swallow n cs)) \<le> length cs"
  by (induction n cs rule: swallow.induct) auto

function merge :: "chunk list \<Rightarrow> chunk list" where
  "merge [] = []"
| "merge ((a, n, False) # cs) = (a, n, False) # merge cs"
| "merge ((a, n, True) # cs) = (a, fst (swallow n cs), True) # merge (snd (swallow n cs))"
  by pat_completeness auto
termination
  by (relation "measure length") (auto simp: swallow_length le_imp_less_Suc)

section \<open>The store follows the list\<close>

lemma tiles_bounds: "tiles lo cs \<Longrightarrow> (a, n, f) \<in> set cs \<Longrightarrow> lo \<le> a \<and> a + HEADER + n \<le> CIAA_HEAP_MEM_SIZE"
proof (induction cs arbitrary: lo)
  case (Cons c cs)
  obtain b m g where c: "c = (b, m, g)" by (cases c)
  have end_: "lo + HEADER + m \<le> CIAA_HEAP_MEM_SIZE" if "tiles (lo + HEADER + m) cs" using that
    by (induction cs arbitrary: lo m) (auto, fastforce)
  from Cons c end_ show ?case by fastforce
qed simp

lemma tiles_le: "tiles lo cs \<Longrightarrow> lo \<le> CIAA_HEAP_MEM_SIZE"
  by (induction cs arbitrary: lo) fastforce+

text \<open>Stores outside the list leave it alone.\<close>

lemma chain_frame: "(\<And>a n f. (a, n, f) \<in> set cs \<Longrightarrow> h' a = h a) \<Longrightarrow> chain h' p cs = chain h p cs"
  by (induction cs arbitrary: p) fastforce+

lemma chain_upd: "tiles lo cs \<Longrightarrow> a < lo \<Longrightarrow> chain (h(a \<mapsto> c)) p cs = chain h p cs"
  by (rule chain_frame) (use tiles_bounds in fastforce)

lemma tiles_split:
  "a = lo \<Longrightarrow> tiles (lo + HEADER + n) cs \<Longrightarrow> sz \<le> n \<Longrightarrow> tiles lo (split_chunk sz a n @ cs)"
  by (simp add: split_chunk_def algebra_simps)

lemma partition_chain:
  assumes ch: "chain h (Some a) ((a, n, f) # cs)" and t: "tiles a ((a, n, f) # cs)" and fits: "sz \<le> n"
  shows "\<exists>h'. chunk_partition a sz h = Some h' \<and> chain h' (Some a) (split_chunk sz a n @ cs) \<and> (\<forall>b<a. h' b = h b)"
proof -
  obtain q where q: "h a = Some \<lparr>next_chunk = q, size_of = n, is_available = f\<rparr>" "chain h q cs"
    using ch by auto
  have t': "tiles (a + HEADER + n) cs" using t by simp
  have "a + HEADER + n \<le> CIAA_HEAP_MEM_SIZE" using tiles_le [OF t'] .
  then have m: "(sz + HEADER) mod 2 ^ 32 = sz + HEADER"
    using fits by (simp add: CIAA_HEAP_MEM_SIZE_def HEADER_def)
  show ?thesis
  proof (cases "sz + HEADER < n")
    case True
    then have "chain (h(a + sz + HEADER \<mapsto> c, a \<mapsto> d)) q cs" for c d
      using q(2) chain_upd [OF t', of a] chain_upd [OF t', of "a + sz + HEADER"] by (simp add: HEADER_def)
    with True q(1) m show ?thesis
      by (simp add: chunk_partition_def split_chunk_def HEADER_def)
  next
    case False
    then have "chain (h(a \<mapsto> d)) q cs" for d
      using q(2) chain_upd [OF t', of a] by (simp add: HEADER_def)
    with False q(1) m show ?thesis by (simp add: chunk_partition_def split_chunk_def)
  qed
qed

lemma malloc_from_chain:
  assumes "chain h p cs" and "tiles lo cs"
  shows "case first_fit sz cs of
      None \<Rightarrow> malloc_from p sz h = Some (None, h)
    | Some (r, cs') \<Rightarrow> \<exists>h'. malloc_from p sz h = Some (Some r, h') \<and> chain h' p cs' \<and> tiles lo cs' \<and> (\<forall>b<lo. h' b = h b)"
  using assms
proof (induction cs arbitrary: p lo)
  case Nil
  then show ?case by (subst malloc_from.simps) simp
next
  case (Cons c cs)
  obtain a n f where c: "c = (a, n, f)" by (cases c)
  obtain q where q: "p = Some a" "h a = Some \<lparr>next_chunk = q, size_of = n, is_available = f\<rparr>" "chain h q cs"
    using Cons.prems(1) c by auto
  have t: "a = lo" "tiles (lo + HEADER + n) cs" using Cons.prems(2) c by auto
  show ?case
  proof (cases "f \<and> sz \<le> n")
    case True
    obtain h' where "chunk_partition a sz h = Some h'" "chain h' (Some a) (split_chunk sz a n @ cs)" "\<forall>b<a. h' b = h b"
      using partition_chain [of h a n f cs sz] Cons.prems c q(1) t(1) True by auto
    with True c q t tiles_split [OF t] show ?thesis
      by (subst malloc_from.simps) simp
  next
    case False
    have step: "malloc_from p sz h = malloc_from q sz h"
      using q(1,2) False by (subst malloc_from.simps) auto
    show ?thesis
    proof (cases "first_fit sz cs")
      case None
      with Cons.IH [OF q(3) t(2)] False c step show ?thesis by auto
    next
      case (Some r)
      obtain x cs' where r: "r = (x, cs')" by (cases r)
      then obtain h' where h': "malloc_from q sz h = Some (Some x, h')" "chain h' q cs'" "tiles (lo + HEADER + n) cs'"
        "\<forall>b<lo + HEADER + n. h' b = h b"
        using Cons.IH [OF q(3) t(2)] Some by auto
      then have "h' a = h a" using t(1) by (simp add: HEADER_def)
      with False Some r c step h' q t show ?thesis by auto
    qed
  qed
qed

lemma mark_free_chain:
  assumes "chain h p cs" and "tiles lo cs"
  shows "\<exists>h'. mark_free p t h = Some h' \<and> chain h' p (mark t cs) \<and> tiles lo (mark t cs) \<and> (\<forall>b<lo. h' b = h b)"
  using assms
proof (induction cs arbitrary: p lo)
  case Nil
  then show ?case by (subst mark_free.simps) simp
next
  case (Cons c cs)
  obtain a n f where c: "c = (a, n, f)" by (cases c)
  obtain q where q: "p = Some a" "h a = Some \<lparr>next_chunk = q, size_of = n, is_available = f\<rparr>" "chain h q cs"
    using Cons.prems(1) c by auto
  have t: "a = lo" "tiles (lo + HEADER + n) cs" using Cons.prems(2) c by auto
  show ?case
  proof (cases "int a = t")
    case True
    have "chain (h(a \<mapsto> d)) q cs" for d
      using q(3) chain_upd [OF t(2), of a] t(1) by (simp add: HEADER_def)
    with True c q t show ?thesis by (subst mark_free.simps) simp
  next
    case False
    obtain h' where h': "mark_free q t h = Some h'" "chain h' q (mark t cs)" "tiles (lo + HEADER + n) (mark t cs)"
      "\<forall>b<lo + HEADER + n. h' b = h b"
      using Cons.IH [OF q(3) t(2)] by blast
    then have "h' a = h a" using t(1) by (simp add: HEADER_def)
    with False c q t h' show ?thesis by (subst mark_free.simps) simp
  qed
qed

lemma absorb_chain:
  assumes "chain h (Some a) ((a, n, True) # cs)" and "tiles a ((a, n, True) # cs)"
  shows "\<exists>h'. absorb a h = Some h' \<and> chain h' (Some a) ((a, fst (swallow n cs), True) # snd (swallow n cs)) \<and>
    tiles a ((a, fst (swallow n cs), True) # snd (swallow n cs)) \<and> (\<forall>b<a. h' b = h b)"
  using assms
proof (induction cs arbitrary: n h)
  case Nil
  then show ?case by (subst absorb.simps) auto
next
  case (Cons c cs)
  obtain b m f where c: "c = (b, m, f)" by (cases c)
  obtain q where q: "h a = Some \<lparr>next_chunk = Some b, size_of = n, is_available = True\<rparr>"
    "h b = Some \<lparr>next_chunk = q, size_of = m, is_available = f\<rparr>" "chain h q cs"
    using Cons.prems(1) c by auto
  have t: "b = a + HEADER + n" "tiles (b + HEADER + m) cs" using Cons.prems(2) c by auto
  show ?case
  proof (cases f)
    case False
    with Cons.prems c q(1,2) show ?thesis by (subst absorb.simps) simp
  next
    case True
    have "a + HEADER + n + HEADER + m \<le> CIAA_HEAP_MEM_SIZE" using tiles_le [OF t(2)] t(1) by simp
    then have m: "(n + m + HEADER) mod 2 ^ 32 = n + m + HEADER"
      by (simp add: CIAA_HEAP_MEM_SIZE_def HEADER_def)
    let ?h = "h(a \<mapsto> \<lparr>next_chunk = q, size_of = n + m + HEADER, is_available = True\<rparr>)"
    have "chain ?h q cs" using q(3) chain_upd [OF t(2), of a] t(1) by (simp add: HEADER_def)
    moreover have "tiles (a + HEADER + (n + m + HEADER)) cs" using t by (simp add: algebra_simps)
    ultimately have "chain ?h (Some a) ((a, n + m + HEADER, True) # cs)" "tiles a ((a, n + m + HEADER, True) # cs)"
      by simp_all
    then obtain h' where h': "absorb a ?h = Some h'"
      "chain h' (Some a) ((a, fst (swallow (n + m + HEADER) cs), True) # snd (swallow (n + m + HEADER) cs))"
      "tiles a ((a, fst (swallow (n + m + HEADER) cs), True) # snd (swallow (n + m + HEADER) cs))"
      "\<forall>b<a. h' b = ?h b"
      using Cons.IH by blast
    have "absorb a h = absorb a ?h"
      using q(1,2) True m by (subst absorb.simps) simp
    moreover have "swallow n (c # cs) = swallow (n + m + HEADER) cs" using c True by simp
    ultimately show ?thesis using h' by (intro exI [of _ h']) (simp del: chain.simps tiles.simps)
  qed
qed

lemma defragment_chain:
  assumes "chain h p cs" and "tiles lo cs"
  shows "\<exists>h'. defragment p h = Some h' \<and> chain h' p (merge cs) \<and> tiles lo (merge cs) \<and> (\<forall>b<lo. h' b = h b)"
  using assms
proof (induction cs arbitrary: p lo h rule: merge.induct)
  case 1
  then show ?case by (subst defragment.simps) simp
next
  case (2 a n cs)
  obtain q where q: "p = Some a" "h a = Some \<lparr>next_chunk = q, size_of = n, is_available = False\<rparr>" "chain h q cs"
    using 2(2) by auto
  have t: "a = lo" "tiles (lo + HEADER + n) cs" using 2(3) by auto
  obtain h' where h': "defragment q h = Some h'" "chain h' q (merge cs)" "tiles (lo + HEADER + n) (merge cs)"
    "\<forall>b<lo + HEADER + n. h' b = h b"
    using 2(1) [OF q(3) t(2)] by blast
  then have "h' a = h a" using t(1) by (simp add: HEADER_def)
  with q t h' show ?case by (subst defragment.simps) simp
next
  case (3 a n cs)
  let ?n = "fst (swallow n cs)" and ?cs = "snd (swallow n cs)"
  have p: "p = Some a" "a = lo" using 3(2,3) by auto
  obtain h1 where h1: "absorb a h = Some h1" "chain h1 (Some a) ((a, ?n, True) # ?cs)" "tiles a ((a, ?n, True) # ?cs)"
    "\<forall>b<a. h1 b = h b"
    using absorb_chain [of h a n cs] 3(2,3) p by auto
  then obtain q where q: "h1 a = Some \<lparr>next_chunk = q, size_of = ?n, is_available = True\<rparr>" "chain h1 q ?cs"
    by auto
  have t: "tiles (a + HEADER + ?n) ?cs" using h1(3) by simp
  obtain h' where h': "defragment q h1 = Some h'" "chain h' q (merge ?cs)" "tiles (a + HEADER + ?n) (merge ?cs)"
    "\<forall>b<a + HEADER + ?n. h' b = h1 b"
    using 3(1) [OF q(2) t] by blast
  then have "h' a = h1 a" by (simp add: HEADER_def)
  moreover obtain q0 where "h a = Some \<lparr>next_chunk = q0, size_of = n, is_available = True\<rparr>" using 3(2) p by auto
  moreover have "\<forall>b<a. h' b = h b" using h'(4) h1(4) by (simp add: HEADER_def)
  ultimately show ?case using p h1(1) q h' by (subst defragment.simps) simp
qed

section \<open>The blocks in use\<close>

lemma blocks_simps [simp]:
  "blocks [] = {}" "blocks ((a, n, True) # cs) = blocks cs"
  "blocks ((a, n, False) # cs) = insert (a + HEADER, n) (blocks cs)"
  by (auto simp: blocks_def)

lemma blocks_append: "blocks (cs @ ds) = blocks cs \<union> blocks ds"
  by (auto simp: blocks_def)

lemma blocks_bounds: "tiles lo cs \<Longrightarrow> (x, n) \<in> blocks cs \<Longrightarrow> lo + HEADER \<le> x \<and> x + n \<le> CIAA_HEAP_MEM_SIZE"
  using tiles_bounds by (fastforce simp: blocks_def)

lemma blocks_apart:
  "tiles lo cs \<Longrightarrow> (x, n) \<in> blocks cs \<Longrightarrow> (y, m) \<in> blocks cs \<Longrightarrow> (x, n) \<noteq> (y, m) \<Longrightarrow>
    x + n + HEADER \<le> y \<or> y + m + HEADER \<le> x"
proof (induction cs arbitrary: lo)
  case (Cons c cs)
  obtain a k f where c: "c = (a, k, f)" by (cases c)
  have t: "a = lo" "tiles (lo + HEADER + k) cs" using Cons.prems(1) c by auto
  note b = blocks_bounds [OF t(2)]
  from Cons.IH [OF t(2)] Cons.prems(2-) c t(1) b [of x n] b [of y m] show ?case
    by (cases f) (auto simp: algebra_simps)
qed simp

lemma first_fit_member: "first_fit sz cs = Some (r, cs') \<Longrightarrow> \<exists>a n f. (a, n, f) \<in> set cs \<and> r = a + HEADER"
proof (induction cs arbitrary: cs')
  case (Cons c cs)
  then show ?case by (cases c) (fastforce split: if_splits)
qed simp

lemma first_fit_blocks:
  "tiles lo cs \<Longrightarrow> first_fit sz cs = Some (r, cs') \<Longrightarrow>
    \<exists>n\<ge>sz. blocks cs' = insert (r, n) (blocks cs) \<and> (\<forall>m. (r, m) \<notin> blocks cs)"
proof (induction cs arbitrary: lo cs')
  case (Cons c cs)
  obtain a n f where c: "c = (a, n, f)" by (cases c)
  have t: "a = lo" "tiles (lo + HEADER + n) cs" using Cons.prems(1) c by auto
  note b = blocks_bounds [OF t(2)]
  show ?case
  proof (cases "f \<and> sz \<le> n")
    case True
    then have r: "r = a + HEADER" "cs' = split_chunk sz a n @ cs" using Cons.prems(2) c by auto
    have "(r, m) \<notin> blocks cs" for m using b [of r m] r(1) t(1) by (auto simp: HEADER_def)
    with True r c show ?thesis
      by (intro exI [of _ "if sz + HEADER < n then sz else n"]) (auto simp: split_chunk_def blocks_append)
  next
    case False
    then obtain cs1 where cs1: "first_fit sz cs = Some (r, cs1)" "cs' = (a, n, f) # cs1"
      using Cons.prems(2) c by (auto split: if_splits)
    then obtain k where k: "sz \<le> k" "blocks cs1 = insert (r, k) (blocks cs)" "\<forall>m. (r, m) \<notin> blocks cs"
      using Cons.IH [OF t(2)] by blast
    have "r \<noteq> a + HEADER"
    proof -
      have "(a', n', f') \<in> set cs \<Longrightarrow> lo + HEADER + n \<le> a'" for a' n' f' using tiles_bounds [OF t(2)] by blast
      moreover obtain a' n' f' where "(a', n', f') \<in> set cs" "r = a' + HEADER"
        using first_fit_member [OF cs1(1)] by blast
      ultimately show ?thesis using t(1) by (fastforce simp: HEADER_def)
    qed
    with k cs1(2) c show ?thesis by (cases f) (auto intro!: exI [of _ k])
  qed
qed simp

lemma first_fit_None: "first_fit sz cs = None \<longleftrightarrow> \<not> (\<exists>a n. (a, n, True) \<in> set cs \<and> sz \<le> n)"
proof (induction cs)
  case (Cons c cs)
  obtain a n f where "c = (a, n, f)" by (cases c)
  with Cons show ?case by (cases "f \<and> sz \<le> n") auto
qed simp

lemma mark_blocks: "tiles lo cs \<Longrightarrow> blocks (mark t cs) = {b \<in> blocks cs. int (fst b) - int HEADER \<noteq> t}"
proof (induction cs arbitrary: lo)
  case (Cons c cs)
  obtain a n f where c: "c = (a, n, f)" by (cases c)
  have t: "a = lo" "tiles (lo + HEADER + n) cs" using Cons.prems c by auto
  let ?keep = "\<lambda>b :: nat \<times> nat. int (fst b) - int HEADER \<noteq> t"
  show ?case
  proof (cases "int a = t")
    case True
    have "?keep b" if "b \<in> blocks cs" for b
      using blocks_bounds [OF t(2), of "fst b" "snd b"] that t(1) True by (auto simp: HEADER_def)
    then have "{b \<in> blocks cs. ?keep b} = blocks cs" by blast
    moreover have "\<not> ?keep (a + HEADER, n)" using True by simp
    ultimately have "{b \<in> insert (a + HEADER, n) (blocks cs). ?keep b} = blocks cs" by blast
    with True c \<open>{b \<in> blocks cs. ?keep b} = blocks cs\<close> show ?thesis by (cases f) simp_all
  next
    case False
    then have "?keep (a + HEADER, n)" by simp
    then have "{b \<in> insert (a + HEADER, n) (blocks cs). ?keep b} = insert (a + HEADER, n) {b \<in> blocks cs. ?keep b}"
      by blast
    with False Cons.IH [OF t(2)] c show ?thesis by (cases f) simp_all
  qed
qed simp

lemma swallow_blocks: "blocks (snd (swallow n cs)) = blocks cs"
  by (induction n cs rule: swallow.induct) auto

lemma merge_blocks: "blocks (merge cs) = blocks cs"
  by (induction cs rule: merge.induct) (auto simp: swallow_blocks)

definition coalesced :: "chunk list \<Rightarrow> bool" where
  "coalesced cs \<longleftrightarrow> successively (\<lambda>(a, n, f) (b, m, g). \<not> (f \<and> g)) cs"

lemma swallow_stops: "snd (swallow n cs) \<noteq> [] \<Longrightarrow> \<exists>a m. hd (snd (swallow n cs)) = (a, m, False)"
  by (induction n cs rule: swallow.induct) auto

lemma merge_hd: "cs \<noteq> [] \<Longrightarrow> merge cs \<noteq> [] \<and> snd (snd (hd (merge cs))) = snd (snd (hd cs))"
  by (cases cs rule: merge.cases) auto

lemma coalesced_merge: "coalesced (merge cs)"
proof (induction cs rule: merge.induct)
  case (3 a n cs)
  then show ?case
    using swallow_stops [of n cs] merge_hd [of "snd (swallow n cs)"]
    by (cases "snd (swallow n cs) = []") (auto simp: coalesced_def successively_Cons)
qed (auto simp: coalesced_def successively_Cons)

lemma coalesced_unused:
  assumes "tiles 0 cs" and "blocks cs = {}" and "coalesced cs"
  shows "cs = [(0, CIAA_HEAP_MEM_SIZE - HEADER, True)]"
proof (cases cs)
  case Nil
  with assms show ?thesis by (simp add: CIAA_HEAP_MEM_SIZE_def)
next
  case (Cons c ds)
  obtain a n f where c: "c = (a, n, f)" by (cases c)
  with Cons assms(2) have f: "f" "blocks ds = {}" by (cases f; simp)+
  have "ds = []"
  proof (cases ds)
    case (Cons d es)
    obtain b m g where "d = (b, m, g)" by (cases d)
    with Cons f \<open>cs = c # ds\<close> c assms(3) show ?thesis by (cases g) (auto simp: coalesced_def)
  qed
  with \<open>cs = c # ds\<close> c f assms(1) show ?thesis by (auto simp: HEADER_def)
qed

section \<open>The properties\<close>

lemma init_ok: "heap_ok (stdlib_init h) [(0, CIAA_HEAP_MEM_SIZE - HEADER, True)]"
  by (simp add: heap_ok_def stdlib_init_def CIAA_HEAP_MEM_SIZE_def HEADER_def)

text \<open>C0: \<open>ciaaPOSIX_malloc\<close> returns the null pointer, and changes nothing, exactly when no free chunk is large
  enough; otherwise it returns a block of at least the size asked for, inside the array and, with its
  header, apart from every block in use. All other blocks in use stay as they are, and the
  chunks tile the array again.\<close>

theorem malloc_correct:
  assumes "heap_ok h cs"
  shows "if \<exists>a n. (a, n, True) \<in> set cs \<and> sz \<le> n
    then \<exists>r n h' cs'. ciaaPOSIX_malloc sz h = Some (Some r, h') \<and> heap_ok h' cs' \<and> sz \<le> n \<and>
      r + n \<le> CIAA_HEAP_MEM_SIZE \<and> blocks cs' = insert (r, n) (blocks cs) \<and>
      (\<forall>(x, m) \<in> blocks cs. r + n + HEADER \<le> x \<or> x + m + HEADER \<le> r)
    else ciaaPOSIX_malloc sz h = Some (None, h)"
proof -
  have ok: "chain h (Some 0) cs" "tiles 0 cs" using assms by (simp_all add: heap_ok_def)
  show ?thesis
  proof (cases "first_fit sz cs")
    case None
    with malloc_from_chain [OF ok, of sz] have "ciaaPOSIX_malloc sz h = Some (None, h)"
      by (simp add: ciaaPOSIX_malloc_def)
    with None show ?thesis unfolding first_fit_None by (simp only: if_False)
  next
    case (Some rc)
    obtain r cs' where rc: "rc = (r, cs')" by (cases rc)
    then obtain h' where h': "ciaaPOSIX_malloc sz h = Some (Some r, h')" "heap_ok h' cs'"
      using malloc_from_chain [OF ok, of sz] Some by (auto simp: ciaaPOSIX_malloc_def heap_ok_def)
    obtain n where n: "sz \<le> n" "blocks cs' = insert (r, n) (blocks cs)" "\<forall>m. (r, m) \<notin> blocks cs"
      using first_fit_blocks [OF ok(2)] Some rc by blast
    have "r + n \<le> CIAA_HEAP_MEM_SIZE"
      using blocks_bounds [of 0 cs' r n] h'(2) n(2) by (simp add: heap_ok_def)
    moreover have "r + n + HEADER \<le> x \<or> x + m + HEADER \<le> r" if "(x, m) \<in> blocks cs" for x m
      using blocks_apart [of 0 cs' r n x m] h'(2) n(2,3) that by (auto simp: heap_ok_def)
    ultimately show ?thesis
      using Some first_fit_None [of sz cs] h' n(1,2) by (auto split: if_splits)
  qed
qed

theorem malloc_correct_witness:
  "\<exists>r n h'. ciaaPOSIX_malloc 100 (stdlib_init Map.empty) = Some (Some r, h') \<and> 100 \<le> n \<and> r + n \<le> 10000"
  using malloc_correct [OF init_ok [of Map.empty], of 100]
  by (auto simp: CIAA_HEAP_MEM_SIZE_def HEADER_def)

lemma free_merges:
  assumes "heap_ok h cs"
  shows "\<exists>h' cs'. ciaaPOSIX_free ptr h = Some h' \<and> heap_ok h' cs' \<and> blocks cs' = {b \<in> blocks cs. fst b \<noteq> ptr} \<and>
    coalesced cs'"
proof -
  let ?t = "int ptr - int HEADER"
  have ok: "chain h (Some 0) cs" "tiles 0 cs" using assms by (simp_all add: heap_ok_def)
  obtain h1 where h1: "mark_free (Some 0) ?t h = Some h1" "chain h1 (Some 0) (mark ?t cs)" "tiles 0 (mark ?t cs)"
    using mark_free_chain [OF ok] by blast
  obtain h' where "defragment (Some 0) h1 = Some h'" "chain h' (Some 0) (merge (mark ?t cs))" "tiles 0 (merge (mark ?t cs))"
    using defragment_chain [OF h1(2,3)] by blast
  moreover have "blocks (merge (mark ?t cs)) = {b \<in> blocks cs. fst b \<noteq> ptr}"
    using mark_blocks [OF ok(2), of ?t] by (auto simp: merge_blocks)
  ultimately show ?thesis using h1(1) coalesced_merge
    by (intro exI [of _ h'] exI [of _ "merge (mark ?t cs)"]) (simp add: ciaaPOSIX_free_def heap_ok_def)
qed

text \<open>C0: \<open>ciaaPOSIX_free\<close> gives up exactly the block it is called with; a pointer that is not a block in use
  changes no block. Afterwards no two free chunks are neighbours.\<close>

theorem free_correct:
  assumes "heap_ok h cs"
  shows "\<exists>h' cs'. ciaaPOSIX_free ptr h = Some h' \<and> heap_ok h' cs' \<and> blocks cs' = {b \<in> blocks cs. fst b \<noteq> ptr} \<and>
    coalesced cs'"
  by (rule free_merges [OF assms])

theorem free_correct_witness:
  "\<exists>h'. ciaaPOSIX_free 12 (stdlib_init Map.empty) = Some h'"
  using free_correct [OF init_ok [of Map.empty], of 12] by blast

text \<open>when the last block in use is given back, the heap is one free chunk again, as after the
  initialisation: nothing is lost to fragmentation.\<close>

lemma heap_restored:
  assumes "heap_ok h cs" and "\<forall>b\<in>blocks cs. fst b = ptr"
  shows "\<exists>h'. ciaaPOSIX_free ptr h = Some h' \<and> heap_ok h' [(0, 9988, True)]"
proof -
  obtain h' cs' where f: "ciaaPOSIX_free ptr h = Some h'" "heap_ok h' cs'" "blocks cs' = {}" "coalesced cs'"
    using free_merges [OF assms(1), of ptr] assms(2) by auto
  then have "cs' = [(0, 9988, True)]"
    using coalesced_unused [of cs'] by (simp add: heap_ok_def CIAA_HEAP_MEM_SIZE_def HEADER_def)
  with f show ?thesis by blast
qed

end
