(* ===== verification/DioDriver.thy ===== *)
theory DioDriver
  imports PosixString
begin

text \<open>
  The digital inputs and outputs of the board
  (\<^verbatim>\<open>modules/drivers/cortexM4/lpc43xx/lpc4337/src/ciaaDriverDio.c\<close>, for the board \<^verbatim>\<open>edu_ciaa_nxp\<close>): which pin of
  the microcontroller a bit of the output word drives, and which pin a bit of the input byte reads.

  The byte registers of the GPIO peripheral are a function from pins, pairs of port and pin, to levels.
  A buffer of the caller is the list of its bytes; an access behind its end is \<open>None\<close>.
\<close>

section \<open>The pins\<close>

type_synonym pin = "nat \<times> nat"
type_synonym gpio = "pin \<Rightarrow> bool"

definition ciaaDriverDio_Inputs :: "pin list" where
  "ciaaDriverDio_Inputs = [(0,4), (0,8), (0,9), (1,9), (1,8), (3,12), (3,13)]"

definition ciaaDriverDio_Outputs :: "pin list" where
  "ciaaDriverDio_Outputs = [(5,0), (5,1), (5,2), (0,14), (1,11), (1,12), (2,0), (2,1), (2,2), (2,3), (2,4), (2,5), (2,6),
     (5,14), (3,3), (5,13)]"

abbreviation ciaaDriverDio_InputCount :: nat where "ciaaDriverDio_InputCount \<equiv> length ciaaDriverDio_Inputs"
abbreviation ciaaDriverDio_OutputCount :: nat where "ciaaDriverDio_OutputCount \<equiv> length ciaaDriverDio_Outputs"

definition writeOutput :: "nat \<Rightarrow> uint32 \<Rightarrow> gpio \<Rightarrow> gpio" where
  "writeOutput outputNumber val g =
     (if outputNumber < ciaaDriverDio_OutputCount then g(ciaaDriverDio_Outputs ! outputNumber := val \<noteq> 0) else g)"

definition readInput :: "gpio \<Rightarrow> nat \<Rightarrow> int" where
  "readInput g inputNumber =
     (if inputNumber < ciaaDriverDio_InputCount then if g (ciaaDriverDio_Inputs ! inputNumber) then 1 else 0 else - 1)"

definition readOutput :: "gpio \<Rightarrow> nat \<Rightarrow> int" where
  "readOutput g outputNumber =
     (if outputNumber < ciaaDriverDio_OutputCount then if g (ciaaDriverDio_Outputs ! outputNumber) then 1 else 0 else - 1)"

section \<open>Reading\<close>

text \<open>The byte is advanced at every eighth pin, after the test whether it is in the buffer.\<close>

definition next_byte :: "nat \<Rightarrow> nat \<Rightarrow> nat" where
  "next_byte i j = (if 0 < i \<and> i AND 7 = 0 then j + 1 else j)"

fun pack_pins :: "(nat \<Rightarrow> int) \<Rightarrow> nat list \<Rightarrow> nat \<Rightarrow> nat \<Rightarrow> uint8 list \<Rightarrow> uint8 list option" where
  "pack_pins readFunction [] count j buffer = Some buffer"
| "pack_pins readFunction (i # is) count j buffer =
     (if j < count then do {
        let j = next_byte i j;
        b \<leftarrow> rd buffer j;
        buffer \<leftarrow> wr buffer j (b OR word_of_int (push_bit (i - 8 * j) (readFunction i)));
        pack_pins readFunction is count j buffer }
      else Some buffer)"

definition readPins :: "nat \<Rightarrow> uint8 list \<Rightarrow> nat \<Rightarrow> (nat \<Rightarrow> int) \<Rightarrow> (int \<times> uint8 list) option" where
  "readPins pinCount buffer sz readFunction = do {
     let count = drop_bit 3 pinCount + (if pinCount AND 7 \<noteq> 0 then 1 else 0);
     let count = (if sz < count then sz else count);
     buffer \<leftarrow> ciaaPOSIX_memset buffer 0 0 count;
     buffer \<leftarrow> pack_pins readFunction [0..<pinCount] count 0 buffer;
     Some (int count, buffer) }"

section \<open>The driver's operations\<close>

datatype dio_device = dio_in0 | dio_out0

definition ciaaDriverDio_open :: "dio_device \<Rightarrow> dio_device option" where
  "ciaaDriverDio_open device = Some device"

definition ciaaDriverDio_close :: "dio_device \<Rightarrow> int" where
  "ciaaDriverDio_close device = 0"

definition ciaaDriverDio_ioctl :: "dio_device \<Rightarrow> int" where
  "ciaaDriverDio_ioctl device = - 1"

definition ciaaDriverDio_read :: "dio_device \<Rightarrow> uint8 list \<Rightarrow> nat \<Rightarrow> gpio \<Rightarrow> (int \<times> uint8 list) option" where
  "ciaaDriverDio_read device buffer sz g =
     (case device of
        dio_in0 \<Rightarrow> readPins ciaaDriverDio_InputCount buffer sz (readInput g)
      | dio_out0 \<Rightarrow> readPins ciaaDriverDio_OutputCount buffer sz (readOutput g))"

fun drive_outputs :: "nat list \<Rightarrow> nat \<Rightarrow> nat \<Rightarrow> uint8 list \<Rightarrow> gpio \<Rightarrow> (nat \<times> gpio) option" where
  "drive_outputs [] sz j buffer g = Some (j, g)"
| "drive_outputs (i # is) sz j buffer g =
     (if j < sz then do {
        let j = next_byte i j;
        b \<leftarrow> rd buffer j;
        drive_outputs is sz j buffer (writeOutput i (ucast b AND push_bit (i - 8 * j) 1) g) }
      else Some (j, g))"

definition ciaaDriverDio_write :: "dio_device \<Rightarrow> uint8 list \<Rightarrow> nat \<Rightarrow> gpio \<Rightarrow> (int \<times> gpio) option" where
  "ciaaDriverDio_write device buffer sz g =
     (if sz \<noteq> 0 then
        case device of
          dio_in0 \<Rightarrow> Some (- 1, g)
        | dio_out0 \<Rightarrow> do {
            (j, g) \<leftarrow> drive_outputs [0..<ciaaDriverDio_OutputCount] sz 0 buffer g;
            Some (int (if ciaaDriverDio_OutputCount AND 7 \<noteq> 0 then j + 1 else j), g) }
      else Some (- 1, g))"

section \<open>The output word on the pins\<close>

lemma test_bit: "(ucast (b :: uint8) AND push_bit m 1 :: uint32) \<noteq> 0 \<longleftrightarrow> bit b m"
proof -
  have "(ucast b AND push_bit m 1 :: uint32) = 0 \<longleftrightarrow> \<not> bit (ucast b :: uint32) m"
    by (simp add: push_bit_eq_mult and_exp_eq_0_iff_not_bit)
  then show ?thesis by (auto simp: bit_simps dest: bit_imp_le_length)
qed

lemma out_count: "ciaaDriverDio_OutputCount = 16" "ciaaDriverDio_InputCount = 7"
  by (simp_all add: ciaaDriverDio_Outputs_def ciaaDriverDio_Inputs_def)

lemma distinct_outputs: "distinct ciaaDriverDio_Outputs"
  by (simp add: ciaaDriverDio_Outputs_def)

text \<open>The bytes of a 16-bit variable, low byte first.\<close>

definition bytes16 :: "uint16 \<Rightarrow> uint8 list" where
  "bytes16 w = [ucast w, ucast (drop_bit 8 w)]"

lemma bit_bytes16: "k < 8 \<Longrightarrow> bit (bytes16 w ! 0) k = bit w k" "k < 8 \<Longrightarrow> bit (bytes16 w ! 1) k = bit w (8 + k)"
  by (simp_all add: bytes16_def bit_simps)

definition pins_set :: "uint16 \<Rightarrow> nat \<Rightarrow> gpio \<Rightarrow> gpio" where
  "pins_set w n g = fold (\<lambda>i g. g(ciaaDriverDio_Outputs ! i := bit w i)) [0..<n] g"

lemma next_byte_div: "i < 16 \<Longrightarrow> next_byte i ((i - 1) div 8) = i div 8"
proof -
  have "list_all (\<lambda>i. next_byte i ((i - 1) div 8) = i div 8) [0..<16]" by code_simp
  then show "i < 16 \<Longrightarrow> next_byte i ((i - 1) div 8) = i div 8" by (simp add: list_all_iff)
qed

lemma drive_from:
  assumes "i \<le> n" "n \<le> 16" "j = (i - 1) div 8"
  shows "\<exists>j'. drive_outputs [i..<n] 2 j (bytes16 w) g =
    Some (j', fold (\<lambda>i g. g(ciaaDriverDio_Outputs ! i := bit w i)) [i..<n] g) \<and> j' = (n - 1) div 8"
  using assms
proof (induction "n - i" arbitrary: i j g)
  case 0
  then show ?case by simp
next
  case (Suc d)
  then have i: "i < n" "i < 16" and d: "d = n - Suc i" by auto
  have j2: "j < 2" using i Suc.prems by auto
  have nb: "next_byte i j = i div 8" using next_byte_div [OF i(2)] Suc.prems(3) by simp
  have b: "(ucast (bytes16 w ! (i div 8)) AND push_bit (i - 8 * (i div 8)) 1 :: uint32) \<noteq> 0 \<longleftrightarrow> bit w i"
    unfolding test_bit
  proof (cases "i < 8")
    case True
    then show "bit (bytes16 w ! (i div 8)) (i - 8 * (i div 8)) = bit w i" using bit_bytes16(1) [of i w] by simp
  next
    case False
    then have "i div 8 = 1" using i by auto
    then show "bit (bytes16 w ! (i div 8)) (i - 8 * (i div 8)) = bit w i"
      using bit_bytes16(2) [of "i - 8" w] False i by simp
  qed
  have "rd (bytes16 w) (i div 8) = Some (bytes16 w ! (i div 8))" using i by (simp add: rd_def bytes16_def)
  moreover have "writeOutput i (ucast (bytes16 w ! (i div 8)) AND push_bit (i - 8 * (i div 8)) 1) g =
      g(ciaaDriverDio_Outputs ! i := bit w i)"
    using i unfolding writeOutput_def out_count b by simp
  moreover have up: "[i..<n] = i # [Suc i..<n]" using i by (simp add: upt_rec)
  ultimately have "drive_outputs [i..<n] 2 j (bytes16 w) g =
      drive_outputs [Suc i..<n] 2 (i div 8) (bytes16 w) (g(ciaaDriverDio_Outputs ! i := bit w i))"
    unfolding up drive_outputs.simps nb Let_def using j2 by (simp only: if_True bind.bind_lunit)
  moreover note up
  ultimately show ?case
    using Suc.hyps(1) [OF d, of "i div 8" "g(ciaaDriverDio_Outputs ! i := bit w i)"] i Suc.prems by simp
qed

lemma pins_set_out: "n \<le> 16 \<Longrightarrow> k < n \<Longrightarrow> pins_set w n g (ciaaDriverDio_Outputs ! k) = bit w k"
proof (induction n)
  case (Suc n)
  then have "ciaaDriverDio_Outputs ! k = ciaaDriverDio_Outputs ! n \<longleftrightarrow> k = n"
    using distinct_outputs by (simp add: nth_eq_iff_index_eq out_count)
  with Suc show ?case by (auto simp: pins_set_def)
qed simp

lemma pins_set_other: "n \<le> 16 \<Longrightarrow> p \<notin> set ciaaDriverDio_Outputs \<Longrightarrow> pins_set w n g p = g p"
proof (induction n)
  case (Suc n)
  then have "ciaaDriverDio_Outputs ! n \<noteq> p" using nth_mem [of n ciaaDriverDio_Outputs] by (auto simp: out_count)
  with Suc show ?case by (simp add: pins_set_def)
qed (simp add: pins_set_def)

lemma write_word: "ciaaDriverDio_write dio_out0 (bytes16 w) 2 g = Some (1, pins_set w 16 g)"
  using drive_from [of 0 16 0 w g] by (auto simp: ciaaDriverDio_write_def out_count pins_set_def)

section \<open>The input byte from the pins\<close>

definition pins_byte :: "gpio \<Rightarrow> nat \<Rightarrow> uint8 \<Rightarrow> uint8" where
  "pins_byte g n b = fold (\<lambda>i b. b OR word_of_int (push_bit i (readInput g i))) [0..<n] b"

lemma pack_inputs:
  "n \<le> 7 \<Longrightarrow> buffer \<noteq> [] \<Longrightarrow> pack_pins (readInput g) [i..<n] 1 0 buffer =
    Some (buffer[0 := fold (\<lambda>i b. b OR word_of_int (push_bit i (readInput g i))) [i..<n] (buffer ! 0)])"
proof (induction "n - i" arbitrary: i buffer)
  case (Suc d)
  then have i: "i < n" "i < 7" and d: "d = n - Suc i" by auto
  have "\<not> (0 < i \<and> i AND 7 = 0)"
  proof -
    have "list_all (\<lambda>i. \<not> (0 < i \<and> i AND 7 = 0)) [0..<7 :: nat]" by code_simp
    then show ?thesis using i(2) by (simp add: list_all_iff)
  qed
  then have nb: "next_byte i 0 = 0" by (simp add: next_byte_def)
  have up: "[i..<n] = i # [Suc i..<n]" using i by (simp add: upt_rec)
  let ?b = "buffer ! 0 OR word_of_int (push_bit i (readInput g i))"
  have "pack_pins (readInput g) [i..<n] 1 0 buffer = pack_pins (readInput g) [Suc i..<n] 1 0 (buffer[0 := ?b])"
    using Suc.prems(2) by (simp add: up nb mem_simps)
  with Suc.hyps(1) [OF d, of "buffer[0 := ?b]"] Suc.prems show ?case by (simp add: up)
qed simp

lemma bit_pins_byte: "n \<le> 7 \<Longrightarrow> bit (pins_byte g n 0) k \<longleftrightarrow> k < n \<and> g (ciaaDriverDio_Inputs ! k)"
proof (induction n)
  case (Suc n)
  have "bit (word_of_int (push_bit n (readInput g n)) :: uint8) k \<longleftrightarrow> k = n \<and> g (ciaaDriverDio_Inputs ! n)"
    using Suc.prems by (auto simp: readInput_def out_count bit_simps)
  with Suc show ?case by (auto simp: pins_byte_def bit_or_iff less_Suc_eq)
qed (simp add: pins_byte_def)

lemma read_byte:
  assumes "0 < sz" and "buffer \<noteq> []"
  shows "ciaaDriverDio_read dio_in0 buffer sz g = Some (1, buffer[0 := pins_byte g 7 0])"
proof -
  have c: "drop_bit 3 (7 :: nat) + (if (7 :: nat) AND 7 \<noteq> 0 then 1 else 0) = 1" by simp
  have m: "ciaaPOSIX_memset buffer 0 0 1 = Some (buffer[0 := 0])"
    using assms(2) by (simp add: mem_simps)
  show ?thesis
    using assms m pack_inputs [of 7 "buffer[0 := 0]" g 0]
    unfolding ciaaDriverDio_read_def readPins_def out_count c Let_def
    by (simp add: pins_byte_def One_nat_def [symmetric] del: One_nat_def)
qed

section \<open>The properties\<close>

text \<open>Writing the two bytes of the output word drives every output pin with its bit of the word and no
  other pin. The call reports one byte.\<close>

lemma dio_write_pins:
  "\<exists>g'. ciaaDriverDio_write dio_out0 (bytes16 w) 2 g = Some (1, g') \<and>
    (\<forall>k<16. g' (ciaaDriverDio_Outputs ! k) = bit w k) \<and> (\<forall>p. p \<notin> set ciaaDriverDio_Outputs \<longrightarrow> g' p = g p)"
  using write_word pins_set_out pins_set_other by auto

text \<open>Reading the inputs puts the level of every input pin at its bit of the first byte and 0 above, and
  leaves the rest of the buffer alone.\<close>

lemma dio_read_pins:
  assumes "0 < sz" and "buffer \<noteq> []"
  shows "\<exists>b. ciaaDriverDio_read dio_in0 buffer sz g = Some (1, buffer[0 := b]) \<and>
    (\<forall>k. bit b k \<longleftrightarrow> k < 7 \<and> g (ciaaDriverDio_Inputs ! k))"
  using read_byte [OF assms] bit_pins_byte [of 7 g] by blast

text \<open>with a buffer of a single byte, writing the outputs reads the byte behind it, and reading them back
  writes the byte behind it: the index of the byte is advanced after it has been compared with the size.\<close>

lemma dio_short_buffer:
  "ciaaDriverDio_write dio_out0 [b] 1 g = None \<and> ciaaDriverDio_read dio_out0 [b] 1 g = None"
proof -
  have up: "[0..<16] = [0, 1, 2, 3, 4, 5, 6, 7, 8 :: nat] @ [9..<16]" by code_simp
  have "ciaaDriverDio_write dio_out0 [b] 1 g = None"
    by (simp add: ciaaDriverDio_write_def out_count up next_byte_def rd_def)
  moreover have "ciaaDriverDio_read dio_out0 [b] 1 g = None"
    by (simp add: ciaaDriverDio_read_def readPins_def out_count up next_byte_def rd_def wr_def)
  ultimately show ?thesis by blast
qed

end
