(* ===== verification/Devices.thy ===== *)
theory Devices
  imports CString PosixHeap DioDriver
begin

text \<open>
  Files and devices: the registry of devices (\<^verbatim>\<open>modules/posix/src/ciaaDevices.c\<close>), the layer for digital inputs
  and outputs (\<^verbatim>\<open>ciaaDioDevices.c\<close>), the file descriptors (\<^verbatim>\<open>ciaaPOSIX_stdio.c\<close>) and the part of the start
  of the kernel (\<^verbatim>\<open>modules/ciaak/src/ciaak_main.c\<close>) that concerns them.

  A pointer to a device is either one of the two objects of the driver or the number of a device
  that the layer has allocated. Calls through the function pointers of a device are resolved by that
  pointer. The resource \<open>POSIXR\<close> around the table of descriptors is not modelled here: a call is one step. An
  assertion that fails, and a kernel out of memory, stop in an endless loop, which is \<open>None\<close>.
\<close>

section \<open>The state\<close>

datatype device = Driver dio_device | DioDevice nat

text \<open>\<open>dev_list\<close> is \<open>ciaaDevices\<close>; \<open>devstr\<close> and \<open>dio_paths\<close> are, for each device the layer has made, the driver below
  it and its path.\<close>

record dev_sys =
  gpio_pins :: gpio
  sys_heap :: heap
  dev_list :: "device list"
  devstr :: "dio_device list"
  dio_paths :: "char list list"
  fildes :: "device option list"

definition ciaaDevices_MAXDEVICES :: nat where "ciaaDevices_MAXDEVICES = 20"
definition ciaaDioDevices_MAXDEVICES :: nat where "ciaaDioDevices_MAXDEVICES = 20"
definition ciaaPOSIX_stdio_MAXFILDES :: nat where "ciaaPOSIX_stdio_MAXFILDES = 20"

fun driver_path :: "dio_device \<Rightarrow> char list" where
  "driver_path dio_in0 = ''in/0'' @ [ZERO]"
| "driver_path dio_out0 = ''out/0'' @ [ZERO]"

fun dev_path :: "dev_sys \<Rightarrow> device \<Rightarrow> char list option" where
  "dev_path s (Driver x) = Some (driver_path x)"
| "dev_path s (DioDevice k) = rd (dio_paths s) k"

section \<open>The registry\<close>

definition ciaaDevices_init :: "dev_sys \<Rightarrow> dev_sys" where
  "ciaaDevices_init s = s\<lparr>dev_list := []\<rparr>"

definition ciaaDevices_addDevice :: "device \<Rightarrow> dev_sys \<Rightarrow> dev_sys" where
  "ciaaDevices_addDevice device s =
     (if length (dev_list s) < ciaaDevices_MAXDEVICES then s\<lparr>dev_list := dev_list s @ [device]\<rparr> else s)"

fun find_device :: "dev_sys \<Rightarrow> char list \<Rightarrow> device list \<Rightarrow> device option option" where
  "find_device s path [] = Some None"
| "find_device s path (d # ds) = do {
     p \<leftarrow> dev_path s d;
     n \<leftarrow> ciaaPOSIX_strlen p;
     r \<leftarrow> ciaaPOSIX_strncmp path p (unat n);
     if r = 0 then Some (Some d) else find_device s path ds }"

definition ciaaDevices_getDevice :: "char list \<Rightarrow> dev_sys \<Rightarrow> device option option" where
  "ciaaDevices_getDevice path s = find_device s path (dev_list s)"

section \<open>The layer of the digital inputs and outputs\<close>

definition ciaak_malloc :: "nat \<Rightarrow> heap \<Rightarrow> (nat \<times> heap) option" where
  "ciaak_malloc sz h = do {
     (r, h) \<leftarrow> ciaaPOSIX_malloc sz h;
     case r of None \<Rightarrow> None | Some a \<Rightarrow> Some (a, h) }"

definition ciaaDioDevices_prefix :: "char list" where "ciaaDioDevices_prefix = ''/dev/dio'' @ [ZERO]"

text \<open>\<open>junk\<close> is what the fresh memory holds. A device has ten pointers.\<close>

definition ciaaDioDevices_addDriver :: "(nat \<Rightarrow> char) \<Rightarrow> dio_device \<Rightarrow> dev_sys \<Rightarrow> dev_sys option" where
  "ciaaDioDevices_addDriver junk driver s =
     (if length (devstr s) < ciaaDioDevices_MAXDEVICES then do {
        let position = length (devstr s);
        (_, h) \<leftarrow> ciaak_malloc 40 (sys_heap s);
        n \<leftarrow> ciaaPOSIX_strlen (driver_path driver);
        m \<leftarrow> ciaaPOSIX_strlen ciaaDioDevices_prefix;
        let len = (ucast n + ucast m + 2 :: uint8);
        (_, h) \<leftarrow> ciaak_malloc (unat len) h;
        name \<leftarrow> wr (map junk [0..<unat len]) 0 ZERO;
        name \<leftarrow> ciaaPOSIX_strcat name ciaaDioDevices_prefix;
        name \<leftarrow> ciaaPOSIX_strcat name (''/'' @ [ZERO]);
        name \<leftarrow> ciaaPOSIX_strcat name (driver_path driver);
        Some (ciaaDevices_addDevice (DioDevice position)
          (s\<lparr>sys_heap := h, devstr := devstr s @ [driver], dio_paths := dio_paths s @ [name]\<rparr>)) }
      else Some s)"

text \<open>The operations of a device, by its pointer. The layer asserts that the driver opens itself.\<close>

fun dev_open :: "dev_sys \<Rightarrow> device \<Rightarrow> device option option" where
  "dev_open s (Driver x) = Some (map_option Driver (ciaaDriverDio_open x))"
| "dev_open s (DioDevice k) = do {
     drv \<leftarrow> rd (devstr s) k;
     if ciaaDriverDio_open drv = Some drv then Some (Some (DioDevice k)) else None }"

fun dev_driver :: "dev_sys \<Rightarrow> device \<Rightarrow> dio_device option" where
  "dev_driver s (Driver x) = Some x"
| "dev_driver s (DioDevice k) = rd (devstr s) k"

definition dev_close :: "dev_sys \<Rightarrow> device \<Rightarrow> int option" where
  "dev_close s d = do { drv \<leftarrow> dev_driver s d; Some (ciaaDriverDio_close drv) }"

definition dev_ioctl :: "dev_sys \<Rightarrow> device \<Rightarrow> int option" where
  "dev_ioctl s d = do { drv \<leftarrow> dev_driver s d; Some (ciaaDriverDio_ioctl drv) }"

definition dev_read :: "dev_sys \<Rightarrow> device \<Rightarrow> uint8 list \<Rightarrow> nat \<Rightarrow> (int \<times> uint8 list) option" where
  "dev_read s d buf nbyte = do { drv \<leftarrow> dev_driver s d; ciaaDriverDio_read drv buf nbyte (gpio_pins s) }"

definition dev_write :: "dev_sys \<Rightarrow> device \<Rightarrow> uint8 list \<Rightarrow> nat \<Rightarrow> (int \<times> gpio) option" where
  "dev_write s d buf nbyte = do { drv \<leftarrow> dev_driver s d; ciaaDriverDio_write drv buf nbyte (gpio_pins s) }"

section \<open>The file descriptors\<close>

definition ciaaPOSIX_init :: "dev_sys \<Rightarrow> dev_sys" where
  "ciaaPOSIX_init s = s\<lparr>fildes := replicate ciaaPOSIX_stdio_MAXFILDES None\<rparr>"

fun free_fildes :: "device option list \<Rightarrow> nat \<Rightarrow> nat option" where
  "free_fildes [] i = None"
| "free_fildes (f # fs) i = (if f = None then Some i else free_fildes fs (i + 1))"

definition dev_prefix :: "char list" where "dev_prefix = ''/dev'' @ [ZERO]"

definition ciaaPOSIX_open :: "char list \<Rightarrow> dev_sys \<Rightarrow> (int \<times> dev_sys) option" where
  "ciaaPOSIX_open path s = do {
     n \<leftarrow> ciaaPOSIX_strlen dev_prefix;
     r \<leftarrow> ciaaPOSIX_strncmp path dev_prefix (unat n);
     if r = 0 then do {
       device \<leftarrow> ciaaDevices_getDevice path s;
       case device of
         None \<Rightarrow> Some (- 1, s)
       | Some d \<Rightarrow>
           (case free_fildes (fildes s) 0 of
              None \<Rightarrow> Some (- 1, s)
            | Some fd \<Rightarrow> do {
                rewriteDevice \<leftarrow> dev_open s d;
                fs \<leftarrow> wr (fildes s) fd rewriteDevice;
                Some (if rewriteDevice = None then - 1 else int fd, s\<lparr>fildes := fs\<rparr>) }) }
     else None }"

text \<open>A descriptor that is out of range or not in use is \<open>None\<close> inside the option.\<close>

definition device_of :: "int \<Rightarrow> dev_sys \<Rightarrow> device option option" where
  "device_of fd s =
     (if 0 \<le> fd \<and> fd < int ciaaPOSIX_stdio_MAXFILDES then rd (fildes s) (nat fd) else Some None)"

definition ciaaPOSIX_close :: "int \<Rightarrow> dev_sys \<Rightarrow> (int \<times> dev_sys) option" where
  "ciaaPOSIX_close fd s = do {
     d \<leftarrow> device_of fd s;
     case d of
       None \<Rightarrow> Some (- 1, s)
     | Some d \<Rightarrow> do {
         ret \<leftarrow> dev_close s d;
         if ret = 0 then do { fs \<leftarrow> wr (fildes s) (nat fd) None; Some (0, s\<lparr>fildes := fs\<rparr>) }
         else Some (- 1, s) } }"

text \<open>The request \<open>ciaaPOSIX_IOCTL_RXINDICATION\<close> is accepted by no branch and gives -1.\<close>

definition ciaaPOSIX_ioctl :: "int \<Rightarrow> bool \<Rightarrow> dev_sys \<Rightarrow> int option" where
  "ciaaPOSIX_ioctl fd rxindication s = do {
     d \<leftarrow> device_of fd s;
     case d of None \<Rightarrow> Some (- 1) | Some d \<Rightarrow> if rxindication then Some (- 1) else dev_ioctl s d }"

definition ciaaPOSIX_read :: "int \<Rightarrow> uint8 list \<Rightarrow> nat \<Rightarrow> dev_sys \<Rightarrow> (int \<times> uint8 list) option" where
  "ciaaPOSIX_read fd buf nbyte s = do {
     d \<leftarrow> device_of fd s;
     case d of None \<Rightarrow> Some (- 1, buf) | Some d \<Rightarrow> dev_read s d buf nbyte }"

definition ciaaPOSIX_write :: "int \<Rightarrow> uint8 list \<Rightarrow> nat \<Rightarrow> dev_sys \<Rightarrow> (int \<times> dev_sys) option" where
  "ciaaPOSIX_write fd buf nbyte s = do {
     d \<leftarrow> device_of fd s;
     case d of
       None \<Rightarrow> Some (- 1, s)
     | Some d \<Rightarrow> do { (ret, g) \<leftarrow> dev_write s d buf nbyte; Some (ret, s\<lparr>gpio_pins := g\<rparr>) } }"

text \<open>\<open>lseek\<close>: the layer never sets this function pointer of the device it allocates, and the driver has none.\<close>

definition ciaaPOSIX_lseek :: "int \<Rightarrow> dev_sys \<Rightarrow> int option" where
  "ciaaPOSIX_lseek fd s = do {
     d \<leftarrow> device_of fd s;
     case d of None \<Rightarrow> Some (- 1) | Some d \<Rightarrow> None }"

definition ciaaPOSIX_printf :: int where "ciaaPOSIX_printf = - 1"

section \<open>The start\<close>

text \<open>The pins that \<open>ciaa_lpc4337_gpio_init\<close> makes outputs and clears.\<close>

definition cleared_pins :: "pin list" where
  "cleared_pins = [(5,0), (5,1), (5,2), (0,14), (1,11), (1,12), (2,0), (2,1), (2,2), (2,3), (2,4), (2,5), (2,6), (5,14), (5,13), (3,3)]"

definition gpio_init :: "gpio \<Rightarrow> gpio" where
  "gpio_init g = fold (\<lambda>p g. g(p := False)) cleared_pins g"

definition ciaaDriverDio_init :: "(nat \<Rightarrow> char) \<Rightarrow> dev_sys \<Rightarrow> dev_sys option" where
  "ciaaDriverDio_init junk s = do {
     s \<leftarrow> ciaaDioDevices_addDriver junk dio_in0 (s\<lparr>gpio_pins := gpio_init (gpio_pins s)\<rparr>);
     ciaaDioDevices_addDriver junk dio_out0 s }"

text \<open>The steps of \<open>ciaak_start\<close> that initialise the heap, the registry and the digital inputs and outputs; the
  serial, block and analog devices are left out.\<close>

definition dio_start :: "(nat \<Rightarrow> char) \<Rightarrow> dev_sys \<Rightarrow> dev_sys option" where
  "dio_start junk s = ciaaDriverDio_init junk (ciaaDevices_init (s\<lparr>sys_heap := stdlib_init (sys_heap s)\<rparr>))"

text \<open>Memory as the C start-up code leaves it.\<close>

definition dev_reset :: "gpio \<Rightarrow> dev_sys" where
  "dev_reset g = \<lparr>gpio_pins = g, sys_heap = Map.empty, dev_list = [], devstr = [], dio_paths = [],
     fildes = replicate ciaaPOSIX_stdio_MAXFILDES None\<rparr>"

text \<open>What the initial task of the application opens: \<open>fd_out\<close> and \<open>fd_in\<close>.\<close>

definition open_ports :: "(nat \<Rightarrow> char) \<Rightarrow> gpio \<Rightarrow> (int \<times> int \<times> dev_sys) option" where
  "open_ports junk g = do {
     s \<leftarrow> dio_start junk (dev_reset g);
     (fd_out, s) \<leftarrow> ciaaPOSIX_open (''/dev/dio/out/0'' @ [ZERO]) s;
     (fd_in, s) \<leftarrow> ciaaPOSIX_open (''/dev/dio/in/0'' @ [ZERO]) s;
     Some (fd_out, fd_in, s) }"

section \<open>Opening and closing\<close>

definition dev_ok :: "dev_sys \<Rightarrow> bool" where
  "dev_ok s \<longleftrightarrow> length (fildes s) = ciaaPOSIX_stdio_MAXFILDES \<and> length (devstr s) = length (dio_paths s) \<and>
     (\<forall>p\<in>set (dio_paths s). ZERO \<in> set p \<and> length p < 2 ^ 32) \<and>
     (\<forall>d\<in>set (dev_list s). case d of Driver x \<Rightarrow> True | DioDevice k \<Rightarrow> k < length (devstr s))"

definition path_text :: "dev_sys \<Rightarrow> device \<Rightarrow> char list" where
  "path_text s d = (case dev_path s d of None \<Rightarrow> [] | Some p \<Rightarrow> text_of p)"

definition is_prefix :: "'a list \<Rightarrow> 'a list \<Rightarrow> bool" where
  "is_prefix xs ys \<longleftrightarrow> take (length xs) ys = xs"

lemma prefix_test:
  assumes "ZERO \<in> set path" and "ZERO \<in> set p" and "length p < 2 ^ 32"
  shows "\<exists>r. ciaaPOSIX_strlen p \<bind> (\<lambda>n. ciaaPOSIX_strncmp path p (unat n)) = Some r \<and>
    (r = 0 \<longleftrightarrow> is_prefix (text_of p) (text_of path))"
  using strlen_text [OF assms(2,3)] strncmp_lex [OF assms(1,2), of "length (text_of p)"]
  by (auto simp: lex_sign_0 map_code_inj is_prefix_def)

lemma find_device_first:
  assumes "ZERO \<in> set path" and "\<forall>d\<in>set ds. \<exists>p. dev_path s d = Some p \<and> ZERO \<in> set p \<and> length p < 2 ^ 32"
  shows "find_device s path ds = Some (find (\<lambda>d. is_prefix (path_text s d) (text_of path)) ds)"
  using assms(2)
proof (induction ds)
  case (Cons d ds)
  then obtain p where p: "dev_path s d = Some p" "ZERO \<in> set p" "length p < 2 ^ 32" by auto
  from prefix_test [OF assms(1) p(2,3)] obtain r where
    "ciaaPOSIX_strlen p \<bind> (\<lambda>n. ciaaPOSIX_strncmp path p (unat n)) = Some r"
    "r = 0 \<longleftrightarrow> is_prefix (text_of p) (text_of path)" by blast
  with p(1) Cons show ?case by (auto simp: path_text_def bind_eq_Some_conv)
qed simp

lemma dev_paths_ok: "dev_ok s \<Longrightarrow> d \<in> set (dev_list s) \<Longrightarrow> \<exists>p. dev_path s d = Some p \<and> ZERO \<in> set p \<and> length p < 2 ^ 32"
proof (cases d)
  case (Driver x)
  then show ?thesis by (cases x) auto
next
  case (DioDevice k)
  moreover assume "dev_ok s" "d \<in> set (dev_list s)"
  ultimately have "k < length (dio_paths s)" "\<forall>p\<in>set (dio_paths s). ZERO \<in> set p \<and> length p < 2 ^ 32"
    by (auto simp: dev_ok_def)
  with DioDevice show ?thesis by (auto simp: mem_simps)
qed

lemma dev_open_same: "dev_ok s \<Longrightarrow> d \<in> set (dev_list s) \<Longrightarrow> dev_open s d = Some (Some d)"
  by (cases d) (auto simp: dev_ok_def ciaaDriverDio_open_def mem_simps)

lemma free_fildes_first:
  "free_fildes fs i = (if None \<in> set fs then Some (i + length (takeWhile (\<lambda>f. f \<noteq> None) fs)) else None)"
  by (induction fs i rule: free_fildes.induct) auto

lemma first_free: "None \<in> set fs \<Longrightarrow> length (takeWhile (\<lambda>f. f \<noteq> None) fs) < length fs \<and>
    fs ! length (takeWhile (\<lambda>f. f \<noteq> None) fs) = None"
  by (induction fs) auto

lemma open_device:
  assumes s: "dev_ok s" and path: "ZERO \<in> set path"
  shows "ciaaPOSIX_open path s =
    (if \<not> is_prefix ''/dev'' (text_of path) then None
     else case find (\<lambda>d. is_prefix (path_text s d) (text_of path)) (dev_list s) of
         None \<Rightarrow> Some (- 1, s)
       | Some d \<Rightarrow>
           if None \<in> set (fildes s)
           then let fd = length (takeWhile (\<lambda>f. f \<noteq> None) (fildes s))
             in Some (int fd, s\<lparr>fildes := (fildes s)[fd := Some d]\<rparr>)
           else Some (- 1, s))"
proof -
  have "ZERO \<in> set dev_prefix" "length dev_prefix < 2 ^ 32" "text_of dev_prefix = ''/dev''" by (simp_all add: dev_prefix_def)
  from prefix_test [OF path this(1,2)] this(3) obtain r where
    r: "ciaaPOSIX_strlen dev_prefix \<bind> (\<lambda>n. ciaaPOSIX_strncmp path dev_prefix (unat n)) = Some r"
      "r = 0 \<longleftrightarrow> is_prefix ''/dev'' (text_of path)" by auto
  obtain n where n: "ciaaPOSIX_strlen dev_prefix = Some n" "ciaaPOSIX_strncmp path dev_prefix (unat n) = Some r"
    using r(1) by (auto simp: bind_eq_Some_conv)
  have find_: "ciaaDevices_getDevice path s = Some (find (\<lambda>d. is_prefix (path_text s d) (text_of path)) (dev_list s))"
    unfolding ciaaDevices_getDevice_def by (rule find_device_first [OF path]) (use dev_paths_ok [OF s] in blast)
  show ?thesis
  proof (cases "find (\<lambda>d. is_prefix (path_text s d) (text_of path)) (dev_list s)")
    case None
    with n r(2) find_ show ?thesis by (simp add: ciaaPOSIX_open_def)
  next
    case (Some d)
    then have "d \<in> set (dev_list s)" by (auto simp: find_Some_iff)
    note op = dev_open_same [OF s this]
    show ?thesis
      using n r(2) find_ Some op first_free [of "fildes s"]
      by (auto simp: ciaaPOSIX_open_def free_fildes_first mem_simps Let_def)
  qed
qed

section \<open>The devices after the start\<close>

lemma ciaak_malloc_ok:
  assumes "heap_ok h cs" and "first_fit sz cs = Some (r, cs')"
  shows "\<exists>h'. ciaak_malloc sz h = Some (r, h') \<and> heap_ok h' cs'"
proof -
  have "chain h (Some 0) cs" "tiles 0 cs" using assms(1) by (simp_all add: heap_ok_def)
  from malloc_from_chain [OF this, of sz] assms(2) show ?thesis
    by (auto simp: ciaak_malloc_def ciaaPOSIX_malloc_def heap_ok_def)
qed

definition path_size :: "dio_device \<Rightarrow> nat" where
  "path_size drv = length (text_of (driver_path drv)) + 10"

lemma dio_name:
  "\<exists>name. wr (map junk [0..<path_size drv]) 0 ZERO \<bind> (\<lambda>name. ciaaPOSIX_strcat name ciaaDioDevices_prefix \<bind>
      (\<lambda>name. ciaaPOSIX_strcat name (''/'' @ [ZERO]) \<bind> (\<lambda>name. ciaaPOSIX_strcat name (driver_path drv)))) = Some name \<and>
    text_of name = ''/dev/dio/'' @ text_of (driver_path drv) \<and> ZERO \<in> set name \<and> length name = path_size drv"
proof -
  let ?n0 = "(map junk [0..<path_size drv])[0 := ZERO]"
  have len: "length ?n0 = path_size drv" "path_size drv = length (text_of (driver_path drv)) + 10" "path_size drv < 2 ^ 32"
    by (cases drv; simp add: path_size_def)+
  then obtain xs where xs: "?n0 = ZERO # xs" by (cases "map junk [0..<path_size drv]") auto
  have t0: "text_of ?n0 = []" "ZERO \<in> set ?n0" unfolding xs by simp_all
  have p: "ZERO \<in> set ciaaDioDevices_prefix" "text_of ciaaDioDevices_prefix = ''/dev/dio''"
    "ZERO \<in> set (driver_path drv)" by (cases drv; simp add: ciaaDioDevices_prefix_def)+
  obtain n1 where n1: "ciaaPOSIX_strcat ?n0 ciaaDioDevices_prefix = Some n1" "text_of n1 = ''/dev/dio''"
    "length n1 = path_size drv" "ZERO \<in> set n1"
    using strcat_fits [OF t0(2) p(1)] t0 p len by auto
  obtain n2 where n2: "ciaaPOSIX_strcat n1 (''/'' @ [ZERO]) = Some n2" "text_of n2 = ''/dev/dio/''"
    "length n2 = path_size drv" "ZERO \<in> set n2"
    using strcat_fits [OF n1(4), of "''/'' @ [ZERO]"] n1 len by auto
  obtain n3 where n3: "ciaaPOSIX_strcat n2 (driver_path drv) = Some n3"
    "text_of n3 = ''/dev/dio/'' @ text_of (driver_path drv)" "length n3 = path_size drv" "ZERO \<in> set n3"
    using strcat_fits [OF n2(4) p(3)] n2 len by auto
  have "wr (map junk [0..<path_size drv]) 0 ZERO = Some ?n0" using len by (simp add: mem_simps)
  with n1 n2 n3 show ?thesis by simp
qed

lemma addDriver_ok:
  assumes h: "heap_ok (sys_heap s) cs" "first_fit 40 cs = Some (r1, cs1)" "first_fit (path_size drv) cs1 = Some (r2, cs2)"
    and room: "length (devstr s) < 20" "length (dev_list s) < 20"
  shows "\<exists>h' name. ciaaDioDevices_addDriver junk drv s = Some (s\<lparr>sys_heap := h', devstr := devstr s @ [drv],
      dio_paths := dio_paths s @ [name], dev_list := dev_list s @ [DioDevice (length (devstr s))]\<rparr>) \<and>
    heap_ok h' cs2 \<and> text_of name = ''/dev/dio/'' @ text_of (driver_path drv) \<and> ZERO \<in> set name \<and> length name = path_size drv"
proof -
  obtain h1 where h1: "ciaak_malloc 40 (sys_heap s) = Some (r1, h1)" "heap_ok h1 cs1"
    using ciaak_malloc_ok [OF h(1,2)] by blast
  obtain h2 where h2: "ciaak_malloc (path_size drv) h1 = Some (r2, h2)" "heap_ok h2 cs2"
    using ciaak_malloc_ok [OF h1(2) h(3)] by blast
  obtain name where name: "wr (map junk [0..<path_size drv]) 0 ZERO \<bind> (\<lambda>name. ciaaPOSIX_strcat name ciaaDioDevices_prefix \<bind>
      (\<lambda>name. ciaaPOSIX_strcat name (''/'' @ [ZERO]) \<bind> (\<lambda>name. ciaaPOSIX_strcat name (driver_path drv)))) = Some name"
    "text_of name = ''/dev/dio/'' @ text_of (driver_path drv)" "ZERO \<in> set name" "length name = path_size drv"
    using dio_name [of junk drv] by blast
  have n: "\<exists>n. ciaaPOSIX_strlen (driver_path drv) = Some n \<and> unat (ucast n + 8 + 2 :: uint8) = path_size drv"
    by (cases drv) (simp_all add: ciaaPOSIX_strlen_def path_size_def)
  then obtain n where n: "ciaaPOSIX_strlen (driver_path drv) = Some n" "unat (ucast n + 8 + 2 :: uint8) = path_size drv" by blast
  have m: "ciaaPOSIX_strlen ciaaDioDevices_prefix = Some 8" by (simp add: ciaaPOSIX_strlen_def ciaaDioDevices_prefix_def)
  have "ciaaDioDevices_addDriver junk drv s =
      do { name \<leftarrow> wr (map junk [0..<path_size drv]) 0 ZERO \<bind> (\<lambda>name. ciaaPOSIX_strcat name ciaaDioDevices_prefix \<bind>
            (\<lambda>name. ciaaPOSIX_strcat name (''/'' @ [ZERO]) \<bind> (\<lambda>name. ciaaPOSIX_strcat name (driver_path drv))));
          Some (ciaaDevices_addDevice (DioDevice (length (devstr s)))
            (s\<lparr>sys_heap := h2, devstr := devstr s @ [drv], dio_paths := dio_paths s @ [name]\<rparr>)) }"
    using room(1) h1(1) h2(1) n m
    by (simp add: ciaaDioDevices_addDriver_def ciaaDioDevices_MAXDEVICES_def Let_def)
  with name room(2) h2(2) show ?thesis
    by (intro exI [of _ h2] exI [of _ name]) (simp add: ciaaDevices_addDevice_def ciaaDevices_MAXDEVICES_def)
qed

lemma dio_start_ok:
  "\<exists>h p0 p1. dio_start junk (dev_reset g) = Some \<lparr>gpio_pins = gpio_init g, sys_heap = h, dev_list = [DioDevice 0, DioDevice 1],
      devstr = [dio_in0, dio_out0], dio_paths = [p0, p1], fildes = replicate 20 None\<rparr> \<and>
    text_of p0 = ''/dev/dio/in/0'' \<and> text_of p1 = ''/dev/dio/out/0'' \<and> ZERO \<in> set p0 \<and> ZERO \<in> set p1 \<and>
    length p0 = 14 \<and> length p1 = 15"
proof -
  let ?s0 = "(ciaaDevices_init ((dev_reset g)\<lparr>sys_heap := stdlib_init Map.empty\<rparr>))\<lparr>gpio_pins := gpio_init g\<rparr>"
  let ?c = "[(0, 9988, True)] :: chunk list"
  have c0: "heap_ok (stdlib_init Map.empty) ?c" using init_ok [of Map.empty] by (simp add: CIAA_HEAP_MEM_SIZE_def HEADER_def)
  have f1: "first_fit 40 ?c = Some (12, [(0, 40, False), (52, 9936, True)])"
    by (simp add: split_chunk_def HEADER_def)
  have f2: "first_fit (path_size dio_in0) [(0, 40, False), (52, 9936, True)] =
      Some (64, [(0, 40, False), (52, 14, False), (78, 9910, True)])"
    by (simp add: split_chunk_def HEADER_def path_size_def)
  obtain h1 p0 where s1: "ciaaDioDevices_addDriver junk dio_in0 ?s0 = Some (?s0\<lparr>sys_heap := h1, devstr := [dio_in0],
      dio_paths := [p0], dev_list := [DioDevice 0]\<rparr>)"
    "heap_ok h1 [(0, 40, False), (52, 14, False), (78, 9910, True)]"
    "text_of p0 = ''/dev/dio/in/0''" "ZERO \<in> set p0" "length p0 = 14"
    using addDriver_ok [of ?s0 ?c 12 "[(0, 40, False), (52, 9936, True)]" dio_in0 64
        "[(0, 40, False), (52, 14, False), (78, 9910, True)]" junk] c0 f1 f2
    by (auto simp: ciaaDevices_init_def dev_reset_def path_size_def)
  let ?s1 = "?s0\<lparr>sys_heap := h1, devstr := [dio_in0], dio_paths := [p0], dev_list := [DioDevice 0]\<rparr>"
  let ?c1 = "[(0, 40, False), (52, 14, False), (78, 9910, True)] :: chunk list"
  let ?c2 = "[(0, 40, False), (52, 14, False), (78, 40, False), (130, 9858, True)] :: chunk list"
  let ?c3 = "[(0, 40, False), (52, 14, False), (78, 40, False), (130, 15, False), (157, 9831, True)] :: chunk list"
  have f3: "first_fit 40 ?c1 = Some (90, ?c2)" by (simp add: split_chunk_def HEADER_def)
  have f4: "first_fit (path_size dio_out0) ?c2 = Some (142, ?c3)"
    by (simp add: split_chunk_def HEADER_def path_size_def)
  obtain h2 p1 where s2: "ciaaDioDevices_addDriver junk dio_out0 ?s1 = Some (?s1\<lparr>sys_heap := h2, devstr := [dio_in0, dio_out0],
      dio_paths := [p0, p1], dev_list := [DioDevice 0, DioDevice 1]\<rparr>)"
    "text_of p1 = ''/dev/dio/out/0''" "ZERO \<in> set p1" "length p1 = 15"
    using addDriver_ok [of ?s1 ?c1 90 ?c2 dio_out0 142 ?c3 junk] s1(2) f3 f4
    by (auto simp: ciaaDevices_init_def dev_reset_def path_size_def)
  have "dio_start junk (dev_reset g) = Some (?s1\<lparr>sys_heap := h2, devstr := [dio_in0, dio_out0],
      dio_paths := [p0, p1], dev_list := [DioDevice 0, DioDevice 1]\<rparr>)"
    using s1(1) s2(1) by (simp add: dio_start_def ciaaDriverDio_init_def ciaaDevices_init_def dev_reset_def)
  with s1(3-5) s2(2-4) show ?thesis
    by (simp add: ciaaDevices_init_def dev_reset_def ciaaPOSIX_stdio_MAXFILDES_def)
qed

lemma open_ports_ok:
  "\<exists>s. open_ports junk g = Some (0, 1, s) \<and> dev_ok s \<and> gpio_pins s = gpio_init g \<and> devstr s = [dio_in0, dio_out0] \<and>
    fildes s = Some (DioDevice 1) # Some (DioDevice 0) # replicate 18 None"
proof -
  obtain h p0 p1 where st: "dio_start junk (dev_reset g) = Some \<lparr>gpio_pins = gpio_init g, sys_heap = h,
      dev_list = [DioDevice 0, DioDevice 1], devstr = [dio_in0, dio_out0], dio_paths = [p0, p1], fildes = replicate 20 None\<rparr>"
    and p: "text_of p0 = ''/dev/dio/in/0''" "text_of p1 = ''/dev/dio/out/0''" "ZERO \<in> set p0" "ZERO \<in> set p1"
      "length p0 = 14" "length p1 = 15"
    using dio_start_ok [of junk g] by blast
  let ?s = "\<lambda>fs. \<lparr>gpio_pins = gpio_init g, sys_heap = h, dev_list = [DioDevice 0, DioDevice 1], devstr = [dio_in0, dio_out0],
    dio_paths = [p0, p1], fildes = fs\<rparr>"
  have ok: "dev_ok (?s fs)" if "length fs = 20" for fs
    using that p(3-6) by (simp add: dev_ok_def ciaaPOSIX_stdio_MAXFILDES_def)
  have pt: "path_text (?s fs) (DioDevice 0) = ''/dev/dio/in/0''" "path_text (?s fs) (DioDevice 1) = ''/dev/dio/out/0''" for fs
    using p(1,2) by (simp_all add: path_text_def rd_def)
  have "ciaaPOSIX_open (''/dev/dio/out/0'' @ [ZERO]) (?s (replicate 20 None)) =
      Some (0, ?s ((replicate 20 None)[0 := Some (DioDevice 1)]))"
    using open_device [OF ok [of "replicate 20 None"], of "''/dev/dio/out/0'' @ [ZERO]"] pt
    by (simp add: is_prefix_def numeral_eq_Suc)
  moreover have "(replicate 20 None)[0 := Some (DioDevice 1)] = Some (DioDevice 1) # replicate 19 None"
    by (simp add: numeral_eq_Suc)
  moreover have "ciaaPOSIX_open (''/dev/dio/in/0'' @ [ZERO]) (?s (Some (DioDevice 1) # replicate 19 None)) =
      Some (1, ?s (Some (DioDevice 1) # Some (DioDevice 0) # replicate 18 None))"
    using open_device [OF ok [of "Some (DioDevice 1) # replicate 19 None"], of "''/dev/dio/in/0'' @ [ZERO]"] pt
    by (simp add: is_prefix_def numeral_eq_Suc)
  ultimately show ?thesis
    using st ok [of "Some (DioDevice 1) # Some (DioDevice 0) # replicate 18 None"] by (simp add: open_ports_def)
qed

lemma open_ports_reads: "open_ports junk g = Some (0, 1, s) \<Longrightarrow> fildes s ! 0 = Some (DioDevice 1) \<and> fildes s ! 1 = Some (DioDevice 0)"
  using open_ports_ok [of junk g] by auto

section \<open>The properties\<close>

text \<open>C0: \<open>ciaaPOSIX_open\<close> gives the lowest free descriptor to the first registered device whose path is a prefix of
  the path asked for, and -1, changing nothing, if there is no such device or no free descriptor. A
  path outside \<open>/dev\<close> ends in an assertion.\<close>

theorem open_correct:
  assumes "dev_ok s" and "ZERO \<in> set path"
  shows "ciaaPOSIX_open path s =
    (if \<not> is_prefix ''/dev'' (text_of path) then None
     else case find (\<lambda>d. is_prefix (path_text s d) (text_of path)) (dev_list s) of
         None \<Rightarrow> Some (- 1, s)
       | Some d \<Rightarrow>
           if None \<in> set (fildes s)
           then let fd = length (takeWhile (\<lambda>f. f \<noteq> None) (fildes s))
             in Some (int fd, s\<lparr>fildes := (fildes s)[fd := Some d]\<rparr>)
           else Some (- 1, s))"
  by (rule open_device [OF assms])

theorem open_correct_witness:
  "\<exists>s. open_ports (\<lambda>_. CHR ''x'') (\<lambda>_. False) = Some (0, 1, s) \<and> ciaaPOSIX_open (''/tmp'' @ [ZERO]) s = None"
proof -
  obtain s where s: "open_ports (\<lambda>_. CHR ''x'') (\<lambda>_. False) = Some (0, 1, s)" "dev_ok s"
    using open_ports_ok by blast
  have "ZERO \<in> set (''/tmp'' @ [ZERO])" "\<not> is_prefix ''/dev'' (text_of (''/tmp'' @ [ZERO]))"
    by (simp_all add: is_prefix_def)
  with open_correct [OF s(2) this(1)] s(1) show ?thesis by (simp only: if_True not_False_eq_True) blast
qed

text \<open>closing the descriptor that an open has given returns the system to the state before the open; closing
  it again, or a number that is no descriptor, is refused and changes nothing.\<close>

lemma open_close:
  assumes "dev_ok s" and "ZERO \<in> set path" and "ciaaPOSIX_open path s = Some (fd, s1)" and "fd \<noteq> - 1"
  shows "ciaaPOSIX_close fd s1 = Some (0, s) \<and> ciaaPOSIX_close fd s = Some (- 1, s) \<and> ciaaPOSIX_close (- 1) s = Some (- 1, s) \<and>
    ciaaPOSIX_close 20 s = Some (- 1, s)"
proof -
  let ?n = "length (takeWhile (\<lambda>f. f \<noteq> None) (fildes s))"
  obtain d where d: "find (\<lambda>d. is_prefix (path_text s d) (text_of path)) (dev_list s) = Some d" "None \<in> set (fildes s)"
    "fd = int ?n" "s1 = s\<lparr>fildes := (fildes s)[?n := Some d]\<rparr>"
    using open_device [OF assms(1,2)] assms(3,4) by (auto simp: Let_def split: if_splits option.splits)
  have n: "?n < 20" "fildes s ! ?n = None" "length (fildes s) = 20"
    using first_free [OF d(2)] assms(1) by (simp_all add: dev_ok_def ciaaPOSIX_stdio_MAXFILDES_def)
  have mem: "d \<in> set (dev_list s)" using d(1) by (auto simp: find_Some_iff)
  have "(case d of Driver x \<Rightarrow> True | DioDevice k \<Rightarrow> k < length (devstr s))"
    using mem assms(1) unfolding dev_ok_def by blast
  then have "\<exists>x. dev_driver s1 d = Some x"
    using d(4) by (cases d) (simp_all add: mem_simps)
  then have c: "dev_close s1 d = Some 0" by (auto simp: dev_close_def ciaaDriverDio_close_def)
  have "device_of fd s1 = Some (Some d)" using n d(3,4) by (simp add: device_of_def ciaaPOSIX_stdio_MAXFILDES_def mem_simps)
  moreover have "wr (fildes s1) (nat fd) None = Some (fildes s)"
    using n d(3,4) by (simp add: mem_simps) (metis list_update_id)
  ultimately have "ciaaPOSIX_close fd s1 = Some (0, s)" using c d(4) by (simp add: ciaaPOSIX_close_def)
  moreover have "ciaaPOSIX_close fd s = Some (- 1, s)"
    using n d(3) by (simp add: ciaaPOSIX_close_def device_of_def ciaaPOSIX_stdio_MAXFILDES_def mem_simps)
  moreover have "ciaaPOSIX_close (- 1) s = Some (- 1, s)" "ciaaPOSIX_close 20 s = Some (- 1, s)"
    by (simp_all add: ciaaPOSIX_close_def device_of_def ciaaPOSIX_stdio_MAXFILDES_def)
  ultimately show ?thesis by simp
qed

end
