(* ===== verification/Board.thy ===== *)
theory Board
  imports Devices AppMain
begin

text \<open>
  The application on its board: the two files that the initial task opens carry the output word to the pins of
  the display and of the keypad's rows, and bring the levels of the keypad's columns and of the board's buttons
  back. The assumption of the scan's property about the input byte is discharged here by the wiring of
  the keypad and the model of the files and the driver.
\<close>

section \<open>The files of the application\<close>

definition opened :: "dev_sys \<Rightarrow> bool" where
  "opened s \<longleftrightarrow> devstr s = [dio_in0, dio_out0] \<and>
     fildes s = Some (DioDevice 1) # Some (DioDevice 0) # replicate 18 None"

lemma opened_pins [simp]: "opened (s\<lparr>gpio_pins := g\<rparr>) = opened s"
  by (simp add: opened_def)

lemma write_opened:
  "opened s \<Longrightarrow> ciaaPOSIX_write 0 (bytes16 w) 2 s = Some (1, s\<lparr>gpio_pins := pins_set w 16 (gpio_pins s)\<rparr>)"
  by (simp add: opened_def ciaaPOSIX_write_def device_of_def ciaaPOSIX_stdio_MAXFILDES_def rd_def dev_write_def write_word)

lemma read_opened: "opened s \<Longrightarrow> ciaaPOSIX_read 1 [b] 1 s = Some (1, [pins_byte (gpio_pins s) 7 0])"
  by (simp add: opened_def ciaaPOSIX_read_def device_of_def ciaaPOSIX_stdio_MAXFILDES_def rd_def dev_read_def read_byte)

text \<open>The trace of the output words, played through the file.\<close>

fun play :: "out_event list \<Rightarrow> dev_sys \<Rightarrow> dev_sys option" where
  "play [] s = Some s"
| "play (OutWrite w # es) s = do { (_, s) \<leftarrow> ciaaPOSIX_write 0 (bytes16 w) 2 s; play es s }"
| "play (OutDelay t # es) s = play es s"

fun last_word :: "uint16 \<Rightarrow> out_event list \<Rightarrow> uint16" where
  "last_word w [] = w"
| "last_word w (OutWrite v # es) = last_word v es"
| "last_word w (OutDelay t # es) = last_word w es"

definition word_on_pins :: "uint16 \<Rightarrow> gpio \<Rightarrow> bool" where
  "word_on_pins w g \<longleftrightarrow> (\<forall>k<16. g (ciaaDriverDio_Outputs ! k) = bit w k)"

lemma play_word:
  "opened s \<Longrightarrow> word_on_pins w (gpio_pins s) \<Longrightarrow>
    \<exists>g. play es s = Some (s\<lparr>gpio_pins := g\<rparr>) \<and> word_on_pins (last_word w es) g \<and>
      (\<forall>p. p \<notin> set ciaaDriverDio_Outputs \<longrightarrow> g p = gpio_pins s p)"
proof (induction es s arbitrary: w rule: play.induct)
  case (1 s)
  then show ?case by (intro exI [of _ "gpio_pins s"]) simp
next
  case (2 v es s)
  let ?s = "s\<lparr>gpio_pins := pins_set v 16 (gpio_pins s)\<rparr>"
  have "opened ?s" "word_on_pins v (gpio_pins ?s)" using 2(2) pins_set_out by (simp_all add: word_on_pins_def)
  from 2(1) [OF _ refl this] write_opened [OF 2(2), of v] pins_set_other [of 16 _ v "gpio_pins s"]
  show ?case by fastforce
next
  case (3 t es s)
  then show ?case by simp
qed

section \<open>The keypad\<close>

text \<open>The levels of the input pins: \<open>B i\<close> a button of the board is down, \<open>K r c\<close> the key in row \<open>r\<close> and column
  \<open>c\<close>; the pins have pull-ups, and a key joins its column to its row.\<close>

definition row_pin :: "nat \<Rightarrow> pin" where "row_pin r = ciaaDriverDio_Outputs ! (6 + r)"

definition settle :: "(nat \<Rightarrow> bool) \<Rightarrow> (nat \<Rightarrow> nat \<Rightarrow> bool) \<Rightarrow> gpio \<Rightarrow> gpio" where
  "settle B K g p =
     (case map_of (zip ciaaDriverDio_Inputs [0..<7]) p of
        None \<Rightarrow> g p
      | Some i \<Rightarrow> if i < 4 then \<not> B i else \<not> (\<exists>r<4. K r (i - 4) \<and> \<not> g (row_pin r)))"

lemma settle_in: "i < 7 \<Longrightarrow> settle B K g (ciaaDriverDio_Inputs ! i) =
    (if i < 4 then \<not> B i else \<not> (\<exists>r<4. K r (i - 4) \<and> \<not> g (row_pin r)))"
proof -
  assume i: "i < 7"
  have d: "distinct ciaaDriverDio_Inputs" by (simp add: ciaaDriverDio_Inputs_def)
  have "map_of (zip ciaaDriverDio_Inputs [0..<7]) (ciaaDriverDio_Inputs ! i) = Some ([0..<7] ! i)"
    by (rule map_of_zip_nth) (use d i in \<open>simp_all add: out_count\<close>)
  with i show ?thesis by (simp add: settle_def)
qed

section \<open>The properties\<close>

text \<open>C15: after the start the application's two files are open, and whatever it then writes to its output word, the
  trace of the display and of the scan included, the pins of the display and of the keypad's rows show
  exactly the last word written, and no other pin changes.\<close>

theorem outputs_follow_word:
  "\<exists>s. open_ports junk g = Some (0, 1, s) \<and> word_on_pins 0 (gpio_pins s) \<and>
    (\<forall>es. \<exists>g'. play es s = Some (s\<lparr>gpio_pins := g'\<rparr>) \<and> word_on_pins (last_word 0 es) g' \<and>
      (\<forall>p. p \<notin> set ciaaDriverDio_Outputs \<longrightarrow> g' p = gpio_pins s p))"
proof -
  obtain s where s: "open_ports junk g = Some (0, 1, s)" "gpio_pins s = gpio_init g" "opened s"
    using open_ports_ok [of junk g] by (auto simp: opened_def)
  have "word_on_pins 0 (gpio_init g)"
  proof -
    have "list_all (\<lambda>p. p \<in> set cleared_pins) ciaaDriverDio_Outputs" by code_simp
    moreover have "p \<in> set ps \<Longrightarrow> \<not> fold (\<lambda>p g. g(p := False)) ps g p" for p ps
      by (induction ps rule: rev_induct) auto
    ultimately show ?thesis by (auto simp: word_on_pins_def gpio_init_def list_all_iff out_count)
  qed
  with s play_word [OF s(3), of 0] show ?thesis by auto
qed

theorem outputs_follow_word_witness:
  "\<exists>s g'. open_ports (\<lambda>_. ZERO) (\<lambda>_. True) = Some (0, 1, s) \<and>
    play [OutWrite 0x8000, OutDelay 3] s = Some (s\<lparr>gpio_pins := g'\<rparr>) \<and> word_on_pins 0x8000 g'"
proof -
  obtain s where "open_ports (\<lambda>_. ZERO) (\<lambda>_. True) = Some (0, 1, s)"
    "\<exists>g'. play [OutWrite 0x8000, OutDelay 3] s = Some (s\<lparr>gpio_pins := g'\<rparr>) \<and>
      word_on_pins (last_word 0 [OutWrite 0x8000, OutDelay 3]) g'"
    using outputs_follow_word [of "\<lambda>_. ZERO" "\<lambda>_. True"] by metis
  then show ?thesis by auto
qed

text \<open>C32: driving a row of the keypad through the output file and reading the input file gives the byte that the
  property of the scan assumes: a board button or a key of a driven row reads 0, every other line reads 1.\<close>

theorem keypad_byte_correct:
  assumes "opened s"
  shows "\<exists>s1 v. ciaaPOSIX_write 0 (bytes16 w) 2 s = Some (1, s1) \<and>
    ciaaPOSIX_read 1 [b] 1 (s1\<lparr>gpio_pins := settle B K (gpio_pins s1)\<rparr>) = Some (1, [v]) \<and> reads B K w v"
proof -
  let ?s1 = "s\<lparr>gpio_pins := pins_set w 16 (gpio_pins s)\<rparr>"
  define g where "g = settle B K (gpio_pins ?s1)"
  define v where "v = pins_byte g 7 0"
  have "ciaaPOSIX_read 1 [b] 1 (?s1\<lparr>gpio_pins := g\<rparr>) = Some (1, [v])"
    using read_opened [of "?s1\<lparr>gpio_pins := g\<rparr>" b] assms by (simp add: v_def)
  moreover have bit_v: "bit v k \<longleftrightarrow> k < 7 \<and> g (ciaaDriverDio_Inputs ! k)" for k
    using bit_pins_byte [of 7 g k] by (simp add: v_def)
  have rows: "gpio_pins ?s1 (row_pin r) = bit w (6 + r)" if "r < 4" for r
    using pins_set_out [of 16 "6 + r" w "gpio_pins s"] that by (simp add: row_pin_def)
  have g: "g (ciaaDriverDio_Inputs ! i) = (if i < 4 then \<not> B i else \<not> (\<exists>r<4. K r (i - 4) \<and> \<not> bit w (6 + r)))"
    if "i < 7" for i
    using settle_in [OF that, of B K "gpio_pins ?s1"] rows by (auto simp: g_def)
  have "reads B K w v" by (auto simp: reads_def bit_v g)
  ultimately show ?thesis using write_opened [OF assms, of w] g_def by blast
qed

theorem keypad_byte_correct_witness:
  "\<exists>s s1 v. open_ports (\<lambda>_. ZERO) (\<lambda>_. True) = Some (0, 1, s) \<and> ciaaPOSIX_write 0 (bytes16 0x0380) 2 s = Some (1, s1) \<and>
    reads (\<lambda>_. False) (\<lambda>r c. r = 0 \<and> c = 1) 0x0380 v"
proof -
  obtain s where s: "open_ports (\<lambda>_. ZERO) (\<lambda>_. True) = Some (0, 1, s)" "opened s"
    using open_ports_ok [of "\<lambda>_. ZERO" "\<lambda>_. True"] by (auto simp: opened_def)
  from keypad_byte_correct [OF s(2), of "0x0380" 0 "\<lambda>_. False" "\<lambda>r c. r = 0 \<and> c = 1"] s(1) show ?thesis by blast
qed

end
