(* ===== verification/SerialDevices.thy ===== *)
theory SerialDevices
  imports CircBuf OsEvents
begin

text \<open>
  The layer of the serial devices, \<^verbatim>\<open>modules/posix/src/ciaaSerialDevices.c\<close>: two circular buffers between
  the tasks and the driver of a port, and the task that sleeps until one of them moves.

  The driver is reached through function pointers. They are arguments here: \<open>drv_read\<close> stores bytes into
  an array at a position, \<open>drv_write\<close> sends bytes from an array, \<open>drv_ioctl\<close> takes a request. A device is its
  entry in \<open>ciaaSerialDevices.devstr\<close> together with the state of its driver; the kernel is the state of the
  operating system, which the layer calls for the events. \<open>POSIXE\<close> is the mask of the event.

  An interrupt runs between two steps of a task. \<open>WaitEvent\<close> may put the caller to sleep, so a call that waits
  is cut there: what follows the wait is an operation of its own.
\<close>

section \<open>The device\<close>

datatype serial_fct = FctRead | FctWrite

record 'u serial_device =
  rxBuf :: circBuf
  txBuf :: circBuf
  dev_flags :: uint8
  blocked_task :: nat
  blocked_fct :: "serial_fct option"
  serial_errno :: int
  drv :: 'u

definition NO_TASK :: nat where "NO_TASK = 255"
definition NONBLOCK_MODE :: uint8 where "NONBLOCK_MODE = 0x01"
definition EAGAIN :: int where "EAGAIN = 1"

datatype serial_request =
    IOCTL_RXINDICATION | IOCTL_STARTTX | IOCTL_GET_RX_COUNT | IOCTL_GET_TX_SPACE
  | IOCTL_SET_BAUDRATE uint32 | IOCTL_SET_FIFO_TRIGGER_LEVEL uint32
  | IOCTL_SET_ENABLE_TX_INTERRUPT bool | IOCTL_SET_ENABLE_RX_INTERRUPT bool
  | IOCTL_SET_NONBLOCK_MODE bool

type_synonym 'u drv_read = "uint8 list \<Rightarrow> nat \<Rightarrow> nat \<Rightarrow> 'u \<Rightarrow> (int \<times> uint8 list \<times> 'u) option"
type_synonym 'u drv_write = "uint8 list \<Rightarrow> nat \<Rightarrow> 'u \<Rightarrow> (int \<times> 'u) option"
type_synonym 'u drv_ioctl =
  "serial_request \<Rightarrow> 'u serial_device \<Rightarrow> os_state \<Rightarrow> (int \<times> 'u serial_device \<times> os_state) option"

section \<open>Calls from the driver\<close>

text \<open>The end of both: the task that sleeps in the function \<open>f\<close> is forgotten and gets its event.\<close>

definition wake_blocked :: "os_cfg \<Rightarrow> uint32 \<Rightarrow> 'u serial_device \<Rightarrow> os_state \<Rightarrow>
    ('u serial_device \<times> os_state) option" where
  "wake_blocked cfg POSIXE d os = do {
     (_, os) \<leftarrow> SetEvent cfg (blocked_task d) POSIXE os;
     Some (d\<lparr>blocked_task := NO_TASK, blocked_fct := None\<rparr>, os) }"

definition ciaaSerialDevices_txConfirmation :: "'u drv_write \<Rightarrow> os_cfg \<Rightarrow> uint32 \<Rightarrow> 'u serial_device \<Rightarrow>
    os_state \<Rightarrow> ('u serial_device \<times> os_state) option" where
  "ciaaSerialDevices_txConfirmation drv_write cfg POSIXE d os = do {
     let cbuf = txBuf d;
     let tail = cb_tail cbuf;
     let rawCount = circBufRawCount cbuf tail;
     let count = circBufCount cbuf tail;
     if 0 < count then do {
       (r, u) \<leftarrow> drv_write (drop (unat (cb_head cbuf)) (cb_buf cbuf)) (unat rawCount) (drv d);
       let write = (word_of_int r :: uint32);
       let cbuf = circBufUpdateHead cbuf write;
       (cbuf, u) \<leftarrow> (if write = rawCount \<and> rawCount < count then do {
           let rawCount = circBufRawCount cbuf tail;
           (r, u) \<leftarrow> drv_write (drop (unat (cb_head cbuf)) (cb_buf cbuf)) (unat rawCount) u;
           let write = (word_of_int r :: uint32);
           Some (if 0 < write then circBufUpdateHead cbuf write else cbuf, u) }
         else Some (cbuf, u));
       let d' = d\<lparr>txBuf := cbuf, drv := u\<rparr>;
       if NO_TASK \<noteq> blocked_task d \<and> blocked_fct d = Some FctWrite
       then wake_blocked cfg POSIXE d' os else Some (d', os) }
     else Some (d, os) }"

definition ciaaSerialDevices_rxIndication :: "'u drv_read \<Rightarrow> os_cfg \<Rightarrow> uint32 \<Rightarrow> 'u serial_device \<Rightarrow>
    os_state \<Rightarrow> ('u serial_device \<times> os_state) option" where
  "ciaaSerialDevices_rxIndication drv_read cfg POSIXE d os = do {
     let cbuf = rxBuf d;
     let head = cb_head cbuf;
     let rawSpace = circBufRawSpace cbuf head;
     let space = circBufSpace cbuf head;
     (r, b, u) \<leftarrow> drv_read (cb_buf cbuf) (unat (cb_tail cbuf)) (unat rawSpace) (drv d);
     let read = (word_of_int r :: uint32);
     (read, b, u) \<leftarrow> (if read = rawSpace \<and> rawSpace < space then do {
         (r, b, u) \<leftarrow> drv_read b 0 (unat (space - rawSpace)) u;
         Some (read + word_of_int r, b, u) }
       else Some (read, b, u));
     let d' = d\<lparr>rxBuf := circBufUpdateTail (cbuf\<lparr>cb_buf := b\<rparr>) read, drv := u\<rparr>;
     if 0 < read \<and> NO_TASK \<noteq> blocked_task d \<and> blocked_fct d = Some FctRead
     then wake_blocked cfg POSIXE d' os else Some (d', os) }"

section \<open>Calls from the tasks\<close>

definition ciaaSerialDevices_ioctl :: "'u drv_ioctl \<Rightarrow> serial_request \<Rightarrow> 'u serial_device \<Rightarrow> os_state \<Rightarrow>
    (int \<times> uint32 option \<times> 'u serial_device \<times> os_state) option" where
  "ciaaSerialDevices_ioctl drv_ioctl request d os =
     (case request of
        IOCTL_GET_RX_COUNT \<Rightarrow> Some (0, Some (circBufCount (rxBuf d) (cb_tail (rxBuf d))), d, os)
      | IOCTL_GET_TX_SPACE \<Rightarrow> Some (0, Some (circBufSpace (txBuf d) (cb_head (txBuf d))), d, os)
      | IOCTL_RXINDICATION \<Rightarrow> Some (0, None, d, os)
      | IOCTL_SET_NONBLOCK_MODE param \<Rightarrow>
          Some (0, None,
            d\<lparr>dev_flags := (if param then dev_flags d OR NONBLOCK_MODE else dev_flags d AND NOT NONBLOCK_MODE)\<rparr>, os)
      | _ \<Rightarrow> do { (ret, d, os) \<leftarrow> drv_ioctl request d os; Some (ret, None, d, os) })"

text \<open>The result of a call: it has returned a value and the caller's array, or it has called \<open>WaitEvent\<close>.\<close>

datatype 'a outcome = Returned int 'a | Waits 'a

definition block_in :: "'u drv_ioctl \<Rightarrow> (bool \<Rightarrow> serial_request) \<Rightarrow> serial_fct \<Rightarrow> os_cfg \<Rightarrow> uint32 \<Rightarrow>
    'u serial_device \<Rightarrow> os_state \<Rightarrow> ('u serial_device \<times> os_state) option" where
  "block_in drv_ioctl interrupt f cfg POSIXE d os = do {
     (_, d, os) \<leftarrow> drv_ioctl (interrupt False) d os;
     let d = d\<lparr>blocked_task := snd (GetTaskID os), blocked_fct := Some f\<rparr>;
     (_, d, os) \<leftarrow> drv_ioctl (interrupt True) d os;
     (_, os) \<leftarrow> WaitEvent cfg POSIXE os;
     Some (d, os) }"

definition ciaaSerialDevices_read :: "'u drv_ioctl \<Rightarrow> os_cfg \<Rightarrow> uint32 \<Rightarrow> uint8 list \<Rightarrow> uint32 \<Rightarrow>
    'u serial_device \<Rightarrow> os_state \<Rightarrow> (uint8 list outcome \<times> 'u serial_device \<times> os_state) option" where
  "ciaaSerialDevices_read drv_ioctl cfg POSIXE buf nbyte d os =
     (if \<not> circBufEmpty (rxBuf d) then do {
        (n, buf, c) \<leftarrow> circBufGet (rxBuf d) buf nbyte;
        Some (Returned (sint n) buf, d\<lparr>rxBuf := c\<rparr>, os) }
      else if dev_flags d AND NONBLOCK_MODE \<noteq> 0 then
        Some (Returned (- 1) buf, d\<lparr>serial_errno := EAGAIN\<rparr>, os)
      else do {
        (d, os) \<leftarrow> block_in drv_ioctl IOCTL_SET_ENABLE_RX_INTERRUPT FctRead cfg POSIXE d os;
        Some (Waits buf, d, os) })"

text \<open>What the read does when the wait returns.\<close>

definition serial_read_resume :: "os_cfg \<Rightarrow> uint32 \<Rightarrow> uint8 list \<Rightarrow> uint32 \<Rightarrow> 'u serial_device \<Rightarrow>
    os_state \<Rightarrow> (uint8 list outcome \<times> 'u serial_device \<times> os_state) option" where
  "serial_read_resume cfg POSIXE buf nbyte d os = do {
     (_, os) \<leftarrow> ClearEvent cfg POSIXE os;
     (n, buf, c) \<leftarrow> circBufGet (rxBuf d) buf nbyte;
     Some (Returned (sint n) buf, d\<lparr>rxBuf := c\<rparr>, os) }"

text \<open>One pass of the loop of the write: \<open>written\<close> bytes are stored already. A write that has to wait carries the
  new total.\<close>

definition serial_write_pass :: "'u drv_ioctl \<Rightarrow> os_cfg \<Rightarrow> uint32 \<Rightarrow> uint8 list \<Rightarrow> uint32 \<Rightarrow> uint32 \<Rightarrow>
    'u serial_device \<Rightarrow> os_state \<Rightarrow> (uint32 outcome \<times> 'u serial_device \<times> os_state) option" where
  "serial_write_pass drv_ioctl cfg POSIXE buf nbyte written d os = do {
     let cbuf = txBuf d;
     let space = circBufSpace cbuf (cb_head cbuf);
     (ret, cbuf) \<leftarrow> circBufPut cbuf (drop (unat written) buf) (if space < nbyte - written then space else nbyte - written);
     let written = written + ret;
     (_, d, os) \<leftarrow> drv_ioctl IOCTL_STARTTX (d\<lparr>txBuf := cbuf\<rparr>) os;
     if written < nbyte then do {
       (d, os) \<leftarrow> block_in drv_ioctl IOCTL_SET_ENABLE_TX_INTERRUPT FctWrite cfg POSIXE d os;
       Some (Waits written, d, os) }
     else Some (Returned (sint written) written, d, os) }"

definition ciaaSerialDevices_write :: "'u drv_ioctl \<Rightarrow> os_cfg \<Rightarrow> uint32 \<Rightarrow> uint8 list \<Rightarrow> uint32 \<Rightarrow>
    'u serial_device \<Rightarrow> os_state \<Rightarrow> (uint32 outcome \<times> 'u serial_device \<times> os_state) option" where
  "ciaaSerialDevices_write drv_ioctl cfg POSIXE buf nbyte d os =
     serial_write_pass drv_ioctl cfg POSIXE buf nbyte 0 d os"

definition serial_write_resume :: "'u drv_ioctl \<Rightarrow> os_cfg \<Rightarrow> uint32 \<Rightarrow> uint8 list \<Rightarrow> uint32 \<Rightarrow> uint32 \<Rightarrow>
    'u serial_device \<Rightarrow> os_state \<Rightarrow> (uint32 outcome \<times> 'u serial_device \<times> os_state) option" where
  "serial_write_resume drv_ioctl cfg POSIXE buf nbyte written d os = do {
     (_, os) \<leftarrow> ClearEvent cfg POSIXE os;
     serial_write_pass drv_ioctl cfg POSIXE buf nbyte written d os }"

text \<open>The entry of a device when its driver registers, with the two blocks of 256 bytes from the heap, and what
  \<open>open\<close> does to it.\<close>

definition serial_setup :: "uint8 list \<Rightarrow> uint8 list \<Rightarrow> 'u \<Rightarrow> 'u serial_device \<Rightarrow> 'u serial_device" where
  "serial_setup rx tx u d =
     d\<lparr>rxBuf := snd (circBufInit (rxBuf d) (Some rx) 256), txBuf := snd (circBufInit (txBuf d) (Some tx) 256),
       dev_flags := 0, drv := u\<rparr>"

definition ciaaSerialDevices_init :: "'u serial_device \<Rightarrow> 'u serial_device" where
  "ciaaSerialDevices_init d = d\<lparr>blocked_task := NO_TASK, blocked_fct := None\<rparr>"

definition O_NONBLOCK :: uint8 where "O_NONBLOCK = 0x04"

definition ciaaSerialDevices_open :: "('u \<Rightarrow> 'u) \<Rightarrow> uint8 \<Rightarrow> 'u serial_device \<Rightarrow> 'u serial_device" where
  "ciaaSerialDevices_open drv_open oflag d =
     (let d = d\<lparr>drv := drv_open (drv d)\<rparr>
      in if oflag AND O_NONBLOCK \<noteq> 0 then d\<lparr>dev_flags := dev_flags d OR NONBLOCK_MODE\<rparr> else d)"

section \<open>The ring under the driver\<close>

lemma raw_space_le:
  assumes "cb_ok k c"
  shows "circBufRawSpace c (cb_head c) \<le> circBufSpace c (cb_head c)" 
    and "0 < circBufSpace c (cb_head c) \<Longrightarrow> 0 < circBufRawSpace c (cb_head c)"
    and "unat (cb_tail c) + unat (circBufRawSpace c (cb_head c)) \<le> 2 ^ k"
    and "unat (circBufSpace c (cb_head c)) \<le> 2 ^ k"
  using cb_okD(5,6,8) [OF assms] space_nat [OF assms cb_okD(5) [OF assms]] rawSpace_nat [OF assms cb_okD(5) [OF assms]]
  by (auto simp: word_le_nat_alt word_less_nat_alt unat_sub split: if_splits)

lemma raw_count_le:
  assumes "cb_ok k c"
  shows "circBufRawCount c (cb_tail c) \<le> circBufCount c (cb_tail c)"
    and "unat (cb_head c) + unat (circBufRawCount c (cb_tail c)) \<le> 2 ^ k"
  using cb_okD(5,6) [OF assms] count_nat [OF assms cb_okD(6) [OF assms]] rawCount_nat [OF assms, of "cb_tail c"]
  by (auto simp: word_le_nat_alt split: if_splits)

lemma circBufEmpty_iff:
  assumes "cb_ok k c"
  shows "circBufEmpty c \<longleftrightarrow> cb_abs c = []"
proof -
  have "cb_abs c = [] \<longleftrightarrow> unat (circBufCount c (cb_tail c)) = 0" by (metis length_cb_abs length_0_conv)
  also have "\<dots> \<longleftrightarrow> cb_tail c = cb_head c"
    using cb_okD(5,6) [OF assms] count_nat [OF assms cb_okD(6) [OF assms]]
    by (auto simp: word_le_nat_alt word_unat_eq_iff split: if_splits)
  finally show ?thesis by (simp add: circBufEmpty_def)
qed

text \<open>What lies at the read position, without wrapping, is the front of the queue.\<close>

lemma front_slice:
  assumes ok: "cb_ok k c" and m: "m \<le> unat (circBufRawCount c (cb_tail c))"
  shows "take m (drop (unat (cb_head c)) (cb_buf c)) = take m (cb_abs c)"
proof -
  have "m \<le> length (cb_abs c)"
    using m raw_count_le(1) [OF ok] by (simp add: length_cb_abs word_le_nat_alt)
  then have "take m (cb_abs c) = ring (cb_buf c) (unat (cb_head c)) m"
    by (simp add: cb_abs_def length_cb_abs ring_take)
  moreover have "unat (cb_head c) + m \<le> length (cb_buf c)"
    using m raw_count_le(2) [OF ok] cb_okD(4) [OF ok] by simp
  ultimately show ?thesis by (simp add: ring_slice)
qed

lemma updateHead_0:
  assumes ok: "cb_ok k c"
  shows "circBufUpdateHead c 0 = c"
proof -
  have "unat (cb_head c AND cb_size c) = unat (cb_head c)"
    using cb_okD(3,5) [OF ok] by (simp add: unat_and_mask)
  then have "cb_head c AND cb_size c = cb_head c" by (simp add: word_unat_eq_iff)
  then show ?thesis by (simp add: circBufUpdateHead_def)
qed

text \<open>Moving the tail back by one takes the newest byte away.\<close>

lemma updateTail_back:
  assumes ok: "cb_ok k c" and ne: "cb_abs c \<noteq> []"
  shows "cb_ok k (circBufUpdateTail c (- 1)) \<and> cb_abs (circBufUpdateTail c (- 1)) = butlast (cb_abs c)"
proof -
  note k = cb_okD [OF ok]
  let ?c = "circBufUpdateTail c (- 1)"
  have sel: "cb_head ?c = cb_head c" "cb_buf ?c = cb_buf c" "cb_size ?c = cb_size c"
    by (simp_all add: circBufUpdateTail_def)
  have "unat (cb_tail ?c) = unat (cb_tail c - 1) mod 2 ^ k"
    using k by (simp add: circBufUpdateTail_def unat_and_mask)
  also have "\<dots> = (unat (cb_tail c) + 2 ^ k - 1) mod 2 ^ k"
    using unat_diff_mod [of k "1 :: uint32" "cb_tail c"] k(2,8) by simp
  finally have tl: "unat (cb_tail ?c) = (if 1 \<le> unat (cb_tail c) then unat (cb_tail c) - 1 else 2 ^ k - 1)"
    using mod_wrap [of "unat (cb_tail c)" "2 ^ k" 1] k(6,8) by (simp add: not_less_eq_eq)
  then have "unat (cb_tail ?c) < 2 ^ k" using k(6) by auto
  then have ok': "cb_ok k ?c" using ok by (simp add: cb_ok_def sel)
  have "unat (circBufCount c (cb_tail c)) \<noteq> 0" using ne by (metis length_cb_abs length_0_conv)
  then have "unat (circBufCount ?c (cb_tail ?c)) = unat (circBufCount c (cb_tail c)) - 1"
    using k(5,6) count_nat [OF ok k(6)] count_nat [OF ok', of "cb_tail ?c"] tl
    unfolding sel word_le_nat_alt by (auto split: if_splits)
  then show ?thesis
    using ok' by (simp add: cb_abs_def sel butlast_conv_take length_cb_abs ring_take)
qed

text \<open>Storing in one or two pieces behind the queue appends it, as \<open>circBufPut\<close> does.\<close>

lemma rx_buffer:
  fixes p :: "uint8 list"
  assumes ok: "cb_ok k c" and len: "length p < 2 ^ 32"
    and raw: "raw = unat (circBufRawSpace c (cb_head c))" and sp: "sp = unat (circBufSpace c (cb_head c))"
    and b1: "b1 = blit (cb_buf c) (unat (cb_tail c)) (take raw p)"
    and b: "b = (if raw \<le> length p \<and> raw < sp then blit b1 0 (take (sp - raw) (drop raw p)) else b1)"
  shows "cb_ok k (circBufUpdateTail (c\<lparr>cb_buf := b\<rparr>) (of_nat (min sp (length p)))) \<and>
    cb_abs (circBufUpdateTail (c\<lparr>cb_buf := b\<rparr>) (of_nat (min sp (length p)))) = cb_abs c @ take sp p"
proof -
  define n :: uint32 where "n = of_nat (min sp (length p))"
  have n: "unat n = min sp (length p)" using len unfolding n_def by (intro unat_of_nat32) simp
  have rs: "raw \<le> sp" "unat (cb_tail c) + raw \<le> length (cb_buf c)" "sp - raw \<le> length (cb_buf c)"
    using raw_space_le [OF ok] cb_okD(4) [OF ok] unfolding raw sp
    by (auto simp: word_le_nat_alt word_less_nat_alt unat_sub_if' split: if_splits)
  have fits: "n \<le> circBufSpace c (cb_head c)" using n sp by (simp add: word_le_nat_alt)
  have "(if n \<le> circBufRawSpace c (cb_head c)
     then ciaaPOSIX_memcpy (cb_buf c) (unat (cb_tail c)) (take sp p) 0 (unat n)
     else do {
       b \<leftarrow> ciaaPOSIX_memcpy (cb_buf c) (unat (cb_tail c)) (take sp p) 0 (unat (circBufRawSpace c (cb_head c)));
       ciaaPOSIX_memcpy b 0 (take sp p) (unat (circBufRawSpace c (cb_head c)))
         (unat (n - circBufRawSpace c (cb_head c))) }) = Some b"
  proof (cases "n \<le> circBufRawSpace c (cb_head c)")
    case True
    then have le: "min sp (length p) \<le> raw" using n raw by (simp add: word_le_nat_alt)
    have b': "b = b1"
      using le rs(1) by (auto simp: b blit_def)
    have "take (unat n) (take sp p) = take raw p" using le rs(1) n by (auto simp: min_def)
    with True le rs n b' show ?thesis by (simp add: memcpy_blit b1)
  next
    case False
    then have lt: "raw < sp" "raw < length p" using n raw by (simp_all add: word_le_nat_alt)
    have d: "unat (n - circBufRawSpace c (cb_head c)) = min sp (length p) - raw"
      using False n raw by (simp add: unat_sub)
    have t: "take (min sp (length p) - raw) (drop raw (take sp p)) = take (sp - raw) (drop raw p)"
      using lt by (auto simp: drop_take min_def)
    have t2: "take (min sp (length p) - raw) (drop raw p) = take (sp - raw) (drop raw p)"
      by (cases "sp \<le> length p") (simp_all add: min_def)
    have l1: "length b1 = length (cb_buf c)" using rs(2) lt by (simp add: b1)
    have "ciaaPOSIX_memcpy (cb_buf c) (unat (cb_tail c)) (take sp p) 0 raw = Some b1"
      using rs(2) lt by (simp add: memcpy_blit b1)
    moreover have "ciaaPOSIX_memcpy b1 0 (take sp p) raw (min sp (length p) - raw) = Some b"
      using lt rs l1 t t2 by (subst memcpy_blit) (auto simp: b)
    ultimately show ?thesis using False d by (simp flip: raw)
  qed
  then have "circBufPut_from c (cb_head c) (take sp p) n = Some (n, circBufUpdateTail (c\<lparr>cb_buf := b\<rparr>) n)"
    using fits by (simp add: circBufPut_from_def Let_def)
  moreover have "take (unat n) (take sp p) = take sp p" using n by (simp add: min_def)
  ultimately show ?thesis
    using put_from_refines [OF ok seen_own(1) [OF ok] _ fits, of "take sp p"] n by (simp flip: n_def)
qed

section \<open>The driver's contract\<close>

text \<open>
  What the layer relies on: a read takes from the front of the bytes that are \<open>pending\<close> in the driver, a write
  hands a prefix of the array to the line; \<open>rest\<close> is what both leave alone. A read of no bytes is refused.
\<close>

locale serial_driver =
  fixes drv_read :: "'u drv_read" and drv_write :: "'u drv_write"
    and pending :: "'u \<Rightarrow> uint8 list" and sent :: "'u \<Rightarrow> uint8 list" and rest :: "'u \<Rightarrow> 'r"
    and ok :: "'u \<Rightarrow> bool"
  assumes read_front: "ok u \<Longrightarrow> 0 < n \<Longrightarrow> pos + n \<le> length b \<Longrightarrow>
      \<exists>u'. drv_read b pos n u = Some (int (min n (length (pending u))), blit b pos (take n (pending u)), u') \<and>
        ok u' \<and> pending u' = drop n (pending u) \<and> sent u' = sent u \<and> rest u' = rest u"
    and read_none: "ok u \<Longrightarrow> drv_read b pos 0 u = Some (- 1, b, u)"
    and write_front: "ok u \<Longrightarrow> n \<le> length b \<Longrightarrow>
      \<exists>m u'. drv_write b n u = Some (int m, u') \<and> m \<le> n \<and> ok u' \<and> sent u' = sent u @ take m b \<and> pending u' = pending u \<and>
        rest u' = rest u"
    and few: "ok u \<Longrightarrow> length (pending u) < 2 ^ 32"
begin

text \<open>One call of the driver's write from the transmit buffer.\<close>

lemma send_chunk:
  assumes c: "cb_ok k c" and u: "ok u"
  shows "\<exists>m u'. drv_write (drop (unat (cb_head c)) (cb_buf c)) (unat (circBufRawCount c (cb_tail c))) u = Some (int m, u') \<and>
    m \<le> unat (circBufRawCount c (cb_tail c)) \<and> ok u' \<and> pending u' = pending u \<and> rest u' = rest u \<and>
    cb_ok k (circBufUpdateHead c (of_nat m)) \<and>
    sent u' @ cb_abs (circBufUpdateHead c (of_nat m)) = sent u @ cb_abs c"
proof -
  let ?raw = "unat (circBufRawCount c (cb_tail c))"
  have "?raw \<le> length (drop (unat (cb_head c)) (cb_buf c))"
    using raw_count_le(2) [OF c] cb_okD(4) [OF c] by simp
  from write_front [OF u this] obtain m u' where w:
    "drv_write (drop (unat (cb_head c)) (cb_buf c)) ?raw u = Some (int m, u')" "m \<le> ?raw" "ok u'"
    "sent u' = sent u @ take m (drop (unat (cb_head c)) (cb_buf c))" "pending u' = pending u" "rest u' = rest u"
    by blast
  have "?raw < 2 ^ LENGTH(32)" by (rule unsigned_less)
  then have "m < 2 ^ 32" using w(2) by simp
  then have n: "unat (of_nat m :: uint32) = m" by (rule unat_of_nat32)
  have "unat (of_nat m :: uint32) \<le> length (cb_abs c)"
    using w(2) raw_count_le(1) [OF c] by (simp add: n length_cb_abs word_le_nat_alt)
  from updateHead_ok [OF c this] w front_slice [OF c w(2)] show ?thesis by (simp add: n)
qed

text \<open>The transmission: what is sent and what is still queued is together what it was.\<close>

lemma tx_sends:
  assumes c: "cb_ok k (txBuf d)" and u: "ok (drv d)"
  shows "\<exists>c' u'. cb_ok k c' \<and> ok u' \<and> pending u' = pending (drv d) \<and> rest u' = rest (drv d) \<and>
    sent u' @ cb_abs c' = sent (drv d) @ cb_abs (txBuf d) \<and>
    ciaaSerialDevices_txConfirmation drv_write cfg POSIXE d os =
      (if cb_abs (txBuf d) \<noteq> [] \<and> NO_TASK \<noteq> blocked_task d \<and> blocked_fct d = Some FctWrite
       then wake_blocked cfg POSIXE (d\<lparr>txBuf := c', drv := u'\<rparr>) os else Some (d\<lparr>txBuf := c', drv := u'\<rparr>, os))"
proof -
  let ?c = "txBuf d"
  let ?raw = "circBufRawCount ?c (cb_tail ?c)" and ?count = "circBufCount ?c (cb_tail ?c)"
  have z: "0 < ?count \<longleftrightarrow> cb_abs ?c \<noteq> []"
    by (metis length_cb_abs length_0_conv unat_eq_zero word_neq_0_conv)
  show ?thesis
  proof (cases "0 < ?count")
    case False
    with c u z show ?thesis
      by (intro exI [of _ ?c] exI [of _ "drv d"]) (simp add: ciaaSerialDevices_txConfirmation_def)
  next
    case True
    obtain m u1 where m: "drv_write (drop (unat (cb_head ?c)) (cb_buf ?c)) (unat ?raw) (drv d) = Some (int m, u1)"
      "m \<le> unat ?raw" "ok u1" "pending u1 = pending (drv d)" "rest u1 = rest (drv d)" "cb_ok k (circBufUpdateHead ?c (of_nat m))"
      "sent u1 @ cb_abs (circBufUpdateHead ?c (of_nat m)) = sent (drv d) @ cb_abs ?c"
      using send_chunk [OF c u] by blast
    define c1 where "c1 = circBufUpdateHead ?c (of_nat m)"
    have t1: "cb_tail c1 = cb_tail ?c" and c1: "cb_ok k c1" "sent u1 @ cb_abs c1 = sent (drv d) @ cb_abs ?c"
      using m(6,7) by (simp_all add: c1_def circBufUpdateHead_def)
    obtain l u2 where l: "drv_write (drop (unat (cb_head c1)) (cb_buf c1)) (unat (circBufRawCount c1 (cb_tail ?c))) u1 = Some (int l, u2)"
      "ok u2" "pending u2 = pending u1" "rest u2 = rest u1" "cb_ok k (circBufUpdateHead c1 (of_nat l))"
      "sent u2 @ cb_abs (circBufUpdateHead c1 (of_nat l)) = sent u1 @ cb_abs c1"
      using send_chunk [OF c1(1) m(3)] unfolding t1 by blast
    have stay: "circBufUpdateHead c1 0 = c1"
      using c1(1) by (rule updateHead_0)
    have c2: "circBufUpdateHead c1 (of_nat l) = c1" if "\<not> 0 < (of_nat l :: uint32)"
      using stay that by (metis word_neq_0_conv)
    let ?wake = "\<lambda>c u. (if cb_abs ?c \<noteq> [] \<and> NO_TASK \<noteq> blocked_task d \<and> blocked_fct d = Some FctWrite
      then wake_blocked cfg POSIXE (d\<lparr>txBuf := c, drv := u\<rparr>) os else Some (d\<lparr>txBuf := c, drv := u\<rparr>, os))"
    show ?thesis
    proof (cases "(of_nat m :: uint32) = ?raw \<and> ?raw < ?count")
      case more: True
      then have "circBufUpdateHead ?c ?raw = c1" by (simp add: c1_def)
      with True more z m(1) l(1) c2 have "ciaaSerialDevices_txConfirmation drv_write cfg POSIXE d os =
          ?wake (circBufUpdateHead c1 (of_nat l)) u2"
        by (simp add: ciaaSerialDevices_txConfirmation_def Let_def)
      with l m c1 show ?thesis
        by (intro exI [of _ "circBufUpdateHead c1 (of_nat l)"] exI [of _ u2]) simp
    next
      case False
      with True z m(1) have "ciaaSerialDevices_txConfirmation drv_write cfg POSIXE d os = ?wake c1 u1"
        by (auto simp: ciaaSerialDevices_txConfirmation_def Let_def c1_def)
      with m c1 show ?thesis by (intro exI [of _ c1] exI [of _ u1]) simp
    qed
  qed
qed

text \<open>The reception: what is pending moves behind the queue, as much as fits, as long as there is room for a byte.\<close>

lemma rx_receives:
  assumes c: "cb_ok k (rxBuf d)" and u: "ok (drv d)" and room: "room = 2 ^ k - 1 - length (cb_abs (rxBuf d))" "0 < room"
  shows "\<exists>c' u'. cb_ok k c' \<and> ok u' \<and> sent u' = sent (drv d) \<and> rest u' = rest (drv d) \<and> pending u' = drop room (pending (drv d)) \<and>
    cb_abs c' = cb_abs (rxBuf d) @ take room (pending (drv d)) \<and>
    ciaaSerialDevices_rxIndication drv_read cfg POSIXE d os =
      (if pending (drv d) \<noteq> [] \<and> NO_TASK \<noteq> blocked_task d \<and> blocked_fct d = Some FctRead
       then wake_blocked cfg POSIXE (d\<lparr>rxBuf := c', drv := u'\<rparr>) os else Some (d\<lparr>rxBuf := c', drv := u'\<rparr>, os))"
proof -
  let ?c = "rxBuf d" and ?p = "pending (drv d)"
  define raww where "raww = circBufRawSpace ?c (cb_head ?c)"
  define spw where "spw = circBufSpace ?c (cb_head ?c)"
  let ?raw = "unat raww" and ?sp = "unat spw"
  have sp: "?sp = room" using cb_ok_space [OF c] room(1) by (simp add: spw_def)
  have L: "length ?p < 2 ^ 32" using few [OF u] .
  have rs: "raww \<le> spw" "0 < ?raw" "unat (cb_tail ?c) + ?raw \<le> length (cb_buf ?c)" "?sp - ?raw \<le> length (cb_buf ?c)"
    using raw_space_le [OF c] cb_okD(4) [OF c] room(2) sp unfolding raww_def spw_def
    by (auto simp: word_less_nat_alt word_le_nat_alt unat_sub_if' split: if_splits)
  define b1 where "b1 = blit (cb_buf ?c) (unat (cb_tail ?c)) (take ?raw ?p)"
  have l1: "length b1 = length (cb_buf ?c)" using rs(3) by (simp add: b1_def)
  obtain u1 where r1: "drv_read (cb_buf ?c) (unat (cb_tail ?c)) ?raw (drv d) = Some (int (min ?raw (length ?p)), b1, u1)"
    "ok u1" "pending u1 = drop ?raw ?p" "sent u1 = sent (drv d)" "rest u1 = rest (drv d)"
    using read_front [OF u rs(2,3)] unfolding b1_def by blast
  have w1: "(of_nat (min ?raw (length ?p)) :: uint32) = raww \<longleftrightarrow> ?raw \<le> length ?p"
    using L unat_of_nat32 [of "min ?raw (length ?p)"] by (auto simp: word_unat_eq_iff min_def)
  define b where "b = (if ?raw \<le> length ?p \<and> ?raw < ?sp then blit b1 0 (take (?sp - ?raw) (drop ?raw ?p)) else b1)"
  let ?c' = "circBufUpdateTail (?c\<lparr>cb_buf := b\<rparr>) (of_nat (min ?sp (length ?p)))"
  have c': "cb_ok k ?c'" "cb_abs ?c' = cb_abs ?c @ take room ?p"
    using rx_buffer [OF c L, of ?raw ?sp b1 b] sp by (auto simp: raww_def spw_def b1_def b_def)
  have pos: "0 < (of_nat (min ?sp (length ?p)) :: uint32) \<longleftrightarrow> ?p \<noteq> []"
  proof -
    have "unat (of_nat (min ?sp (length ?p)) :: uint32) = min ?sp (length ?p)" using L by (intro unat_of_nat32) simp
    then show ?thesis using sp room(2) by (auto simp: word_less_nat_alt)
  qed
  let ?wake = "\<lambda>u. (if ?p \<noteq> [] \<and> NO_TASK \<noteq> blocked_task d \<and> blocked_fct d = Some FctRead
    then wake_blocked cfg POSIXE (d\<lparr>rxBuf := ?c', drv := u\<rparr>) os else Some (d\<lparr>rxBuf := ?c', drv := u\<rparr>, os))"
  show ?thesis
  proof (cases "?raw \<le> length ?p \<and> raww < spw")
    case True
    then have lt: "?raw < ?sp" by (simp add: word_less_nat_alt)
    have d: "unat (spw - raww) = ?sp - ?raw" using rs(1) by (simp add: unat_sub)
    have bb: "b = blit b1 0 (take (?sp - ?raw) (drop ?raw ?p))" using True lt by (simp add: b_def)
    obtain u2 where r2: "drv_read b1 0 (?sp - ?raw) u1 = Some (int (min (?sp - ?raw) (length ?p - ?raw)), b, u2)"
      "ok u2" "pending u2 = drop room ?p" "sent u2 = sent (drv d)" "rest u2 = rest (drv d)"
      using read_front [OF r1(2), of "?sp - ?raw" 0 b1] lt rs(4) l1 r1(3-5) sp by (auto simp: bb)
    have sum: "raww + of_nat (min (?sp - ?raw) (length ?p - ?raw)) = of_nat (min ?sp (length ?p))"
    proof -
      have "min ?sp (length ?p) = ?raw + min (?sp - ?raw) (length ?p - ?raw)" using True lt by (auto simp: min_def)
      then show ?thesis by simp
    qed
    have "ciaaSerialDevices_rxIndication drv_read cfg POSIXE d os = ?wake u2"
      using r1(1) r2(1) w1 True d sum pos unfolding ciaaSerialDevices_rxIndication_def Let_def
      by (simp flip: raww_def spw_def)
    with r2 c' show ?thesis by (intro exI [of _ ?c'] exI [of _ u2]) simp
  next
    case False
    then have bb: "b = b1" by (auto simp: b_def word_less_nat_alt)
    have m: "min ?raw (length ?p) = min ?sp (length ?p)" and dr: "drop ?raw ?p = drop room ?p"
      using False rs(1) sp by (auto simp: word_less_nat_alt word_le_nat_alt)
    have "ciaaSerialDevices_rxIndication drv_read cfg POSIXE d os = ?wake u1"
      using r1(1) w1 False bb m pos unfolding ciaaSerialDevices_rxIndication_def Let_def
      by (auto simp flip: raww_def spw_def)
    with r1 c' dr show ?thesis by (intro exI [of _ ?c'] exI [of _ u1]) simp
  qed
qed

text \<open>With a full buffer the driver is asked for no bytes; its refusal, -1, moves the tail back.\<close>

lemma rx_full:
  assumes c: "cb_ok k (rxBuf d)" and u: "ok (drv d)" and full: "length (cb_abs (rxBuf d)) = 2 ^ k - 1"
  shows "\<exists>c'. cb_ok k c' \<and> cb_abs c' = butlast (cb_abs (rxBuf d)) \<and>
    ciaaSerialDevices_rxIndication drv_read cfg POSIXE d os =
      (if NO_TASK \<noteq> blocked_task d \<and> blocked_fct d = Some FctRead
       then wake_blocked cfg POSIXE (d\<lparr>rxBuf := c'\<rparr>) os else Some (d\<lparr>rxBuf := c'\<rparr>, os))"
proof -
  let ?c = "rxBuf d"
  have sp: "circBufSpace ?c (cb_head ?c) = 0" using cb_ok_space [OF c] full by (simp add: unat_eq_zero)
  then have raw: "circBufRawSpace ?c (cb_head ?c) = 0" using raw_space_le(1) [OF c] by simp
  have "cb_abs ?c \<noteq> []" using full cb_okD(8) [OF c] by auto
  from updateTail_back [OF c this] show ?thesis
    using read_none [OF u] sp raw
    by (intro exI [of _ "circBufUpdateTail ?c (- 1)"]) (simp add: ciaaSerialDevices_rxIndication_def Let_def word_gt_0)
qed

end

end
