(* ===== verification/Uart.thy ===== *)
theory Uart
  imports SerialDevices
begin

text \<open>
  The driver of the serial ports, \<^verbatim>\<open>modules/drivers/cortexM4/lpc43xx/lpc4337/src/ciaaDriverUart.c\<close>, one of its
  three identical ports.

  Of the hardware, \<open>rx_fifo\<close> holds the bytes that wait in the receiver, \<open>thre\<close> the coming readings of the
  flag that the transmitter takes a byte (no more readings: it takes none), \<open>wire\<close> every byte handed to it. The
  control block of the port, \<open>hwbuf\<close> and \<open>rxcnt\<close>, is the driver's own.
\<close>

section \<open>The port\<close>

definition UART_RX_FIFO_SIZE :: nat where "UART_RX_FIFO_SIZE = 16"

record uart =
  hwbuf :: "uint8 list"
  rxcnt :: nat
  rx_fifo :: "uint8 list"
  thre :: "bool list"
  wire :: "uint8 list"
  thre_int :: bool
  rbr_int :: bool

section \<open>The driver\<close>

text \<open>The two loops of the read: out of the control block, and the rest of it to its front.\<close>

fun take_out :: "nat list \<Rightarrow> uint8 list \<Rightarrow> nat \<Rightarrow> uint8 list \<Rightarrow> uint8 list option" where
  "take_out [] buffer pos hw = Some buffer"
| "take_out (i # is) buffer pos hw = do {
     b \<leftarrow> rd hw i;
     buffer \<leftarrow> wr buffer (pos + i) b;
     take_out is buffer pos hw }"

fun move_front :: "nat list \<Rightarrow> nat \<Rightarrow> uint8 list \<Rightarrow> uint8 list option" where
  "move_front [] ret hw = Some hw"
| "move_front (i # is) ret hw = do {
     b \<leftarrow> rd hw (i + ret);
     hw \<leftarrow> wr hw i b;
     move_front is ret hw }"

definition ciaaDriverUart_read :: "uint8 list \<Rightarrow> nat \<Rightarrow> nat \<Rightarrow> uart \<Rightarrow> (int \<times> uint8 list \<times> uart) option" where
  "ciaaDriverUart_read buffer pos sz u =
     (if sz \<noteq> 0 then do {
        let (ret, cnt) = (if rxcnt u < sz then (rxcnt u, 0) else (sz, rxcnt u - sz));
        buffer \<leftarrow> take_out [0..<ret] buffer pos (hwbuf u);
        hw \<leftarrow> (if cnt \<noteq> 0 then move_front [0..<cnt] ret (hwbuf u) else Some (hwbuf u));
        Some (int ret, buffer, u\<lparr>hwbuf := hw, rxcnt := cnt\<rparr>) }
      else Some (- 1, buffer, u))"

text \<open>The loop of the write reads the flag before it looks at the size.\<close>

fun uart_send :: "bool list \<Rightarrow> uint8 list \<Rightarrow> nat \<Rightarrow> nat \<Rightarrow> uart \<Rightarrow> (nat \<times> uart) option" where
  "uart_send [] buffer sz ret u = Some (ret, u\<lparr>thre := []\<rparr>)"
| "uart_send (r # rs) buffer sz ret u =
     (if r \<and> ret < sz then do {
        b \<leftarrow> rd buffer ret;
        uart_send rs buffer sz (ret + 1) (u\<lparr>wire := wire u @ [b]\<rparr>) }
      else Some (ret, u\<lparr>thre := rs\<rparr>))"

definition ciaaDriverUart_write :: "uint8 list \<Rightarrow> nat \<Rightarrow> uart \<Rightarrow> (int \<times> uart) option" where
  "ciaaDriverUart_write buffer sz u = do { (ret, u) \<leftarrow> uart_send (thre u) buffer sz 0 u; Some (int ret, u) }"

abbreviation on_uart :: "(uart \<Rightarrow> uart) \<Rightarrow> uart serial_device \<Rightarrow> uart serial_device" where
  "on_uart f d \<equiv> d\<lparr>drv := f (drv d)\<rparr>"

definition ciaaDriverUart_txConfirmation ::
    "os_cfg \<Rightarrow> uint32 \<Rightarrow> uart serial_device \<Rightarrow> os_state \<Rightarrow> (uart serial_device \<times> os_state) option" where
  "ciaaDriverUart_txConfirmation = ciaaSerialDevices_txConfirmation ciaaDriverUart_write"

definition ciaaDriverUart_rxIndication ::
    "os_cfg \<Rightarrow> uint32 \<Rightarrow> uart serial_device \<Rightarrow> os_state \<Rightarrow> (uart serial_device \<times> os_state) option" where
  "ciaaDriverUart_rxIndication = ciaaSerialDevices_rxIndication ciaaDriverUart_read"

text \<open>The result of the request for the baud rate is the library's; new FIFO settings reset the two FIFOs.\<close>

definition ciaaDriverUart_ioctl :: "(uint32 \<Rightarrow> int) \<Rightarrow> os_cfg \<Rightarrow> uint32 \<Rightarrow> serial_request \<Rightarrow>
    uart serial_device \<Rightarrow> os_state \<Rightarrow> (int \<times> uart serial_device \<times> os_state) option" where
  "ciaaDriverUart_ioctl set_baud cfg POSIXE request d os =
     (case request of
        IOCTL_STARTTX \<Rightarrow> do {
          (d, os) \<leftarrow> ciaaDriverUart_txConfirmation cfg POSIXE (on_uart (thre_int_update (\<lambda>_. False)) d) os;
          Some (0, on_uart (thre_int_update (\<lambda>_. True)) d, os) }
      | IOCTL_SET_BAUDRATE param \<Rightarrow> Some (set_baud param, d, os)
      | IOCTL_SET_FIFO_TRIGGER_LEVEL param \<Rightarrow> Some (- 1, on_uart (rx_fifo_update (\<lambda>_. [])) d, os)
      | IOCTL_SET_ENABLE_TX_INTERRUPT param \<Rightarrow> Some (- 1, on_uart (thre_int_update (\<lambda>_. param)) d, os)
      | IOCTL_SET_ENABLE_RX_INTERRUPT param \<Rightarrow> Some (- 1, on_uart (rbr_int_update (\<lambda>_. param)) d, os)
      | _ \<Rightarrow> Some (- 1, d, os))"

text \<open>Opening resets the FIFOs, reads a byte away and enables the interrupt of the receiver.\<close>

definition ciaaDriverUart_open :: "uart \<Rightarrow> uart" where
  "ciaaDriverUart_open u = u\<lparr>rx_fifo := [], rbr_int := True\<rparr>"

definition ciaaDriverUart_close :: "uart \<Rightarrow> int \<times> uart" where
  "ciaaDriverUart_close u = (0, u\<lparr>thre_int := False, rbr_int := False\<rparr>)"

section \<open>The interrupt\<close>

text \<open>The loop that empties the receiver: it stores a byte before it looks at the count. A byte behind \<open>hwbuf\<close>
  is \<open>None\<close>.\<close>

fun uart_receive :: "uint8 list \<Rightarrow> uart \<Rightarrow> uart option" where
  "uart_receive [] u = Some (u\<lparr>rx_fifo := []\<rparr>)"
| "uart_receive (b # bs) u = do {
     hw \<leftarrow> wr (hwbuf u) (rxcnt u) b;
     let u = u\<lparr>hwbuf := hw, rxcnt := rxcnt u + 1\<rparr>;
     if rxcnt u < UART_RX_FIFO_SIZE then uart_receive bs u else Some (u\<lparr>rx_fifo := bs\<rparr>) }"

text \<open>The status is read once at the start: \<open>rdr\<close> that a byte waits, and the first reading of \<open>thre\<close>.\<close>

fun next_thre :: "uart \<Rightarrow> bool \<times> uart" where
  "next_thre u = (case thre u of [] \<Rightarrow> (False, u) | r # rs \<Rightarrow> (r, u\<lparr>thre := rs\<rparr>))"

definition UART_IRQHandler :: "os_cfg \<Rightarrow> uint32 \<Rightarrow> uart serial_device \<Rightarrow> os_state \<Rightarrow>
    (uart serial_device \<times> os_state) option" where
  "UART_IRQHandler cfg POSIXE d os = do {
     let (ready, u) = next_thre (drv d);
     (d, os) \<leftarrow> (if rx_fifo u \<noteq> [] then do {
         u \<leftarrow> uart_receive (rx_fifo u) u;
         ciaaDriverUart_rxIndication cfg POSIXE (d\<lparr>drv := u\<rparr>) os }
       else Some (d\<lparr>drv := u\<rparr>, os));
     if ready \<and> thre_int (drv d) then do {
       (d, os) \<leftarrow> ciaaDriverUart_txConfirmation cfg POSIXE d os;
       let (ready, u) = next_thre (drv d);
       Some (d\<lparr>drv := (if ready then u\<lparr>thre_int := False\<rparr> else u)\<rparr>, os) }
     else Some (d, os) }"

section \<open>The driver keeps the contract\<close>

definition pending :: "uart \<Rightarrow> uint8 list" where "pending u = take (rxcnt u) (hwbuf u)"

definition uart_ok :: "uart \<Rightarrow> bool" where
  "uart_ok u \<longleftrightarrow> length (hwbuf u) = UART_RX_FIFO_SIZE \<and> rxcnt u \<le> UART_RX_FIFO_SIZE"

definition uart_rest :: "uart \<Rightarrow> uint8 list \<times> bool \<times> bool" where
  "uart_rest u = (rx_fifo u, thre_int u, rbr_int u)"

lemma take_out_blit:
  "i \<le> n \<Longrightarrow> n \<le> length hw \<Longrightarrow> pos + n \<le> length b \<Longrightarrow>
    take_out [i..<n] (blit b pos (take i hw)) pos hw = Some (blit b pos (take n hw))"
proof (induction "n - i" arbitrary: i)
  case 0
  then show ?case by simp
next
  case (Suc k)
  then have i: "i < n" by simp
  then have "[i..<n] = i # [Suc i..<n]" by (rule upt_conv_Cons)
  moreover have "(blit b pos (take i hw))[pos + i := hw ! i] = blit b pos (take (Suc i) hw)"
  proof -
    have "(blit b pos (take i hw))[pos + i := hw ! i] = blit (b[pos + i := hw ! i]) pos (take i hw)"
      using i Suc.prems by (intro nth_equalityI) (auto simp: blit_nth nth_list_update)
    also have "\<dots> = blit b pos (take i hw @ [hw ! i])"
      using blit_snoc [of pos "take i hw" b "hw ! i"] i Suc.prems by (simp add: min_def)
    finally show ?thesis using i Suc.prems by (simp add: take_Suc_conv_app_nth)
  qed
  ultimately show ?case
    using Suc.hyps(1) [of "Suc i"] Suc.hyps(2) i Suc.prems by (simp add: mem_simps)
qed

lemma move_front_blit:
  "i \<le> n \<Longrightarrow> n + r \<le> length hw \<Longrightarrow>
    move_front [i..<n] r (blit hw 0 (take i (drop r hw))) = Some (blit hw 0 (take n (drop r hw)))"
proof (induction "n - i" arbitrary: i)
  case 0
  then show ?case by simp
next
  case (Suc k)
  then have i: "i < n" by simp
  let ?h = "blit hw 0 (take i (drop r hw))"
  have up: "[i..<n] = i # [Suc i..<n]" using i by (rule upt_conv_Cons)
  have l: "length ?h = length hw" using i Suc.prems by simp
  have h: "?h ! (i + r) = drop r hw ! i" using i Suc.prems by (simp add: blit_nth add.commute)
  have "?h[i := drop r hw ! i] = blit hw 0 (take i (drop r hw) @ [drop r hw ! i])"
    using i Suc.prems by (intro nth_equalityI) (auto simp: blit_nth nth_list_update nth_append)
  then have st: "?h[i := drop r hw ! i] = blit hw 0 (take (Suc i) (drop r hw))"
    using i Suc.prems by (simp add: take_Suc_conv_app_nth)
  show ?case
    using Suc.hyps(1) [of "Suc i"] Suc.hyps(2) i Suc.prems l h st by (simp add: up mem_simps)
qed

lemma uart_send_prefix:
  "ret \<le> sz \<Longrightarrow> sz \<le> length b \<Longrightarrow>
    \<exists>m rs'. uart_send rs b sz ret u = Some (m, u\<lparr>wire := wire u @ take (m - ret) (drop ret b), thre := rs'\<rparr>) \<and>
      ret \<le> m \<and> m \<le> sz"
proof (induction rs arbitrary: ret u)
  case Nil
  then show ?case by (intro exI [of _ ret] exI [of _ "[]"]) simp
next
  case (Cons r rs)
  show ?case
  proof (cases "r \<and> ret < sz")
    case True
    let ?u = "u\<lparr>wire := wire u @ [b ! ret]\<rparr>"
    obtain m rs' where m: "uart_send rs b sz (ret + 1) ?u =
        Some (m, ?u\<lparr>wire := wire ?u @ take (m - (ret + 1)) (drop (ret + 1) b), thre := rs'\<rparr>)"
      "ret + 1 \<le> m" "m \<le> sz"
      using Cons.IH [of "ret + 1" ?u] Cons.prems True by auto
    have "b ! ret # take (m - (ret + 1)) (drop (ret + 1) b) = take (m - ret) (drop ret b)"
      using m(2,3) Cons.prems True by (simp add: Cons_nth_drop_Suc [symmetric] take_Cons')
    with True Cons.prems m show ?thesis
      by (intro exI [of _ m] exI [of _ rs']) (simp add: mem_simps)
  next
    case False
    with Cons.prems show ?thesis by (intro exI [of _ ret] exI [of _ rs]) auto
  qed
qed

interpretation uart: serial_driver ciaaDriverUart_read ciaaDriverUart_write pending wire uart_rest uart_ok
proof (unfold_locales, goal_cases)
  case (1 u n pos b)
  note uo = 1(1)[unfolded uart_ok_def]
  show ?case
  proof (cases "rxcnt u < n")
    case True
    have "take_out [0..<rxcnt u] b pos (hwbuf u) = Some (blit b pos (pending u))"
      using take_out_blit [of 0 "rxcnt u" "hwbuf u" pos b] True uo 1(3) by (simp add: pending_def)
    with True 1(2) uo show ?thesis
      by (auto simp: ciaaDriverUart_read_def pending_def uart_ok_def uart_rest_def min_def)
  next
    case False
    let ?hw = "blit (hwbuf u) 0 (take (rxcnt u - n) (drop n (hwbuf u)))"
    have out: "take_out [0..<n] b pos (hwbuf u) = Some (blit b pos (take n (pending u)))"
      using take_out_blit [of 0 n "hwbuf u" pos b] False uo 1(3) by (simp add: pending_def min_def)
    have mv: "move_front [0..<rxcnt u - n] n (hwbuf u) = Some ?hw"
      using move_front_blit [of 0 "rxcnt u - n" n "hwbuf u"] False uo by simp
    have hw: "take (rxcnt u - n) ?hw = drop n (pending u)" "length ?hw = length (hwbuf u)"
      using False uo by (simp_all add: blit_def pending_def drop_take min_def)
    show ?thesis
    proof (cases "rxcnt u = n")
      case True
      with out 1(2) uo show ?thesis by (auto simp: ciaaDriverUart_read_def pending_def uart_ok_def uart_rest_def min_def)
    next
      case neq: False
      have "ciaaDriverUart_read b pos n u = Some (int n, blit b pos (take n (pending u)), u\<lparr>hwbuf := ?hw, rxcnt := rxcnt u - n\<rparr>)"
        using False neq 1(2) out mv by (simp add: ciaaDriverUart_read_def)
      with False hw uo show ?thesis by (auto simp: pending_def uart_ok_def uart_rest_def min_def)
    qed
  qed
next
  case (2 u b pos)
  show ?case by (simp add: ciaaDriverUart_read_def)
next
  case (3 u n b)
  obtain m rs' where "uart_send (thre u) b n 0 u = Some (m, u\<lparr>wire := wire u @ take (m - 0) (drop 0 b), thre := rs'\<rparr>)" "m \<le> n"
    using uart_send_prefix [of 0 n b "thre u" u] 3 by auto
  with 3 show ?case by (auto simp: ciaaDriverUart_write_def uart_ok_def pending_def uart_rest_def)
next
  case (4 u)
  then show ?case by (simp add: uart_ok_def pending_def UART_RX_FIFO_SIZE_def)
qed

end
