(* ===== verification/SerialPort.thy ===== *)
theory SerialPort
  imports Uart
begin

text \<open>
  A serial port at work: the interrupt, the tasks that read and write, and the event between them. No byte is
  lost or overtaken in either direction as long as the receive buffer has room; a reader that sleeps is woken
  with data; and two sequences in which the code goes wrong.
\<close>

section \<open>The interrupt\<close>

definition port_ok :: "uart serial_device \<Rightarrow> bool" where
  "port_ok d \<longleftrightarrow> cb_ok 8 (rxBuf d) \<and> cb_ok 8 (txBuf d) \<and> uart_ok (drv d) \<and> rxcnt (drv d) < UART_RX_FIFO_SIZE"

text \<open>The bytes on their way out, and the bytes that have come in and wait, oldest first.\<close>

definition outgoing :: "uart serial_device \<Rightarrow> uint8 list" where
  "outgoing d = wire (drv d) @ cb_abs (txBuf d)"

definition incoming :: "uart serial_device \<Rightarrow> uint8 list" where
  "incoming d = cb_abs (rxBuf d) @ pending (drv d) @ rx_fifo (drv d)"

definition rx_room :: "uart serial_device \<Rightarrow> nat" where
  "rx_room d = 255 - length (cb_abs (rxBuf d))"

lemma length_pending: "uart_ok u \<Longrightarrow> length (pending u) = rxcnt u"
  by (simp add: uart_ok_def pending_def)

lemma receive_keeps:
  "uart_ok u \<Longrightarrow> rxcnt u < UART_RX_FIFO_SIZE \<Longrightarrow>
    \<exists>u'. uart_receive bs u = Some u' \<and> uart_ok u' \<and> pending u' @ rx_fifo u' = pending u @ bs \<and>
      wire u' = wire u \<and> thre u' = thre u \<and> thre_int u' = thre_int u \<and> (bs \<noteq> [] \<longrightarrow> pending u' \<noteq> [])"
proof (induction bs arbitrary: u)
  case (Cons b bs)
  let ?u = "u\<lparr>hwbuf := (hwbuf u)[rxcnt u := b], rxcnt := rxcnt u + 1\<rparr>"
  have w: "wr (hwbuf u) (rxcnt u) b = Some ((hwbuf u)[rxcnt u := b])"
    using Cons.prems by (simp add: uart_ok_def mem_simps)
  have p: "pending ?u = pending u @ [b]"
    using Cons.prems by (simp add: pending_def uart_ok_def take_Suc_conv_app_nth)
  have ok: "uart_ok ?u" using Cons.prems by (simp add: uart_ok_def)
  show ?case
  proof (cases "rxcnt ?u < UART_RX_FIFO_SIZE")
    case True
    obtain u' where u': "uart_receive bs ?u = Some u'" "uart_ok u'" "pending u' @ rx_fifo u' = pending ?u @ bs"
      "wire u' = wire ?u" "thre u' = thre ?u" "thre_int u' = thre_int ?u"
      "bs \<noteq> [] \<longrightarrow> pending u' \<noteq> []" "bs = [] \<longrightarrow> u' = ?u\<lparr>rx_fifo := []\<rparr>"
      using Cons.IH [OF ok True] by (cases bs) auto
    have "pending u' \<noteq> []"
    proof (cases "bs = []")
      case True
      then have "pending u' = pending ?u" using u'(8) by (simp add: pending_def)
      then show ?thesis using p by simp
    qed (use u'(7) in simp)
    with u' w p True show ?thesis by (intro exI [of _ u']) simp
  next
    case False
    have "pending (?u\<lparr>rx_fifo := bs\<rparr>) = pending ?u" "uart_ok (?u\<lparr>rx_fifo := bs\<rparr>)"
      using ok by (simp_all add: pending_def uart_ok_def)
    with w p False show ?thesis by (intro exI [of _ "?u\<lparr>rx_fifo := bs\<rparr>"]) simp
  qed
qed (auto simp: pending_def uart_ok_def)

text \<open>What the two indications do to the queues, whatever the kernel does.\<close>

lemma rx_step:
  assumes d: "cb_ok 8 (rxBuf d)" "cb_ok 8 (txBuf d)" "uart_ok (drv d)" and room: "0 < rx_room d"
  shows "\<exists>d1. port_ok d1 \<and> outgoing d1 = outgoing d \<and> incoming d1 = incoming d \<and> thre_int (drv d1) = thre_int (drv d) \<and>
    cb_abs (rxBuf d1) = cb_abs (rxBuf d) @ take (rx_room d) (pending (drv d)) \<and>
    blocked_task d1 = blocked_task d \<and> blocked_fct d1 = blocked_fct d \<and>
    ciaaDriverUart_rxIndication cfg ev d os =
      (if pending (drv d) \<noteq> [] \<and> NO_TASK \<noteq> blocked_task d \<and> blocked_fct d = Some FctRead
       then wake_blocked cfg ev d1 os else Some (d1, os))"
proof -
  have room': "rx_room d = 2 ^ 8 - 1 - length (cb_abs (rxBuf d))" by (simp add: rx_room_def)
  obtain c' u' where r: "cb_ok 8 c'" "uart_ok u'" "wire u' = wire (drv d)" "uart_rest u' = uart_rest (drv d)"
    "pending u' = drop (rx_room d) (pending (drv d))"
    "cb_abs c' = cb_abs (rxBuf d) @ take (rx_room d) (pending (drv d))"
    "ciaaDriverUart_rxIndication cfg ev d os =
      (if pending (drv d) \<noteq> [] \<and> NO_TASK \<noteq> blocked_task d \<and> blocked_fct d = Some FctRead
       then wake_blocked cfg ev (d\<lparr>rxBuf := c', drv := u'\<rparr>) os else Some (d\<lparr>rxBuf := c', drv := u'\<rparr>, os))"
    using uart.rx_receives [OF d(1,3) room' room, of cfg ev os] unfolding ciaaDriverUart_rxIndication_def by blast
  have "rxcnt u' < UART_RX_FIFO_SIZE"
  proof -
    have "rxcnt u' = length (drop (rx_room d) (pending (drv d)))" using length_pending [OF r(2)] r(5) by simp
    also have "\<dots> = rxcnt (drv d) - rx_room d" using length_pending [OF d(3)] by simp
    finally show ?thesis using d(3) room by (auto simp: uart_ok_def UART_RX_FIFO_SIZE_def)
  qed
  with d r show ?thesis
    by (intro exI [of _ "d\<lparr>rxBuf := c', drv := u'\<rparr>"])
      (simp add: port_ok_def outgoing_def incoming_def uart_rest_def)
qed

lemma tx_step:
  assumes d: "port_ok d"
  shows "\<exists>d1. port_ok d1 \<and> outgoing d1 = outgoing d \<and> incoming d1 = incoming d \<and> rxBuf d1 = rxBuf d \<and>
    blocked_task d1 = blocked_task d \<and> blocked_fct d1 = blocked_fct d \<and>
    ciaaDriverUart_txConfirmation cfg ev d os =
      (if cb_abs (txBuf d) \<noteq> [] \<and> NO_TASK \<noteq> blocked_task d \<and> blocked_fct d = Some FctWrite
       then wake_blocked cfg ev d1 os else Some (d1, os))"
proof -
  have d': "cb_ok 8 (txBuf d)" "uart_ok (drv d)" using d by (simp_all add: port_ok_def)
  obtain c' u' where t: "cb_ok 8 c'" "uart_ok u'" "pending u' = pending (drv d)" "uart_rest u' = uart_rest (drv d)"
    "wire u' @ cb_abs c' = wire (drv d) @ cb_abs (txBuf d)"
    "ciaaDriverUart_txConfirmation cfg ev d os =
      (if cb_abs (txBuf d) \<noteq> [] \<and> NO_TASK \<noteq> blocked_task d \<and> blocked_fct d = Some FctWrite
       then wake_blocked cfg ev (d\<lparr>txBuf := c', drv := u'\<rparr>) os else Some (d\<lparr>txBuf := c', drv := u'\<rparr>, os))"
    using uart.tx_sends [OF d', of cfg ev os] unfolding ciaaDriverUart_txConfirmation_def by blast
  have "rxcnt u' = rxcnt (drv d)" using length_pending [OF t(2)] length_pending [OF d'(2)] t(3) by simp
  with d t show ?thesis
    by (intro exI [of _ "d\<lparr>txBuf := c', drv := u'\<rparr>"])
      (simp add: port_ok_def outgoing_def incoming_def uart_rest_def)
qed

text \<open>Changes that touch neither the queues nor the bytes of the port.\<close>

lemma port_frame [simp]:
  "port_ok (d\<lparr>drv := (drv d)\<lparr>thre := rs\<rparr>\<rparr>) = port_ok d" "port_ok (d\<lparr>drv := (drv d)\<lparr>thre_int := b\<rparr>\<rparr>) = port_ok d"
  "port_ok (d\<lparr>drv := (drv d)\<lparr>rbr_int := b\<rparr>\<rparr>) = port_ok d" "port_ok (d\<lparr>drv := (drv d)\<lparr>rx_fifo := bs\<rparr>\<rparr>) = port_ok d"
  "port_ok (d\<lparr>blocked_task := t, blocked_fct := f\<rparr>) = port_ok d" "port_ok (d\<lparr>dev_flags := fl\<rparr>) = port_ok d"
  "port_ok (d\<lparr>serial_errno := e\<rparr>) = port_ok d"
  by (simp_all add: port_ok_def uart_ok_def)

lemma pending_frame [simp]:
  "pending (u\<lparr>thre := rs\<rparr>) = pending u" "pending (u\<lparr>thre_int := b\<rparr>) = pending u" "pending (u\<lparr>rbr_int := b\<rparr>) = pending u"
  "pending (u\<lparr>rx_fifo := bs\<rparr>) = pending u" "pending (u\<lparr>wire := w\<rparr>) = pending u"
  by (simp_all add: pending_def)

lemma queue_frame [simp]:
  "outgoing (d\<lparr>drv := (drv d)\<lparr>thre := rs\<rparr>\<rparr>) = outgoing d" "outgoing (d\<lparr>drv := (drv d)\<lparr>thre_int := b\<rparr>\<rparr>) = outgoing d"
  "outgoing (d\<lparr>drv := (drv d)\<lparr>rbr_int := b\<rparr>\<rparr>) = outgoing d" "outgoing (d\<lparr>drv := (drv d)\<lparr>rx_fifo := bs\<rparr>\<rparr>) = outgoing d"
  "outgoing (d\<lparr>blocked_task := t, blocked_fct := f\<rparr>) = outgoing d" "outgoing (d\<lparr>dev_flags := fl\<rparr>) = outgoing d"
  "outgoing (d\<lparr>serial_errno := e\<rparr>) = outgoing d"
  "incoming (d\<lparr>drv := (drv d)\<lparr>thre := rs\<rparr>\<rparr>) = incoming d" "incoming (d\<lparr>drv := (drv d)\<lparr>thre_int := b\<rparr>\<rparr>) = incoming d"
  "incoming (d\<lparr>drv := (drv d)\<lparr>rbr_int := b\<rparr>\<rparr>) = incoming d"
  "incoming (d\<lparr>blocked_task := t, blocked_fct := f\<rparr>) = incoming d" "incoming (d\<lparr>dev_flags := fl\<rparr>) = incoming d"
  "incoming (d\<lparr>serial_errno := e\<rparr>) = incoming d"
  by (simp_all add: outgoing_def incoming_def)

text \<open>The kernel, as the indications need it, and the end of a wait.\<close>

definition os_ready :: "os_cfg \<Rightarrow> os_state \<Rightarrow> bool" where
  "os_ready cfg os \<longleftrightarrow> cfg_ok cfg \<and> os_inv cfg os \<and>
     (ActualContext os = CONTEXT_TASK \<longrightarrow> RunningTask os \<noteq> INVALID_TASK)"

lemma wake_defined:
  assumes "os_ready cfg os"
  shows "\<exists>ret os'. SetEvent cfg (blocked_task d) ev os = Some (ret, os') \<and> os_ready cfg os' \<and>
    wake_blocked cfg ev d os = Some (d\<lparr>blocked_task := NO_TASK, blocked_fct := None\<rparr>, os')"
proof -
  obtain ret os' where e: "SetEvent cfg (blocked_task d) ev os = Some (ret, os')" "os_inv cfg os'"
    "ActualContext os' = ActualContext os" "RunningTask os \<noteq> INVALID_TASK \<longrightarrow> RunningTask os' \<noteq> INVALID_TASK"
    using SetEvent_inv [of cfg os "blocked_task d" ev] assms unfolding os_ready_def by blast
  with assms show ?thesis by (auto simp: wake_blocked_def os_ready_def)
qed

lemma next_thre_eq: "\<exists>r rs. next_thre u = (r, u\<lparr>thre := rs\<rparr>)"
  by (cases "thre u") (auto intro: exI [of _ "[]"])

text \<open>The part of the interrupt that receives.\<close>

lemma irq_receive:
  assumes d: "port_ok d" and room: "0 < rx_room d" and u: "u = (drv d)\<lparr>thre := rs\<rparr>"
  shows "\<exists>d1. (port_ok d1 \<and> outgoing d1 = outgoing d \<and> incoming d1 = incoming d \<and> thre_int (drv d1) = thre_int (drv d) \<and>
      blocked_task d1 = blocked_task d \<and> blocked_fct d1 = blocked_fct d \<and>
      (rx_fifo (drv d) \<noteq> [] \<longrightarrow> cb_abs (rxBuf d1) \<noteq> [])) \<and>
    (if rx_fifo u \<noteq> [] then do {
       u \<leftarrow> uart_receive (rx_fifo u) u;
       ciaaDriverUart_rxIndication cfg ev (d\<lparr>drv := u\<rparr>) os }
     else Some (d\<lparr>drv := u\<rparr>, os)) =
    (if rx_fifo (drv d) \<noteq> [] \<and> NO_TASK \<noteq> blocked_task d \<and> blocked_fct d = Some FctRead
     then wake_blocked cfg ev d1 os else Some (d1, os))"
proof (cases "rx_fifo (drv d) = []")
  case True
  with d u show ?thesis by (intro exI [of _ "d\<lparr>drv := u\<rparr>"]) simp
next
  case False
  have uo: "uart_ok u" "rxcnt u < UART_RX_FIFO_SIZE" using d u by (simp_all add: port_ok_def uart_ok_def)
  obtain u1 where u1: "uart_receive (rx_fifo u) u = Some u1" "uart_ok u1" "pending u1 @ rx_fifo u1 = pending u @ rx_fifo u"
    "wire u1 = wire u" "thre_int u1 = thre_int u" "pending u1 \<noteq> []"
    using receive_keeps [OF uo, of "rx_fifo u"] False u by auto
  let ?d = "d\<lparr>drv := u1\<rparr>"
  have m: "cb_ok 8 (rxBuf ?d)" "cb_ok 8 (txBuf ?d)" "uart_ok (drv ?d)" "0 < rx_room ?d"
    using d u1(2) room by (simp_all add: port_ok_def rx_room_def)
  have same: "outgoing ?d = outgoing d" "incoming ?d = incoming d"
    using u1 u by (simp_all add: outgoing_def incoming_def)
  from rx_step [OF m, of cfg ev os] obtain d1 where "port_ok d1" "outgoing d1 = outgoing d" "incoming d1 = incoming d"
    "thre_int (drv d1) = thre_int u1" "cb_abs (rxBuf d1) = cb_abs (rxBuf d) @ take (rx_room d) (pending u1)"
    "blocked_task d1 = blocked_task d" "blocked_fct d1 = blocked_fct d"
    "ciaaDriverUart_rxIndication cfg ev ?d os =
      (if NO_TASK \<noteq> blocked_task d \<and> blocked_fct d = Some FctRead then wake_blocked cfg ev d1 os else Some (d1, os))"
    using same u1(6) by (auto simp: rx_room_def)
  with u1 u False room show ?thesis by (intro exI [of _ d1]) (cases "pending u1", auto)
qed

lemma irq_step:
  assumes d: "port_ok d" and room: "0 < rx_room d" and os: "os_ready cfg os"
  shows "\<exists>d' os'. UART_IRQHandler cfg ev d os = Some (d', os') \<and> port_ok d' \<and> os_ready cfg os' \<and>
    outgoing d' = outgoing d \<and> incoming d' = incoming d \<and> (rx_fifo (drv d) \<noteq> [] \<longrightarrow> cb_abs (rxBuf d') \<noteq> []) \<and>
    (blocked_fct d = None \<longrightarrow> os' = os) \<and>
    (rx_fifo (drv d) \<noteq> [] \<and> NO_TASK \<noteq> blocked_task d \<and> blocked_fct d = Some FctRead \<longrightarrow>
      blocked_fct d' = None \<and> (\<exists>ret. SetEvent cfg (blocked_task d) ev os = Some (ret, os')))"
proof -
  let ?wakes = "rx_fifo (drv d) \<noteq> [] \<and> NO_TASK \<noteq> blocked_task d \<and> blocked_fct d = Some FctRead"
  obtain r rs where th: "next_thre (drv d) = (r, (drv d)\<lparr>thre := rs\<rparr>)" using next_thre_eq by blast
  let ?u = "(drv d)\<lparr>thre := rs\<rparr>"
  obtain d1 where d1: "port_ok d1" "outgoing d1 = outgoing d" "incoming d1 = incoming d"
    "rx_fifo (drv d) \<noteq> [] \<longrightarrow> cb_abs (rxBuf d1) \<noteq> []" "blocked_task d1 = blocked_task d" "blocked_fct d1 = blocked_fct d"
    "(if rx_fifo ?u \<noteq> [] then do {
       u \<leftarrow> uart_receive (rx_fifo ?u) ?u;
       ciaaDriverUart_rxIndication cfg ev (d\<lparr>drv := u\<rparr>) os }
     else Some (d\<lparr>drv := ?u\<rparr>, os)) = (if ?wakes then wake_blocked cfg ev d1 os else Some (d1, os))"
    using irq_receive [OF d room refl, of rs cfg ev os] by blast
  obtain d2 os2 where d2: "(if ?wakes then wake_blocked cfg ev d1 os else Some (d1, os)) = Some (d2, os2)" "os_ready cfg os2"
    "port_ok d2" "outgoing d2 = outgoing d" "incoming d2 = incoming d" "rxBuf d2 = rxBuf d1"
    "blocked_fct d = None \<longrightarrow> os2 = os \<and> blocked_fct d2 = None"
    "?wakes \<longrightarrow> blocked_fct d2 = None \<and> (\<exists>ret. SetEvent cfg (blocked_task d) ev os = Some (ret, os2))"
  proof (cases ?wakes)
    case True
    with that wake_defined [OF os, of d1 ev] d1 show ?thesis by auto
  next
    case False
    with that [of d1 os] os d1 show ?thesis by auto
  qed
  obtain d3 where d3: "port_ok d3" "outgoing d3 = outgoing d2" "incoming d3 = incoming d2" "rxBuf d3 = rxBuf d2"
    "blocked_task d3 = blocked_task d2" "blocked_fct d3 = blocked_fct d2"
    "ciaaDriverUart_txConfirmation cfg ev d2 os2 =
      (if cb_abs (txBuf d2) \<noteq> [] \<and> NO_TASK \<noteq> blocked_task d2 \<and> blocked_fct d2 = Some FctWrite
       then wake_blocked cfg ev d3 os2 else Some (d3, os2))"
    using tx_step [OF d2(3), of cfg ev os2] by blast
  let ?tx = "cb_abs (txBuf d2) \<noteq> [] \<and> NO_TASK \<noteq> blocked_task d2 \<and> blocked_fct d2 = Some FctWrite"
  obtain d4 os4 where d4: "ciaaDriverUart_txConfirmation cfg ev d2 os2 = Some (d4, os4)" "os_ready cfg os4"
    "port_ok d4" "outgoing d4 = outgoing d" "incoming d4 = incoming d" "rxBuf d4 = rxBuf d1"
    "blocked_fct d = None \<longrightarrow> os4 = os" "?wakes \<longrightarrow> blocked_fct d4 = None \<and> os4 = os2"
  proof (cases ?tx)
    case True
    with that wake_defined [OF d2(2), of d3 ev] d2 d3 show ?thesis by auto
  next
    case False
    with that [of d3 os2] d2 d3 show ?thesis by auto
  qed
  obtain r4 rs4 where th4: "next_thre (drv d4) = (r4, (drv d4)\<lparr>thre := rs4\<rparr>)" using next_thre_eq by blast
  define d5 where "d5 = d4\<lparr>drv := (if r4 then (drv d4)\<lparr>thre := rs4, thre_int := False\<rparr> else (drv d4)\<lparr>thre := rs4\<rparr>)\<rparr>"
  have d5: "port_ok d5" "outgoing d5 = outgoing d" "incoming d5 = incoming d" "rxBuf d5 = rxBuf d1" "blocked_fct d5 = blocked_fct d4"
    using d4(3-6) by (auto simp: d5_def port_ok_def uart_ok_def outgoing_def incoming_def)
  have "UART_IRQHandler cfg ev d os = (if r \<and> thre_int (drv d2) then Some (d5, os4) else Some (d2, os2))"
    using d1(7) d2(1) d4(1) th th4 by (simp add: UART_IRQHandler_def d5_def)
  with d1(4) d2 d4(2,7,8) d5 show ?thesis by (cases "r \<and> thre_int (drv d2)") auto
qed

section \<open>Any run of a port\<close>

text \<open>What a call has delivered to its caller, or stored of its caller's bytes.\<close>

fun taken :: "uint8 list outcome \<Rightarrow> uint8 list" where
  "taken (Returned n buf) = take (nat n) buf"
| "taken (Waits buf) = []"

fun stored :: "uint32 outcome \<Rightarrow> uint32" where
  "stored (Returned n w) = w"
| "stored (Waits w) = w"

text \<open>
  The run of an open port, with the history of the bytes: \<open>a\<close> those that the writes have accepted, \<open>x\<close> those
  that the reads have delivered, \<open>r\<close> those that have arrived at the receiver. The kernel may be in any state
  when a step begins. The interrupt finds room for a byte in the receive buffer.
\<close>

inductive port_run :: "(uint32 \<Rightarrow> int) \<Rightarrow> os_cfg \<Rightarrow> uint32 \<Rightarrow> uart serial_device \<Rightarrow>
    uint8 list \<Rightarrow> uint8 list \<Rightarrow> uint8 list \<Rightarrow> bool" for set_baud cfg ev where
  start: "port_ok d \<Longrightarrow> outgoing d = [] \<Longrightarrow> incoming d = [] \<Longrightarrow> port_run set_baud cfg ev d [] [] []"
| arrive: "port_run set_baud cfg ev d a x r \<Longrightarrow>
    port_run set_baud cfg ev (d\<lparr>drv := (drv d)\<lparr>rx_fifo := rx_fifo (drv d) @ bs\<rparr>\<rparr>) a x (r @ bs)"
| line: "port_run set_baud cfg ev d a x r \<Longrightarrow> port_run set_baud cfg ev (d\<lparr>drv := (drv d)\<lparr>thre := rs\<rparr>\<rparr>) a x r"
| irq: "port_run set_baud cfg ev d a x r \<Longrightarrow> 0 < rx_room d \<Longrightarrow> os_ready cfg os \<Longrightarrow>
    UART_IRQHandler cfg ev d os = Some (d', os') \<Longrightarrow> port_run set_baud cfg ev d' a x r"
| reads: "port_run set_baud cfg ev d a x r \<Longrightarrow> unat n \<le> length buf \<Longrightarrow>
    ciaaSerialDevices_read (ciaaDriverUart_ioctl set_baud cfg ev) cfg ev buf n d os = Some (out, d', os') \<Longrightarrow>
    port_run set_baud cfg ev d' a (x @ taken out) r"
| read_resume: "port_run set_baud cfg ev d a x r \<Longrightarrow> unat n \<le> length buf \<Longrightarrow>
    serial_read_resume cfg ev buf n d os = Some (out, d', os') \<Longrightarrow>
    port_run set_baud cfg ev d' a (x @ taken out) r"
| writes: "port_run set_baud cfg ev d a x r \<Longrightarrow> unat n \<le> length buf \<Longrightarrow>
    ciaaSerialDevices_write (ciaaDriverUart_ioctl set_baud cfg ev) cfg ev buf n d os = Some (res, d', os') \<Longrightarrow>
    port_run set_baud cfg ev d' (a @ take (unat (stored res)) buf) x r"
| write_resume: "port_run set_baud cfg ev d a x r \<Longrightarrow> unat n \<le> length buf \<Longrightarrow> w \<le> n \<Longrightarrow>
    serial_write_resume (ciaaDriverUart_ioctl set_baud cfg ev) cfg ev buf n w d os = Some (res, d', os') \<Longrightarrow>
    port_run set_baud cfg ev d' (a @ take (unat (stored res) - unat w) (drop (unat w) buf)) x r"
| nonblock: "port_run set_baud cfg ev d a x r \<Longrightarrow>
    ciaaSerialDevices_ioctl (ciaaDriverUart_ioctl set_baud cfg ev) (IOCTL_SET_NONBLOCK_MODE b) d os = Some (ret, v, d', os') \<Longrightarrow>
    port_run set_baud cfg ev d' a x r"

lemma sint_small: "unat (w :: uint32) < 2 ^ 31 \<Longrightarrow> sint w = int (unat w)"
proof -
  assume "unat w < 2 ^ 31"
  then have "int (unat w) < int (2 ^ 31)" by (simp only: of_nat_less_iff)
  then have "uint w < 2 ^ 31" by simp
  moreover have "- (2 ^ 31) \<le> uint w" by (rule order_trans [OF _ uint_ge_0]) simp
  ultimately have "signed_take_bit 31 (uint w) = uint w" by (intro signed_take_bit_int_eq_self)
  then show ?thesis by (simp add: sint_uint)
qed

lemma get_taken:
  assumes d: "port_ok d" and n: "unat n \<le> length buf"
  shows "\<exists>m c'. circBufGet (rxBuf d) buf n = Some (m, blit buf 0 (take (unat m) (cb_abs (rxBuf d))), c') \<and> cb_ok 8 c' \<and>
    cb_abs c' = drop (unat m) (cb_abs (rxBuf d)) \<and> m = min n (circBufCount (rxBuf d) (cb_tail (rxBuf d))) \<and>
    take (nat (sint m)) (blit buf 0 (take (unat m) (cb_abs (rxBuf d)))) = take (unat m) (cb_abs (rxBuf d)) \<and> nat (sint m) = unat m"
proof -
  have ok: "cb_ok 8 (rxBuf d)" using d by (simp add: port_ok_def)
  let ?m = "min n (circBufCount (rxBuf d) (cb_tail (rxBuf d)))"
  obtain c' where g: "circBufGet (rxBuf d) buf n = Some (?m, blit buf 0 (take (unat ?m) (cb_abs (rxBuf d))), c')"
    "cb_ok 8 c'" "cb_abs c' = drop (unat ?m) (cb_abs (rxBuf d))"
    using get_from_refines [OF ok seen_own(2) [OF ok] n] unfolding circBufGet_def by blast
  have le: "unat ?m \<le> length (cb_abs (rxBuf d))" "unat ?m \<le> length buf"
    using n by (auto simp: length_cb_abs min_def word_le_nat_alt)
  have "length (cb_abs (rxBuf d)) \<le> 255" using space_plus_count [OF ok] by (simp add: length_cb_abs)
  with le(1) have "unat ?m < 2 ^ 31" by simp
  then have "sint ?m = int (unat ?m)" by (rule sint_small)
  with le g show ?thesis by (intro exI [of _ ?m] exI [of _ c']) (simp add: blit_def)
qed

lemma block_in_data:
  assumes "block_in (ciaaDriverUart_ioctl set_baud cfg ev) interrupt f cfg ev d os = Some (d', os')"
    and "interrupt = IOCTL_SET_ENABLE_RX_INTERRUPT \<or> interrupt = IOCTL_SET_ENABLE_TX_INTERRUPT"
  shows "port_ok d' = port_ok d \<and> outgoing d' = outgoing d \<and> incoming d' = incoming d"
  using assms
  by (auto simp: block_in_def ciaaDriverUart_ioctl_def bind_eq_Some_conv port_ok_def uart_ok_def outgoing_def incoming_def)

lemma wake_blocked_data:
  "wake_blocked cfg ev d os = Some (d', os') \<Longrightarrow> d' = d\<lparr>blocked_task := NO_TASK, blocked_fct := None\<rparr>"
  by (auto simp: wake_blocked_def bind_eq_Some_conv)

lemma starttx_data:
  assumes d: "port_ok d" and run: "ciaaDriverUart_ioctl set_baud cfg ev IOCTL_STARTTX d os = Some (ret, d', os')"
  shows "port_ok d' \<and> outgoing d' = outgoing d \<and> incoming d' = incoming d"
proof -
  let ?d = "d\<lparr>drv := (drv d)\<lparr>thre_int := False\<rparr>\<rparr>"
  obtain d2 os2 where tx: "ciaaDriverUart_txConfirmation cfg ev ?d os = Some (d2, os2)"
    and d': "d' = d2\<lparr>drv := (drv d2)\<lparr>thre_int := True\<rparr>\<rparr>"
    using run by (auto simp: ciaaDriverUart_ioctl_def bind_eq_Some_conv)
  have "port_ok ?d" using d by simp
  from tx_step [OF this, of cfg ev os] tx have "port_ok d2 \<and> outgoing d2 = outgoing ?d \<and> incoming d2 = incoming ?d"
    by (auto dest: wake_blocked_data [OF sym] split: if_splits)
  then show ?thesis by (simp add: d')
qed

lemma read_data:
  assumes d: "port_ok d" and n: "unat n \<le> length buf"
    and run: "ciaaSerialDevices_read (ciaaDriverUart_ioctl set_baud cfg ev) cfg ev buf n d os = Some (out, d', os')"
  shows "port_ok d' \<and> outgoing d' = outgoing d \<and> incoming d = taken out @ incoming d'"
proof (cases "circBufEmpty (rxBuf d)")
  case True
  then show ?thesis
    using run d block_in_data [of set_baud cfg ev IOCTL_SET_ENABLE_RX_INTERRUPT]
    by (auto simp: ciaaSerialDevices_read_def bind_eq_Some_conv split: if_splits)
next
  case False
  obtain m c' where "circBufGet (rxBuf d) buf n = Some (m, blit buf 0 (take (unat m) (cb_abs (rxBuf d))), c')" "cb_ok 8 c'"
    "cb_abs c' = drop (unat m) (cb_abs (rxBuf d))"
    "take (nat (sint m)) (blit buf 0 (take (unat m) (cb_abs (rxBuf d)))) = take (unat m) (cb_abs (rxBuf d))"
    using get_taken [OF d n] by blast
  with False run d show ?thesis
    by (auto simp: ciaaSerialDevices_read_def port_ok_def outgoing_def incoming_def)
qed

lemma read_resume_data:
  assumes d: "port_ok d" and n: "unat n \<le> length buf" and run: "serial_read_resume cfg ev buf n d os = Some (out, d', os')"
  shows "port_ok d' \<and> outgoing d' = outgoing d \<and> incoming d = taken out @ incoming d'"
proof -
  obtain m c' where "circBufGet (rxBuf d) buf n = Some (m, blit buf 0 (take (unat m) (cb_abs (rxBuf d))), c')" "cb_ok 8 c'"
    "cb_abs c' = drop (unat m) (cb_abs (rxBuf d))"
    "take (nat (sint m)) (blit buf 0 (take (unat m) (cb_abs (rxBuf d)))) = take (unat m) (cb_abs (rxBuf d))"
    using get_taken [OF d n] by blast
  with run d show ?thesis
    by (auto simp: serial_read_resume_def bind_eq_Some_conv port_ok_def outgoing_def incoming_def)
qed

text \<open>A pass of the write stores what fits.\<close>

lemma write_pass_data:
  assumes d: "port_ok d" and n: "unat n \<le> length buf" and w: "w \<le> n"
    and run: "serial_write_pass (ciaaDriverUart_ioctl set_baud cfg ev) cfg ev buf n w d os = Some (out, d', os')"
  shows "port_ok d' \<and> w \<le> stored out \<and> stored out \<le> n \<and> incoming d' = incoming d \<and>
    outgoing d' = outgoing d @ take (unat (stored out) - unat w) (drop (unat w) buf)"
proof -
  let ?c = "txBuf d"
  have ok: "cb_ok 8 ?c" using d by (simp add: port_ok_def)
  define sp where "sp = circBufSpace ?c (cb_head ?c)"
  define m where "m = (if sp < n - w then sp else n - w)"
  have nw: "unat (n - w) = unat n - unat w" using w by (simp add: unat_sub)
  have m: "m \<le> sp" "m \<le> n - w" "unat m \<le> length (drop (unat w) buf)"
    using n nw by (auto simp: m_def word_le_nat_alt word_less_nat_alt)
  have wm: "unat (w + m) = unat w + unat m" "w \<le> w + m" "w + m \<le> n"
  proof -
    have le: "unat w + unat m \<le> unat n" using m(2) nw w by (simp add: word_le_nat_alt)
    moreover have "unat n < 2 ^ LENGTH(32)" by (rule unsigned_less)
    ultimately show "unat (w + m) = unat w + unat m" by (simp add: unat_word_ariths)
    with le show "w \<le> w + m" "w + m \<le> n" by (simp_all add: word_le_nat_alt)
  qed
  obtain c' where put: "circBufPut ?c (drop (unat w) buf) m = Some (m, c')" "cb_ok 8 c'"
    "cb_abs c' = cb_abs ?c @ take (unat m) (drop (unat w) buf)"
    using put_from_refines [OF ok seen_own(1) [OF ok] m(3)] m(1) unfolding circBufPut_def sp_def by blast
  have p: "port_ok (d\<lparr>txBuf := c'\<rparr>)" using d put(2) by (simp add: port_ok_def)
  obtain ret d2 os2 where io: "ciaaDriverUart_ioctl set_baud cfg ev IOCTL_STARTTX (d\<lparr>txBuf := c'\<rparr>) os = Some (ret, d2, os2)"
    and out: "if w + m < n
      then \<exists>os3. block_in (ciaaDriverUart_ioctl set_baud cfg ev) IOCTL_SET_ENABLE_TX_INTERRUPT FctWrite cfg ev d2 os2 = Some (d', os3) \<and>
        out = Waits (w + m)
      else out = Returned (sint (w + m)) (w + m) \<and> d' = d2"
    using run put(1) by (auto simp: serial_write_pass_def Let_def m_def sp_def bind_eq_Some_conv split: if_splits)
  have st: "port_ok d2" "outgoing d2 = outgoing (d\<lparr>txBuf := c'\<rparr>)" "incoming d2 = incoming (d\<lparr>txBuf := c'\<rparr>)"
    using starttx_data [OF p io] by simp_all
  have "stored out = w + m \<and> port_ok d' \<and> outgoing d' = outgoing d2 \<and> incoming d' = incoming d2"
    using out st(1) block_in_data [of set_baud cfg ev IOCTL_SET_ENABLE_TX_INTERRUPT FctWrite d2 os2 d'] by (auto split: if_splits)
  with st put wm show ?thesis by (simp add: outgoing_def incoming_def)
qed

lemma port_run_keeps:
  "port_run set_baud cfg ev d a x r \<Longrightarrow> port_ok d \<and> outgoing d = a \<and> x @ incoming d = r"
proof (induction rule: port_run.induct)
  case (arrive d a x r bs)
  then show ?case by (auto simp: incoming_def)
next
  case (irq d a x r os d' os')
  with irq_step [of d cfg os ev] show ?case by auto
next
  case (reads d a x r n buf os out d' os')
  with read_data [of d n buf set_baud cfg ev os out d' os'] show ?case by auto
next
  case (read_resume d a x r n buf os out d' os')
  with read_resume_data [of d n buf cfg ev os out d' os'] show ?case by auto
next
  case (writes d a x r n buf os res d' os')
  with write_pass_data [of d n buf 0 set_baud cfg ev os res d' os'] show ?case
    by (auto simp: ciaaSerialDevices_write_def)
next
  case (write_resume d a x r n buf w os res d' os')
  then obtain os1 where "serial_write_pass (ciaaDriverUart_ioctl set_baud cfg ev) cfg ev buf n w d os1 = Some (res, d', os')"
    by (auto simp: serial_write_resume_def bind_eq_Some_conv)
  with write_resume write_pass_data [of d n buf w set_baud cfg ev os1 res d' os'] show ?case by auto
next
  case (nonblock d a x r b os ret v d' os')
  then show ?case by (auto simp: ciaaSerialDevices_ioctl_def)
qed auto

section \<open>The reader that sleeps\<close>

definition may_wait :: "os_cfg \<Rightarrow> uint32 \<Rightarrow> os_state \<Rightarrow> bool" where
  "may_wait cfg ev os \<longleftrightarrow> cfg_ok cfg \<and> os_inv cfg os \<and> ctx_ok os \<and> RunningTask os \<noteq> INVALID_TASK \<and>
     Extended (TasksConst cfg ! RunningTask os) \<and> Resources (TasksVar os ! RunningTask os) = 0 \<and>
     ev AND Events (TasksVar os ! RunningTask os) = 0 \<and> ev AND EventsMask (TasksConst cfg ! RunningTask os) \<noteq> 0"

lemma and_or_zero: "(a AND (e OR a AND m)) = 0 \<Longrightarrow> a AND m = (0 :: uint32)"
  by (auto simp: bit_eq_iff bit_simps)

lemma block_in_waits:
  assumes w: "may_wait cfg ev os" and i: "interrupt = IOCTL_SET_ENABLE_RX_INTERRUPT \<or> interrupt = IOCTL_SET_ENABLE_TX_INTERRUPT"
  shows "\<exists>d' os'. block_in (ciaaDriverUart_ioctl set_baud cfg ev) interrupt f cfg ev d os = Some (d', os') \<and>
    blocked_task d' = RunningTask os \<and> blocked_fct d' = Some f \<and> rxBuf d' = rxBuf d \<and> txBuf d' = txBuf d \<and>
    dev_flags d' = dev_flags d \<and> rx_fifo (drv d') = rx_fifo (drv d) \<and> State (TasksVar os' ! RunningTask os) = WAITING \<and>
    EventsWait (TasksVar os' ! RunningTask os) = ev"
proof -
  obtain ret os' where e: "WaitEvent cfg ev os = Some (ret, os')"
    "TasksVar os' ! RunningTask os = (TasksVar os ! RunningTask os)\<lparr>State := WAITING, EventsWait := ev\<rparr>"
    using WaitEvent_step [of cfg os ev] w by (auto simp: may_wait_def)
  with i show ?thesis by (auto simp: block_in_def ciaaDriverUart_ioctl_def GetTaskID_def)
qed

text \<open>The event of a reception makes the waiting task ready.\<close>

lemma SetEvent_wakes:
  assumes c: "cfg_ok cfg" and s: "os_inv cfg os" and x: "ActualContext os = CONTEXT_ISR2" and t: "t < TASKS_COUNT cfg"
    and e: "Extended (TasksConst cfg ! t)" "ev AND EventsMask (TasksConst cfg ! t) \<noteq> 0"
    and w: "State (TasksVar os ! t) = WAITING" "EventsWait (TasksVar os ! t) = ev" "SetEvent cfg t ev os = Some (ret, os')"
  shows "State (TasksVar os' ! t) = READY"
proof -
  have "EventsWait (TasksVar os ! t) AND (Events (TasksVar os ! t) OR (ev AND EventsMask (TasksConst cfg ! t))) \<noteq> 0"
    using and_or_zero [of ev "Events (TasksVar os ! t)" "EventsMask (TasksConst cfg ! t)"] e(2) w(2) by auto
  with SetEvent_step [OF c s, of t ev] x t e(1) w show ?thesis by (auto simp: Let_def)
qed

definition port0 :: "uart serial_device" where
  "port0 = \<lparr>rxBuf = \<lparr>cb_head = 0, cb_tail = 0, cb_size = 255, cb_buf = replicate 256 0\<rparr>,
     txBuf = \<lparr>cb_head = 0, cb_tail = 0, cb_size = 255, cb_buf = replicate 256 0\<rparr>, dev_flags = 0, blocked_task = NO_TASK,
     blocked_fct = None, serial_errno = 0,
     drv = \<lparr>hwbuf = replicate 16 0, rxcnt = 0, rx_fifo = [], thre = [], wire = [], thre_int = False, rbr_int = True\<rparr>\<rparr>"

lemma port0_ok: "port_ok port0" "outgoing port0 = []" "incoming port0 = []" "cb_abs (rxBuf port0) = []" "rx_room port0 = 255"
proof -
  have "cb_abs \<lparr>cb_head = 0, cb_tail = 0, cb_size = 255, cb_buf = replicate 256 0\<rparr> = []"
    by (simp add: cb_abs_def circBufCount_def)
  then show "port_ok port0" "outgoing port0 = []" "incoming port0 = []" "cb_abs (rxBuf port0) = []" "rx_room port0 = 255"
    by (simp_all add: port0_def port_ok_def cb_ok_def uart_ok_def UART_RX_FIFO_SIZE_def outgoing_def incoming_def pending_def
        rx_room_def mask_eq_exp_minus_1)
qed

lemma project_may_wait: "\<exists>os. may_wait myproject_cfg 1 os \<and> RunningTask os = 0 \<and> os_ready myproject_cfg os"
proof -
  have "(case run_from_start myproject_cfg [] of None \<Rightarrow> False
    | Some s \<Rightarrow> RunningTask s = 0 \<and> Resources (TasksVar s ! 0) = 0 \<and> Events (TasksVar s ! 0) = 0)"
    by code_simp
  then obtain s where s: "run_from_start myproject_cfg [] = Some s" "RunningTask s = 0"
    "Resources (TasksVar s ! 0) = 0" "Events (TasksVar s ! 0) = 0"
    by (auto split: option.splits)
  have m: "0 < length (AutoStart myproject_cfg)" by (simp add: myproject_cfg_def)
  have "os_inv myproject_cfg s" "ctx_ok s"
    using os_reach_inv [OF myproject_sys_cfg m run_from_start_reach [OF s(1)]] by (simp_all add: sys_inv_def)
  moreover have "cfg_ok myproject_cfg" using myproject_sys_cfg by (simp add: sys_cfg_def)
  ultimately have "may_wait myproject_cfg 1 s" "os_ready myproject_cfg s"
    using s(2-4) by (simp_all add: may_wait_def os_ready_def INVALID_TASK_def myproject_cfg_def)
  with s(2) show ?thesis by blast
qed

section \<open>The properties\<close>

text \<open>C17: in any run of an open serial port, as long as every receive interrupt finds room for a byte, the bytes
  handed to the line followed by those still queued are the bytes the writes have accepted, and the
  bytes the reads have delivered followed by those that wait, in the ring, in the driver or in the receiver, are the
  bytes that have arrived: none is lost, doubled or overtaken. The interrupt is always defined.\<close>

theorem serial_fifo:
  assumes "port_run set_baud cfg ev d a x r"
  shows "wire (drv d) @ cb_abs (txBuf d) = a \<and>
    x @ cb_abs (rxBuf d) @ pending (drv d) @ rx_fifo (drv d) = r \<and>
    (0 < rx_room d \<and> os_ready cfg os \<longrightarrow> UART_IRQHandler cfg ev d os \<noteq> None)"
  using port_run_keeps [OF assms] irq_step [of d cfg os ev] by (auto simp: outgoing_def incoming_def)

theorem serial_fifo_witness:
  "\<exists>d. port_run (\<lambda>_. 0) myproject_cfg 1 d [] [] [0x41, 0x42] \<and>
    cb_abs (rxBuf d) @ pending (drv d) @ rx_fifo (drv d) = [0x41, 0x42]"
proof -
  obtain os where os: "os_ready myproject_cfg os" using project_may_wait by blast
  let ?d = "port0\<lparr>drv := (drv port0)\<lparr>rx_fifo := [0x41, 0x42]\<rparr>\<rparr>"
  have "port_run (\<lambda>_. 0) myproject_cfg 1 port0 [] [] []"
    using port0_ok by (intro port_run.start)
  from port_run.arrive [OF this, of "[0x41, 0x42]"] have r: "port_run (\<lambda>_. 0) myproject_cfg 1 ?d [] [] [0x41, 0x42]"
    by (simp add: port0_def)
  have room: "0 < rx_room ?d" using port0_ok(5) by (simp add: rx_room_def)
  have "UART_IRQHandler myproject_cfg 1 ?d os \<noteq> None"
    using serial_fifo [OF r, of os] room os by blast
  then obtain d os' where "UART_IRQHandler myproject_cfg 1 ?d os = Some (d, os')" by auto
  from port_run.irq [OF r room os this] have "port_run (\<lambda>_. 0) myproject_cfg 1 d [] [] [0x41, 0x42]" .
  with serial_fifo [OF this] show ?thesis by auto
qed

text \<open>C30: a task that reads from an empty port in blocking mode sleeps, and is registered with the port. The next
  interrupt with a byte, in any state of the kernel in which the task still waits, makes it ready; and when
  its wait has returned, the read delivers at least one byte: the oldest that wait, as many as asked for
  or as there are in the ring.\<close>

theorem serial_read_wakes:
  assumes d: "port_ok d" and e: "cb_abs (rxBuf d) = []" and fl: "dev_flags d AND NONBLOCK_MODE = 0"
    and w: "may_wait cfg ev os" and t: "t = RunningTask os" and n: "0 < n" "unat n \<le> length buf"
  shows "\<exists>d1 os1. ciaaSerialDevices_read (ciaaDriverUart_ioctl set_baud cfg ev) cfg ev buf n d os = Some (Waits buf, d1, os1) \<and>
    State (TasksVar os1 ! t) = WAITING \<and>
    (\<forall>b bs os2. os_inv cfg os2 \<and> ActualContext os2 = CONTEXT_ISR2 \<and> TasksVar os2 ! t = TasksVar os1 ! t \<longrightarrow>
      (\<exists>d2 os3. UART_IRQHandler cfg ev (d1\<lparr>drv := (drv d1)\<lparr>rx_fifo := b # bs\<rparr>\<rparr>) os2 = Some (d2, os3) \<and>
        State (TasksVar os3 ! t) = READY \<and>
        (\<forall>os4. os_inv cfg os4 \<and> ctx_ok os4 \<and> RunningTask os4 = t \<longrightarrow>
          (\<exists>k buf' d3 os5. serial_read_resume cfg ev buf n d2 os4 = Some (Returned k buf', d3, os5) \<and> 0 < k \<and>
            take (nat k) buf' = take (unat n) (cb_abs (rxBuf d2))))))"
proof -
  have c: "cfg_ok cfg" "os_inv cfg os" "ctx_ok os" "RunningTask os \<noteq> INVALID_TASK" "Extended (TasksConst cfg ! t)"
    "ev AND EventsMask (TasksConst cfg ! t) \<noteq> 0"
    using w t by (simp_all add: may_wait_def)
  have tv: "t < TASKS_COUNT cfg" "t \<noteq> NO_TASK"
    using running_valid(1) [OF c(1,2,4)] c(4) t by (simp_all add: NO_TASK_def INVALID_TASK_def)
  have em: "circBufEmpty (rxBuf d)" using d e circBufEmpty_iff by (auto simp: port_ok_def)
  obtain d1 os1 where b: "block_in (ciaaDriverUart_ioctl set_baud cfg ev) IOCTL_SET_ENABLE_RX_INTERRUPT FctRead cfg ev d os =
      Some (d1, os1)" "blocked_task d1 = t" "blocked_fct d1 = Some FctRead" "rxBuf d1 = rxBuf d"
    "State (TasksVar os1 ! t) = WAITING" "EventsWait (TasksVar os1 ! t) = ev"
    using block_in_waits [OF w, of IOCTL_SET_ENABLE_RX_INTERRUPT set_baud FctRead d] unfolding t by blast
  have p1: "port_ok d1" using block_in_data [OF b(1)] d by simp
  have "\<exists>d2 os3. UART_IRQHandler cfg ev (d1\<lparr>drv := (drv d1)\<lparr>rx_fifo := x # xs\<rparr>\<rparr>) os2 = Some (d2, os3) \<and>
      State (TasksVar os3 ! t) = READY \<and>
      (\<forall>os4. os_inv cfg os4 \<and> ctx_ok os4 \<and> RunningTask os4 = t \<longrightarrow>
        (\<exists>k buf' d3 os5. serial_read_resume cfg ev buf n d2 os4 = Some (Returned k buf', d3, os5) \<and> 0 < k \<and>
          take (nat k) buf' = take (unat n) (cb_abs (rxBuf d2))))"
    if os2: "os_inv cfg os2" "ActualContext os2 = CONTEXT_ISR2" "TasksVar os2 ! t = TasksVar os1 ! t" for x xs os2
  proof -
    let ?d = "d1\<lparr>drv := (drv d1)\<lparr>rx_fifo := x # xs\<rparr>\<rparr>"
    have "port_ok ?d" "0 < rx_room ?d" "os_ready cfg os2"
      using p1 b(4) e c(1) os2 by (simp_all add: rx_room_def os_ready_def)
    from irq_step [OF this, of ev] obtain d2 os3 ret where irq: "UART_IRQHandler cfg ev ?d os2 = Some (d2, os3)" "port_ok d2"
      "cb_abs (rxBuf d2) \<noteq> []" "SetEvent cfg t ev os2 = Some (ret, os3)"
      using b(2,3) tv(2) by auto
    have "State (TasksVar os3 ! t) = READY"
      using SetEvent_wakes [OF c(1) os2(1,2) tv(1) c(5,6) _ _ irq(4)] b(5,6) os2(3) by simp
    moreover have "\<exists>k buf' d3 os5. serial_read_resume cfg ev buf n d2 os4 = Some (Returned k buf', d3, os5) \<and> 0 < k \<and>
        take (nat k) buf' = take (unat n) (cb_abs (rxBuf d2))"
      if os4: "os_inv cfg os4" "ctx_ok os4" "RunningTask os4 = t" for os4
    proof -
      obtain r5 os5 where cl: "ClearEvent cfg ev os4 = Some (r5, os5)"
        using ClearEvent_inv [OF c(1) os4(1,2)] os4(3) c(4) t by metis
      obtain m c' where g: "circBufGet (rxBuf d2) buf n = Some (m, blit buf 0 (take (unat m) (cb_abs (rxBuf d2))), c')"
        "m = min n (circBufCount (rxBuf d2) (cb_tail (rxBuf d2)))" "nat (sint m) = unat m"
        "take (nat (sint m)) (blit buf 0 (take (unat m) (cb_abs (rxBuf d2)))) = take (unat m) (cb_abs (rxBuf d2))"
        using get_taken [OF irq(2) n(2)] by blast
      have um: "unat m = min (unat n) (length (cb_abs (rxBuf d2)))"
        by (simp add: g(2) length_cb_abs min_def word_le_nat_alt)
      then have "0 < unat m" using n(1) irq(3) by (simp add: word_less_nat_alt)
      then have "0 < sint m" using g(3) by linarith
      with cl g um show ?thesis by (auto simp: serial_read_resume_def min_def)
    qed
    ultimately show ?thesis using irq(1) by blast
  qed
  moreover have "ciaaSerialDevices_read (ciaaDriverUart_ioctl set_baud cfg ev) cfg ev buf n d os = Some (Waits buf, d1, os1)"
    using em fl b(1) by (simp add: ciaaSerialDevices_read_def)
  ultimately show ?thesis using b(5) by blast
qed

theorem serial_read_wakes_witness:
  "\<exists>os d1 os1. ciaaSerialDevices_read (ciaaDriverUart_ioctl (\<lambda>_. 0) myproject_cfg 1) myproject_cfg 1 [0, 0] 2 port0 os =
    Some (Waits [0, 0], d1, os1) \<and> State (TasksVar os1 ! 0) = WAITING"
proof -
  obtain os where os: "may_wait myproject_cfg 1 os" "RunningTask os = 0" using project_may_wait by blast
  have "dev_flags port0 AND NONBLOCK_MODE = 0" by (simp add: port0_def)
  moreover have "(0 :: uint32) < 2" "unat (2 :: uint32) \<le> length [0 :: uint8, 0]" by simp_all
  ultimately obtain d1 os1 where
    "ciaaSerialDevices_read (ciaaDriverUart_ioctl (\<lambda>_. 0) myproject_cfg 1) myproject_cfg 1 [0, 0] 2 port0 os =
      Some (Waits [0, 0], d1, os1)" "State (TasksVar os1 ! 0) = WAITING"
    using serial_read_wakes [OF port0_ok(1,4) _ os(1) os(2) [symmetric], of 2 "[0, 0]" "\<lambda>_. 0"] by (elim meta_impE exE conjE)
  then show ?thesis by blast
qed

text \<open>if a byte arrives between the reader's test for an empty ring and its registration, the interrupt tells
  nobody: the reader, which has decided to wait, then sleeps although its data are in the ring.\<close>

lemma serial_read_lost_wakeup:
  assumes d: "port_ok d" and e: "cb_abs (rxBuf d) = []" and fl: "dev_flags d AND NONBLOCK_MODE = 0"
    and nb: "blocked_fct d = None" and w: "may_wait cfg ev os"
  shows "ciaaSerialDevices_read ioctl cfg ev buf n d os =
      do { (d, os) \<leftarrow> block_in ioctl IOCTL_SET_ENABLE_RX_INTERRUPT FctRead cfg ev d os; Some (Waits buf, d, os) } \<and>
    (\<exists>d1 d2 os2. UART_IRQHandler cfg ev (d\<lparr>drv := (drv d)\<lparr>rx_fifo := b # bs\<rparr>\<rparr>) os = Some (d1, os) \<and>
      block_in (ciaaDriverUart_ioctl set_baud cfg ev) IOCTL_SET_ENABLE_RX_INTERRUPT FctRead cfg ev d1 os = Some (d2, os2) \<and>
      State (TasksVar os2 ! RunningTask os) = WAITING \<and> cb_abs (rxBuf d2) \<noteq> [])"
proof -
  have em: "circBufEmpty (rxBuf d)" using d e circBufEmpty_iff by (auto simp: port_ok_def)
  let ?d = "d\<lparr>drv := (drv d)\<lparr>rx_fifo := b # bs\<rparr>\<rparr>"
  have "port_ok ?d" "0 < rx_room ?d" "os_ready cfg os"
    using d e w by (simp_all add: rx_room_def os_ready_def may_wait_def)
  from irq_step [OF this, of ev] obtain d1 where irq: "UART_IRQHandler cfg ev ?d os = Some (d1, os)" "cb_abs (rxBuf d1) \<noteq> []"
    using nb by auto
  from block_in_waits [OF w, of IOCTL_SET_ENABLE_RX_INTERRUPT set_baud FctRead d1] irq em fl show ?thesis
    by (auto simp: ciaaSerialDevices_read_def)
qed

text \<open>when the receive buffer is full, a receive interrupt takes the newest byte out of it again instead of
  storing one; the bytes that arrived stay in the driver's block of 16, and the interrupt that finds this
  full writes behind it.\<close>

lemma rx_overflow:
  assumes d: "port_ok d" and full: "rx_room d = 0" and nb: "blocked_fct d = None" and b: "rx_fifo (drv d) = b # bs"
    and th: "thre_int (drv d) = False"
  shows "(\<exists>d'. UART_IRQHandler cfg ev d os = Some (d', os) \<and> cb_abs (rxBuf d') = butlast (cb_abs (rxBuf d)) \<and>
      pending (drv d') @ rx_fifo (drv d') = pending (drv d) @ b # bs) \<and>
    UART_IRQHandler cfg ev (d\<lparr>drv := (drv d)\<lparr>rxcnt := UART_RX_FIFO_SIZE\<rparr>\<rparr>) os = None"
proof -
  obtain r rs where th': "next_thre (drv d) = (r, (drv d)\<lparr>thre := rs\<rparr>)" using next_thre_eq by blast
  let ?u = "(drv d)\<lparr>thre := rs\<rparr>"
  have ok: "cb_ok 8 (rxBuf d)" "uart_ok ?u" "rxcnt ?u < UART_RX_FIFO_SIZE" using d by (simp_all add: port_ok_def uart_ok_def)
  obtain u1 where u1: "uart_receive (b # bs) ?u = Some u1" "uart_ok u1" "pending u1 @ rx_fifo u1 = pending (drv d) @ b # bs"
    "thre_int u1 = False"
    using receive_keeps [OF ok(2,3), of "b # bs"] th by auto
  have "length (cb_abs (rxBuf d)) \<le> 255" using space_plus_count [OF ok(1)] by (simp add: length_cb_abs)
  then have "length (cb_abs (rxBuf (d\<lparr>drv := u1\<rparr>))) = 2 ^ 8 - 1" using full by (simp add: rx_room_def)
  from uart.rx_full [OF _ _ this, of cfg ev os] ok(1) u1(2) obtain c' where c':
    "cb_abs c' = butlast (cb_abs (rxBuf d))"
    "ciaaDriverUart_rxIndication cfg ev (d\<lparr>drv := u1\<rparr>) os = Some (d\<lparr>drv := u1, rxBuf := c'\<rparr>, os)"
    using nb by (auto simp: ciaaDriverUart_rxIndication_def)
  have "UART_IRQHandler cfg ev d os = Some (d\<lparr>drv := u1, rxBuf := c'\<rparr>, os)"
    using th' b u1(1,4) c'(2) by (simp add: UART_IRQHandler_def)
  moreover have "UART_IRQHandler cfg ev (d\<lparr>drv := (drv d)\<lparr>rxcnt := UART_RX_FIFO_SIZE\<rparr>\<rparr>) os = None"
  proof -
    have "next_thre ((drv d)\<lparr>rxcnt := UART_RX_FIFO_SIZE\<rparr>) = (r, ?u\<lparr>rxcnt := UART_RX_FIFO_SIZE\<rparr>)"
      using th' by (cases "drv d", cases "thre (drv d)") auto
    moreover have "wr (hwbuf (drv d)) UART_RX_FIFO_SIZE b = None" using ok(2) by (simp add: uart_ok_def wr_out)
    ultimately show ?thesis using b by (simp add: UART_IRQHandler_def)
  qed
  ultimately show ?thesis using u1(3) c'(1) by auto
qed

definition port_full :: "uart serial_device" where
  "port_full = port0\<lparr>rxBuf := \<lparr>cb_head = 0, cb_tail = 255, cb_size = 255, cb_buf = replicate 256 7\<rparr>,
     drv := (drv port0)\<lparr>rx_fifo := [0x43]\<rparr>\<rparr>"

end
