(* ===== verification/ModbusAscii.thy ===== *)
theory ModbusAscii
  imports PosixString
begin

text \<open>
  The ASCII line of Modbus, \<^verbatim>\<open>modules/modbus/src/ciaaModbus_ascii.c\<close>: a table of objects, each with a buffer of
  512 bytes and the descriptor of the port it polls.

  The port is reached through \<open>ciaaPOSIX_read\<close> and \<open>ciaaPOSIX_write\<close>, which are arguments here: the read
  stores at a position of an array and returns how many bytes it stored, the write hands over the front of an
  array. \<open>'w\<close> is the state of the ports. The number of objects is the length of the table, the period of the
  task in milliseconds is \<open>time_base\<close>; both come from the application's configuration.

  The fields and the loop variables are \<open>int32_t\<close>; they are integers, as their values stay between -1 and 1024.
  An index of an array is checked on both sides. The one conversion that loses bits, to \<open>int8_t\<close>, is written
  out.
\<close>

section \<open>The code\<close>

definition rdi :: "'a list \<Rightarrow> int \<Rightarrow> 'a option" where
  "rdi xs i = (if 0 \<le> i then rd xs (nat i) else None)"

definition wri :: "'a list \<Rightarrow> int \<Rightarrow> 'a \<Rightarrow> 'a list option" where
  "wri xs i v = (if 0 \<le> i then wr xs (nat i) v else None)"

definition int8 :: "int \<Rightarrow> int" where
  "int8 n = (n + 128) mod 256 - 128"

record ascii_obj =
  asc_fildes :: int
  bufferSize :: int
  timeOut :: int
  asc_buffer :: "uint8 list"
  asc_inUse :: bool

definition ASCII_START :: uint8 where "ASCII_START = 0x3A"
definition ASCII_END_1 :: uint8 where "ASCII_END_1 = 0x0D"
definition ASCII_END_2 :: uint8 where "ASCII_END_2 = 0x0A"
definition ASCII_MAXLENGHT :: int where "ASCII_MAXLENGHT = 512"
definition ASCII_MINLENGHT :: int where "ASCII_MINLENGHT = 9"
definition ASCII_TIMOUT_RCV :: int where "ASCII_TIMOUT_RCV = 1000"

definition ciaaModbus_binToAsciiTable :: "uint8 list" where
  "ciaaModbus_binToAsciiTable =
     [0x30, 0x31, 0x32, 0x33, 0x34, 0x35, 0x36, 0x37, 0x38, 0x39, 0x41, 0x42, 0x43, 0x44, 0x45, 0x46]"

type_synonym 'w posix_read = "int \<Rightarrow> uint8 list \<Rightarrow> nat \<Rightarrow> nat \<Rightarrow> 'w \<Rightarrow> (int \<times> uint8 list \<times> 'w) option"
type_synonym 'w posix_write = "int \<Rightarrow> uint8 list \<Rightarrow> nat \<Rightarrow> 'w \<Rightarrow> (int \<times> 'w) option"

subsection \<open>The check sum\<close>

function lrc_loop :: "uint8 list \<Rightarrow> int \<Rightarrow> int \<Rightarrow> uint8 \<Rightarrow> uint8 option" where
  "lrc_loop buf len loopi lrc =
     (if loopi < len then do { b \<leftarrow> rdi buf loopi; lrc_loop buf len (loopi + 1) (lrc + b) } else Some lrc)"
  by pat_completeness auto
termination by (relation "measure (\<lambda>(_, len, loopi, _). nat (len - loopi))") auto

definition ciaaModbus_calcLRC :: "uint8 list \<Rightarrow> int \<Rightarrow> uint8 option" where
  "ciaaModbus_calcLRC buf len = do { lrc \<leftarrow> lrc_loop buf len 0 0; Some (- lrc) }"

definition ciaaModbus_checkLRC :: "uint8 list \<Rightarrow> int \<Rightarrow> bool option" where
  "ciaaModbus_checkLRC buf len = do {
     lrc \<leftarrow> ciaaModbus_calcLRC buf (len - 1);
     b \<leftarrow> rdi buf (len - 1);
     Some (b = lrc) }"

subsection \<open>The end of a message\<close>

function find_end :: "uint8 list \<Rightarrow> int \<Rightarrow> int \<Rightarrow> int option" where
  "find_end buf len loopi =
     (if loopi < len - 1 then do {
        a \<leftarrow> rdi buf loopi;
        b \<leftarrow> rdi buf (loopi + 1);
        s \<leftarrow> rdi buf 0;
        if a = ASCII_END_1 \<and> b = ASCII_END_2 \<and> s = ASCII_START then Some (loopi + 2)
        else find_end buf len (loopi + 1) }
      else Some (- 1))"
  by pat_completeness auto
termination by (relation "measure (\<lambda>(_, len, loopi). nat (len - loopi))") auto

definition ciaaModbus_asciiCheckCompleteMsg :: "uint8 list \<Rightarrow> int \<Rightarrow> int option" where
  "ciaaModbus_asciiCheckCompleteMsg buf len =
     (if ASCII_MINLENGHT \<le> len then find_end buf len (ASCII_MINLENGHT - 2) else Some (- 1))"

subsection \<open>From text to bytes and back\<close>

definition hex_value :: "uint8 \<Rightarrow> uint8 option" where
  "hex_value c =
     (if 0x30 \<le> c \<and> c \<le> 0x39 then Some (c - 0x30)
      else if 0x41 \<le> c \<and> c \<le> 0x46 then Some (c - 0x41 + 10) else None)"

text \<open>The bytes go to the front of the array the text is read from. A character that is no digit sets the count
  to -2, so that the increment makes it -1 and the loop ends.\<close>

function bin_loop :: "uint8 list \<Rightarrow> int \<Rightarrow> int \<Rightarrow> int \<Rightarrow> int \<Rightarrow> (int \<times> uint8 list) option" where
  "bin_loop buf len loopi dest ret =
     (if loopi < len \<and> ret \<noteq> - 1 then do {
        hi \<leftarrow> rdi buf loopi;
        (aux, ret) \<leftarrow> Some (case hex_value hi of Some v \<Rightarrow> (push_bit 4 v, ret) | None \<Rightarrow> (0, - 2));
        lo \<leftarrow> rdi buf (loopi + 1);
        (aux, ret) \<leftarrow> Some (case hex_value lo of Some v \<Rightarrow> (aux + v, ret) | None \<Rightarrow> (aux, - 2));
        buf \<leftarrow> wri buf dest aux;
        bin_loop buf len (loopi + 2) (dest + 1) (ret + 1) }
      else Some (ret, buf))"
  by pat_completeness auto
termination by (relation "measure (\<lambda>(_, len, loopi, _). nat (len - loopi))") auto

definition ciaaModbus_ascii_ascii2bin :: "uint8 list \<Rightarrow> int \<Rightarrow> (int \<times> uint8 list) option" where
  "ciaaModbus_ascii_ascii2bin buf len = bin_loop buf len 1 0 0"

function hex_loop :: "uint8 list \<Rightarrow> int \<Rightarrow> uint8 list option" where
  "hex_loop buf loopi =
     (if 0 < loopi then do {
        b \<leftarrow> rdi buf (loopi - 1);
        upper \<leftarrow> rd ciaaModbus_binToAsciiTable (unat (drop_bit 4 b AND 0x0F));
        lower \<leftarrow> rd ciaaModbus_binToAsciiTable (unat (b AND 0x0F));
        buf \<leftarrow> wri buf (loopi * 2 - 1) upper;
        buf \<leftarrow> wri buf (loopi * 2) lower;
        hex_loop buf (loopi - 1) }
      else Some buf)"
  by pat_completeness auto
termination by (relation "measure (\<lambda>(_, loopi). nat loopi)") auto

subsection \<open>The table\<close>

definition ciaaModbus_asciiInit :: "ascii_obj list \<Rightarrow> ascii_obj list" where
  "ciaaModbus_asciiInit objs = map (\<lambda>ob. ob\<lparr>asc_inUse := False\<rparr>) objs"

text \<open>The first object that is not in use; its number, or -1.\<close>

function first_free :: "('a \<Rightarrow> bool) \<Rightarrow> 'a list \<Rightarrow> nat \<Rightarrow> nat" where
  "first_free in_use objs h =
     (if h < length objs \<and> in_use (objs ! h) then first_free in_use objs (Suc h) else h)"
  by pat_completeness auto
termination by (relation "measure (\<lambda>(_, objs, h). length objs - h)") auto

declare first_free.simps [simp del]

definition ciaaModbus_asciiOpen :: "int \<Rightarrow> ascii_obj list \<Rightarrow> int \<times> ascii_obj list" where
  "ciaaModbus_asciiOpen fd objs =
     (let h = first_free asc_inUse objs 0
      in if h < length objs then
           (int h, objs[h := (objs ! h)\<lparr>asc_inUse := True, asc_fildes := fd, bufferSize := 0\<rparr>])
         else (- 1, objs))"

subsection \<open>Polling the port\<close>

function find_start :: "uint8 list \<Rightarrow> int \<Rightarrow> int \<Rightarrow> int option" where
  "find_start buf loopi start =
     (if 0 \<le> loopi \<and> start = - 1 then do {
        b \<leftarrow> rdi buf loopi;
        find_start buf (loopi - 1) (if b = ASCII_START then loopi else start) }
      else Some start)"
  by pat_completeness auto
termination by (relation "measure (\<lambda>(_, loopi, _). nat (loopi + 1))") auto

function move_loop :: "uint8 list \<Rightarrow> int \<Rightarrow> int \<Rightarrow> int \<Rightarrow> uint8 list option" where
  "move_loop buf start loopi n =
     (if loopi < n then do {
        b \<leftarrow> rdi buf loopi;
        buf \<leftarrow> wri buf (loopi - start) b;
        move_loop buf start (loopi + 1) n }
      else Some buf)"
  by pat_completeness auto
termination by (relation "measure (\<lambda>(_, _, loopi, n). nat (n - loopi))") auto

definition ciaaModbus_asciiTask :: "'w posix_read \<Rightarrow> int \<Rightarrow> int \<Rightarrow> ascii_obj list \<Rightarrow> 'w \<Rightarrow>
    (ascii_obj list \<times> 'w) option" where
  "ciaaModbus_asciiTask posix_read time_base handler objs w = do {
     ob \<leftarrow> rdi objs handler;
     let ob = (if timeOut ob = 0 then ob\<lparr>bufferSize := 0\<rparr> else ob\<lparr>timeOut := timeOut ob - 1\<rparr>);
     let read = ASCII_MAXLENGHT - bufferSize ob;
     (ob, read) \<leftarrow> Some (if read = 0 then (ob\<lparr>bufferSize := 0\<rparr>, ASCII_MAXLENGHT) else (ob, read));
     (read, buf, w) \<leftarrow> posix_read (asc_fildes ob) (asc_buffer ob) (nat (bufferSize ob)) (nat read) w;
     let ob = ob\<lparr>asc_buffer := buf\<rparr>;
     ob \<leftarrow> (if 0 < read then do {
         let n = bufferSize ob + read;
         let ob = ob\<lparr>timeOut := ASCII_TIMOUT_RCV div time_base, bufferSize := n\<rparr>;
         start \<leftarrow> find_start buf (n - 1) (- 1);
         if 0 < start then do {
           buf \<leftarrow> move_loop buf start start n;
           Some (ob\<lparr>asc_buffer := buf, bufferSize := n - start\<rparr>) }
         else Some ob }
       else Some ob);
     objs \<leftarrow> wri objs handler ob;
     Some (objs, w) }"

subsection \<open>Messages\<close>

text \<open>The loops that copy a pdu: the byte at \<open>loopi + s\<close> of one array goes to \<open>loopi + d\<close> of the other.\<close>

function copy_loop :: "uint8 list \<Rightarrow> int \<Rightarrow> uint8 list \<Rightarrow> int \<Rightarrow> int \<Rightarrow> int \<Rightarrow> uint8 list option" where
  "copy_loop dst d src s loopi n =
     (if loopi < n then do {
        b \<leftarrow> rdi src (loopi + s);
        dst \<leftarrow> wri dst (loopi + d) b;
        copy_loop dst d src s (loopi + 1) n }
      else Some dst)"
  by pat_completeness auto
termination by (relation "measure (\<lambda>(_, _, _, _, loopi, n). nat (n - loopi))") auto

declare lrc_loop.simps [simp del] find_end.simps [simp del] bin_loop.simps [simp del] hex_loop.simps [simp del]
  find_start.simps [simp del] move_loop.simps [simp del] copy_loop.simps [simp del]

text \<open>\<open>msg_id\<close> and \<open>pdu\<close> are the caller's variables; the result holds them, the size and the table.\<close>

definition ciaaModbus_asciiRecvMsg :: "int \<Rightarrow> uint8 \<Rightarrow> uint8 list \<Rightarrow> ascii_obj list \<Rightarrow>
    (uint8 \<times> uint8 list \<times> int \<times> ascii_obj list) option" where
  "ciaaModbus_asciiRecvMsg handler msg_id pdu objs = do {
     ob \<leftarrow> rdi objs handler;
     len_ascii \<leftarrow> ciaaModbus_asciiCheckCompleteMsg (asc_buffer ob) (int8 (bufferSize ob));
     if ASCII_MINLENGHT \<le> len_ascii then do {
       (len_bin, buf) \<leftarrow> ciaaModbus_ascii_ascii2bin (asc_buffer ob) (len_ascii - 2);
       objs \<leftarrow> wri objs handler (ob\<lparr>bufferSize := 0, asc_buffer := buf\<rparr>);
       if 0 < len_bin then do {
         lrc_ok \<leftarrow> ciaaModbus_checkLRC buf len_bin;
         if lrc_ok then do {
           pdu \<leftarrow> copy_loop pdu 0 buf 1 0 (len_bin - 1);
           msg_id \<leftarrow> rdi buf 0;
           Some (msg_id, pdu, len_bin - 2, objs) }
         else Some (msg_id, pdu, 0, objs) }
       else Some (msg_id, pdu, 0, objs) }
     else Some (msg_id, pdu, 0, objs) }"

definition ciaaModbus_asciiSendMsg :: "'w posix_write \<Rightarrow> int \<Rightarrow> uint8 \<Rightarrow> uint8 list \<Rightarrow> int \<Rightarrow> ascii_obj list \<Rightarrow>
    'w \<Rightarrow> (ascii_obj list \<times> 'w) option" where
  "ciaaModbus_asciiSendMsg posix_write handler msg_id pdu n objs w = do {
     ob \<leftarrow> rdi objs handler;
     buf \<leftarrow> wri (asc_buffer ob) 0 msg_id;
     buf \<leftarrow> copy_loop buf 1 pdu 0 0 n;
     let n = n + 1;
     lrc \<leftarrow> ciaaModbus_calcLRC buf n;
     buf \<leftarrow> wri buf n lrc;
     let n = n + 1;
     if n * 2 + 3 \<le> ASCII_MAXLENGHT then do {
       buf \<leftarrow> hex_loop buf n;
       buf \<leftarrow> wri buf 0 ASCII_START;
       let lenAscii = n * 2 + 1;
       buf \<leftarrow> wri buf lenAscii ASCII_END_1;
       buf \<leftarrow> wri buf (lenAscii + 1) ASCII_END_2;
       objs \<leftarrow> wri objs handler (ob\<lparr>asc_buffer := buf\<rparr>);
       (_, w) \<leftarrow> posix_write (asc_fildes ob) buf (nat (lenAscii + 2)) w;
       Some (objs, w) }
     else do {
       objs \<leftarrow> wri objs handler (ob\<lparr>asc_buffer := buf\<rparr>);
       Some (objs, w) } }"

section \<open>The loops\<close>

lemma rdi_nat [simp]: "rdi xs (int i) = rd xs i" "rdi xs 0 = rd xs 0" "rdi xs (- 1) = None"
  by (simp_all add: rdi_def)

lemma wri_nat [simp]: "wri xs (int i) v = wr xs i v" "wri xs 0 v = wr xs 0 v" "wri xs (- 1) v = None"
  by (simp_all add: wri_def)

lemma int_step: "int i + 1 = int (Suc i)" "int i + 2 = int (Suc (Suc i))"
  by simp_all

lemma lrc_loop_sum:
  "i \<le> n \<Longrightarrow> n \<le> length buf \<Longrightarrow> lrc_loop buf (int n) (int i) s = Some (s + sum_list (drop i (take n buf)))"
proof (induction "n - i" arbitrary: i s)
  case 0
  then show ?case by (simp add: lrc_loop.simps)
next
  case (Suc k)
  then have lt: "i < n" by simp
  then have "drop i (take n buf) = buf ! i # drop (Suc i) (take n buf)"
    using Suc.prems by (simp add: Cons_nth_drop_Suc [symmetric])
  moreover have "lrc_loop buf (int n) (int i) s = lrc_loop buf (int n) (int (Suc i)) (s + buf ! i)"
    using lt Suc.prems by (subst lrc_loop.simps) (simp add: mem_simps int_step del: of_nat_Suc)
  moreover have "k = n - Suc i" using Suc.hyps(2) by simp
  ultimately show ?case using Suc.hyps(1) [of "Suc i"] lt Suc.prems by (simp add: add.assoc)
qed

lemma calcLRC_sum: "n \<le> length buf \<Longrightarrow> ciaaModbus_calcLRC buf (int n) = Some (- sum_list (take n buf))"
  using lrc_loop_sum [of 0 n buf 0] by (simp add: ciaaModbus_calcLRC_def)

lemma checkLRC_sum:
  assumes "0 < n" "n \<le> length buf"
  shows "ciaaModbus_checkLRC buf (int n) = Some (sum_list (take n buf) = 0)"
proof -
  obtain k where k: "n = Suc k" using assms(1) by (cases n) auto
  have "take n buf = take k buf @ [buf ! k]" using assms(2) k by (simp add: take_Suc_conv_app_nth)
  moreover have "buf ! k = - sum_list (take k buf) \<longleftrightarrow> sum_list (take k buf) + buf ! k = 0"
    by (metis add.commute add_eq_0_iff)
  ultimately show ?thesis
    using assms(2) k calcLRC_sum [of k buf] by (simp add: ciaaModbus_checkLRC_def mem_simps)
qed

lemma blit_Cons: "off < length s \<Longrightarrow> blit (s[off := x]) (Suc off) xs = blit s off (x # xs)"
  by (simp add: blit_def take_Suc_conv_app_nth)

lemma copy_loop_blit:
  "i \<le> n \<Longrightarrow> d + n \<le> length dst \<Longrightarrow> s + n \<le> length src \<Longrightarrow>
    copy_loop dst (int d) src (int s) (int i) (int n) = Some (blit dst (d + i) (take (n - i) (drop (s + i) src)))"
proof (induction "n - i" arbitrary: i dst)
  case 0
  then show ?case by (simp add: copy_loop.simps)
next
  case (Suc k)
  then have lt: "i < n" by simp
  let ?dst = "dst[d + i := src ! (s + i)]"
  have "n - i = Suc (n - Suc i)" using lt by simp
  then have "take (n - i) (drop (s + i) src) = src ! (s + i) # take (n - Suc i) (drop (Suc (s + i)) src)"
    using lt Suc.prems by (simp add: Cons_nth_drop_Suc [symmetric])
  then have eq: "blit ?dst (d + Suc i) (take (n - Suc i) (drop (s + Suc i) src)) =
      blit dst (d + i) (take (n - i) (drop (s + i) src))"
    using lt Suc.prems by (simp add: blit_Cons)
  have "copy_loop dst (int d) src (int s) (int i) (int n) = copy_loop ?dst (int d) src (int s) (int (Suc i)) (int n)"
    using lt Suc.prems
    by (subst copy_loop.simps) (simp add: mem_simps int_step add.commute flip: of_nat_add)
  then show ?case using Suc.hyps(1) [of "Suc i" ?dst] Suc.hyps(2) lt Suc.prems eq by simp
qed

lemma move_loop_blit:
  "p \<le> i \<Longrightarrow> i \<le> n \<Longrightarrow> n \<le> length buf \<Longrightarrow> 0 < p \<Longrightarrow>
    move_loop buf (int p) (int i) (int n) = Some (blit buf (i - p) (take (n - i) (drop i buf)))"
proof (induction "n - i" arbitrary: i buf)
  case 0
  then show ?case by (simp add: move_loop.simps)
next
  case (Suc k)
  then have lt: "i < n" by simp
  let ?buf = "buf[i - p := buf ! i]"
  have "n - i = Suc (n - Suc i)" using lt by simp
  then have "take (n - i) (drop i buf) = buf ! i # take (n - Suc i) (drop (Suc i) buf)"
    using lt Suc.prems by (simp add: Cons_nth_drop_Suc [symmetric])
  moreover have "drop (Suc i) ?buf = drop (Suc i) buf" using Suc.prems by simp
  moreover have "Suc i - p = Suc (i - p)" using Suc.prems by simp
  ultimately have eq: "blit ?buf (Suc i - p) (take (n - Suc i) (drop (Suc i) ?buf)) =
      blit buf (i - p) (take (n - i) (drop i buf))"
    using lt Suc.prems by (simp add: blit_Cons)
  have "int i - int p = int (i - p)" using Suc.prems by simp
  then have "wri buf (int i - int p) (buf ! i) = Some ?buf"
    using lt Suc.prems by (simp only: wri_nat) (simp add: mem_simps)
  then have "move_loop buf (int p) (int i) (int n) = move_loop ?buf (int p) (int (Suc i)) (int n)"
    using lt Suc.prems by (subst move_loop.simps) (simp add: mem_simps add.commute)
  then show ?case using Suc.hyps(1) [of "Suc i" ?buf] Suc.hyps(2) lt Suc.prems eq by simp
qed

lemma find_start_none:
  "n \<le> length buf \<Longrightarrow> ASCII_START \<notin> set (take n buf) \<Longrightarrow> find_start buf (int n - 1) (- 1) = Some (- 1)"
proof (induction n)
  case (Suc n)
  then have "take (Suc n) buf = take n buf @ [buf ! n]" by (simp add: take_Suc_conv_app_nth)
  with Suc show ?case by (subst find_start.simps) (auto simp: mem_simps)
qed (simp add: find_start.simps)

lemma find_start_last:
  "take n buf = ys @ ASCII_START # zs \<Longrightarrow> ASCII_START \<notin> set zs \<Longrightarrow> n \<le> length buf \<Longrightarrow>
    find_start buf (int n - 1) (- 1) = Some (int (length ys))"
proof (induction zs arbitrary: n rule: rev_induct)
  case Nil
  then have n: "n = Suc (length ys)" by (metis length_append_singleton length_take min.absorb2)
  with Nil have "buf ! length ys = ASCII_START" by (metis lessI nth_append_length nth_take)
  with n Nil(3) show ?case by (subst find_start.simps, simp add: mem_simps) (simp add: find_start.simps)
next
  case (snoc z zs)
  from snoc.prems(1,3) have n: "n = Suc (length (ys @ ASCII_START # zs))"
    by (metis append_Cons append_assoc length_append_singleton length_take min.absorb2)
  then obtain m where m: "n = Suc m" by simp
  with snoc.prems(3) have "take n buf = take m buf @ [buf ! m]" by (simp add: take_Suc_conv_app_nth)
  with snoc.prems(1) have "take m buf = ys @ ASCII_START # zs" "buf ! m = z" by simp_all
  with snoc m show ?case by (subst find_start.simps) (auto simp: mem_simps)
qed

definition crlf :: "uint8 list \<Rightarrow> nat \<Rightarrow> bool" where
  "crlf buf e \<longleftrightarrow> buf ! e = ASCII_END_1 \<and> buf ! Suc e = ASCII_END_2"

lemma find_end_cases:
  assumes "n \<le> length buf" "0 < n" "i \<le> n" 
  obtains (none) "find_end buf (int n) (int i) = Some (- 1)"
      "buf ! 0 = ASCII_START \<Longrightarrow> \<forall>e. i \<le> e \<and> Suc e < n \<longrightarrow> \<not> crlf buf e"
    | (found) e where "find_end buf (int n) (int i) = Some (int e + 2)" "i \<le> e" "Suc e < n" "crlf buf e"
      "buf ! 0 = ASCII_START" "\<forall>j. i \<le> j \<and> j < e \<longrightarrow> \<not> crlf buf j"
  using assms
proof (induction "n - i" arbitrary: i thesis)
  case 0
  then have "n = i" by simp
  then show ?case by (intro "0.prems"(1)) (auto simp: find_end.simps)
next
  case (Suc k)
  show ?case
  proof (cases "Suc i < n")
    case False
    then show ?thesis by (intro Suc.prems(1)) (auto simp: find_end.simps)
  next
    case True
    have step: "find_end buf (int n) (int i) =
        (if crlf buf i \<and> buf ! 0 = ASCII_START then Some (int i + 2) else find_end buf (int n) (int (Suc i)))"
    proof -
      have "rdi buf (int (Suc i)) = Some (buf ! Suc i)" using True Suc.prems by (simp only: rdi_nat) (simp add: mem_simps)
      then have "rdi buf (int i) = Some (buf ! i)" "rdi buf (int i + 1) = Some (buf ! Suc i)" "rdi buf 0 = Some (buf ! 0)"
        using True Suc.prems by (auto simp: rd_def add.commute)
      with True show ?thesis by (subst find_end.simps) (simp add: crlf_def add.commute)
    qed
    show ?thesis
    proof (cases "crlf buf i \<and> buf ! 0 = ASCII_START")
      case now: True
      with step True show ?thesis by (intro Suc.prems(2)) auto
    next
      case False
      with step have eq: "find_end buf (int n) (int i) = find_end buf (int n) (int (Suc i))" by simp
      have k: "k = n - Suc i" using Suc.hyps(2) by simp
      show ?thesis
      proof (rule Suc.hyps(1) [OF k])
        assume n: "find_end buf (int n) (int (Suc i)) = Some (- 1)"
          "buf ! 0 = ASCII_START \<Longrightarrow> \<forall>e. Suc i \<le> e \<and> Suc e < n \<longrightarrow> \<not> crlf buf e"
        show ?thesis
          by (rule Suc.prems(1)) (use n eq False in \<open>auto simp: Suc_le_eq dest: le_neq_implies_less\<close>)
      next
        fix e assume e: "find_end buf (int n) (int (Suc i)) = Some (int e + 2)" "Suc i \<le> e" "Suc e < n" "crlf buf e"
          "buf ! 0 = ASCII_START" "\<forall>j. Suc i \<le> j \<and> j < e \<longrightarrow> \<not> crlf buf j"
        show ?thesis
          by (rule Suc.prems(2) [of e]) (use e eq False in \<open>auto simp: Suc_le_eq dest: le_neq_implies_less\<close>)
      qed (use True Suc.prems in auto)
    qed
  qed
qed

section \<open>Hexadecimal text\<close>

text \<open>The text of a list of bytes, and the bytes of a text: the reference for the two conversions, which work in
  place.\<close>

definition hex2 :: "uint8 \<Rightarrow> uint8 list" where
  "hex2 b = [ciaaModbus_binToAsciiTable ! unat (drop_bit 4 b), ciaaModbus_binToAsciiTable ! unat (b AND 0x0F)]"

definition hex_text :: "uint8 list \<Rightarrow> uint8 list" where
  "hex_text bs = concat (map hex2 bs)"

fun from_hex :: "uint8 list \<Rightarrow> uint8 list option" where
  "from_hex [] = Some []"
| "from_hex [c] = None"
| "from_hex (h # l # t) = do {
     hi \<leftarrow> hex_value h;
     lo \<leftarrow> hex_value l;
     bs \<leftarrow> from_hex t;
     Some ((push_bit 4 hi + lo) # bs) }"

lemma length_hex_text [simp]: "length (hex_text bs) = 2 * length bs"
  by (induction bs) (simp_all add: hex_text_def hex2_def)

lemma hex_text_simps [simp]: "hex_text [] = []" "hex_text (b # bs) = hex2 b @ hex_text bs"
  "hex_text (bs @ cs) = hex_text bs @ hex_text cs"
  by (simp_all add: hex_text_def)

lemma table_chars:
  "list_all (\<lambda>n. hex_value (ciaaModbus_binToAsciiTable ! n) = Some (of_nat n) \<and>
    ciaaModbus_binToAsciiTable ! n \<notin> {ASCII_START, ASCII_END_1, ASCII_END_2}) [0..<16]"
  by code_simp

lemma hex_value_table:
  assumes "n < 16"
  shows "hex_value (ciaaModbus_binToAsciiTable ! n) = Some (of_nat n)"
    and "ciaaModbus_binToAsciiTable ! n \<notin> {ASCII_START, ASCII_END_1, ASCII_END_2}"
  using table_chars assms by (auto simp: list_all_iff)

lemma hex_low_digit: "unat (b AND 0x0F) < 16" for b :: uint8
proof -
  have "b AND 0x0F \<le> 0x0F" by (rule word_and_le1)
  then show ?thesis by (simp add: word_le_nat_alt)
qed

lemma hex_high_digit: "unat (drop_bit 4 b) < 16" for b :: uint8
proof -
  have "unat (drop_bit 4 b) = unat b div 2 ^ 4"
    by (simp add: drop_bit_eq_div unat_div)
  moreover have "unat b < 2 ^ LENGTH(8)" by (rule unsigned_less)
  ultimately show ?thesis by simp
qed

lemma high_masked: "drop_bit 4 b AND 0x0F = drop_bit 4 b" for b :: uint8
proof -
  have "drop_bit 4 b AND mask 4 = drop_bit 4 b"
    using hex_high_digit [of b] by (simp add: word_unat_eq_iff unat_and_mask)
  then show ?thesis by (simp add: mask_eq_exp_minus_1)
qed

lemma nibbles: "push_bit 4 (drop_bit 4 b) + (b AND 0x0F) = b" for b :: uint8
proof -
  have "push_bit 4 (drop_bit 4 b) + take_bit 4 b = b" by (rule bits_ident)
  moreover have "take_bit 4 b = b AND 0x0F" by (simp add: take_bit_eq_mask mask_eq_exp_minus_1)
  ultimately show ?thesis by simp
qed

lemma from_hex_text: "from_hex (hex_text bs) = Some bs"
  by (induction bs) (simp_all add: hex2_def hex_value_table hex_low_digit hex_high_digit nibbles)

lemma hex_text_chars: "c \<in> set (hex_text bs) \<Longrightarrow> c \<notin> {ASCII_START, ASCII_END_1, ASCII_END_2}"
  by (induction bs) (auto simp: hex2_def hex_value_table [OF hex_low_digit, simplified] hex_value_table [OF hex_high_digit, simplified])

subsection \<open>From text to bytes\<close>

lemma bin_loop_hex:
  assumes "length buf \<ge> 1 + 2 * (j + r)" and "len = 2 * (j + r) \<or> len = 1 + 2 * (j + r)"
  shows "case from_hex (take (2 * r) (drop (1 + 2 * j) buf)) of
      Some bs \<Rightarrow> bin_loop buf (int len) (1 + 2 * int j) (int j) (int j) = Some (int (j + r), blit buf j bs)
    | None \<Rightarrow> \<exists>buf'. bin_loop buf (int len) (1 + 2 * int j) (int j) (int j) = Some (- 1, buf') \<and> length buf' = length buf"
  using assms
proof (induction r arbitrary: j buf)
  case 0
  then show ?case by (auto simp: bin_loop.simps)
next
  case (Suc r)
  let ?h = "buf ! (1 + 2 * j)" and ?l = "buf ! (2 + 2 * j)"
  have lens: "2 + 2 * j < length buf" "1 + 2 * j < len" using Suc.prems by auto
  then have "drop (1 + 2 * j) buf = ?h # ?l # drop (3 + 2 * j) buf"
    by (simp add: Cons_nth_drop_Suc [symmetric] numeral_3_eq_3 numeral_2_eq_2)
  then have t: "take (2 * Suc r) (drop (1 + 2 * j) buf) = ?h # ?l # take (2 * r) (drop (3 + 2 * j) buf)"
    by simp
  have rds: "rdi buf (1 + 2 * int j) = Some ?h" "rdi buf (2 + 2 * int j) = Some ?l"
    using lens by (auto simp: rdi_def rd_def nat_add_distrib nat_mult_distrib)
  have go: "1 + 2 * int j < int len" using lens by simp
  have w: "wr buf j v = Some (buf[j := v])" for v using lens by (simp add: mem_simps)
  show ?case
  proof (cases "hex_value ?h = None \<or> hex_value ?l = None")
    case True
    then have "\<exists>v. bin_loop buf (int len) (1 + 2 * int j) (int j) (int j) =
        bin_loop (buf[j := v]) (int len) (1 + 2 * int j + 2) (int j + 1) (- 1)"
      using go by (subst bin_loop.simps) (auto simp: rds w split: option.splits)
    moreover have "bin_loop b n i d (- 1) = Some (- 1, b)" for b n i d by (subst bin_loop.simps) simp
    moreover have none: "from_hex (take (2 * Suc r) (drop (1 + 2 * j) buf)) = None"
      using True unfolding t by (auto split: bind_splits)
    ultimately show ?thesis unfolding none by auto
  next
    case False
    then obtain h l where hl: "hex_value ?h = Some h" "hex_value ?l = Some l" by auto
    let ?buf = "buf[j := push_bit 4 h + l]"
    have "bin_loop buf (int len) (1 + 2 * int j) (int j) (int j) =
        bin_loop ?buf (int len) (1 + 2 * int (Suc j)) (int (Suc j)) (int (Suc j))"
      using go hl by (subst bin_loop.simps) (simp add: rds w add.commute [of "int j" 1])
    moreover have "drop (1 + 2 * Suc j) ?buf = drop (3 + 2 * j) buf" by (simp add: numeral_3_eq_3)
    moreover have "blit ?buf (Suc j) bs = blit buf j ((push_bit 4 h + l) # bs)" for bs
      using lens by (intro blit_Cons) simp
    moreover have some: "from_hex (take (2 * Suc r) (drop (1 + 2 * j) buf)) =
        map_option ((#) (push_bit 4 h + l)) (from_hex (take (2 * r) (drop (3 + 2 * j) buf)))"
      using hl unfolding t by (cases "from_hex (take (2 * r) (drop (3 + 2 * j) buf))") simp_all
    ultimately show ?thesis
      using Suc.IH [of "Suc j" ?buf] Suc.prems unfolding some
      by (cases "from_hex (take (2 * r) (drop (3 + 2 * j) buf))") auto
  qed
qed

subsection \<open>From bytes to text\<close>

lemma hex_loop_text:
  "1 + 2 * n \<le> length buf \<Longrightarrow> hex_loop buf (int n) = Some (blit buf 1 (hex_text (take n buf)))"
proof (induction n arbitrary: buf)
  case 0
  then show ?case by (simp add: hex_loop.simps)
next
  case (Suc n)
  let ?b = "buf ! n"
  let ?u = "ciaaModbus_binToAsciiTable ! unat (drop_bit 4 ?b)" and ?l = "ciaaModbus_binToAsciiTable ! unat (?b AND 0x0F)"
  let ?buf = "buf[2 * n + 1 := ?u, 2 * n + 2 := ?l]"
  have len: "length ciaaModbus_binToAsciiTable = 16" by (simp add: ciaaModbus_binToAsciiTable_def)
  have "rdi buf (int (Suc n) - 1) = Some ?b" using Suc.prems by (simp add: mem_simps)
  moreover have "wri buf (int (Suc n) * 2 - 1) ?u = Some (buf[2 * n + 1 := ?u])"
    "wri (buf[2 * n + 1 := ?u]) (int (Suc n) * 2) ?l = Some ?buf"
    using Suc.prems by (auto simp: wri_def wr_def nat_mult_distrib nat_add_distrib mult.commute)
  ultimately have "hex_loop buf (int (Suc n)) = hex_loop ?buf (int n)"
    using len hex_low_digit [of ?b] hex_high_digit [of ?b]
    by (subst hex_loop.simps) (simp add: high_masked mem_simps)
  also have "\<dots> = Some (blit ?buf 1 (hex_text (take n buf)))"
    using Suc by simp
  also have "blit ?buf 1 (hex_text (take n buf)) = blit buf 1 (hex_text (take (Suc n) buf))"
  proof -
    have "drop (1 + 2 * n) ?buf = ?u # ?l # drop (3 + 2 * n) buf"
      using Suc.prems by (simp add: drop_update_swap Cons_nth_drop_Suc [symmetric] numeral_3_eq_3)
    then show ?thesis
      using Suc.prems by (simp add: blit_def take_Suc_conv_app_nth hex2_def numeral_3_eq_3)
  qed
  finally show ?case .
qed

section \<open>Sending\<close>

text \<open>A message on the line: the start, the address, the pdu and the check sum in text, and the end.\<close>

definition ascii_frame :: "uint8 \<Rightarrow> uint8 list \<Rightarrow> uint8 list" where
  "ascii_frame msg_id pdu =
     ASCII_START # hex_text (msg_id # pdu @ [- sum_list (msg_id # pdu)]) @ [ASCII_END_1, ASCII_END_2]"

lemma length_ascii_frame [simp]: "length (ascii_frame msg_id pdu) = 2 * length pdu + 7"
  by (simp add: ascii_frame_def hex2_def)

lemma send_prepared:
  assumes "length buf = 512" and "n \<le> 510" and "n \<le> length pdu"
  shows "\<exists>b c. wri buf 0 msg_id = Some (buf[0 := msg_id]) \<and> copy_loop (buf[0 := msg_id]) 1 pdu 0 0 (int n) = Some b \<and>
    ciaaModbus_calcLRC b (int n + 1) = Some c \<and> wri b (int n + 1) c = Some (b[Suc n := c]) \<and> length b = 512 \<and>
    take (n + 2) (b[Suc n := c]) = msg_id # take n pdu @ [- sum_list (msg_id # take n pdu)]"
proof -
  let ?b = "blit (buf[0 := msg_id]) 1 (take n pdu)"
  have len: "length ?b = 512" using assms by simp
  have t: "take (Suc n) ?b = msg_id # take n pdu" using assms by (cases buf) (simp_all add: blit_def)
  have "copy_loop (buf[0 := msg_id]) (int 1) pdu (int 0) (int 0) (int n) = Some ?b"
    using assms by (subst copy_loop_blit) simp_all
  moreover have "ciaaModbus_calcLRC ?b (int (Suc n)) = Some (- sum_list (msg_id # take n pdu))"
    using calcLRC_sum [of "Suc n" ?b] len assms(2) t by simp
  moreover have "wri ?b (int (Suc n)) v = Some (?b[Suc n := v])" for v
    using len assms(2) by (simp only: wri_nat) (simp add: mem_simps)
  moreover have "take (n + 2) (?b[Suc n := v]) = take (Suc n) ?b @ [v]" for v
    using len assms(2) by (simp add: take_Suc_conv_app_nth)
  ultimately show ?thesis
    using assms(1) t len
    by (intro exI [of _ ?b] exI [of _ "- sum_list (msg_id # take n pdu)"]) (simp add: mem_simps add.commute)
qed

lemma close_list:
  "length ys = m \<Longrightarrow> i = m + 1 \<Longrightarrow> k = m + 2 \<Longrightarrow> take k ((ys @ p # q # r)[m := a, i := b]) = ys @ [a, b]"
  by (simp add: list_update_append)

lemma sendMsg_frame:
  assumes h: "rdi objs handler = Some ob" and len: "length (asc_buffer ob) = 512"
    and n: "n \<le> 252" "n \<le> length pdu"
  shows "\<exists>buf. length buf = 512 \<and> take (2 * n + 7) buf = ascii_frame msg_id (take n pdu) \<and>
    ciaaModbus_asciiSendMsg posix_write handler msg_id pdu (int n) objs w = do {
      (_, w) \<leftarrow> posix_write (asc_fildes ob) buf (2 * n + 7) w;
      Some (objs[nat handler := ob\<lparr>asc_buffer := buf\<rparr>], w) }"
proof -
  obtain b c where b: "wri (asc_buffer ob) 0 msg_id = Some ((asc_buffer ob)[0 := msg_id])"
    "copy_loop ((asc_buffer ob)[0 := msg_id]) 1 pdu 0 0 (int n) = Some b"
    "ciaaModbus_calcLRC b (int n + 1) = Some c" "wri b (int n + 1) c = Some (b[Suc n := c])" "length b = 512"
    "take (n + 2) (b[Suc n := c]) = msg_id # take n pdu @ [- sum_list (msg_id # take n pdu)]"
    using send_prepared [OF len _ n(2)] n(1) by force
  let ?t = "hex_text (msg_id # take n pdu @ [- sum_list (msg_id # take n pdu)])"
  let ?b1 = "blit (b[Suc n := c]) 1 ?t"
  let ?b2 = "?b1[0 := ASCII_START, 2 * n + 5 := ASCII_END_1, 2 * n + 6 := ASCII_END_2]"
  have lt: "length ?t = 2 * n + 4" using n(2) by (simp add: hex2_def)
  have l1: "length ?b1 = 512" using b(5) n lt by (subst length_blit) simp_all
  have "hex_loop (b[Suc n := c]) (int (n + 2)) = Some ?b1"
    using hex_loop_text [of "n + 2" "b[Suc n := c]"] b(5,6) n(1) by simp
  moreover have "wri ?b1 0 ASCII_START = Some (?b1[0 := ASCII_START])"
    using l1 by (simp add: mem_simps)
  moreover have "wri (?b1[0 := ASCII_START]) (int (2 * n + 5)) ASCII_END_1 = Some (?b1[0 := ASCII_START, 2 * n + 5 := ASCII_END_1])"
    "wri (?b1[0 := ASCII_START, 2 * n + 5 := ASCII_END_1]) (int (2 * n + 6)) ASCII_END_2 = Some ?b2"
    using l1 n(1) by (simp_all only: wri_nat) (simp_all add: mem_simps)
  moreover have "wri objs handler v = Some (objs[nat handler := v])" for v
    using h by (auto simp: rdi_def wri_def rd_def wr_def split: if_splits)
  moreover have "take (2 * n + 7) ?b2 = ascii_frame msg_id (take n pdu)"
  proof -
    obtain x xs where bx: "b[Suc n := c] = x # xs" using b(5) by (cases "b[Suc n := c]") auto
    have "?b1[0 := ASCII_START] = (ASCII_START # ?t) @ drop (2 * n + 4) xs"
    proof -
      have "drop (1 + length ?t) (x # xs) = drop (2 * n + 4) xs" using lt by (simp only: plus_1_eq_Suc drop_Suc_Cons)
      then show ?thesis by (simp add: blit_def bx)
    qed
    moreover have "length xs = 511" using arg_cong [OF bx, of length] b(5) by simp
    then have "drop (2 * n + 4) xs = xs ! (2 * n + 4) # xs ! (2 * n + 5) # drop (2 * n + 6) xs"
      using n(1) by (simp add: Cons_nth_drop_Suc [symmetric] add.commute)
    ultimately have eq: "?b1[0 := ASCII_START] = (ASCII_START # ?t) @ xs ! (2 * n + 4) # xs ! (2 * n + 5) # drop (2 * n + 6) xs"
      by (simp only:)
    have "take (2 * n + 7) ?b2 = (ASCII_START # ?t) @ [ASCII_END_1, ASCII_END_2]"
      unfolding eq by (rule close_list) (use lt n(2) in \<open>simp_all del: hex_text_simps\<close>)
    then show ?thesis by (simp add: ascii_frame_def del: hex_text_simps)
  qed
  ultimately show ?thesis
    using h b n l1
    by (intro exI [of _ ?b2]) (simp add: ciaaModbus_asciiSendMsg_def Let_def ASCII_MAXLENGHT_def add.commute mult.commute
      nat_add_distrib nat_mult_distrib del: hex_text_simps)
qed

text \<open>A pdu of 253 to 510 bytes is not sent; a longer one is stored behind the buffer.\<close>

lemma sendMsg_silent:
  assumes h: "rdi objs handler = Some ob" and len: "length (asc_buffer ob) = 512"
    and n: "253 \<le> n" "n \<le> 510" "n \<le> length pdu"
  shows "\<exists>buf. ciaaModbus_asciiSendMsg posix_write handler msg_id pdu (int n) objs w =
    Some (objs[nat handler := ob\<lparr>asc_buffer := buf\<rparr>], w)"
proof -
  obtain b c where b: "wri (asc_buffer ob) 0 msg_id = Some ((asc_buffer ob)[0 := msg_id])"
    "copy_loop ((asc_buffer ob)[0 := msg_id]) 1 pdu 0 0 (int n) = Some b"
    "ciaaModbus_calcLRC b (int n + 1) = Some c" "wri b (int n + 1) c = Some (b[Suc n := c])"
    using send_prepared [OF len n(2,3)] by force
  moreover have "wri objs handler v = Some (objs[nat handler := v])" for v
    using h by (auto simp: rdi_def wri_def rd_def wr_def split: if_splits)
  ultimately show ?thesis
    using h n(1) by (intro exI [of _ "b[Suc n := c]"]) (simp add: ciaaModbus_asciiSendMsg_def Let_def ASCII_MAXLENGHT_def)
qed

lemma copy_loop_bounds:
  "copy_loop dst d src s i n = Some r \<Longrightarrow> i < n \<Longrightarrow> n + d \<le> int (length dst) \<and> length r = length dst"
proof (induction dst d src s i n rule: copy_loop.induct)
  case (1 dst d src s i n)
  then obtain b dst' where b: "rdi src (i + s) = Some b" "wri dst (i + d) b = Some dst'"
    "copy_loop dst' d src s (i + 1) n = Some r"
    by (subst (asm) copy_loop.simps) (auto simp: bind_eq_Some_conv)
  have l: "length dst' = length dst" "i + d < int (length dst)"
    using b(2) by (auto simp: wri_def wr_eq_Some split: if_splits)
  show ?case
  proof (cases "i + 1 < n")
    case True
    with "1.IH" [OF "1.prems"(2) b] l show ?thesis by simp
  next
    case False
    with "1.prems"(2) have "n = i + 1" by simp
    with b(3) l show ?thesis by (simp add: copy_loop.simps)
  qed
qed

lemma sendMsg_overrun:
  assumes "rdi objs handler = Some ob" and "length (asc_buffer ob) = 512" and "511 \<le> n"
  shows "ciaaModbus_asciiSendMsg posix_write handler msg_id pdu n objs w = None"
proof (cases "copy_loop ((asc_buffer ob)[0 := msg_id]) 1 pdu 0 0 n")
  case None
  with assms show ?thesis by (simp add: ciaaModbus_asciiSendMsg_def mem_simps)
next
  case (Some b)
  with copy_loop_bounds [OF Some] assms have n: "n = 511" "length b = 512" by auto
  then have "wri b (n + 1) c = None" for c by (simp add: wri_def wr_out)
  with Some assms show ?thesis
    by (cases "ciaaModbus_calcLRC b (n + 1)") (simp_all add: ciaaModbus_asciiSendMsg_def mem_simps)
qed

section \<open>Receiving\<close>

text \<open>What a received text stands for: the bytes of its first message (address, pdu and check sum), if it starts
  with one that is complete, consists of digits and has the right sum.\<close>

definition ascii_message :: "uint8 list \<Rightarrow> uint8 list option" where
  "ascii_message c =
     (if 9 \<le> length c \<and> c ! 0 = ASCII_START then do {
        e \<leftarrow> find (crlf c) [7..<length c - 1];
        bs \<leftarrow> from_hex (take (2 * (e div 2)) (drop 1 c));
        if sum_list bs = 0 then Some bs else None }
      else None)"

definition asc_ok :: "ascii_obj \<Rightarrow> bool" where
  "asc_ok ob \<longleftrightarrow> length (asc_buffer ob) = 512 \<and> 0 \<le> bufferSize ob \<and> bufferSize ob \<le> 512 \<and> 0 \<le> timeOut ob"

definition asc_content :: "ascii_obj \<Rightarrow> uint8 list" where
  "asc_content ob = take (nat (bufferSize ob)) (asc_buffer ob)"

lemma find_upt:
  assumes "i \<le> e" "e < m" "P e" "\<forall>j. i \<le> j \<and> j < e \<longrightarrow> \<not> P j"
  shows "find P [i..<m] = Some e"
proof -
  have "[i..<m] = [i..<e] @ e # [Suc e..<m]"
    using assms(1,2) by (metis le_add_diff_inverse less_imp_le_nat upt_add_eq_append upt_conv_Cons)
  moreover have "find P [i..<e] = None" using assms(4) by (auto simp: find_None_iff)
  moreover have "find P (xs @ ys) = (case find P xs of None \<Rightarrow> find P ys | Some x \<Rightarrow> Some x)" for xs ys :: "nat list"
    by (induction xs) auto
  ultimately show ?thesis using assms(3) by simp
qed

lemma complete_msg:
  assumes n: "n \<le> length buf"
  shows "ciaaModbus_asciiCheckCompleteMsg buf (int n) = Some
    (if 9 \<le> n \<and> buf ! 0 = ASCII_START then
       case find (crlf (take n buf)) [7..<n - 1] of None \<Rightarrow> - 1 | Some e \<Rightarrow> int e + 2
     else - 1)"
proof (cases "9 \<le> n")
  case True
  then have "0 < n" "7 \<le> n" by auto
  have c: "crlf (take n buf) e \<longleftrightarrow> crlf buf e" if "Suc e < n" for e using that by (simp add: crlf_def)
  from n \<open>0 < n\<close> \<open>7 \<le> n\<close> show ?thesis
  proof (cases rule: find_end_cases)
    case none
    then have "find (crlf (take n buf)) [7..<n - 1] = None" if "buf ! 0 = ASCII_START"
      using that c by (auto simp: find_None_iff)
    with none(1) True show ?thesis
      by (simp add: ciaaModbus_asciiCheckCompleteMsg_def ASCII_MINLENGHT_def)
  next
    case (found e)
    then have "find (crlf (take n buf)) [7..<n - 1] = Some e"
      using c by (intro find_upt) auto
    with found(1,5) True show ?thesis
      by (simp add: ciaaModbus_asciiCheckCompleteMsg_def ASCII_MINLENGHT_def)
  qed
qed (simp add: ciaaModbus_asciiCheckCompleteMsg_def ASCII_MINLENGHT_def)

lemma complete_msg_negative: "n < 9 \<Longrightarrow> ciaaModbus_asciiCheckCompleteMsg buf n = Some (- 1)"
  by (simp add: ciaaModbus_asciiCheckCompleteMsg_def ASCII_MINLENGHT_def)

lemma from_hex_length: "from_hex t = Some bs \<Longrightarrow> length t = 2 * length bs"
  by (induction t arbitrary: bs rule: from_hex.induct) (auto split: bind_splits)

lemma ascii2bin_hex:
  assumes "e + 1 < length buf"
  shows "case from_hex (take (2 * (e div 2)) (drop 1 buf)) of
      Some bs \<Rightarrow> ciaaModbus_ascii_ascii2bin buf (int e) = Some (int (length bs), blit buf 0 bs)
    | None \<Rightarrow> \<exists>buf'. ciaaModbus_ascii_ascii2bin buf (int e) = Some (- 1, buf') \<and> length buf' = length buf"
proof -
  define m where "m = e div 2"
  have r: "e = 2 * (0 + m) \<or> e = 1 + 2 * (0 + m)" unfolding m_def by presburger
  then have len: "1 + 2 * (0 + m) \<le> length buf" using assms by auto
  have "1 + 2 * 0 = (1::nat)" by simp
  note bin = bin_loop_hex [OF len r, unfolded this]
  show ?thesis
  proof (cases "from_hex (take (2 * m) (drop 1 buf))")
    case None
    show ?thesis
      using bin unfolding m_def [symmetric] None by (simp add: ciaaModbus_ascii_ascii2bin_def)
  next
    case (Some bs)
    have "length bs = m" using from_hex_length [OF Some] len by (simp add: min_def split: if_splits)
    then show ?thesis
      using bin unfolding m_def [symmetric] Some by (simp add: ciaaModbus_ascii_ascii2bin_def)
  qed
qed

text \<open>What an object has received, as \<open>asciiRecvMsg\<close> sees it: the count goes through \<open>int8_t\<close>.\<close>

definition asc_seen :: "ascii_obj \<Rightarrow> uint8 list" where
  "asc_seen ob = take (nat (int8 (bufferSize ob))) (asc_buffer ob)"

lemma int8_le: "int8 n \<le> 127"
  unfolding int8_def using pos_mod_bound [of 256 "n + 128"] by simp

lemma int8_small: "0 \<le> n \<Longrightarrow> n \<le> 127 \<Longrightarrow> int8 n = n"
  by (simp add: int8_def)

lemma asc_seen_small: "bufferSize ob \<le> 127 \<Longrightarrow> 0 \<le> bufferSize ob \<Longrightarrow> asc_seen ob = asc_content ob"
  by (simp add: asc_seen_def asc_content_def int8_small)

lemma wri_table: "rdi objs h = Some ob \<Longrightarrow> wri objs h v = Some (objs[nat h := v])"
  by (auto simp: rdi_def wri_def rd_def wr_def split: if_splits)

lemma recvMsg_message:
  assumes h: "rdi objs handler = Some ob" and ok: "asc_ok ob" and room: "61 \<le> length pdu"
  shows "\<exists>objs'. ciaaModbus_asciiRecvMsg handler msg_id pdu objs =
      Some (case ascii_message (asc_seen ob) of
          Some bs \<Rightarrow> (hd bs, blit pdu 0 (tl bs), int (length bs) - 2, objs')
        | None \<Rightarrow> (msg_id, pdu, 0, objs')) \<and>
    (objs' = objs \<and> ascii_message (asc_seen ob) = None \<or> (\<exists>buf. length buf = 512 \<and> objs' = objs[nat handler := ob\<lparr>bufferSize := 0, asc_buffer := buf\<rparr>]))"
proof (cases "int8 (bufferSize ob) < 9")
  case True
  then have "ascii_message (asc_seen ob) = None" by (simp add: ascii_message_def asc_seen_def)
  with True h show ?thesis by (simp add: ciaaModbus_asciiRecvMsg_def complete_msg_negative ASCII_MINLENGHT_def)
next
  case False
  define n where "n = nat (int8 (bufferSize ob))"
  have n: "int8 (bufferSize ob) = int n" "9 \<le> n" "n \<le> 127" using False int8_le [of "bufferSize ob"] by (simp_all add: n_def)
  let ?buf = "asc_buffer ob" and ?c = "take n (asc_buffer ob)"
  have len: "length ?buf = 512" using ok by (simp add: asc_ok_def)
  have c: "asc_seen ob = ?c" "length ?c = n" "?c ! 0 = ?buf ! 0" using n len by (simp_all add: asc_seen_def)
  note run = ciaaModbus_asciiRecvMsg_def h ASCII_MINLENGHT_def wri_table
  show ?thesis
  proof (cases "?buf ! 0 = ASCII_START \<and> find (crlf ?c) [7..<n - 1] \<noteq> None")
    case False
    then have "ascii_message ?c = None" using n c(2,3) by (auto simp: ascii_message_def)
    moreover have "ciaaModbus_asciiCheckCompleteMsg ?buf (int n) = Some (- 1)"
      using complete_msg [of n ?buf] n len False by auto
    ultimately show ?thesis using c(1) n(1) by (simp add: run)
  next
    case True
    then obtain e where e: "find (crlf ?c) [7..<n - 1] = Some e" by blast
    then have e': "7 \<le> e" "e < n - 1" by (auto simp: find_Some_iff dest: nth_mem)
    have msg: "ciaaModbus_asciiCheckCompleteMsg ?buf (int n) = Some (int e + 2)"
      using complete_msg [of n ?buf] n len e True by simp
    have t: "take (2 * (e div 2)) (drop 1 ?c) = take (2 * (e div 2)) (drop 1 ?buf)"
      using e' by (simp add: drop_take min_def)
    have "e + 1 < length ?buf" using e' n len by simp
    note bin = ascii2bin_hex [OF this]
    show ?thesis
    proof (cases "from_hex (take (2 * (e div 2)) (drop 1 ?buf))")
      case None
      then obtain buf' where b: "ciaaModbus_ascii_ascii2bin ?buf (int e) = Some (- 1, buf')" "length buf' = 512"
        using bin len by auto
      have "ascii_message ?c = None" using e True c n None t by (simp add: ascii_message_def)
      with b msg e' c(1) n(1) show ?thesis
        by (intro exI [of _ "objs[nat handler := ob\<lparr>bufferSize := 0, asc_buffer := buf'\<rparr>]"]) (auto simp: run)
    next
      case (Some bs)
      let ?bin = "blit ?buf 0 bs"
      have b: "ciaaModbus_ascii_ascii2bin ?buf (int e) = Some (int (length bs), ?bin)"
        using bin Some by simp
      have l: "length bs = e div 2" using from_hex_length [OF Some] e' n len by (simp add: min_def split: if_splits)
      have lb: "3 \<le> length bs" "length bs \<le> 62" using l e' n by auto
      have bin': "length ?bin = 512" "take (length bs) ?bin = bs" using lb len by (auto simp: blit_def)
      have chk: "ciaaModbus_checkLRC ?bin (int (length bs)) = Some (sum_list bs = 0)"
      proof -
        have "0 < length bs" "length bs \<le> length ?bin" using bin'(1) lb by auto
        from checkLRC_sum [OF this] show ?thesis by (simp only: bin'(2))
      qed
      have msg': "ascii_message ?c = (if sum_list bs = 0 then Some bs else None)"
        using e True c n Some t by (simp add: ascii_message_def)
      have cp: "copy_loop pdu 0 ?bin 1 0 (int (length bs) - 1) = Some (blit pdu 0 (tl bs))"
      proof -
        have "take (length bs - 1) (drop 1 ?bin) = drop 1 (take (length bs) ?bin)" by (simp add: drop_take)
        also have "\<dots> = tl bs" by (simp only: bin'(2) drop_Suc drop_0 One_nat_def)
        finally have t: "take (length bs - 1) (drop 1 ?bin) = tl bs" .
        have "1 + (length bs - 1) \<le> length ?bin" "0 + (length bs - 1) \<le> length pdu"
          using bin'(1) lb room by simp_all
        from copy_loop_blit [OF le0 this(2,1)] t
        have cp: "copy_loop pdu 0 ?bin 1 0 (int (length bs - 1)) = Some (blit pdu 0 (tl bs))" by simp
        have "int (length bs) - 1 = int (length bs - 1)" using lb by simp
        with cp show ?thesis by (simp only:)
      qed
      have "rdi ?bin 0 = Some (hd bs)" using bin' lb by (cases bs) (simp_all add: rd_def blit_def)
      with b chk cp msg msg' e' c(1) n(1) lb bin'(1) show ?thesis
        by (intro exI [of _ "objs[nat handler := ob\<lparr>bufferSize := 0, asc_buffer := ?bin\<rparr>]"]) (auto simp: run)
    qed
  qed
qed

text \<open>The text of a frame holds no other start and no end, so the first end found is its own; a frame that is cut
  is no message.\<close>

lemma frame_char:
  assumes "1 \<le> j" "j < 2 * length bs + 1"
  shows "(ASCII_START # hex_text bs @ r) ! j \<notin> {ASCII_START, ASCII_END_1, ASCII_END_2}"
proof -
  have "(ASCII_START # hex_text bs @ r) ! j = hex_text bs ! (j - 1)" using assms by (auto simp: nth_append nth_Cons')
  moreover have "hex_text bs ! (j - 1) \<in> set (hex_text bs)" using assms by (intro nth_mem) auto
  ultimately show ?thesis using hex_text_chars by simp
qed

lemma frame_message:
  assumes "p \<noteq> []"
  shows "ascii_message (ascii_frame i p) = Some (i # p @ [- sum_list (i # p)])"
proof -
  define bs where "bs = i # p @ [- sum_list (i # p)]"
  let ?c = "ASCII_START # hex_text bs @ [ASCII_END_1, ASCII_END_2]" and ?e = "2 * length bs + 1"
  have bs: "3 \<le> length bs" "sum_list bs = 0" using assms by (cases p, simp_all add: bs_def)
  have "crlf ?c ?e" by (simp add: crlf_def nth_append)
  moreover have "\<not> crlf ?c j" if "7 \<le> j \<and> j < ?e" for j
    using frame_char [of j bs] that by (auto simp: crlf_def)
  ultimately have "find (crlf ?c) [7..<length ?c - 1] = Some ?e"
    using bs(1) by (intro find_upt) auto
  then have "ascii_message ?c = Some bs"
    using bs by (simp add: ascii_message_def from_hex_text)
  then show ?thesis by (simp add: ascii_frame_def bs_def)
qed

lemma cut_frame:
  assumes "k < length (ascii_frame i p)"
  shows "find (crlf (take k (ascii_frame i p))) [7..<k - 1] = None"
proof -
  define bs where "bs = i # p @ [- sum_list (i # p)]"
  let ?c = "ASCII_START # hex_text bs @ [ASCII_END_1, ASCII_END_2]"
  have eq: "ascii_frame i p = ?c" by (simp add: ascii_frame_def bs_def)
  have "\<not> crlf (take k ?c) j" if "7 \<le> j" "Suc j < k" for j
    using frame_char [of j bs] that assms by (auto simp: crlf_def bs_def)
  then show ?thesis unfolding eq by (auto simp: find_None_iff)
qed

text \<open>A frame of more than 127 characters is never seen whole.\<close>

lemma long_frame:
  assumes h: "rdi objs handler = Some ob" and ok: "asc_ok ob" and c: "asc_content ob = ascii_frame i p"
    and long: "61 \<le> length p"
  shows "ciaaModbus_asciiRecvMsg handler msg_id pdu objs = Some (msg_id, pdu, 0, objs)"
proof (cases "int8 (bufferSize ob) < 9")
  case True
  with h show ?thesis by (simp add: ciaaModbus_asciiRecvMsg_def complete_msg_negative ASCII_MINLENGHT_def)
next
  case False
  define n where "n = nat (int8 (bufferSize ob))"
  have n: "int8 (bufferSize ob) = int n" "9 \<le> n" "n \<le> 127" using False int8_le [of "bufferSize ob"] by (simp_all add: n_def)
  have len: "n \<le> length (asc_buffer ob)" using n ok by (simp add: asc_ok_def)
  have "length (asc_content ob) = nat (bufferSize ob)" using ok by (auto simp: asc_content_def asc_ok_def)
  then have b: "nat (bufferSize ob) = length (ascii_frame i p)" by (simp add: c)
  have "take n (asc_buffer ob) = take n (asc_content ob)"
    using b n long by (simp add: asc_content_def)
  moreover have "find (crlf (take n (ascii_frame i p))) [7..<n - 1] = None"
    using n long by (intro cut_frame) simp
  ultimately have "ciaaModbus_asciiCheckCompleteMsg (asc_buffer ob) (int n) = Some (- 1)"
    using complete_msg [OF len] c by simp
  with h n(1) show ?thesis by (simp add: ciaaModbus_asciiRecvMsg_def ASCII_MINLENGHT_def)
qed

subsection \<open>Gathering\<close>

text \<open>What a poll keeps of the bytes it has: from the last start on.\<close>

definition gather :: "uint8 list \<Rightarrow> uint8 list" where
  "gather xs = (if ASCII_START \<in> set xs then ASCII_START # rev (takeWhile (\<lambda>c. c \<noteq> ASCII_START) (rev xs)) else xs)"

lemma gather_last: "ASCII_START \<notin> set zs \<Longrightarrow> gather (ys @ ASCII_START # zs) = ASCII_START # zs"
proof -
  assume "ASCII_START \<notin> set zs"
  then have "takeWhile (\<lambda>c. c \<noteq> ASCII_START) (rev zs @ ASCII_START # rev ys) = rev zs"
    by (subst takeWhile_append2) auto
  then show ?thesis by (simp add: gather_def)
qed

lemma gather_none: "ASCII_START \<notin> set xs \<Longrightarrow> gather xs = xs"
  by (simp add: gather_def)

lemma gather_loops:
  assumes n: "n \<le> length buf"
  obtains s where "find_start buf (int n - 1) (- 1) = Some s" "0 < s \<Longrightarrow> \<exists>buf'. move_loop buf s s (int n) = Some buf' \<and>
      length buf' = length buf \<and> s < int n \<and> take (nat (int n - s)) buf' = gather (take n buf)"
    "\<not> 0 < s \<Longrightarrow> gather (take n buf) = take n buf"
proof (cases "ASCII_START \<in> set (take n buf)")
  case False
  then show ?thesis using find_start_none [OF n] gather_none by (intro that [of "- 1"]) auto
next
  case True
  then obtain ys zs where yz: "take n buf = ys @ ASCII_START # zs" "ASCII_START \<notin> set zs"
    by (metis split_list_last)
  let ?p = "length ys"
  have p: "?p < n" using arg_cong [OF yz(1), of length] n by simp
  have d: "take (n - ?p) (drop ?p buf) = ASCII_START # zs"
    using yz(1) by (metis append_eq_conv_conj drop_take)
  show ?thesis
  proof (rule that [of "int ?p"])
    show "find_start buf (int n - 1) (- 1) = Some (int ?p)" using find_start_last [OF yz n] .
  next
    assume "0 < int ?p"
    then have "move_loop buf (int ?p) (int ?p) (int n) = Some (blit buf 0 (ASCII_START # zs))"
      using move_loop_blit [of ?p ?p n buf] p n d by simp
    moreover have l: "length (ASCII_START # zs) = n - ?p" using arg_cong [OF d, of length] n p by simp
    moreover have "take (n - ?p) (blit buf 0 (ASCII_START # zs)) = ASCII_START # zs"
      unfolding l [symmetric] by (simp add: blit_def)
    ultimately show "\<exists>buf'. move_loop buf (int ?p) (int ?p) (int n) = Some buf' \<and> length buf' = length buf \<and>
        int ?p < int n \<and> take (nat (int n - int ?p)) buf' = gather (take n buf)"
      using p n yz gather_last
      by (intro exI [of _ "blit buf 0 (ASCII_START # zs)"]) (simp add: nat_diff_distrib' del: of_nat_diff)
  next
    assume "\<not> 0 < int ?p"
    then show "gather (take n buf) = take n buf" using yz gather_last [of zs "[]"] by simp
  qed
qed

lemma gather_gather: "gather (gather xs @ ys) = gather (xs @ ys)"
proof (cases "ASCII_START \<in> set ys")
  case True
  then obtain us zs where "ys = us @ ASCII_START # zs" "ASCII_START \<notin> set zs" by (metis split_list_last)
  then show ?thesis using gather_last [of zs "gather xs @ us"] gather_last [of zs "xs @ us"] by simp
next
  case no: False
  show ?thesis
  proof (cases "ASCII_START \<in> set xs")
    case True
    then obtain us zs where x: "xs = us @ ASCII_START # zs" "ASCII_START \<notin> set zs" by (metis split_list_last)
    then have "ASCII_START \<notin> set (zs @ ys)" using no by simp
    then show ?thesis using x gather_last [of "zs @ ys" us] gather_last [of "zs @ ys" "[]"] gather_last [of zs us] by simp
  qed (simp add: gather_none)
qed

text \<open>Any part of a frame that begins with its start stays as it is.\<close>

lemma gather_frame: "gather (take k (ascii_frame i p)) = take k (ascii_frame i p)"
proof (cases k)
  case (Suc m)
  have "ASCII_START \<notin> set (hex_text bs)" for bs using hex_text_chars by blast
  moreover have "ASCII_START \<noteq> ASCII_END_1" "ASCII_START \<noteq> ASCII_END_2"
    by (simp_all add: ASCII_START_def ASCII_END_1_def ASCII_END_2_def)
  ultimately have "ASCII_START \<notin> set (hex_text bs @ [ASCII_END_1, ASCII_END_2])" for bs by simp
  then have "ASCII_START \<notin> set (take m (hex_text bs @ [ASCII_END_1, ASCII_END_2]))" for bs
    by (meson in_set_takeD)
  then show ?thesis
    using gather_last [of _ "[]"] unfolding Suc ascii_frame_def take_Suc_Cons append_Nil by blast
qed (simp add: gather_def)

subsection \<open>The port\<close>

text \<open>
  What a poll relies on: a read of the descriptor takes from the front of the bytes that are available, and
  returns how many it took; if there are none it may return an error. \<open>asc_kept\<close> is what a poll keeps of the
  bytes of the polls before: nothing after a time-out or when the buffer is full.
\<close>

definition asc_kept :: "ascii_obj \<Rightarrow> uint8 list" where
  "asc_kept ob = (if timeOut ob = 0 \<or> bufferSize ob = 512 then [] else asc_content ob)"

fun ascii_polls :: "'w posix_read \<Rightarrow> int \<Rightarrow> int \<Rightarrow> ascii_obj list \<Rightarrow> 'w list \<Rightarrow> ascii_obj list option" where
  "ascii_polls posix_read time_base handler objs [] = Some objs"
| "ascii_polls posix_read time_base handler objs (w # ws) = do {
     (objs, _) \<leftarrow> ciaaModbus_asciiTask posix_read time_base handler objs w;
     ascii_polls posix_read time_base handler objs ws }"

locale polled_port =
  fixes posix_read :: "'w posix_read" and fd :: int and ready :: "'w \<Rightarrow> bool" and avail :: "'w \<Rightarrow> uint8 list"
  assumes read_avail: "ready w \<Longrightarrow> 0 < n \<Longrightarrow> n < 2 ^ 32 \<Longrightarrow> pos + n \<le> length buf \<Longrightarrow> \<exists>r w'.
      posix_read fd buf pos n w = Some (r, blit buf pos (take n (avail w)), w') \<and>
      ready w' \<and> avail w' = drop n (avail w) \<and>
      (if avail w = [] then r \<le> 0 else r = int (min n (length (avail w))))"
begin

lemma task_gathers:
  assumes h: "rdi objs handler = Some ob" and ok: "asc_ok ob" and fd: "asc_fildes ob = fd"
    and w: "ready w" and tb: "0 < time_base" "time_base \<le> 1000"
  shows "\<exists>ob' w'. ciaaModbus_asciiTask posix_read time_base handler objs w = Some (objs[nat handler := ob'], w') \<and>
    asc_ok ob' \<and> asc_fildes ob' = fd \<and> asc_inUse ob' = asc_inUse ob \<and> ready w' \<and>
    avail w' = drop (512 - length (asc_kept ob)) (avail w) \<and>
    asc_content ob' = (if avail w = [] then asc_kept ob
      else gather (asc_kept ob @ take (512 - length (asc_kept ob)) (avail w))) \<and>
    timeOut ob' = (if avail w = [] then if timeOut ob = 0 then 0 else timeOut ob - 1 else 1000 div time_base)"
proof -
  let ?buf = "asc_buffer ob"
  define n where "n = (if timeOut ob = 0 \<or> bufferSize ob = 512 then 0 else nat (bufferSize ob))"
  define t where "t = (if timeOut ob = 0 then 0 else timeOut ob - 1)"
  have len: "length ?buf = 512" and bs: "0 \<le> bufferSize ob" "bufferSize ob \<le> 512" and t0: "0 \<le> t"
    using ok by (auto simp: asc_ok_def t_def)
  have n: "n < 512" using bs by (auto simp: n_def)
  have k: "asc_kept ob = take n ?buf" "length (asc_kept ob) = n"
    using n len by (auto simp: asc_kept_def asc_content_def n_def)
  define ob1 where "ob1 = ob\<lparr>bufferSize := int n, timeOut := t\<rparr>"
  obtain r w' where r: "posix_read fd ?buf n (512 - n) w = Some (r, blit ?buf n (take (512 - n) (avail w)), w')"
    "ready w'" "avail w' = drop (512 - n) (avail w)"
    "if avail w = [] then r \<le> 0 else r = int (min (512 - n) (length (avail w)))"
    using read_avail [OF w, of "512 - n" n ?buf] n len by auto
  define b where "b = blit ?buf n (take (512 - n) (avail w))"
  have bl: "length b = 512" using n len by (simp add: b_def)
  have run: "ciaaModbus_asciiTask posix_read time_base handler objs w = do {
      ob \<leftarrow> (if 0 < r then do {
          let m = int n + r;
          let ob = ob1\<lparr>asc_buffer := b, timeOut := 1000 div time_base, bufferSize := m\<rparr>;
          start \<leftarrow> find_start b (m - 1) (- 1);
          if 0 < start then do {
            buf \<leftarrow> move_loop b start start m;
            Some (ob\<lparr>asc_buffer := buf, bufferSize := m - start\<rparr>) }
          else Some ob }
        else Some (ob1\<lparr>asc_buffer := b\<rparr>));
      Some (objs[nat handler := ob], w') }"
  proof -
    let ?ob = "if timeOut ob = 0 then ob\<lparr>bufferSize := 0\<rparr> else ob\<lparr>timeOut := timeOut ob - 1\<rparr>"
    have "(let read = ASCII_MAXLENGHT - bufferSize ?ob in
        if read = 0 then (?ob\<lparr>bufferSize := 0\<rparr>, ASCII_MAXLENGHT) else (?ob, read)) = (ob1, 512 - int n)"
      using bs by (auto simp: ob1_def n_def t_def ASCII_MAXLENGHT_def Let_def intro!: ascii_obj.equality)
    moreover have "nat (512 - int n) = 512 - n" by simp
    ultimately show ?thesis
      using r(1) fd h
      by (simp add: ciaaModbus_asciiTask_def wri_table ob1_def ASCII_TIMOUT_RCV_def Let_def cong: if_cong flip: b_def)
  qed
  show ?thesis
  proof (cases "avail w = []")
    case True
    then have "b = ?buf" "\<not> 0 < r" using r(4) by (simp_all add: b_def)
    with run True r k n len t0 fd show ?thesis
      by (intro exI [of _ "ob1\<lparr>asc_buffer := b\<rparr>"] exI [of _ w'])
        (simp add: asc_ok_def asc_content_def ob1_def t_def)
  next
    case False
    define m where "m = n + min (512 - n) (length (avail w))"
    have m: "int n + r = int m" "0 < r" "m \<le> 512" using r(4) False n by (auto simp: m_def)
    have c: "take m b = asc_kept ob @ take (512 - n) (avail w)"
      using n len k by (auto simp: m_def b_def blit_def min_def)
    have T: "0 \<le> 1000 div time_base" using tb by (simp add: pos_imp_zdiv_nonneg_iff)
    have "m \<le> length b" using m bl by simp
    then obtain s where s: "find_start b (int m - 1) (- 1) = Some s" "0 < s \<Longrightarrow> \<exists>buf'. move_loop b s s (int m) = Some buf' \<and>
      length buf' = length b \<and> s < int m \<and> take (nat (int m - s)) buf' = gather (take m b)"
      "\<not> 0 < s \<Longrightarrow> gather (take m b) = take m b"
      by (rule gather_loops) blast
    show ?thesis
    proof (cases "0 < s")
      case True
      then obtain buf' where b': "move_loop b s s (int m) = Some buf'" "length buf' = 512" "s < int m"
        "take (nat (int m - s)) buf' = gather (take m b)"
        using s(2) bl by auto
      with run m s(1) True False r k n T fd c show ?thesis
        by (intro exI [of _ "ob1\<lparr>timeOut := 1000 div time_base, asc_buffer := buf', bufferSize := int m - s\<rparr>"] exI [of _ w'])
          (simp add: asc_ok_def asc_content_def ob1_def Let_def)
    next
      case no: False
      with run m s(1,3) False r k n T fd c bl show ?thesis
        by (intro exI [of _ "ob1\<lparr>asc_buffer := b, timeOut := 1000 div time_base, bufferSize := int m\<rparr>"] exI [of _ w'])
          (simp add: asc_ok_def asc_content_def ob1_def Let_def)
    qed
  qed
qed

text \<open>A frame that comes in pieces, one per poll and without a time-out, is gathered whole.\<close>

lemma polls_gather:
  assumes tb: "0 < time_base" "time_base \<le> 1000" and short: "length (ascii_frame i p) \<le> 127"
  shows "rdi objs handler = Some ob \<Longrightarrow> asc_ok ob \<Longrightarrow> asc_fildes ob = fd \<Longrightarrow> \<forall>w\<in>set ws. ready w \<Longrightarrow>
    ascii_frame i p = got @ concat (map avail ws) \<Longrightarrow> int (length ws) \<le> 1000 div time_base \<Longrightarrow>
    (if got = [] then asc_kept ob = [] else asc_content ob = got \<and> int (length ws) \<le> timeOut ob) \<Longrightarrow>
    \<exists>ob'. ascii_polls posix_read time_base handler objs ws = Some (objs[nat handler := ob']) \<and> asc_ok ob' \<and>
      asc_content ob' = ascii_frame i p"
proof (induction ws arbitrary: objs ob got)
  case Nil
  have "ascii_frame i p \<noteq> []" by (simp add: ascii_frame_def)
  with Nil have "asc_content ob = ascii_frame i p" by auto
  moreover have "objs[nat handler := ob] = objs" using Nil(1) by (auto simp: rdi_def rd_def split: if_splits)
  ultimately show ?case using Nil(2) by (intro exI [of _ ob]) simp
next
  case (Cons w ws)
  let ?c = "avail w"
  have frame: "ascii_frame i p = (got @ ?c) @ concat (map avail ws)" using Cons.prems(5) by simp
  then have part: "got @ ?c = take (length (got @ ?c)) (ascii_frame i p)" by (metis append_eq_conv_conj)
  have le: "length got + length ?c \<le> 127" using arg_cong [OF frame, of length] short by simp
  have kept: "asc_kept ob = got"
  proof (cases "got = []")
    case False
    then have "asc_content ob = got" "timeOut ob \<noteq> 0" using Cons.prems(7) by auto
    moreover have "bufferSize ob \<noteq> 512"
      using arg_cong [OF \<open>asc_content ob = got\<close>, of length] le Cons.prems(2) by (auto simp: asc_content_def asc_ok_def)
    ultimately show ?thesis by (simp add: asc_kept_def)
  qed (use Cons.prems(7) in simp)
  obtain ob' w' where t: "ciaaModbus_asciiTask posix_read time_base handler objs w = Some (objs[nat handler := ob'], w')"
    "asc_ok ob'" "asc_fildes ob' = fd"
    "asc_content ob' = (if ?c = [] then asc_kept ob else gather (asc_kept ob @ take (512 - length (asc_kept ob)) ?c))"
    "timeOut ob' = (if ?c = [] then if timeOut ob = 0 then 0 else timeOut ob - 1 else 1000 div time_base)"
    using task_gathers [OF Cons.prems(1-3) _ tb, of w] Cons.prems(4) by auto
  have c: "asc_content ob' = got @ ?c"
  proof -
    have "gather (got @ ?c) = got @ ?c" by (metis gather_frame part)
    then show ?thesis using t(4) le unfolding kept by simp
  qed
  have h: "rdi (objs[nat handler := ob']) handler = Some ob'"
    using Cons.prems(1) by (auto simp: rdi_def rd_def split: if_splits)
  have next_ok: "if got @ ?c = [] then asc_kept ob' = []
      else asc_content ob' = got @ ?c \<and> int (length ws) \<le> timeOut ob'"
  proof (cases "got @ ?c = []")
    case True
    then show ?thesis using c by (simp add: asc_kept_def)
  next
    case False
    then show ?thesis using c t(5) Cons.prems(6,7) by (auto split: if_splits)
  qed
  obtain ob'' where "ascii_polls posix_read time_base handler (objs[nat handler := ob']) ws =
      Some (objs[nat handler := ob', nat handler := ob''])" "asc_ok ob''" "asc_content ob'' = ascii_frame i p"
    using Cons.IH [OF h t(2,3) _ frame _ next_ok] Cons.prems(4,6) by auto
  then show ?case using t(1) by (intro exI [of _ ob'']) simp
qed

lemma frame_received:
  assumes tb: "0 < time_base" "time_base \<le> 1000" and p: "p \<noteq> []" "length p \<le> 60"
    and h: "rdi objs handler = Some ob" and ok: "asc_ok ob" and fd: "asc_fildes ob = fd" and idle: "asc_kept ob = []"
    and ws: "\<forall>w\<in>set ws. ready w" "concat (map avail ws) = ascii_frame i p" "int (length ws) \<le> 1000 div time_base"
    and room: "61 \<le> length pdu"
  shows "\<exists>objs' objs''. ascii_polls posix_read time_base handler objs ws = Some objs' \<and>
    ciaaModbus_asciiRecvMsg handler msg_id pdu objs' =
      Some (i, blit pdu 0 (p @ [- sum_list (i # p)]), int (length p), objs'')"
proof -
  have short: "length (ascii_frame i p) \<le> 127" using p by simp
  obtain ob' where ob': "ascii_polls posix_read time_base handler objs ws = Some (objs[nat handler := ob'])" "asc_ok ob'"
    "asc_content ob' = ascii_frame i p"
    using polls_gather [OF tb short h ok fd ws(1), of "[]"] ws(2,3) idle by auto
  have "nat (bufferSize ob') = length (ascii_frame i p)"
    using arg_cong [OF ob'(3), of length] ob'(2) by (auto simp: asc_content_def asc_ok_def)
  then have seen: "asc_seen ob' = ascii_frame i p"
    using ob'(2,3) short asc_seen_small [of ob'] by (simp add: asc_ok_def)
  have h': "rdi (objs[nat handler := ob']) handler = Some ob'"
    using h by (auto simp: rdi_def rd_def split: if_splits)
  from recvMsg_message [OF h' ob'(2) room, of msg_id] ob'(1) show ?thesis
    unfolding seen frame_message [OF p(1)] by auto
qed

end

section \<open>The handles\<close>

lemma first_free_spec:
  "h \<le> length objs \<Longrightarrow> \<forall>j<h. in_use (objs ! j) \<Longrightarrow> h \<le> first_free in_use objs h \<and>
    first_free in_use objs h \<le> length objs \<and> (\<forall>j<first_free in_use objs h. in_use (objs ! j)) \<and>
    (first_free in_use objs h < length objs \<longrightarrow> \<not> in_use (objs ! first_free in_use objs h))"
proof (induction in_use objs h rule: first_free.induct)
  case (1 in_use objs h)
  show ?case
  proof (cases "h < length objs \<and> in_use (objs ! h)")
    case True
    then have "first_free in_use objs h = first_free in_use objs (Suc h)" by (subst first_free.simps) simp
    moreover have "\<forall>j<Suc h. in_use (objs ! j)" using 1(3) True by (auto simp: less_Suc_eq)
    ultimately show ?thesis using 1(1) True by auto
  next
    case False
    then have "first_free in_use objs h = h" by (subst first_free.simps) auto
    with False 1(2,3) show ?thesis by auto
  qed
qed

end
