(* ===== verification/ModbusPort.thy ===== *)
theory ModbusPort
  imports ModbusAscii SerialPort
begin

text \<open>
  Modbus messages over a serial port: the port of \<^verbatim>\<open>ciaaSerialDevices.c\<close> in non-blocking mode as the port the
  ASCII line polls, and the properties of the line.
\<close>

section \<open>The port the line polls\<close>

text \<open>\<open>ciaaPOSIX_read\<close> on the descriptor of a serial port that does not block: a call that would wait has no
  result here.\<close>

definition serial_posix_read :: "(uint32 \<Rightarrow> int) \<Rightarrow> os_cfg \<Rightarrow> uint32 \<Rightarrow>
    (uart serial_device \<times> os_state) posix_read" where
  "serial_posix_read set_baud cfg ev fd buf pos n w =
     (case ciaaSerialDevices_read (ciaaDriverUart_ioctl set_baud cfg ev) cfg ev (drop pos buf) (of_nat n) (fst w) (snd w) of
        Some (Returned r out, d, os) \<Rightarrow> Some (r, take pos buf @ out, d, os)
      | _ \<Rightarrow> None)"

definition polled :: "uart serial_device \<times> os_state \<Rightarrow> bool" where
  "polled w \<longleftrightarrow> port_ok (fst w) \<and> dev_flags (fst w) AND NONBLOCK_MODE \<noteq> 0"

definition received :: "uart serial_device \<times> os_state \<Rightarrow> uint8 list" where
  "received w = cb_abs (rxBuf (fst w))"

lemma read_received:
  assumes w: "polled w" and n: "0 < n" "n < 2 ^ 32" "pos + n \<le> length buf"
  shows "\<exists>r w'. serial_posix_read set_baud cfg ev fd buf pos n w = Some (r, blit buf pos (take n (received w)), w') \<and>
    polled w' \<and> received w' = drop n (received w) \<and>
    (if received w = [] then r \<le> 0 else r = int (min n (length (received w))))"
proof -
  obtain d os where dw: "w = (d, os)" by (cases w)
  have d: "port_ok d" "dev_flags d AND NONBLOCK_MODE \<noteq> 0" "cb_ok 8 (rxBuf d)"
    using w by (simp_all add: dw polled_def port_ok_def)
  have un: "unat (of_nat n :: uint32) = n" using n(2) by (rule unat_of_nat32)
  have le: "unat (of_nat n :: uint32) \<le> length (drop pos buf)" using un n(3) by simp
  have e: "circBufEmpty (rxBuf d) \<longleftrightarrow> received w = []"
    using circBufEmpty_iff [OF d(3)] by (simp add: dw received_def)
  show ?thesis
  proof (cases "received w = []")
    case True
    have "serial_posix_read set_baud cfg ev fd buf pos n w =
        Some (- 1, take pos buf @ drop pos buf, d\<lparr>serial_errno := EAGAIN\<rparr>, os)"
      using True e d(2) by (simp add: serial_posix_read_def ciaaSerialDevices_read_def dw)
    with True d show ?thesis
      by (intro exI [of _ "- 1"] exI [of _ "(d\<lparr>serial_errno := EAGAIN\<rparr>, os)"]) (simp add: dw polled_def received_def)
  next
    case False
    obtain m c' where g: "circBufGet (rxBuf d) (drop pos buf) (of_nat n) =
        Some (m, blit (drop pos buf) 0 (take (unat m) (cb_abs (rxBuf d))), c')" "cb_ok 8 c'"
      "cb_abs c' = drop (unat m) (cb_abs (rxBuf d))" "m = min (of_nat n) (circBufCount (rxBuf d) (cb_tail (rxBuf d)))"
      using get_taken [OF d(1) le] by blast
    have m: "unat m = min n (length (received w))"
      using un by (auto simp: g(4) min_def word_le_nat_alt length_cb_abs received_def dw)
    have "length (received w) \<le> 255" using space_plus_count [OF d(3)] by (simp add: length_cb_abs received_def dw)
    then have "unat m < 2 ^ 31" using m by simp
    then have s: "sint m = int (min n (length (received w)))" using m sint_small [of m] by simp
    have t: "take (min n (length (received w))) (received w) = take n (received w)"
      "drop (min n (length (received w))) (received w) = drop n (received w)"
      by (simp_all add: min_def)
    have b: "take pos buf @ blit (drop pos buf) 0 (take n (received w)) = blit buf pos (take n (received w))"
      by (simp add: blit_def add.commute)
    have c: "cb_abs c' = drop n (received w)" using g(3) m t(2) by (simp add: received_def dw)
    have "serial_posix_read set_baud cfg ev fd buf pos n w =
        Some (int (min n (length (received w))), blit buf pos (take n (received w)), d\<lparr>rxBuf := c'\<rparr>, os)"
      using False e g(1) s m t(1) b
      by (simp add: serial_posix_read_def ciaaSerialDevices_read_def dw flip: received_def [of "(d, os)", simplified])
    with False d g(2) c show ?thesis
      by (intro exI [of _ "int (min n (length (received w)))"] exI [of _ "(d\<lparr>rxBuf := c'\<rparr>, os)"])
        (simp add: polled_def port_ok_def received_def dw)
  qed
qed

interpretation line: polled_port "serial_posix_read set_baud cfg ev" fd polled received
  for set_baud cfg ev fd
  by unfold_locales (rule read_received)

section \<open>The properties\<close>

text \<open>A line that keeps what is written to it.\<close>

definition line_write :: "uint8 list posix_write" where
  "line_write fd buf n w = Some (int n, w @ take n buf)"

definition ascii_idle :: ascii_obj where
  "ascii_idle = \<lparr>asc_fildes = 1, bufferSize = 0, timeOut = 0, asc_buffer = replicate 512 0, asc_inUse = True\<rparr>"

definition port_with :: "uint8 list \<Rightarrow> uart serial_device" where
  "port_with xs = port0\<lparr>rxBuf := \<lparr>cb_head = 0, cb_tail = of_nat (length xs), cb_size = 255, cb_buf = xs @ replicate (256 - length xs) 0\<rparr>,
     dev_flags := NONBLOCK_MODE\<rparr>"




definition ascii_bad_sum :: ascii_obj where
  "ascii_bad_sum = ascii_idle\<lparr>bufferSize := 9, asc_buffer := [0x3A, 0x31, 0x31, 0x30, 0x33, 0x45, 0x44, 0x0D, 0x0A] @ replicate 503 0\<rparr>"


text \<open>a frame with a pdu of 61 bytes or more is never received: the receiver may hold it whole and correct
  in its buffer, but its length of more than 127 passes through an \<open>int8_t\<close>, and the message is not seen.\<close>

lemma modbus_long_frame_lost:
  assumes "rdi objs h = Some ob" and "asc_ok ob" and "asc_content ob = ascii_frame i p" and "61 \<le> length p"
  shows "ciaaModbus_asciiRecvMsg h j pdu objs = Some (j, pdu, 0, objs)"
  using assms by (rule long_frame)

definition ascii_long :: ascii_obj where
  "ascii_long = ascii_idle\<lparr>bufferSize := 129, asc_buffer := ascii_frame 1 (replicate 61 0) @ replicate 383 0\<rparr>"

text \<open>the sizes a message can have. Up to 252 bytes of pdu the whole frame goes to the line in one write; from
  253 to 510 (the largest pdu of the protocol has 253) nothing is sent and the caller is not told; from 511 on the
  message is stored behind the end of the buffer before its size is tested.\<close>

lemma modbus_send_limits:
  assumes "rdi objs h = Some ob" and "asc_ok ob" and "n \<le> length pdu"
  shows "if n \<le> 252 then \<exists>objs'. ciaaModbus_asciiSendMsg line_write h i pdu (int n) objs w =
      Some (objs', w @ ascii_frame i (take n pdu))
    else if n \<le> 510 then \<exists>objs'. ciaaModbus_asciiSendMsg line_write h i pdu (int n) objs w = Some (objs', w)
    else ciaaModbus_asciiSendMsg line_write h i pdu (int n) objs w = None"
proof -
  have len: "length (asc_buffer ob) = 512" using assms(2) by (simp add: asc_ok_def)
  consider "n \<le> 252" | "253 \<le> n" "n \<le> 510" | "511 \<le> n" by linarith
  then show ?thesis
  proof cases
    case 1
    from sendMsg_frame [OF assms(1) len 1 assms(3), of i line_write w] 1 show ?thesis by (auto simp: line_write_def)
  next
    case 2
    from sendMsg_silent [OF assms(1) len 2 assms(3), of line_write i w] 2 show ?thesis by auto
  next
    case 3
    from sendMsg_overrun [OF assms(1) len, of "int n" line_write i pdu w] 3 show ?thesis by auto
  qed
qed

end
