(* ===== verification/ModbusSlave.thy ===== *)
theory ModbusSlave
  imports ModbusAscii OsServices
begin

text \<open>
  The slave of Modbus, \<^verbatim>\<open>modules/modbus/src/ciaaModbus_slave.c\<close>: it executes the function a pdu asks for through
  the callbacks of the application, and leaves the reply in the place of the request.

  A pdu is passed by pointer and the slave keeps the pointer, so the arrays are in a memory: \<open>bufs\<close> is the list
  of the arrays, and a pointer is the number of an array (\<open>None\<close> the null pointer). A callback is a parameter: it
  gets its arguments, the exception code, the array from the address it is given on, and the application's own
  state \<open>'a\<close>, and returns what it leaves of them (\<open>None\<close> when it is not defined); a null pointer is \<open>None\<close>. Sizes are integers.
\<close>

section \<open>Codes\<close>

definition E_FNC_NOT_SUPPORTED :: uint8 where "E_FNC_NOT_SUPPORTED = 0x01"
definition E_WRONG_REG_QTY :: uint8 where "E_WRONG_REG_QTY = 0x03"
definition FCN_READ_COILS :: uint8 where "FCN_READ_COILS = 0x01"
definition FCN_READ_DISCRETE_INPUTS :: uint8 where "FCN_READ_DISCRETE_INPUTS = 0x02"
definition FCN_READ_HOLDING_REGISTERS :: uint8 where "FCN_READ_HOLDING_REGISTERS = 0x03"
definition FCN_READ_INPUT_REGISTERS :: uint8 where "FCN_READ_INPUT_REGISTERS = 0x04"
definition FCN_WRITE_SINGLE_COIL :: uint8 where "FCN_WRITE_SINGLE_COIL = 0x05"
definition FCN_WRITE_SINGLE_REGISTER :: uint8 where "FCN_WRITE_SINGLE_REGISTER = 0x06"
definition FCN_WRITE_MULTIPLE_COILS :: uint8 where "FCN_WRITE_MULTIPLE_COILS = 0x0F"
definition FCN_WRITE_MULTIPLE_REGISTERS :: uint8 where "FCN_WRITE_MULTIPLE_REGISTERS = 0x10"
definition FCN_READ_WRITE_MULTIPLE_REGISTERS :: uint8 where "FCN_READ_WRITE_MULTIPLE_REGISTERS = 0x17"
definition SLAVE_MIN_ID_VALUE :: uint8 where "SLAVE_MIN_ID_VALUE = 1"
definition SLAVE_MAX_ID_VALUE :: uint8 where "SLAVE_MAX_ID_VALUE = 247"

lemmas fcn_defs = FCN_READ_COILS_def FCN_READ_DISCRETE_INPUTS_def FCN_READ_HOLDING_REGISTERS_def
  FCN_READ_INPUT_REGISTERS_def FCN_WRITE_SINGLE_COIL_def FCN_WRITE_SINGLE_REGISTER_def FCN_WRITE_MULTIPLE_COILS_def
  FCN_WRITE_MULTIPLE_REGISTERS_def FCN_READ_WRITE_MULTIPLE_REGISTERS_def

definition ciaaModbus_readInt :: "uint8 list \<Rightarrow> nat \<Rightarrow> uint16 option" where
  "ciaaModbus_readInt buf i = do {
     h \<leftarrow> rd buf i;
     l \<leftarrow> rd buf (i + 1);
     Some (push_bit 8 (ucast h) OR ucast l) }"

section \<open>Callbacks and objects\<close>

type_synonym 'a multiple_read =
  "uint16 \<Rightarrow> uint16 \<Rightarrow> uint8 \<Rightarrow> uint8 list \<Rightarrow> 'a \<Rightarrow> (uint16 \<times> uint8 \<times> uint8 list \<times> 'a) option"
type_synonym 'a single_write = "uint16 \<Rightarrow> uint8 \<Rightarrow> uint8 list \<Rightarrow> 'a \<Rightarrow> (uint8 \<times> uint8 list \<times> 'a) option"
type_synonym 'a multiple_write =
  "uint16 \<Rightarrow> uint16 \<Rightarrow> uint8 \<Rightarrow> uint8 \<Rightarrow> uint8 list \<Rightarrow> 'a \<Rightarrow> (uint8 \<times> uint8 list \<times> 'a) option"

record 'a slave_cmd =
  cmd0x01ReadCoils :: "'a multiple_read option"
  cmd0x02ReadDiscrteInputs :: "'a multiple_read option"
  cmd0x03ReadHoldingReg :: "'a multiple_read option"
  cmd0x04ReadInputReg :: "'a multiple_read option"
  cmd0x05WriteSingleCoil :: "'a single_write option"
  cmd0x06WriteSingleRegister :: "'a single_write option"
  cmd0x0FWriteMultipleCoils :: "'a multiple_write option"
  cmd0x10WriteMultipleReg :: "'a multiple_write option"

record 'a slave_obj =
  slv_cmd :: "'a slave_cmd option"
  slv_buf :: "nat option"
  slv_size :: int
  slv_id :: uint8
  slv_inUse :: bool

definition ciaaModbus_slaveInit :: "'a slave_obj list \<Rightarrow> 'a slave_obj list" where
  "ciaaModbus_slaveInit slaves =
     map (\<lambda>sl. sl\<lparr>slv_cmd := None, slv_buf := None, slv_size := 0, slv_id := 0, slv_inUse := False\<rparr>) slaves"

text \<open>The search of a free object runs under the resource \<open>MODBUSR\<close>.\<close>

definition ciaaModbus_slaveOpen :: "os_cfg \<Rightarrow> nat \<Rightarrow> 'a slave_cmd option \<Rightarrow> uint8 \<Rightarrow> 'a slave_obj list \<Rightarrow> os_state \<Rightarrow>
    (int \<times> 'a slave_obj list \<times> os_state) option" where
  "ciaaModbus_slaveOpen cfg MODBUSR cmd slave_id slaves os =
     (if slave_id < SLAVE_MIN_ID_VALUE \<or> SLAVE_MAX_ID_VALUE < slave_id \<or> cmd = None then Some (- 1, slaves, os)
      else do {
        (_, os) \<leftarrow> GetResource cfg MODBUSR os;
        let h = first_free slv_inUse slaves 0;
        (h, slaves) \<leftarrow> Some (if h < length slaves then
            (int h, slaves[h := (slaves ! h)\<lparr>slv_inUse := True, slv_cmd := cmd, slv_id := slave_id\<rparr>])
          else (- 1, slaves));
        (_, os) \<leftarrow> ReleaseResource cfg MODBUSR os;
        Some (h, slaves, os) })"

section \<open>Executing a request\<close>

text \<open>A callback that gets \<open>&buf[off]\<close> leaves the bytes from there on.\<close>

definition put_tail :: "uint8 list \<Rightarrow> nat \<Rightarrow> uint8 list \<Rightarrow> uint8 list option" where
  "put_tail buf off out = (if off + length out = length buf then Some (take off buf @ out) else None)"

text \<open>Each returns the length of the reply, the exception code, the array and the application's state. The cases of
  0x01 and 0x02 are alike, and so are those of 0x03 and 0x04.\<close>

definition slave_read_bits :: "'a multiple_read option \<Rightarrow> uint8 list \<Rightarrow> int \<Rightarrow> 'a \<Rightarrow>
    (int \<times> uint8 \<times> uint8 list \<times> 'a) option" where
  "slave_read_bits cb buf n a =
     (case cb of None \<Rightarrow> Some (0, E_FNC_NOT_SUPPORTED, buf, a)
      | Some f \<Rightarrow> do {
          quantity \<leftarrow> ciaaModbus_readInt buf 3;
          if 0x07D0 < quantity \<or> quantity < 1 \<or> n \<noteq> 5 then Some (0, E_WRONG_REG_QTY, buf, a)
          else do {
            address \<leftarrow> ciaaModbus_readInt buf 1;
            (ret, exc, out, a) \<leftarrow> f address quantity 0 (drop 2 buf) a;
            buf \<leftarrow> put_tail buf 2 out;
            let count = (ucast (ret div 8) :: uint8);
            let count = (if ret mod 8 \<noteq> 0 then count + 1 else count);
            buf \<leftarrow> wr buf 1 count;
            Some (2 + uint count, exc, buf, a) } })"

definition slave_read_regs :: "'a multiple_read option \<Rightarrow> uint8 list \<Rightarrow> int \<Rightarrow> 'a \<Rightarrow>
    (int \<times> uint8 \<times> uint8 list \<times> 'a) option" where
  "slave_read_regs cb buf n a =
     (case cb of None \<Rightarrow> Some (0, E_FNC_NOT_SUPPORTED, buf, a)
      | Some f \<Rightarrow> do {
          quantity \<leftarrow> ciaaModbus_readInt buf 3;
          if 0x007D < quantity \<or> quantity < 1 \<or> n \<noteq> 5 then Some (0, E_WRONG_REG_QTY, buf, a)
          else do {
            address \<leftarrow> ciaaModbus_readInt buf 1;
            (ret, exc, out, a) \<leftarrow> f address quantity 0 (drop 2 buf) a;
            buf \<leftarrow> put_tail buf 2 out;
            let count = (ucast (ret * 2) :: uint8);
            buf \<leftarrow> wr buf 1 count;
            Some (2 + uint count, exc, buf, a) } })"

definition slave_write_coil :: "'a single_write option \<Rightarrow> uint8 list \<Rightarrow> int \<Rightarrow> 'a \<Rightarrow>
    (int \<times> uint8 \<times> uint8 list \<times> 'a) option" where
  "slave_write_coil cb buf n a =
     (case cb of None \<Rightarrow> Some (0, E_FNC_NOT_SUPPORTED, buf, a)
      | Some f \<Rightarrow> do {
          v \<leftarrow> ciaaModbus_readInt buf 3;
          if (v \<noteq> 0x0000 \<and> v \<noteq> 0xFF00) \<or> n \<noteq> 5 then Some (0, E_WRONG_REG_QTY, buf, a)
          else do {
            address \<leftarrow> ciaaModbus_readInt buf 1;
            (exc, out, a) \<leftarrow> f address 0 (drop 3 buf) a;
            buf \<leftarrow> put_tail buf 3 out;
            Some (5, exc, buf, a) } })"

definition slave_write_reg :: "'a single_write option \<Rightarrow> uint8 list \<Rightarrow> int \<Rightarrow> 'a \<Rightarrow>
    (int \<times> uint8 \<times> uint8 list \<times> 'a) option" where
  "slave_write_reg cb buf n a =
     (case cb of None \<Rightarrow> Some (0, E_FNC_NOT_SUPPORTED, buf, a)
      | Some f \<Rightarrow>
          if n \<noteq> 5 then Some (0, E_WRONG_REG_QTY, buf, a)
          else do {
            address \<leftarrow> ciaaModbus_readInt buf 1;
            _ \<leftarrow> ciaaModbus_readInt buf 3;
            (exc, out, a) \<leftarrow> f address 0 (drop 3 buf) a;
            buf \<leftarrow> put_tail buf 3 out;
            Some (5, exc, buf, a) })"

definition slave_write_coils :: "'a multiple_write option \<Rightarrow> uint8 list \<Rightarrow> int \<Rightarrow> 'a \<Rightarrow>
    (int \<times> uint8 \<times> uint8 list \<times> 'a) option" where
  "slave_write_coils cb buf n a =
     (case cb of None \<Rightarrow> Some (0, E_FNC_NOT_SUPPORTED, buf, a)
      | Some f \<Rightarrow> do {
          address \<leftarrow> ciaaModbus_readInt buf 1;
          quantity \<leftarrow> ciaaModbus_readInt buf 3;
          let byteCount = (if quantity mod 8 \<noteq> 0 then quantity div 8 + 1 else quantity div 8);
          b5 \<leftarrow> rd buf 5;
          if 0x07B0 < quantity \<or> quantity < 1 \<or> uint byteCount \<noteq> uint b5 \<or> 6 + uint byteCount \<noteq> n
          then Some (0, E_WRONG_REG_QTY, buf, a)
          else do {
            (exc, out, a) \<leftarrow> f address quantity (ucast byteCount) 0 (drop 6 buf) a;
            buf \<leftarrow> put_tail buf 6 out;
            Some (5, exc, buf, a) } })"

definition slave_write_regs :: "'a multiple_write option \<Rightarrow> uint8 list \<Rightarrow> int \<Rightarrow> 'a \<Rightarrow>
    (int \<times> uint8 \<times> uint8 list \<times> 'a) option" where
  "slave_write_regs cb buf n a =
     (case cb of None \<Rightarrow> Some (0, E_FNC_NOT_SUPPORTED, buf, a)
      | Some f \<Rightarrow> do {
          address \<leftarrow> ciaaModbus_readInt buf 1;
          quantity \<leftarrow> ciaaModbus_readInt buf 3;
          let byteCount = quantity * 2;
          b5 \<leftarrow> rd buf 5;
          if 0x007B < quantity \<or> quantity < 1 \<or> uint byteCount \<noteq> uint b5 \<or> 6 + uint byteCount \<noteq> n
          then Some (0, E_WRONG_REG_QTY, buf, a)
          else do {
            (exc, out, a) \<leftarrow> f address quantity (ucast byteCount) 0 (drop 6 buf) a;
            buf \<leftarrow> put_tail buf 6 out;
            Some (5, exc, buf, a) } })"

definition slave_read_write_regs :: "'a multiple_read option \<Rightarrow> 'a multiple_write option \<Rightarrow> uint8 list \<Rightarrow> int \<Rightarrow> 'a \<Rightarrow>
    (int \<times> uint8 \<times> uint8 list \<times> 'a) option" where
  "slave_read_write_regs rcb wcb buf n a =
     (case (rcb, wcb) of
        (Some fr, Some fw) \<Rightarrow> do {
          address \<leftarrow> ciaaModbus_readInt buf 1;
          quantity \<leftarrow> ciaaModbus_readInt buf 3;
          addressW \<leftarrow> ciaaModbus_readInt buf 5;
          quantityW \<leftarrow> ciaaModbus_readInt buf 7;
          let byteCount = quantityW * 2;
          b9 \<leftarrow> rd buf 9;
          if 0x007D < quantity \<or> quantity < 1 \<or> 0x0079 < quantityW \<or> quantityW < 1 \<or>
            uint byteCount \<noteq> uint b9 \<or> 10 + uint byteCount \<noteq> n
          then Some (0, E_WRONG_REG_QTY, buf, a)
          else do {
            (exc, out, a) \<leftarrow> fw addressW quantityW (ucast byteCount) 0 (drop 10 buf) a;
            buf \<leftarrow> put_tail buf 10 out;
            if exc = 0 then do {
              (ret, exc, out, a) \<leftarrow> fr address quantity exc (drop 2 buf) a;
              buf \<leftarrow> put_tail buf 2 out;
              let count = (ucast (ret * 2) :: uint8);
              buf \<leftarrow> wr buf 1 count;
              Some (2 + uint count, exc, buf, a) }
            else Some (0, exc, buf, a) } }
      | _ \<Rightarrow> Some (0, E_FNC_NOT_SUPPORTED, buf, a))"

definition slave_switch :: "'a slave_cmd \<Rightarrow> uint8 \<Rightarrow> uint8 list \<Rightarrow> int \<Rightarrow> 'a \<Rightarrow>
    (int \<times> uint8 \<times> uint8 list \<times> 'a) option" where
  "slave_switch cmd function buf n a =
     (if function = FCN_READ_COILS then slave_read_bits (cmd0x01ReadCoils cmd) buf n a
      else if function = FCN_READ_DISCRETE_INPUTS then slave_read_bits (cmd0x02ReadDiscrteInputs cmd) buf n a
      else if function = FCN_READ_HOLDING_REGISTERS then slave_read_regs (cmd0x03ReadHoldingReg cmd) buf n a
      else if function = FCN_READ_INPUT_REGISTERS then slave_read_regs (cmd0x04ReadInputReg cmd) buf n a
      else if function = FCN_WRITE_SINGLE_COIL then slave_write_coil (cmd0x05WriteSingleCoil cmd) buf n a
      else if function = FCN_WRITE_SINGLE_REGISTER then slave_write_reg (cmd0x06WriteSingleRegister cmd) buf n a
      else if function = FCN_WRITE_MULTIPLE_COILS then slave_write_coils (cmd0x0FWriteMultipleCoils cmd) buf n a
      else if function = FCN_WRITE_MULTIPLE_REGISTERS then slave_write_regs (cmd0x10WriteMultipleReg cmd) buf n a
      else if function = FCN_READ_WRITE_MULTIPLE_REGISTERS then
        slave_read_write_regs (cmd0x03ReadHoldingReg cmd) (cmd0x10WriteMultipleReg cmd) buf n a
      else Some (0, E_FNC_NOT_SUPPORTED, buf, a))"

definition ciaaModbus_slaveTask :: "int \<Rightarrow> 'a slave_obj list \<Rightarrow> uint8 list list \<Rightarrow> 'a \<Rightarrow>
    ('a slave_obj list \<times> uint8 list list \<times> 'a) option" where
  "ciaaModbus_slaveTask handler slaves bufs a = do {
     sl \<leftarrow> rdi slaves handler;
     p \<leftarrow> slv_buf sl;
     buf \<leftarrow> rd bufs p;
     function \<leftarrow> rd buf 0;
     (ret, exc, buf, a) \<leftarrow> (if slv_size sl \<noteq> 0 then do {
         cmd \<leftarrow> slv_cmd sl;
         slave_switch cmd function buf (slv_size sl) a }
       else Some (0, 0, buf, a));
     (ret, buf) \<leftarrow> (if exc \<noteq> 0 then do {
         b \<leftarrow> rd buf 0;
         buf \<leftarrow> wr buf 0 (b OR 0x80);
         buf \<leftarrow> wr buf 1 exc;
         Some (2, buf) }
       else Some (ret, buf));
     bufs \<leftarrow> wr bufs p buf;
     slaves \<leftarrow> wri slaves handler (sl\<lparr>slv_size := ret\<rparr>);
     Some (slaves, bufs, a) }"

section \<open>Messages\<close>

text \<open>The reply is copied to the array of the caller, byte by byte: it may be the same one.\<close>

primrec copy_between :: "nat \<Rightarrow> nat \<Rightarrow> nat \<Rightarrow> uint8 list list \<Rightarrow> uint8 list list option" where
  "copy_between dst src 0 bufs = Some bufs"
| "copy_between dst src (Suc n) bufs = do {
     bufs \<leftarrow> copy_between dst src n bufs;
     s \<leftarrow> rd bufs src;
     b \<leftarrow> rd s n;
     d \<leftarrow> rd bufs dst;
     d \<leftarrow> wr d n b;
     wr bufs dst d }"

definition ciaaModbus_slaveRecvMsg :: "int \<Rightarrow> nat \<Rightarrow> 'a slave_obj list \<Rightarrow> uint8 list list \<Rightarrow>
    (uint8 \<times> int \<times> uint8 list list) option" where
  "ciaaModbus_slaveRecvMsg handler pdu slaves bufs = do {
     sl \<leftarrow> rdi slaves handler;
     bufs \<leftarrow> (if 0 < slv_size sl then do { p \<leftarrow> slv_buf sl; copy_between pdu p (nat (slv_size sl)) bufs } else Some bufs);
     Some (slv_id sl, slv_size sl, bufs) }"

definition ciaaModbus_slaveSendMsg :: "int \<Rightarrow> uint8 \<Rightarrow> nat \<Rightarrow> int \<Rightarrow> 'a slave_obj list \<Rightarrow> 'a slave_obj list option" where
  "ciaaModbus_slaveSendMsg handler msg_id pdu n slaves = do {
     sl \<leftarrow> rdi slaves handler;
     wri slaves handler (sl\<lparr>slv_buf := Some pdu, slv_size := n\<rparr>) }"

definition ciaaModbus_slaveGetId :: "int \<Rightarrow> 'a slave_obj list \<Rightarrow> uint8 option" where
  "ciaaModbus_slaveGetId handler slaves = do { sl \<leftarrow> rdi slaves handler; Some (slv_id sl) }"

section \<open>Which requests are executed\<close>

text \<open>The reference: what is wrong with a pdu, read off the bytes it consists of. 0 is a request that is executed.\<close>

definition be :: "uint8 \<Rightarrow> uint8 \<Rightarrow> nat" where
  "be h l = 256 * unat h + unat l"

fun quantity_error :: "nat \<Rightarrow> uint8 list \<Rightarrow> uint8" where
  "quantity_error limit [a1, a0, q1, q0] = (if 1 \<le> be q1 q0 \<and> be q1 q0 \<le> limit then 0 else E_WRONG_REG_QTY)"
| "quantity_error limit _ = E_WRONG_REG_QTY"

fun data_error :: "nat \<Rightarrow> (nat \<Rightarrow> nat) \<Rightarrow> uint8 list \<Rightarrow> uint8" where
  "data_error limit bytes (a1 # a0 # q1 # q0 # c # d) =
     (if 1 \<le> be q1 q0 \<and> be q1 q0 \<le> limit \<and> unat c = bytes (be q1 q0) \<and> length d = bytes (be q1 q0)
      then 0 else E_WRONG_REG_QTY)"
| "data_error limit bytes _ = E_WRONG_REG_QTY"

definition request_error :: "'a slave_cmd \<Rightarrow> uint8 list \<Rightarrow> uint8" where
  "request_error cmd pdu =
     (let f = hd pdu; args = tl pdu; need = (\<lambda>present e. if present then e else E_FNC_NOT_SUPPORTED) in
      if f = FCN_READ_COILS then need (cmd0x01ReadCoils cmd \<noteq> None) (quantity_error 2000 args)
      else if f = FCN_READ_DISCRETE_INPUTS then need (cmd0x02ReadDiscrteInputs cmd \<noteq> None) (quantity_error 2000 args)
      else if f = FCN_READ_HOLDING_REGISTERS then need (cmd0x03ReadHoldingReg cmd \<noteq> None) (quantity_error 125 args)
      else if f = FCN_READ_INPUT_REGISTERS then need (cmd0x04ReadInputReg cmd \<noteq> None) (quantity_error 125 args)
      else if f = FCN_WRITE_SINGLE_COIL then need (cmd0x05WriteSingleCoil cmd \<noteq> None)
        (if length args = 4 \<and> drop 2 args \<in> {[0, 0], [0xFF, 0]} then 0 else E_WRONG_REG_QTY)
      else if f = FCN_WRITE_SINGLE_REGISTER then need (cmd0x06WriteSingleRegister cmd \<noteq> None)
        (if length args = 4 then 0 else E_WRONG_REG_QTY)
      else if f = FCN_WRITE_MULTIPLE_COILS then need (cmd0x0FWriteMultipleCoils cmd \<noteq> None)
        (data_error 1968 (\<lambda>q. (q + 7) div 8) args)
      else if f = FCN_WRITE_MULTIPLE_REGISTERS then need (cmd0x10WriteMultipleReg cmd \<noteq> None)
        (data_error 123 (\<lambda>q. 2 * q) args)
      else if f = FCN_READ_WRITE_MULTIPLE_REGISTERS then
        need (cmd0x03ReadHoldingReg cmd \<noteq> None \<and> cmd0x10WriteMultipleReg cmd \<noteq> None)
          (if quantity_error 125 (take 4 args) = 0 \<and> data_error 121 (\<lambda>q. 2 * q) (drop 4 args) = 0
           then 0 else E_WRONG_REG_QTY)
      else E_FNC_NOT_SUPPORTED)"

lemma unat_be: "unat (push_bit 8 (ucast h) OR ucast l :: uint16) = be h l"
proof -
  have disj: "push_bit 8 (ucast h) AND (ucast l :: uint16) = 0"
  proof (rule bit_eqI)
    fix n assume "possible_bit TYPE(16 word) n"
    have "\<not> bit l n" if "8 \<le> n" using that bit_imp_le_length [of l n] by auto
    then show "bit (push_bit 8 (ucast h) AND (ucast l :: uint16)) n = bit (0 :: uint16) n"
      by (auto simp: bit_simps)
  qed
  have h: "unat h < 256" and l: "unat l < 256"
    using unsigned_less [of h, where ?'a = nat] unsigned_less [of l, where ?'a = nat] by simp_all
  have "push_bit 8 (ucast h) OR (ucast l :: uint16) = push_bit 8 (ucast h) + ucast l"
    using disj by (simp add: disjunctive_add_eq_or)
  also have "unat \<dots> = be h l"
    using h l by (simp add: unat_word_ariths push_bit_eq_mult be_def unsigned_ucast_eq
      take_bit_nat_eq_self)
  finally show ?thesis .
qed

lemma readInt_be:
  assumes "i + 1 < length buf"
  obtains w where "ciaaModbus_readInt buf i = Some w" "unat w = be (buf ! i) (buf ! (i + 1))"
  using assms unat_be [of "buf ! i" "buf ! (i + 1)"] by (auto simp: ciaaModbus_readInt_def mem_simps)

lemma quantity_error_iff:
  "quantity_error limit args =
    (if length args = 4 \<and> 1 \<le> be (args ! 2) (args ! 3) \<and> be (args ! 2) (args ! 3) \<le> limit then 0 else E_WRONG_REG_QTY)"
  by (cases "(limit, args)" rule: quantity_error.cases) auto

lemma data_error_iff:
  "data_error limit bytes args =
    (if 5 \<le> length args \<and> 1 \<le> be (args ! 2) (args ! 3) \<and> be (args ! 2) (args ! 3) \<le> limit \<and>
        unat (args ! 4) = bytes (be (args ! 2) (args ! 3)) \<and> length args = 5 + bytes (be (args ! 2) (args ! 3))
      then 0 else E_WRONG_REG_QTY)"
  by (cases "(limit, bytes, args)" rule: data_error.cases) auto

lemma quantity_error_take:
  assumes "n \<le> length buf" and "1 \<le> n"
  shows "quantity_error limit (tl (take n buf)) =
    (if n = 5 \<and> 1 \<le> be (buf ! 3) (buf ! 4) \<and> be (buf ! 3) (buf ! 4) \<le> limit then 0 else E_WRONG_REG_QTY)"
  using assms by (cases "n = 5") (auto simp: quantity_error_iff nth_tl)

lemma data_error_take:
  assumes "n \<le> length buf" and "1 \<le> n"
  shows "data_error limit bytes (drop k (tl (take n buf))) =
    (if k + 6 \<le> n \<and> 1 \<le> be (buf ! (k + 3)) (buf ! (k + 4)) \<and> be (buf ! (k + 3)) (buf ! (k + 4)) \<le> limit \<and>
        unat (buf ! (k + 5)) = bytes (be (buf ! (k + 3)) (buf ! (k + 4))) \<and>
        n = k + 6 + bytes (be (buf ! (k + 3)) (buf ! (k + 4))) then 0 else E_WRONG_REG_QTY)"
proof (cases "k + 6 \<le> n")
  case True
  then have "drop k (tl (take n buf)) ! j = buf ! (k + 1 + j)" if "j < 5" for j
    using that assms by (simp add: nth_tl)
  from this [of 2] this [of 3] this [of 4] show ?thesis
    using True assms by (auto simp: data_error_iff add.commute eval_nat_numeral)
qed (use assms in \<open>auto simp: data_error_iff\<close>)

text \<open>A number of bytes of data, as the code and as the reference count it.\<close>

lemma uint_eq_int: "uint w = int n \<longleftrightarrow> unat w = n" "int n = uint w \<longleftrightarrow> unat w = n"
  by (metis of_nat_eq_iff uint_nat)+

lemma bytes_of_coils: "uint (if q mod 8 \<noteq> 0 then q div 8 + 1 else q div 8) = int ((unat q + 7) div 8)" for q :: uint16
proof -
  have u: "unat (q div 8) = unat q div 8" "unat (q mod 8) = unat q mod 8" by (simp_all add: unat_div unat_mod)
  have "unat q < 2 ^ LENGTH(16)" by (rule unsigned_less)
  then have s: "unat (q div 8 + 1) = unat q div 8 + 1" by (simp add: unat_word_ariths u)
  have "q mod 8 = 0 \<longleftrightarrow> unat q mod 8 = 0" by (metis u(2) unat_eq_zero)
  moreover have "(m + 7) div 8 = (if m mod 8 \<noteq> 0 then m div 8 + 1 else m div 8)" for m :: nat by presburger
  ultimately show ?thesis unfolding uint_eq_int using u(1) s by auto
qed

lemma bytes_of_regs: "unat q \<le> 125 \<Longrightarrow> uint (q * 2) = int (2 * unat q)" for q :: uint16
  unfolding uint_eq_int by (simp add: unat_word_ariths)

section \<open>The tests of the code\<close>

text \<open>Each test of the code, on the integers it reads at fixed places, says what the reference says.\<close>

lemma quantity_test:
  fixes q :: uint16
  assumes len: "1 \<le> n" "n \<le> length buf" and q: "unat q = be (buf ! 3) (buf ! 4)"
  shows "limit < unat q \<or> q < 1 \<or> int n \<noteq> 5 \<longleftrightarrow> quantity_error limit (tl (take n buf)) \<noteq> 0"
  using quantity_error_take [OF len(2,1), of limit]
  by (auto simp: word_less_nat_alt E_WRONG_REG_QTY_def q)

lemma coils_test:
  fixes q :: uint16
  assumes len: "1 \<le> n" "n \<le> length buf" and q: "unat q = be (buf ! 3) (buf ! 4)"
  shows "0x07B0 < q \<or> q < 1 \<or> uint (if q mod 8 \<noteq> 0 then q div 8 + 1 else q div 8) \<noteq> uint (buf ! 5) \<or>
      6 + uint (if q mod 8 \<noteq> 0 then q div 8 + 1 else q div 8) \<noteq> int n \<longleftrightarrow>
    data_error 1968 (\<lambda>q. (q + 7) div 8) (tl (take n buf)) \<noteq> 0"
  using data_error_take [OF len(2,1), of 1968 "\<lambda>q. (q + 7) div 8" 0]
  unfolding bytes_of_coils by (auto simp: word_less_nat_alt uint_eq_int E_WRONG_REG_QTY_def q not_less)

lemma regs_test:
  fixes q :: uint16
  assumes len: "1 \<le> n" "n \<le> length buf" and limit: "limit \<le> 125"
    and q: "unat q = be (buf ! (k + 3)) (buf ! (k + 4))"
  shows "limit < unat q \<or> q < 1 \<or> uint (q * 2) \<noteq> uint (buf ! (k + 5)) \<or> int k + 6 + uint (q * 2) \<noteq> int n \<longleftrightarrow>
    data_error limit (\<lambda>q. 2 * q) (drop k (tl (take n buf))) \<noteq> 0"
proof (cases "unat q \<le> limit")
  case True
  define B where "B = 2 * be (buf ! (k + 3)) (buf ! (k + 4))"
  from True have B: "uint (q * 2) = int B" using limit q by (subst bytes_of_regs) (auto simp: B_def)
  have "int B = uint (buf ! (k + 5)) \<longleftrightarrow> unat (buf ! (k + 5)) = B" "int k + 6 + int B = int n \<longleftrightarrow> n = k + 6 + B"
    by (auto simp: uint_eq_int)
  then show ?thesis
    using data_error_take [OF len(2,1), of limit "\<lambda>q. 2 * q" k, folded B_def] True
    unfolding B by (auto simp: word_less_nat_alt E_WRONG_REG_QTY_def q not_less)
next
  case False
  then show ?thesis
    using data_error_take [OF len(2,1), of limit "\<lambda>q. 2 * q" k] by (auto simp: E_WRONG_REG_QTY_def q)
qed

lemma coil_test:
  assumes len: "5 \<le> length buf" "n \<le> length buf" "1 \<le> n" and v: "ciaaModbus_readInt buf 3 = Some v"
  shows "(v \<noteq> 0x0000 \<and> v \<noteq> 0xFF00) \<or> int n \<noteq> 5 \<longleftrightarrow>
    \<not> (length (tl (take n buf)) = 4 \<and> drop 2 (tl (take n buf)) \<in> {[0, 0], [0xFF, 0]})"
proof -
  have v': "unat v = be (buf ! 3) (buf ! 4)" using readInt_be [of 3 buf] v len by auto
  have b: "unat (buf ! 3) < 256" "unat (buf ! 4) < 256"
    using unsigned_less [of "buf ! 3", where ?'a = nat] unsigned_less [of "buf ! 4", where ?'a = nat] by simp_all
  have "v = 0 \<longleftrightarrow> buf ! 3 = 0 \<and> buf ! 4 = 0"
    unfolding word_unat_eq_iff v' by (auto simp: be_def word_unat_eq_iff)
  moreover have "256 * h + l = 65280 \<longleftrightarrow> h = 255 \<and> l = 0" if "l < 256" for h l :: nat using that by presburger
  then have "v = 0xFF00 \<longleftrightarrow> buf ! 3 = 0xFF \<and> buf ! 4 = 0"
    unfolding word_unat_eq_iff v' using b by (simp add: be_def)
  moreover have "drop 2 (tl (take 5 buf)) = [buf ! 3, buf ! 4]"
    using len by (simp add: list_eq_iff_nth_eq nth_tl less_Suc_eq numeral_2_eq_2) (simp add: eval_nat_numeral)
  ultimately show ?thesis using len by (cases "n = 5") auto
qed

section \<open>What a function leaves\<close>

text \<open>What is asked of a callback, in the application's states that satisfy \<open>I\<close>: it is defined and keeps \<open>I\<close>, it
  stays in the array, and without an exception a read does not count more items than it was asked for.\<close>

definition read_cb_ok :: "('a \<Rightarrow> bool) \<Rightarrow> 'a multiple_read option \<Rightarrow> bool" where
  "read_cb_ok I cb \<longleftrightarrow> (\<forall>f s q b a. cb = Some f \<and> I a \<and> 1 \<le> unat q \<and> 250 \<le> length b \<longrightarrow>
     (\<exists>r e' b' a'. f s q 0 b a = Some (r, e', b', a') \<and> I a' \<and> length b' = length b \<and> (e' = 0 \<longrightarrow> unat r \<le> unat q)))"

definition write1_cb_ok :: "('a \<Rightarrow> bool) \<Rightarrow> 'a single_write option \<Rightarrow> bool" where
  "write1_cb_ok I cb \<longleftrightarrow> (\<forall>f s b a. cb = Some f \<and> I a \<and> 2 \<le> length b \<longrightarrow>
     (\<exists>e' b' a'. f s 0 b a = Some (e', b', a') \<and> I a' \<and> length b' = length b))"

definition write_cb_ok :: "(nat \<Rightarrow> nat) \<Rightarrow> ('a \<Rightarrow> bool) \<Rightarrow> 'a multiple_write option \<Rightarrow> bool" where
  "write_cb_ok bytes I cb \<longleftrightarrow> (\<forall>f s q c b a. cb = Some f \<and> I a \<and> 1 \<le> unat q \<and> unat c = bytes (unat q) \<and>
       unat c \<le> length b \<longrightarrow>
     (\<exists>e' b' a'. f s q c 0 b a = Some (e', b', a') \<and> I a' \<and> length b' = length b))"

definition cmd_ok :: "('a \<Rightarrow> bool) \<Rightarrow> 'a slave_cmd \<Rightarrow> bool" where
  "cmd_ok I cmd \<longleftrightarrow> read_cb_ok I (cmd0x01ReadCoils cmd) \<and> read_cb_ok I (cmd0x02ReadDiscrteInputs cmd) \<and>
     read_cb_ok I (cmd0x03ReadHoldingReg cmd) \<and> read_cb_ok I (cmd0x04ReadInputReg cmd) \<and>
     write1_cb_ok I (cmd0x05WriteSingleCoil cmd) \<and> write1_cb_ok I (cmd0x06WriteSingleRegister cmd) \<and>
     write_cb_ok (\<lambda>q. (q + 7) div 8) I (cmd0x0FWriteMultipleCoils cmd) \<and>
     write_cb_ok (\<lambda>q. 2 * q) I (cmd0x10WriteMultipleReg cmd)"

text \<open>The result of a function: rejected with the exception of the reference, the array and the application's state as
  before; or executed, with a reply behind the same function code that is not longer than 252 bytes.\<close>

definition reply_fits :: "int \<Rightarrow> uint8 list \<Rightarrow> bool" where
  "reply_fits ret out \<longleftrightarrow> ret = 5 \<or> ret = 2 + uint (out ! 1) \<and> ret \<le> 252"

definition fct_result :: "('a \<Rightarrow> bool) \<Rightarrow> uint8 \<Rightarrow> uint8 list \<Rightarrow> 'a \<Rightarrow> (int \<times> uint8 \<times> uint8 list \<times> 'a) option \<Rightarrow> bool" where
  "fct_result I e buf a r \<longleftrightarrow>
     (if e \<noteq> 0 then r = Some (0, e, buf, a)
      else \<exists>ret exc out a'. r = Some (ret, exc, out, a') \<and> I a' \<and> length out = length buf \<and> out ! 0 = buf ! 0 \<and>
        (exc = 0 \<longrightarrow> reply_fits ret out))"

lemma put_tail_eq:
  "off \<le> length buf \<Longrightarrow> length out = length (drop off buf) \<Longrightarrow> put_tail buf off out = Some (take off buf @ out)"
  by (simp add: put_tail_def)

lemma small_count: "unat w \<le> 250 \<Longrightarrow> uint (ucast w :: uint8) = int (unat w)" for w :: uint16
  unfolding uint_eq_int by (simp add: unsigned_ucast_eq take_bit_nat_eq_self)

lemma small_count_le: "unat w \<le> 250 \<Longrightarrow> uint (ucast w :: uint8) \<le> 250" for w :: uint16
  using small_count [of w] by (metis of_nat_le_iff of_nat_numeral)

lemma coil_count:
  fixes r :: uint16
  assumes "unat r \<le> 2000"
  shows "uint (if r mod 8 \<noteq> 0 then ucast (r div 8) + 1 else (ucast (r div 8) :: uint8)) \<le> 250"
proof -
  have d: "unat (r div 8) = unat r div 8" "unat (r mod 8) = unat r mod 8" by (simp_all add: unat_div unat_mod)
  then have "unat (r div 8) \<le> 250" using assms by simp
  then have u: "unat (ucast (r div 8) :: uint8) = unat r div 8" using small_count d(1) by (metis uint_eq_int(1))
  show ?thesis
  proof (cases "r mod 8 \<noteq> 0")
    case True
    then have "unat r mod 8 \<noteq> 0" using d(2) by (metis unat_eq_zero)
    then have "unat r div 8 \<le> 249" using assms by presburger
    then have "unat (ucast (r div 8) + 1 :: uint8) = unat r div 8 + 1" by (simp add: unat_word_ariths u)
    with True \<open>unat r div 8 \<le> 249\<close> show ?thesis by (simp add: uint_nat)
  next
    case False
    with u assms show ?thesis by (simp add: uint_nat)
  qed
qed

lemma bits_result:
  assumes len: "252 \<le> length buf" "1 \<le> n" "n \<le> length buf" and I: "I a" and cb: "read_cb_ok I cb"
  shows "fct_result I (if cb \<noteq> None then quantity_error 2000 (tl (take n buf)) else E_FNC_NOT_SUPPORTED) buf a
    (slave_read_bits cb buf (int n) a)"
proof (cases cb)
  case (Some f)
  obtain q where q: "ciaaModbus_readInt buf 3 = Some q" "unat q = be (buf ! 3) (buf ! 4)"
    using readInt_be [of 3 buf] len by auto
  obtain w where w: "ciaaModbus_readInt buf 1 = Some w" using readInt_be [of 1 buf] len by auto
  have t: "0x07D0 < q \<or> q < 1 \<or> int n \<noteq> 5 \<longleftrightarrow> quantity_error 2000 (tl (take n buf)) \<noteq> 0"
    using quantity_test [OF len(2,3) q(2), of 2000] by (simp add: word_less_nat_alt)
  show ?thesis
  proof (cases "quantity_error 2000 (tl (take n buf)) = 0")
    case False
    then have "quantity_error 2000 (tl (take n buf)) = E_WRONG_REG_QTY" using quantity_error_iff by metis
    with Some False t q(1) show ?thesis by (simp add: fct_result_def slave_read_bits_def)
  next
    case True
    then have q': "unat q \<le> 2000" "1 \<le> unat q" using t by (auto simp: word_less_nat_alt)
    have "250 \<le> length (drop 2 buf)" using len by simp
    then obtain r exc out a' where r: "f w q 0 (drop 2 buf) a = Some (r, exc, out, a')" and
      ok: "I a'" "length out = length (drop 2 buf)" "exc = 0 \<longrightarrow> unat r \<le> unat q"
      using cb Some I q'(2) unfolding read_cb_ok_def by blast
    let ?c = "if r mod 8 \<noteq> 0 then ucast (r div 8) + 1 else (ucast (r div 8) :: uint8)"
    let ?out = "(take 2 buf @ out)[1 := ?c]"
    have c: "exc = 0 \<longrightarrow> uint ?c \<le> 250" using ok(3) q' by (intro impI coil_count) simp
    have "slave_read_bits cb buf (int n) a = Some (2 + uint ?c, exc, ?out, a')"
      using Some True t q(1) w r ok(2) len by (simp add: slave_read_bits_def put_tail_eq mem_simps Let_def)
    moreover have "?out ! 0 = buf ! 0" "?out ! 1 = ?c" "length ?out = length buf"
      using len ok(2) by (auto simp: nth_append)
    ultimately show ?thesis using Some True c ok(1) unfolding fct_result_def reply_fits_def by simp
  qed
qed (simp add: fct_result_def slave_read_bits_def E_FNC_NOT_SUPPORTED_def)

lemma regs_read_fits:
  assumes cb: "read_cb_ok I (Some f)" and I: "I a" and q: "1 \<le> unat q" "unat q \<le> 125" and len: "252 \<le> length buf"
  obtains r exc out a' where "f w q 0 (drop 2 buf) a = Some (r, exc, out, a')" "I a'" "length out = length (drop 2 buf)"
    "exc = 0 \<longrightarrow> reply_fits (2 + uint (ucast (r * 2) :: uint8)) ((take 2 buf @ out)[1 := ucast (r * 2)])"
proof -
  have "250 \<le> length (drop 2 buf)" using len by simp
  then obtain r exc out a' where r: "f w q 0 (drop 2 buf) a = Some (r, exc, out, a')" "I a'" "length out = length (drop 2 buf)"
    "exc = 0 \<longrightarrow> unat r \<le> unat q"
    using cb I q(1) unfolding read_cb_ok_def by blast
  then have "exc = 0 \<longrightarrow> unat (r * 2) \<le> 250"
    using q by (auto simp: unat_word_ariths intro: order_trans [OF mod_less_eq_dividend])
  then have "exc = 0 \<longrightarrow> uint (ucast (r * 2) :: uint8) \<le> 250" using small_count_le by blast
  then have "exc = 0 \<longrightarrow> reply_fits (2 + uint (ucast (r * 2) :: uint8)) ((take 2 buf @ out)[1 := ucast (r * 2)])"
    using len r(3) by (simp add: reply_fits_def)
  with r that show thesis by blast
qed

lemma regs_result:
  assumes len: "252 \<le> length buf" "1 \<le> n" "n \<le> length buf" and I: "I a" and cb: "read_cb_ok I cb"
  shows "fct_result I (if cb \<noteq> None then quantity_error 125 (tl (take n buf)) else E_FNC_NOT_SUPPORTED) buf a
    (slave_read_regs cb buf (int n) a)"
proof (cases cb)
  case (Some f)
  obtain q where q: "ciaaModbus_readInt buf 3 = Some q" "unat q = be (buf ! 3) (buf ! 4)"
    using readInt_be [of 3 buf] len by auto
  obtain w where w: "ciaaModbus_readInt buf 1 = Some w" using readInt_be [of 1 buf] len by auto
  have t: "0x007D < q \<or> q < 1 \<or> int n \<noteq> 5 \<longleftrightarrow> quantity_error 125 (tl (take n buf)) \<noteq> 0"
    using quantity_test [OF len(2,3) q(2), of 125] by (simp add: word_less_nat_alt)
  show ?thesis
  proof (cases "quantity_error 125 (tl (take n buf)) = 0")
    case False
    then have "quantity_error 125 (tl (take n buf)) = E_WRONG_REG_QTY" using quantity_error_iff by metis
    with Some False t q(1) show ?thesis by (simp add: fct_result_def slave_read_regs_def)
  next
    case True
    then have q': "unat q \<le> 125" "1 \<le> unat q" using t by (auto simp: word_less_nat_alt)
    obtain r exc out a' where r: "f w q 0 (drop 2 buf) a = Some (r, exc, out, a')" "I a'" "length out = length (drop 2 buf)"
      "exc = 0 \<longrightarrow> reply_fits (2 + uint (ucast (r * 2) :: uint8)) ((take 2 buf @ out)[1 := ucast (r * 2)])"
      by (rule regs_read_fits [OF cb [unfolded Some] I q'(2,1) len(1)])
    have "slave_read_regs cb buf (int n) a =
        Some (2 + uint (ucast (r * 2) :: uint8), exc, (take 2 buf @ out)[1 := ucast (r * 2)], a')"
      using Some True t q(1) w r(1,3) len by (simp add: slave_read_regs_def put_tail_eq mem_simps Let_def)
    then show ?thesis using Some True r len by (simp add: fct_result_def nth_append)
  qed
qed (simp add: fct_result_def slave_read_regs_def E_FNC_NOT_SUPPORTED_def)

lemma coil_result:
  assumes len: "252 \<le> length buf" "1 \<le> n" "n \<le> length buf" and I: "I a" and cb: "write1_cb_ok I cb"
  shows "fct_result I (if cb \<noteq> None then if length (tl (take n buf)) = 4 \<and> drop 2 (tl (take n buf)) \<in> {[0, 0], [0xFF, 0]}
      then 0 else E_WRONG_REG_QTY else E_FNC_NOT_SUPPORTED) buf a (slave_write_coil cb buf (int n) a)"
proof (cases cb)
  case (Some f)
  obtain v where v: "ciaaModbus_readInt buf 3 = Some v" using readInt_be [of 3 buf] len by auto
  obtain w where w: "ciaaModbus_readInt buf 1 = Some w" using readInt_be [of 1 buf] len by auto
  have "2 \<le> length (drop 3 buf)" using len by simp
  then obtain exc out a' where r: "f w 0 (drop 3 buf) a = Some (exc, out, a')" "I a'" and ok: "length out = length (drop 3 buf)"
    using cb Some I unfolding write1_cb_ok_def by blast
  have five: "5 \<le> length buf" using len by simp
  have run: "slave_write_coil cb buf (int n) a = (if (v \<noteq> 0x0000 \<and> v \<noteq> 0xFF00) \<or> int n \<noteq> 5
      then Some (0, E_WRONG_REG_QTY, buf, a) else Some (5, exc, take 3 buf @ out, a'))"
    using Some v w r(1) ok len by (simp add: slave_write_coil_def put_tail_eq)
  show ?thesis
    unfolding run coil_test [OF five len(3,2) v] using Some ok len r(2) I
    by (simp add: fct_result_def reply_fits_def E_WRONG_REG_QTY_def nth_append)
qed (simp add: fct_result_def slave_write_coil_def E_FNC_NOT_SUPPORTED_def)

lemma reg_result:
  assumes len: "252 \<le> length buf" "1 \<le> n" "n \<le> length buf" and I: "I a" and cb: "write1_cb_ok I cb"
  shows "fct_result I (if cb \<noteq> None then if length (tl (take n buf)) = 4 then 0 else E_WRONG_REG_QTY
      else E_FNC_NOT_SUPPORTED) buf a (slave_write_reg cb buf (int n) a)"
proof (cases cb)
  case (Some f)
  obtain v where v: "ciaaModbus_readInt buf 3 = Some v" using readInt_be [of 3 buf] len by auto
  obtain w where w: "ciaaModbus_readInt buf 1 = Some w" using readInt_be [of 1 buf] len by auto
  have "2 \<le> length (drop 3 buf)" using len by simp
  then obtain exc out a' where r: "f w 0 (drop 3 buf) a = Some (exc, out, a')" "I a'" and ok: "length out = length (drop 3 buf)"
    using cb Some I unfolding write1_cb_ok_def by blast
  have "slave_write_reg cb buf (int n) a =
      (if n \<noteq> 5 then Some (0, E_WRONG_REG_QTY, buf, a) else Some (5, exc, take 3 buf @ out, a'))"
    using Some v w r(1) ok len by (simp add: slave_write_reg_def put_tail_eq)
  then show ?thesis using Some ok len r(2) I
    by (cases "n = 5") (simp_all add: fct_result_def reply_fits_def E_WRONG_REG_QTY_def nth_append)
qed (simp add: fct_result_def slave_write_reg_def E_FNC_NOT_SUPPORTED_def)

text \<open>The byte count the callback of a write gets is the one of the pdu.\<close>

lemma byte_count:
  fixes c :: uint16
  assumes "uint c = uint (b :: uint8)"
  shows "unat (ucast c :: uint8) = unat b"
proof -
  have "unat c = unat b" using assms by (metis of_nat_eq_iff uint_nat)
  moreover have "unat b < 2 ^ LENGTH(8)" by (rule unsigned_less)
  ultimately show ?thesis by (simp add: unsigned_ucast_eq take_bit_nat_eq_self)
qed

lemma coils_result:
  assumes len: "252 \<le> length buf" "1 \<le> n" "n \<le> length buf" and I: "I a" and cb: "write_cb_ok (\<lambda>q. (q + 7) div 8) I cb"
  shows "fct_result I (if cb \<noteq> None then data_error 1968 (\<lambda>q. (q + 7) div 8) (tl (take n buf))
      else E_FNC_NOT_SUPPORTED) buf a (slave_write_coils cb buf (int n) a)"
proof (cases cb)
  case (Some f)
  obtain q where q: "ciaaModbus_readInt buf 3 = Some q" "unat q = be (buf ! 3) (buf ! 4)"
    using readInt_be [of 3 buf] len by auto
  obtain w where w: "ciaaModbus_readInt buf 1 = Some w" using readInt_be [of 1 buf] len by auto
  define c where "c = (if q mod 8 \<noteq> 0 then q div 8 + 1 else q div 8)"
  let ?e = "data_error 1968 (\<lambda>q. (q + 7) div 8) (tl (take n buf))"
  let ?test = "0x07B0 < q \<or> q < 1 \<or> uint c \<noteq> uint (buf ! 5) \<or> 6 + uint c \<noteq> int n"
  have t: "?test \<longleftrightarrow> ?e \<noteq> 0" unfolding c_def by (rule coils_test [OF len(2,3) q(2)])
  have "rd buf 5 = Some (buf ! 5)" using len by (simp add: mem_simps)
  then have run: "slave_write_coils cb buf (int n) a = (if ?test then Some (0, E_WRONG_REG_QTY, buf, a)
      else do { (exc, out, a) \<leftarrow> f w q (ucast c) 0 (drop 6 buf) a; buf \<leftarrow> put_tail buf 6 out; Some (5, exc, buf, a) })"
    unfolding c_def using Some q(1) w by (simp add: slave_write_coils_def Let_def del: if_split)
  show ?thesis
  proof (cases "?e = 0")
    case False
    then have "?e = E_WRONG_REG_QTY" using data_error_iff by metis
    with Some False show ?thesis unfolding run t by (simp add: fct_result_def)
  next
    case True
    then have c: "uint c = uint (buf ! 5)" "6 + uint c = int n" "1 \<le> unat q" using t by (auto simp: word_less_nat_alt)
    then have u: "unat (ucast c :: uint8) = unat (buf ! 5)" by (intro byte_count)
    have b: "unat (buf ! 5) = (unat q + 7) div 8"
      using c(1) bytes_of_coils [of q] unfolding c_def [symmetric] by (metis uint_eq_int(1))
    have "int (6 + unat (buf ! 5)) = int n" using c(1,2) by simp
    then have "6 + unat (buf ! 5) = n" by (simp only: of_nat_eq_iff)
    then have "unat (buf ! 5) \<le> length (drop 6 buf)" using len(3) by simp
    with b obtain exc out a' where r: "f w q (ucast c) 0 (drop 6 buf) a = Some (exc, out, a')" "I a'"
      "length out = length (drop 6 buf)"
      using cb Some I c(3) u unfolding write_cb_ok_def by metis
    moreover have "put_tail buf 6 out = Some (take 6 buf @ out)" using r(3) len by (intro put_tail_eq) auto
    ultimately show ?thesis using True Some len unfolding run t by (simp add: fct_result_def reply_fits_def nth_append)
  qed
qed (simp add: fct_result_def slave_write_coils_def E_FNC_NOT_SUPPORTED_def)

lemma regs_write_defined:
  fixes b :: uint8
  assumes cb: "write_cb_ok (\<lambda>q. 2 * q) I (Some f)" and I: "I a" and q: "1 \<le> unat q" "unat q \<le> 125"
    and c: "uint (q * 2) = uint b" "int off + uint (q * 2) \<le> int (length buf)"
  obtains exc out a' where "f w q (ucast (q * 2)) 0 (drop off buf) a = Some (exc, out, a')" "I a'"
    "put_tail buf off out = Some (take off buf @ out)" "length out = length (drop off buf)"
proof -
  have u: "unat (ucast (q * 2) :: uint8) = unat b" using c(1) by (rule byte_count)
  have b: "unat b = 2 * unat q" using c(1) bytes_of_regs [OF q(2)] by (metis uint_eq_int(1))
  have "int (off + unat b) \<le> int (length buf)" using c by simp
  then have off: "off + unat b \<le> length buf" by (simp only: of_nat_le_iff)
  then have "unat b \<le> length (drop off buf)" by simp
  with b u obtain exc out a' where r: "f w q (ucast (q * 2)) 0 (drop off buf) a = Some (exc, out, a')" "I a'"
    "length out = length (drop off buf)"
    using cb I q(1) unfolding write_cb_ok_def by metis
  moreover have "put_tail buf off out = Some (take off buf @ out)" using r(3) off by (intro put_tail_eq) auto
  ultimately show thesis by (intro that)
qed

lemma write_regs_result:
  assumes len: "252 \<le> length buf" "1 \<le> n" "n \<le> length buf" and I: "I a" and cb: "write_cb_ok (\<lambda>q. 2 * q) I cb"
  shows "fct_result I (if cb \<noteq> None then data_error 123 (\<lambda>q. 2 * q) (tl (take n buf))
      else E_FNC_NOT_SUPPORTED) buf a (slave_write_regs cb buf (int n) a)"
proof (cases cb)
  case (Some f)
  obtain q where q: "ciaaModbus_readInt buf 3 = Some q" "unat q = be (buf ! 3) (buf ! 4)"
    using readInt_be [of 3 buf] len by auto
  obtain w where w: "ciaaModbus_readInt buf 1 = Some w" using readInt_be [of 1 buf] len by auto
  let ?e = "data_error 123 (\<lambda>q. 2 * q) (tl (take n buf))"
  let ?test = "0x007B < q \<or> q < 1 \<or> uint (q * 2) \<noteq> uint (buf ! 5) \<or> 6 + uint (q * 2) \<noteq> int n"
  have t: "?test \<longleftrightarrow> ?e \<noteq> 0"
    using regs_test [OF len(2,3), of 123 q 0] q(2) by (simp add: word_less_nat_alt)
  have "rd buf 5 = Some (buf ! 5)" using len by (simp add: mem_simps)
  then have run: "slave_write_regs cb buf (int n) a = (if ?test then Some (0, E_WRONG_REG_QTY, buf, a)
      else do { (exc, out, a) \<leftarrow> f w q (ucast (q * 2)) 0 (drop 6 buf) a; buf \<leftarrow> put_tail buf 6 out; Some (5, exc, buf, a) })"
    using Some q(1) w by (simp add: slave_write_regs_def Let_def)
  show ?thesis
  proof (cases "?e = 0")
    case False
    then have "?e = E_WRONG_REG_QTY" using data_error_iff by metis
    with Some False show ?thesis unfolding run t by (simp add: fct_result_def)
  next
    case True
    then have c: "uint (q * 2) = uint (buf ! 5)" "int 6 + uint (q * 2) \<le> int (length buf)" "1 \<le> unat q" "unat q \<le> 125"
      using t len by (auto simp: word_less_nat_alt)
    obtain exc out a' where "f w q (ucast (q * 2)) 0 (drop 6 buf) a = Some (exc, out, a')" "I a'"
      "put_tail buf 6 out = Some (take 6 buf @ out)" "length out = length (drop 6 buf)"
      by (rule regs_write_defined [OF cb [unfolded Some] I c(3,4,1,2)])
    with True Some len show ?thesis unfolding run t by (simp add: fct_result_def reply_fits_def nth_append)
  qed
qed (simp add: fct_result_def slave_write_regs_def E_FNC_NOT_SUPPORTED_def)

lemma read_write_result:
  assumes len: "252 \<le> length buf" "1 \<le> n" "n \<le> length buf" and I: "I a"
    and cb: "read_cb_ok I rcb" "write_cb_ok (\<lambda>q. 2 * q) I wcb"
  shows "fct_result I (if rcb \<noteq> None \<and> wcb \<noteq> None then if quantity_error 125 (take 4 (tl (take n buf))) = 0 \<and>
        data_error 121 (\<lambda>q. 2 * q) (drop 4 (tl (take n buf))) = 0 then 0 else E_WRONG_REG_QTY
      else E_FNC_NOT_SUPPORTED) buf a (slave_read_write_regs rcb wcb buf (int n) a)"
proof (cases "rcb \<noteq> None \<and> wcb \<noteq> None")
  case True
  then obtain fr fw where f: "rcb = Some fr" "wcb = Some fw" by auto
  obtain q where q: "ciaaModbus_readInt buf 3 = Some q" "unat q = be (buf ! 3) (buf ! 4)"
    using readInt_be [of 3 buf] len by auto
  obtain p where p: "ciaaModbus_readInt buf 7 = Some p" "unat p = be (buf ! 7) (buf ! 8)"
    using readInt_be [of 7 buf] len by auto
  obtain w where w1: "ciaaModbus_readInt buf 1 = Some w" using readInt_be [of 1 buf] len by auto
  obtain v where w2: "ciaaModbus_readInt buf 5 = Some v" using readInt_be [of 5 buf] len by auto
  let ?e = "quantity_error 125 (take 4 (tl (take n buf))) = 0 \<and> data_error 121 (\<lambda>q. 2 * q) (drop 4 (tl (take n buf))) = 0"
  let ?test = "0x007D < q \<or> q < 1 \<or> 0x0079 < p \<or> p < 1 \<or> uint (p * 2) \<noteq> uint (buf ! 9) \<or> 10 + uint (p * 2) \<noteq> int n"
  have t: "?test \<longleftrightarrow> \<not> ?e"
  proof -
    have d: "121 < unat p \<or> p < 1 \<or> uint (p * 2) \<noteq> uint (buf ! 9) \<or> 10 + uint (p * 2) \<noteq> int n \<longleftrightarrow>
        data_error 121 (\<lambda>q. 2 * q) (drop 4 (tl (take n buf))) \<noteq> 0"
      using regs_test [OF len(2,3), of 121 p 4] p(2) by simp
    have "125 < unat q \<or> q < 1 \<longleftrightarrow> quantity_error 125 (take 4 (tl (take n buf))) \<noteq> 0" if "10 \<le> n"
      using that len by (simp add: quantity_error_iff nth_tl q(2) word_less_nat_alt E_WRONG_REG_QTY_def) linarith
    moreover have "data_error 121 (\<lambda>q. 2 * q) (drop 4 (tl (take n buf))) \<noteq> 0" if "n < 10"
      using that data_error_take [OF len(3,2), of 121 "\<lambda>q. 2 * q" 4] by (simp add: E_WRONG_REG_QTY_def)
    ultimately show ?thesis using d by (cases "10 \<le> n") (auto simp: word_less_nat_alt)
  qed
  have "rd buf 9 = Some (buf ! 9)" using len by (simp add: mem_simps)
  then have run: "slave_read_write_regs rcb wcb buf (int n) a = (if ?test then Some (0, E_WRONG_REG_QTY, buf, a)
      else do {
        (exc, out, a) \<leftarrow> fw v p (ucast (p * 2)) 0 (drop 10 buf) a;
        buf \<leftarrow> put_tail buf 10 out;
        if exc = 0 then do {
          (ret, exc, out, a) \<leftarrow> fr w q exc (drop 2 buf) a;
          buf \<leftarrow> put_tail buf 2 out;
          buf \<leftarrow> wr buf 1 (ucast (ret * 2));
          Some (2 + uint (ucast (ret * 2) :: uint8), exc, buf, a) }
        else Some (0, exc, buf, a) })"
    using f q(1) p(1) w1 w2 by (simp add: slave_read_write_regs_def Let_def cong: if_cong)
  show ?thesis
  proof (cases ?e)
    case False
    then show ?thesis using f unfolding run t by (auto simp: fct_result_def E_WRONG_REG_QTY_def)
  next
    case yes: True
    then have nt: "\<not> ?test" using t by blast
    then have c: "1 \<le> unat q" "unat q \<le> 125" "1 \<le> unat p" "unat p \<le> 125" "uint (p * 2) = uint (buf ! 9)"
      "int 10 + uint (p * 2) \<le> int (length buf)"
      using len by (auto simp: word_less_nat_alt)
    obtain exc out a' where r: "fw v p (ucast (p * 2)) 0 (drop 10 buf) a = Some (exc, out, a')" "I a'"
      "put_tail buf 10 out = Some (take 10 buf @ out)" "length out = length (drop 10 buf)"
      by (rule regs_write_defined [OF cb(2) [unfolded f] I c(3-6)])
    define b1 where "b1 = take 10 buf @ out"
    have b1: "length b1 = length buf" "b1 ! 0 = buf ! 0" using r(4) len by (simp_all add: b1_def nth_append)
    have l1: "252 \<le> length b1" using b1 len by simp
    obtain r2 exc2 out2 a2 where r2: "fr w q 0 (drop 2 b1) a' = Some (r2, exc2, out2, a2)" "I a2" "length out2 = length (drop 2 b1)"
      "exc2 = 0 \<longrightarrow> reply_fits (2 + uint (ucast (r2 * 2) :: uint8)) ((take 2 b1 @ out2)[1 := ucast (r2 * 2)])"
      by (rule regs_read_fits [OF cb(1) [unfolded f] r(2) c(1,2) l1])
    have p2: "put_tail b1 2 out2 = Some (take 2 b1 @ out2)" using r2(3) l1 by (intro put_tail_eq) auto
    have p3: "wr (take 2 b1 @ out2) 1 x = Some ((take 2 b1 @ out2)[1 := x])" for x
      using r2(3) l1 by (simp add: mem_simps)
    have "slave_read_write_regs rcb wcb buf (int n) a =
        (if exc = 0 then Some (2 + uint (ucast (r2 * 2) :: uint8), exc2, (take 2 b1 @ out2)[1 := ucast (r2 * 2)], a2)
         else Some (0, exc, b1, a'))"
      unfolding run using nt r(1,3) r2(1) p2 p3 by (simp flip: b1_def)
    moreover have "Suc (Suc (length buf - 2)) = length buf" using len by simp
    ultimately show ?thesis
      using yes f b1 r(2) r2 l1 by (simp add: fct_result_def nth_append)
  qed
qed (auto simp: fct_result_def slave_read_write_regs_def E_FNC_NOT_SUPPORTED_def split: option.splits)

lemma fct_if:
  "(c \<Longrightarrow> fct_result I e buf a r) \<Longrightarrow> (\<not> c \<Longrightarrow> fct_result I e' buf a r') \<Longrightarrow>
    fct_result I (if c then e else e') buf a (if c then r else r')"
  by simp

lemma switch_result:
  assumes len: "252 \<le> length buf" "1 \<le> n" "n \<le> length buf" and I: "I a" and cmd: "cmd_ok I cmd"
  shows "fct_result I (request_error cmd (take n buf)) buf a (slave_switch cmd (buf ! 0) buf (int n) a)"
proof -
  have h: "hd (take n buf) = buf ! 0" using len by (cases buf) (auto simp: take_Cons')
  have c: "read_cb_ok I (cmd0x01ReadCoils cmd)" "read_cb_ok I (cmd0x02ReadDiscrteInputs cmd)"
    "read_cb_ok I (cmd0x03ReadHoldingReg cmd)" "read_cb_ok I (cmd0x04ReadInputReg cmd)"
    "write1_cb_ok I (cmd0x05WriteSingleCoil cmd)" "write1_cb_ok I (cmd0x06WriteSingleRegister cmd)"
    "write_cb_ok (\<lambda>q. (q + 7) div 8) I (cmd0x0FWriteMultipleCoils cmd)"
    "write_cb_ok (\<lambda>q. 2 * q) I (cmd0x10WriteMultipleReg cmd)"
    using cmd by (simp_all add: cmd_ok_def)
  show ?thesis
    unfolding slave_switch_def request_error_def Let_def h
    by (intro fct_if bits_result [OF len] regs_result [OF len] coil_result [OF len] reg_result [OF len]
        coils_result [OF len] write_regs_result [OF len] read_write_result [OF len] c I)
      (simp add: fct_result_def E_FNC_NOT_SUPPORTED_def)
qed

section \<open>The task\<close>

lemma slaveTask_rejects:
  assumes sl: "rdi slaves h = Some sl" "slv_buf sl = Some p" "slv_cmd sl = Some cmd" "slv_size sl = int n" and cmd: "cmd_ok I cmd" "I a"
    and p: "p < length bufs" "252 \<le> length (bufs ! p)" and n: "1 \<le> n" "n \<le> length (bufs ! p)"
    and e: "request_error cmd (take n (bufs ! p)) = e" "e \<noteq> 0"
  shows "ciaaModbus_slaveTask h slaves bufs a =
    Some (slaves[nat h := sl\<lparr>slv_size := 2\<rparr>], bufs[p := (bufs ! p)[0 := bufs ! p ! 0 OR 0x80, 1 := e]], a)"
proof -
  have "slave_switch cmd (bufs ! p ! 0) (bufs ! p) (int n) a = Some (0, e, bufs ! p, a)"
    using switch_result [OF p(2) n cmd(2,1)] e by (simp add: fct_result_def)
  moreover have "0 < length (bufs ! p)" "1 < length (bufs ! p)" using p(2) by linarith+
  ultimately show ?thesis
    using sl p(1) n e(2) by (simp add: ciaaModbus_slaveTask_def mem_simps wri_table)
qed

lemma slaveTask_replies:
  assumes sl: "rdi slaves h = Some sl" "slv_buf sl = Some p" "slv_cmd sl = Some cmd" "slv_size sl = int n" and cmd: "cmd_ok I cmd" "I a"
    and p: "p < length bufs" "252 \<le> length (bufs ! p)" and n: "1 \<le> n" "n \<le> length (bufs ! p)"
  shows "\<exists>k reply a'. ciaaModbus_slaveTask h slaves bufs a = Some (slaves[nat h := sl\<lparr>slv_size := k\<rparr>], bufs[p := reply], a') \<and>
    I a' \<and> length reply = length (bufs ! p) \<and>
    (reply ! 0 = bufs ! p ! 0 OR 0x80 \<and> reply ! 1 \<noteq> 0 \<and> k = 2 \<or> reply ! 0 = bufs ! p ! 0 \<and> reply_fits k reply)"
proof (cases "request_error cmd (take n (bufs ! p)) = 0")
  case False
  have "0 < length (bufs ! p)" "1 < length (bufs ! p)" using p(2) by linarith+
  with slaveTask_rejects [OF sl cmd p n refl False] cmd(2) False show ?thesis
    by (intro exI [of _ 2] exI [of _ "(bufs ! p)[0 := bufs ! p ! 0 OR 0x80, 1 := request_error cmd (take n (bufs ! p))]"] exI [of _ a])
      simp
next
  case True
  then obtain ret exc out a' where r: "slave_switch cmd (bufs ! p ! 0) (bufs ! p) (int n) a = Some (ret, exc, out, a')" "I a'"
    "length out = length (bufs ! p)" "out ! 0 = bufs ! p ! 0" "exc = 0 \<longrightarrow> reply_fits ret out"
    using switch_result [OF p(2) n cmd(2,1)] by (auto simp: fct_result_def)
  have l: "0 < length out" "1 < length out" "0 < length (bufs ! p)" using p(2) r(3) by linarith+
  have "ciaaModbus_slaveTask h slaves bufs a = (if exc \<noteq> 0
      then Some (slaves[nat h := sl\<lparr>slv_size := 2\<rparr>], bufs[p := out[0 := out ! 0 OR 0x80, 1 := exc]], a')
      else Some (slaves[nat h := sl\<lparr>slv_size := ret\<rparr>], bufs[p := out], a'))"
    using sl p n r(1) l by (simp add: ciaaModbus_slaveTask_def mem_simps wri_table)
  note run = this
  show ?thesis
  proof (cases "exc = 0")
    case True
    with run r show ?thesis by (intro exI [of _ ret] exI [of _ out] exI [of _ a']) simp
  next
    case False
    with run r l show ?thesis
      by (intro exI [of _ 2] exI [of _ "out[0 := out ! 0 OR 0x80, 1 := exc]"] exI [of _ a']) simp
  qed
qed

section \<open>The properties\<close>

text \<open>C91: a request the slave must not execute reaches no callback. If anything is wrong with the pdu, as the
  reference \<open>request_error\<close> reads it off its bytes (a function that is not one of the nine or has no callback, a
  quantity out of range, a coil value that is neither on nor off, a length or a byte count that does not fit the
  quantity), the application's state is untouched, and the reply, in the place of the request, is the function code
  with the error bit and the exception code, of size 2. Other arrays and slaves stay as they are.\<close>

theorem slave_rejects:
  assumes "rdi slaves h = Some sl" "slv_buf sl = Some p" "slv_cmd sl = Some cmd" "slv_size sl = int n"
    and "cmd_ok I cmd" "I a" and "p < length bufs" "252 \<le> length (bufs ! p)" and "1 \<le> n" "n \<le> length (bufs ! p)"
    and "request_error cmd (take n (bufs ! p)) = e" "e \<noteq> 0"
  shows "ciaaModbus_slaveTask h slaves bufs a =
    Some (slaves[nat h := sl\<lparr>slv_size := 2\<rparr>], bufs[p := (bufs ! p)[0 := bufs ! p ! 0 OR 0x80, 1 := e]], a)"
  using assms by (rule slaveTask_rejects)

text \<open>An application with a table of registers that can only be read.\<close>

definition table_cmd :: "uint8 slave_cmd" where
  "table_cmd = \<lparr>cmd0x01ReadCoils = None, cmd0x02ReadDiscrteInputs = None,
     cmd0x03ReadHoldingReg = Some (\<lambda>s q e b a. if s = 0 \<and> q = 1 then Some (1, 0, b[0 := 0, 1 := a], a) else Some (0xFFFF, 2, b, a)),
     cmd0x04ReadInputReg = None, cmd0x05WriteSingleCoil = None, cmd0x06WriteSingleRegister = None,
     cmd0x0FWriteMultipleCoils = None, cmd0x10WriteMultipleReg = None\<rparr>"

lemma table_cmd_ok: "cmd_ok (\<lambda>_. True) table_cmd"
  by (auto simp: cmd_ok_def table_cmd_def read_cb_ok_def write1_cb_ok_def write_cb_ok_def)

definition table_slave :: "nat \<Rightarrow> uint8 slave_obj" where
  "table_slave n = \<lparr>slv_cmd = Some table_cmd, slv_buf = Some 0, slv_size = int n, slv_id = 1, slv_inUse = True\<rparr>"

theorem slave_rejects_witness:
  "\<exists>r. ciaaModbus_slaveTask 0 [table_slave 5] [[0x03, 0, 0, 0, 0] @ replicate 251 0] 7 =
    Some (r, [[0x83, 3, 0, 0, 0] @ replicate 251 0], 7)"
proof -
  let ?buf = "[0x03, 0, 0, 0, 0] @ replicate 251 0 :: uint8 list"
  have "take 5 ?buf = [0x03, 0, 0, 0, 0]" by simp
  then have e: "request_error table_cmd (take 5 ([?buf] ! 0)) = 3"
    by (simp add: request_error_def fcn_defs table_cmd_def be_def E_WRONG_REG_QTY_def)
  have sl: "rdi [table_slave 5] 0 = Some (table_slave 5)" "slv_buf (table_slave 5) = Some 0"
    "slv_cmd (table_slave 5) = Some table_cmd" "slv_size (table_slave 5) = int 5"
    by (simp_all add: mem_simps table_slave_def)
  have len: "(0 :: nat) < length [?buf]" "252 \<le> length ([?buf] ! 0)" "(1 :: nat) \<le> 5" "5 \<le> length ([?buf] ! 0)" "(3 :: uint8) \<noteq> 0"
    by simp_all
  show ?thesis
    using slave_rejects [OF sl table_cmd_ok TrueI len(1-4) e len(5), of 7] by simp
qed

text \<open>C5: whatever the request, the slave's answer is well formed. If the callbacks stay inside the array and a read
  does not count more than it was asked for, the task is defined for every pdu in an array of 252 bytes or more;
  the array keeps its length, no other array is touched, and the reply either has the error bit, a code that is not 0 and
  size 2, or has the function code of the request and the size 5 or the byte count it announces plus 2, and at most
  252. The application's invariant is kept.\<close>

theorem slave_replies:
  assumes "rdi slaves h = Some sl" "slv_buf sl = Some p" "slv_cmd sl = Some cmd" "slv_size sl = int n"
    and "cmd_ok I cmd" "I a" and "p < length bufs" "252 \<le> length (bufs ! p)" and "1 \<le> n" "n \<le> length (bufs ! p)"
  shows "\<exists>k reply a'. ciaaModbus_slaveTask h slaves bufs a = Some (slaves[nat h := sl\<lparr>slv_size := k\<rparr>], bufs[p := reply], a') \<and>
    I a' \<and> length reply = length (bufs ! p) \<and>
    (reply ! 0 = bufs ! p ! 0 OR 0x80 \<and> reply ! 1 \<noteq> 0 \<and> k = 2 \<or> reply ! 0 = bufs ! p ! 0 \<and> reply_fits k reply)"
  using assms by (rule slaveTask_replies)

theorem slave_replies_witness:
  "\<exists>k reply a'. ciaaModbus_slaveTask 0 [table_slave 5] [[0x03, 0, 0, 0, 1] @ replicate 251 0] 7 =
    Some ([table_slave 5 \<lparr>slv_size := k\<rparr>], [reply], a') \<and> length reply = 256"
proof -
  let ?buf = "[0x03, 0, 0, 0, 1] @ replicate 251 0 :: uint8 list"
  have sl: "rdi [table_slave 5] 0 = Some (table_slave 5)" "slv_buf (table_slave 5) = Some 0"
    "slv_cmd (table_slave 5) = Some table_cmd" "slv_size (table_slave 5) = int 5"
    by (simp_all add: mem_simps table_slave_def)
  have len: "(0 :: nat) < length [?buf]" "252 \<le> length ([?buf] ! 0)" "(1 :: nat) \<le> 5" "5 \<le> length ([?buf] ! 0)"
    by simp_all
  show ?thesis
    using slave_replies [OF sl table_cmd_ok TrueI len, of 7] by auto
qed

end
