(* ===== verification/ModbusMaster.thy ===== *)
theory ModbusMaster
  imports ModbusSlave
begin

text \<open>
  The master of Modbus, \<^verbatim>\<open>modules/modbus/src/ciaaModbus_master.c\<close>: a task of the application starts one command on
  it and waits for the event \<open>MODBUSE\<close>, or leaves a callback; the gateway takes the pdu of the request from it with
  \<open>masterRecvMsg\<close> and hands it the pdu of the reply with \<open>masterSendMsg\<close>.

  The arrays of the application that a command reads or fills are in a memory \<open>mem\<close>, typed as they are declared: the
  coils are bytes, the registers 16-bit integers. A pointer is the number of an array. A callback is a parameter and
  changes the application's own state \<open>'a\<close> only.
\<close>

section \<open>The objects\<close>

datatype master_array = Bytes "uint8 list" | Ints "uint16 list"

definition bytes_at :: "master_array list \<Rightarrow> nat \<Rightarrow> uint8 list option" where
  "bytes_at mem p = do { v \<leftarrow> rd mem p; (case v of Bytes b \<Rightarrow> Some b | Ints _ \<Rightarrow> None) }"

definition ints_at :: "master_array list \<Rightarrow> nat \<Rightarrow> uint16 list option" where
  "ints_at mem p = do { v \<leftarrow> rd mem p; (case v of Bytes _ \<Rightarrow> None | Ints b \<Rightarrow> Some b) }"

type_synonym 'a end_of_comm = "uint8 \<Rightarrow> uint8 \<Rightarrow> uint8 \<Rightarrow> 'a \<Rightarrow> 'a option"

record 'a master_obj =
  cbEndComm :: "'a end_of_comm option"
  ms_taskID :: nat
  pDataR :: nat
  pDataW :: nat
  dataW :: uint16
  ms_respTimeout :: uint16
  retryComm :: uint16
  retryCount :: uint16
  startAddressR :: uint16
  startAddressW :: uint16
  quantityR :: uint16
  quantityW :: uint16
  ms_cmd :: uint8
  ms_slaveId :: uint8
  exceptioncode :: uint8
  ms_inUse :: bool

definition MASTER_DEFAULT_TIMEOUT :: uint16 where "MASTER_DEFAULT_TIMEOUT = 300"
definition MASTER_DEFAULT_RETRY_COMM :: uint16 where "MASTER_DEFAULT_RETRY_COMM = 3"
definition E_NO_ERROR :: uint8 where "E_NO_ERROR = 0x00"
definition E_SLAVE_NOT_RESPOND :: uint8 where "E_SLAVE_NOT_RESPOND = 0x10"
definition E_PDU_RECEIVED_WRONG :: uint8 where "E_PDU_RECEIVED_WRONG = 0x11"

definition ciaaModbus_masterInit :: "'a master_obj list \<Rightarrow> 'a master_obj list" where
  "ciaaModbus_masterInit ms = map (\<lambda>m. m\<lparr>ms_cmd := 0, ms_slaveId := 0, ms_inUse := False\<rparr>) ms"

definition ciaaModbus_masterOpen :: "os_cfg \<Rightarrow> nat \<Rightarrow> 'a master_obj list \<Rightarrow> os_state \<Rightarrow>
    (int \<times> 'a master_obj list \<times> os_state) option" where
  "ciaaModbus_masterOpen cfg MODBUSR ms os = do {
     (_, os) \<leftarrow> GetResource cfg MODBUSR os;
     let h = first_free ms_inUse ms 0;
     (h, ms) \<leftarrow> Some (if h < length ms then
         (int h, ms[h := (ms ! h)\<lparr>ms_inUse := True, ms_cmd := 0, ms_respTimeout := MASTER_DEFAULT_TIMEOUT,
            retryComm := MASTER_DEFAULT_RETRY_COMM\<rparr>])
       else (- 1, ms));
     (_, os) \<leftarrow> ReleaseResource cfg MODBUSR os;
     Some (h, ms, os) }"

section \<open>Starting a command\<close>

text \<open>A call returns a code, or it has called \<open>WaitEvent\<close>; \<open>master_resume\<close> is what it does when the wait is over.
  What the nine commands share is \<open>master_start\<close>; \<open>args\<close> stores their own arguments.\<close>

datatype master_call = MasterReturns int | MasterWaits

definition master_start :: "os_cfg \<Rightarrow> uint32 \<Rightarrow> ('a master_obj \<Rightarrow> 'a master_obj) \<Rightarrow> uint8 \<Rightarrow> int \<Rightarrow> uint8 \<Rightarrow>
    'a end_of_comm option \<Rightarrow> 'a master_obj list \<Rightarrow> os_state \<Rightarrow> (master_call \<times> 'a master_obj list \<times> os_state) option" where
  "master_start cfg MODBUSE args cmd h slaveId cb ms os = do {
     m \<leftarrow> rdi ms h;
     if ms_cmd m = 0 \<and> slaveId \<noteq> 0 then do {
       let m = args (m\<lparr>exceptioncode := 0\<rparr>);
       let m = m\<lparr>ms_slaveId := slaveId, retryCount := retryComm m, ms_taskID := snd (GetTaskID os), cbEndComm := cb,
         ms_cmd := cmd\<rparr>;
       ms \<leftarrow> wri ms h m;
       if cb = None then do {
         (_, os) \<leftarrow> WaitEvent cfg MODBUSE os;
         Some (MasterWaits, ms, os) }
       else Some (MasterReturns 0, ms, os) }
     else Some (MasterReturns (- 1), ms, os) }"

definition master_resume :: "os_cfg \<Rightarrow> uint32 \<Rightarrow> int \<Rightarrow> 'a master_obj list \<Rightarrow> os_state \<Rightarrow> (master_call \<times> os_state) option" where
  "master_resume cfg MODBUSE h ms os = do {
     (_, os) \<leftarrow> ClearEvent cfg MODBUSE os;
     m \<leftarrow> rdi ms h;
     Some (MasterReturns (int8 (uint (exceptioncode m))), os) }"

definition ciaaModbus_masterRead :: "os_cfg \<Rightarrow> uint32 \<Rightarrow> int \<Rightarrow> uint16 \<Rightarrow> uint16 \<Rightarrow> nat \<Rightarrow> uint8 \<Rightarrow> uint8 \<Rightarrow>
    'a end_of_comm option \<Rightarrow> 'a master_obj list \<Rightarrow> os_state \<Rightarrow> (master_call \<times> 'a master_obj list \<times> os_state) option" where
  "ciaaModbus_masterRead cfg MODBUSE h startAddress quantity pData slaveId cmd =
     master_start cfg MODBUSE (\<lambda>m. m\<lparr>startAddressR := startAddress, quantityR := quantity, pDataR := pData\<rparr>) cmd h slaveId"

definition ciaaModbus_masterCmd0x01ReadCoils :: "os_cfg \<Rightarrow> uint32 \<Rightarrow> int \<Rightarrow> uint16 \<Rightarrow> uint16 \<Rightarrow> nat \<Rightarrow> uint8 \<Rightarrow>
    'a end_of_comm option \<Rightarrow> 'a master_obj list \<Rightarrow> os_state \<Rightarrow> (master_call \<times> 'a master_obj list \<times> os_state) option" where
  "ciaaModbus_masterCmd0x01ReadCoils cfg MODBUSE h startAddress quantity coilValue slaveId =
     ciaaModbus_masterRead cfg MODBUSE h startAddress quantity coilValue slaveId FCN_READ_COILS"

definition ciaaModbus_masterCmd0x02ReadDiscreteInputs :: "os_cfg \<Rightarrow> uint32 \<Rightarrow> int \<Rightarrow> uint16 \<Rightarrow> uint16 \<Rightarrow> nat \<Rightarrow> uint8 \<Rightarrow>
    'a end_of_comm option \<Rightarrow> 'a master_obj list \<Rightarrow> os_state \<Rightarrow> (master_call \<times> 'a master_obj list \<times> os_state) option" where
  "ciaaModbus_masterCmd0x02ReadDiscreteInputs cfg MODBUSE h startAddress quantity value slaveId =
     ciaaModbus_masterRead cfg MODBUSE h startAddress quantity value slaveId FCN_READ_DISCRETE_INPUTS"

definition ciaaModbus_masterCmd0x03ReadHoldingRegisters :: "os_cfg \<Rightarrow> uint32 \<Rightarrow> int \<Rightarrow> uint16 \<Rightarrow> uint16 \<Rightarrow> nat \<Rightarrow> uint8 \<Rightarrow>
    'a end_of_comm option \<Rightarrow> 'a master_obj list \<Rightarrow> os_state \<Rightarrow> (master_call \<times> 'a master_obj list \<times> os_state) option" where
  "ciaaModbus_masterCmd0x03ReadHoldingRegisters cfg MODBUSE h startAddress quantity hrValue slaveId =
     ciaaModbus_masterRead cfg MODBUSE h startAddress quantity hrValue slaveId FCN_READ_HOLDING_REGISTERS"

definition ciaaModbus_masterCmd0x04ReadInputRegisters :: "os_cfg \<Rightarrow> uint32 \<Rightarrow> int \<Rightarrow> uint16 \<Rightarrow> uint16 \<Rightarrow> nat \<Rightarrow> uint8 \<Rightarrow>
    'a end_of_comm option \<Rightarrow> 'a master_obj list \<Rightarrow> os_state \<Rightarrow> (master_call \<times> 'a master_obj list \<times> os_state) option" where
  "ciaaModbus_masterCmd0x04ReadInputRegisters cfg MODBUSE h startAddress quantity irValue slaveId =
     ciaaModbus_masterRead cfg MODBUSE h startAddress quantity irValue slaveId FCN_READ_INPUT_REGISTERS"

definition ciaaModbus_masterCmd0x05WriteSingleCoil :: "os_cfg \<Rightarrow> uint32 \<Rightarrow> int \<Rightarrow> uint16 \<Rightarrow> bool \<Rightarrow> uint8 \<Rightarrow>
    'a end_of_comm option \<Rightarrow> 'a master_obj list \<Rightarrow> os_state \<Rightarrow> (master_call \<times> 'a master_obj list \<times> os_state) option" where
  "ciaaModbus_masterCmd0x05WriteSingleCoil cfg MODBUSE h startAddress value =
     master_start cfg MODBUSE (\<lambda>m. m\<lparr>startAddressW := startAddress, dataW := (if value then 0xFF00 else 0x0000)\<rparr>)
       FCN_WRITE_SINGLE_COIL h"

definition ciaaModbus_masterCmd0x06WriteSingleRegister :: "os_cfg \<Rightarrow> uint32 \<Rightarrow> int \<Rightarrow> uint16 \<Rightarrow> uint16 \<Rightarrow> uint8 \<Rightarrow>
    'a end_of_comm option \<Rightarrow> 'a master_obj list \<Rightarrow> os_state \<Rightarrow> (master_call \<times> 'a master_obj list \<times> os_state) option" where
  "ciaaModbus_masterCmd0x06WriteSingleRegister cfg MODBUSE h startAddress value =
     master_start cfg MODBUSE (\<lambda>m. m\<lparr>startAddressW := startAddress, dataW := value\<rparr>) FCN_WRITE_SINGLE_REGISTER h"

definition ciaaModbus_masterCmd0x0FWriteMultipleCoils :: "os_cfg \<Rightarrow> uint32 \<Rightarrow> int \<Rightarrow> uint16 \<Rightarrow> uint16 \<Rightarrow> nat \<Rightarrow> uint8 \<Rightarrow>
    'a end_of_comm option \<Rightarrow> 'a master_obj list \<Rightarrow> os_state \<Rightarrow> (master_call \<times> 'a master_obj list \<times> os_state) option" where
  "ciaaModbus_masterCmd0x0FWriteMultipleCoils cfg MODBUSE h startAddress quantity coilsValue =
     master_start cfg MODBUSE (\<lambda>m. m\<lparr>startAddressW := startAddress, quantityW := quantity, pDataW := coilsValue\<rparr>)
       FCN_WRITE_MULTIPLE_COILS h"

definition ciaaModbus_masterCmd0x10WriteMultipleRegisters :: "os_cfg \<Rightarrow> uint32 \<Rightarrow> int \<Rightarrow> uint16 \<Rightarrow> uint16 \<Rightarrow> nat \<Rightarrow> uint8 \<Rightarrow>
    'a end_of_comm option \<Rightarrow> 'a master_obj list \<Rightarrow> os_state \<Rightarrow> (master_call \<times> 'a master_obj list \<times> os_state) option" where
  "ciaaModbus_masterCmd0x10WriteMultipleRegisters cfg MODBUSE h startAddress quantity hrValue =
     master_start cfg MODBUSE (\<lambda>m. m\<lparr>startAddressW := startAddress, quantityW := quantity, pDataW := hrValue\<rparr>)
       FCN_WRITE_MULTIPLE_REGISTERS h"

definition ciaaModbus_masterCmd0x17ReadWriteMultipleRegisters :: "os_cfg \<Rightarrow> uint32 \<Rightarrow> int \<Rightarrow> uint16 \<Rightarrow> uint16 \<Rightarrow> nat \<Rightarrow>
    uint16 \<Rightarrow> uint16 \<Rightarrow> nat \<Rightarrow> uint8 \<Rightarrow>
    'a end_of_comm option \<Rightarrow> 'a master_obj list \<Rightarrow> os_state \<Rightarrow> (master_call \<times> 'a master_obj list \<times> os_state) option" where
  "ciaaModbus_masterCmd0x17ReadWriteMultipleRegisters cfg MODBUSE h addressR quantR hrValueR addressW quantW hrValueW =
     master_start cfg MODBUSE
       (\<lambda>m. m\<lparr>startAddressR := addressR, startAddressW := addressW, quantityR := quantR, quantityW := quantW,
          pDataR := hrValueR, pDataW := hrValueW\<rparr>)
       FCN_READ_WRITE_MULTIPLE_REGISTERS h"

section \<open>The task\<close>

text \<open>The end of a command is told to the task that waits, by the event, or through the callback.\<close>

definition master_notify :: "os_cfg \<Rightarrow> uint32 \<Rightarrow> 'a master_obj \<Rightarrow> 'a \<Rightarrow> os_state \<Rightarrow> ('a \<times> os_state) option" where
  "master_notify cfg MODBUSE m a os =
     (case cbEndComm m of
        None \<Rightarrow> do { (_, os) \<leftarrow> SetEvent cfg (ms_taskID m) MODBUSE os; Some (a, os) }
      | Some f \<Rightarrow> do { a \<leftarrow> f (ms_slaveId m) (ms_cmd m) (exceptioncode m) a; Some (a, os) })"

definition ciaaModbus_masterTask :: "os_cfg \<Rightarrow> uint32 \<Rightarrow> int \<Rightarrow> 'a master_obj list \<Rightarrow> 'a \<Rightarrow> os_state \<Rightarrow>
    ('a master_obj list \<times> 'a \<times> os_state) option" where
  "ciaaModbus_masterTask cfg MODBUSE handler ms a os = do {
     m \<leftarrow> rdi ms handler;
     if ms_cmd m \<noteq> 0 then
       if 0 < retryCount m then do {
         ms \<leftarrow> wri ms handler (m\<lparr>retryCount := retryCount m - 1\<rparr>);
         Some (ms, a, os) }
       else do {
         let m = (if exceptioncode m = E_NO_ERROR then m\<lparr>exceptioncode := E_SLAVE_NOT_RESPOND\<rparr> else m);
         (a, os) \<leftarrow> master_notify cfg MODBUSE m a os;
         ms \<leftarrow> wri ms handler (m\<lparr>ms_cmd := 0\<rparr>);
         Some (ms, a, os) }
     else Some (ms, a, os) }"

section \<open>The request\<close>

definition ciaaModbus_writeInt :: "uint8 list \<Rightarrow> nat \<Rightarrow> uint16 \<Rightarrow> uint8 list option" where
  "ciaaModbus_writeInt buf i num = do {
     buf \<leftarrow> wr buf i (ucast (drop_bit 8 num));
     wr buf (i + 1) (ucast num) }"

primrec put_regs :: "uint8 list \<Rightarrow> nat \<Rightarrow> uint16 list \<Rightarrow> nat \<Rightarrow> uint8 list option" where
  "put_regs pdu off data 0 = Some pdu"
| "put_regs pdu off data (Suc n) = do {
     pdu \<leftarrow> put_regs pdu off data n;
     v \<leftarrow> rd data n;
     ciaaModbus_writeInt pdu (off + 2 * n) v }"

text \<open>\<open>msg_id\<close>, \<open>pdu\<close> and \<open>n\<close> are the caller's variables: without a command they are left as they are.\<close>

definition ciaaModbus_masterRecvMsg :: "int \<Rightarrow> uint8 \<Rightarrow> uint8 list \<Rightarrow> int \<Rightarrow> 'a master_obj list \<Rightarrow> master_array list \<Rightarrow>
    (uint8 \<times> uint8 list \<times> int) option" where
  "ciaaModbus_masterRecvMsg handler msg_id pdu n ms mem = do {
     m \<leftarrow> rdi ms handler;
     if ms_cmd m \<noteq> 0 then do {
       let msg_id = ms_slaveId m;
       pdu \<leftarrow> wr pdu 0 (ms_cmd m);
       if ms_cmd m \<in> {FCN_READ_COILS, FCN_READ_DISCRETE_INPUTS, FCN_READ_HOLDING_REGISTERS, FCN_READ_INPUT_REGISTERS}
       then do {
         pdu \<leftarrow> ciaaModbus_writeInt pdu 1 (startAddressR m);
         pdu \<leftarrow> ciaaModbus_writeInt pdu 3 (quantityR m);
         Some (msg_id, pdu, 5) }
       else if ms_cmd m \<in> {FCN_WRITE_SINGLE_COIL, FCN_WRITE_SINGLE_REGISTER} then do {
         pdu \<leftarrow> ciaaModbus_writeInt pdu 1 (startAddressW m);
         pdu \<leftarrow> ciaaModbus_writeInt pdu 3 (dataW m);
         Some (msg_id, pdu, 5) }
       else if ms_cmd m = FCN_WRITE_MULTIPLE_COILS then do {
         pdu \<leftarrow> ciaaModbus_writeInt pdu 1 (startAddressW m);
         pdu \<leftarrow> ciaaModbus_writeInt pdu 3 (quantityW m);
         let count = (ucast (quantityW m div 8) :: uint8);
         let count = (if quantityW m mod 8 \<noteq> 0 then count + 1 else count);
         pdu \<leftarrow> wr pdu 5 count;
         data \<leftarrow> (if quantityW m = 0 then Some [] else bytes_at mem (pDataW m));
         pdu \<leftarrow> copy_loop pdu 6 data 0 0 (uint (quantityW m));
         count \<leftarrow> rd pdu 5;
         Some (msg_id, pdu, 6 + uint count) }
       else if ms_cmd m = FCN_WRITE_MULTIPLE_REGISTERS then do {
         pdu \<leftarrow> ciaaModbus_writeInt pdu 1 (startAddressW m);
         pdu \<leftarrow> ciaaModbus_writeInt pdu 3 (quantityW m);
         pdu \<leftarrow> wr pdu 5 (ucast (quantityW m * 2));
         data \<leftarrow> (if quantityW m = 0 then Some [] else ints_at mem (pDataW m));
         pdu \<leftarrow> put_regs pdu 6 data (unat (quantityW m));
         Some (msg_id, pdu, 6 + uint (quantityW m) * 2) }
       else if ms_cmd m = FCN_READ_WRITE_MULTIPLE_REGISTERS then do {
         pdu \<leftarrow> ciaaModbus_writeInt pdu 1 (startAddressR m);
         pdu \<leftarrow> ciaaModbus_writeInt pdu 3 (quantityR m);
         pdu \<leftarrow> ciaaModbus_writeInt pdu 5 (startAddressW m);
         pdu \<leftarrow> ciaaModbus_writeInt pdu 7 (quantityW m);
         pdu \<leftarrow> wr pdu 9 (ucast (quantityW m * 2));
         data \<leftarrow> (if quantityW m = 0 then Some [] else ints_at mem (pDataW m));
         pdu \<leftarrow> put_regs pdu 10 data (unat (quantityW m));
         Some (msg_id, pdu, 10 + uint (quantityW m) * 2) }
       else Some (msg_id, pdu, 0) }
     else Some (msg_id, pdu, n) }"

section \<open>The reply\<close>

definition ciaaModbus_masterProcess0x01_0x02 :: "'a master_obj \<Rightarrow> uint8 list \<Rightarrow> int \<Rightarrow> master_array list \<Rightarrow>
    (uint8 \<times> master_array list) option" where
  "ciaaModbus_masterProcess0x01_0x02 m pdu n mem = do {
     count \<leftarrow> rd pdu 1;
     if uint count + 2 = n then if count = 0 then Some (E_NO_ERROR, mem) else do {
       data \<leftarrow> bytes_at mem (pDataR m);
       data \<leftarrow> copy_loop data 0 pdu 2 0 (uint count);
       mem \<leftarrow> wr mem (pDataR m) (Bytes data);
       Some (E_NO_ERROR, mem) }
     else Some (E_PDU_RECEIVED_WRONG, mem) }"

primrec get_regs :: "uint16 list \<Rightarrow> uint8 list \<Rightarrow> nat \<Rightarrow> uint16 list option" where
  "get_regs data pdu 0 = Some data"
| "get_regs data pdu (Suc n) = do {
     data \<leftarrow> get_regs data pdu n;
     v \<leftarrow> ciaaModbus_readInt pdu (2 + n * 2);
     wr data n v }"

definition ciaaModbus_masterProcess0x03_0x04_0x17 :: "'a master_obj \<Rightarrow> uint8 list \<Rightarrow> int \<Rightarrow> master_array list \<Rightarrow>
    (uint8 \<times> master_array list) option" where
  "ciaaModbus_masterProcess0x03_0x04_0x17 m pdu n mem = do {
     count \<leftarrow> rd pdu 1;
     if uint count = uint (quantityR m) * 2 \<and> n = 2 + uint (quantityR m) * 2 then
       if quantityR m = 0 then Some (E_NO_ERROR, mem)
       else do {
         data \<leftarrow> ints_at mem (pDataR m);
         data \<leftarrow> get_regs data pdu (unat (quantityR m));
         mem \<leftarrow> wr mem (pDataR m) (Ints data);
         Some (E_NO_ERROR, mem) }
     else Some (E_PDU_RECEIVED_WRONG, mem) }"

definition ciaaModbus_masterProcess0x05_0x06 :: "'a master_obj \<Rightarrow> uint8 list \<Rightarrow> uint8 option" where
  "ciaaModbus_masterProcess0x05_0x06 m pdu = do {
     address \<leftarrow> ciaaModbus_readInt pdu 1;
     v \<leftarrow> ciaaModbus_readInt pdu 3;
     Some (if address = startAddressW m \<and> v = dataW m then E_NO_ERROR else E_PDU_RECEIVED_WRONG) }"

definition ciaaModbus_masterProcess0x0F_0x10 :: "'a master_obj \<Rightarrow> uint8 list \<Rightarrow> uint8 option" where
  "ciaaModbus_masterProcess0x0F_0x10 m pdu = do {
     address \<leftarrow> ciaaModbus_readInt pdu 1;
     v \<leftarrow> ciaaModbus_readInt pdu 3;
     Some (if address = startAddressW m \<and> v = quantityW m then E_NO_ERROR else E_PDU_RECEIVED_WRONG) }"

definition master_process :: "'a master_obj \<Rightarrow> uint8 list \<Rightarrow> int \<Rightarrow> master_array list \<Rightarrow> (uint8 \<times> master_array list) option" where
  "master_process m pdu n mem = do {
     f \<leftarrow> rd pdu 0;
     if f = ms_cmd m then
       if f \<in> {FCN_READ_COILS, FCN_READ_DISCRETE_INPUTS} then ciaaModbus_masterProcess0x01_0x02 m pdu (n mod 2 ^ 16) mem
       else if f \<in> {FCN_READ_HOLDING_REGISTERS, FCN_READ_INPUT_REGISTERS, FCN_READ_WRITE_MULTIPLE_REGISTERS} then
         ciaaModbus_masterProcess0x03_0x04_0x17 m pdu (n mod 2 ^ 16) mem
       else if f \<in> {FCN_WRITE_SINGLE_COIL, FCN_WRITE_SINGLE_REGISTER} then do {
         e \<leftarrow> ciaaModbus_masterProcess0x05_0x06 m pdu; Some (e, mem) }
       else if f \<in> {FCN_WRITE_MULTIPLE_COILS, FCN_WRITE_MULTIPLE_REGISTERS} then do {
         e \<leftarrow> ciaaModbus_masterProcess0x0F_0x10 m pdu; Some (e, mem) }
       else Some (exceptioncode m, mem)
     else if f = ms_cmd m OR 0x80 then do { e \<leftarrow> rd pdu 1; Some (e, mem) }
     else Some (E_PDU_RECEIVED_WRONG, mem) }"

definition ciaaModbus_masterSendMsg :: "os_cfg \<Rightarrow> uint32 \<Rightarrow> int \<Rightarrow> uint8 \<Rightarrow> uint8 list \<Rightarrow> int \<Rightarrow> 'a master_obj list \<Rightarrow>
    master_array list \<Rightarrow> 'a \<Rightarrow> os_state \<Rightarrow> ('a master_obj list \<times> master_array list \<times> 'a \<times> os_state) option" where
  "ciaaModbus_masterSendMsg cfg MODBUSE handler msg_id pdu n ms mem a os = do {
     m \<leftarrow> rdi ms handler;
     if msg_id = ms_slaveId m then do {
       (e, mem) \<leftarrow> master_process m pdu n mem;
       let m = m\<lparr>exceptioncode := e\<rparr>;
       (m, a, os) \<leftarrow> (if e = E_NO_ERROR then do {
           (a, os) \<leftarrow> master_notify cfg MODBUSE m a os;
           Some (m\<lparr>ms_cmd := 0\<rparr>, a, os) }
         else Some (m, a, os));
       ms \<leftarrow> wri ms handler m;
       Some (ms, mem, a, os) }
     else Some (ms, mem, a, os) }"

definition ciaaModbus_masterGetRespTimeout :: "int \<Rightarrow> 'a master_obj list \<Rightarrow> uint16 option" where
  "ciaaModbus_masterGetRespTimeout handler ms = do { m \<leftarrow> rdi ms handler; Some (ms_respTimeout m) }"

section \<open>The requests\<close>

text \<open>What a master sends, as a list: the function, and big-endian integers.\<close>

definition reg_bytes :: "uint16 \<Rightarrow> uint8 list" where
  "reg_bytes v = [ucast (drop_bit 8 v), ucast v]"

definition regs_bytes :: "uint16 list \<Rightarrow> uint8 list" where
  "regs_bytes vs = concat (map reg_bytes vs)"

lemma length_reg_bytes [simp]: "length (reg_bytes v) = 2"
  by (simp add: reg_bytes_def)

lemma regs_bytes_simps [simp]: "regs_bytes [] = []" "regs_bytes (v # vs) = reg_bytes v @ regs_bytes vs"
    "regs_bytes (us @ vs) = regs_bytes us @ regs_bytes vs"
  by (simp_all add: regs_bytes_def)

lemma length_regs_bytes [simp]: "length (regs_bytes vs) = 2 * length vs"
  by (induction vs) simp_all

lemma be_reg_bytes [simp]: "be (ucast (drop_bit 8 v)) (ucast v) = unat v" for v :: uint16
proof -
  have "unat v < 2 ^ LENGTH(16)" by (rule unsigned_less)
  then have "unat (ucast (drop_bit 8 v) :: uint8) = unat v div 256" "unat (ucast v :: uint8) = unat v mod 256"
    by (simp_all add: unsigned_ucast_eq unsigned_drop_bit_eq take_bit_eq_mod drop_bit_eq_div unat_div)
  then show ?thesis by (simp add: be_def)
qed

text \<open>Each store of the code is at the end of what is stored already.\<close>

lemma store_byte:
  "i = length xs \<Longrightarrow> length xs < length pdu \<Longrightarrow> wr (blit pdu 0 xs) i x = Some (blit pdu 0 (xs @ [x]))"
  by (simp add: wr_def blit_def list_update_append Cons_nth_drop_Suc [symmetric])

lemma store_int:
  assumes "i = length xs" and "length xs + 1 < length pdu"
  shows "ciaaModbus_writeInt (blit pdu 0 xs) i v = Some (blit pdu 0 (xs @ reg_bytes v))"
  using assms store_byte [of i xs pdu "ucast (drop_bit 8 v)"] store_byte [of "Suc i" "xs @ [ucast (drop_bit 8 v)]" pdu "ucast v"]
  by (simp add: ciaaModbus_writeInt_def reg_bytes_def)

lemma store_bytes:
  assumes "i = int (length xs)" and "length xs + n \<le> length pdu" and "n \<le> length data"
  shows "copy_loop (blit pdu 0 xs) i data 0 0 (int n) = Some (blit pdu 0 (xs @ take n data))"
  using assms copy_loop_blit [of 0 n "length xs" "blit pdu 0 xs" 0 data] by (simp add: blit_def add.commute)

lemma store_regs:
  "i = length xs \<Longrightarrow> length xs + 2 * n \<le> length pdu \<Longrightarrow> n \<le> length data \<Longrightarrow>
    put_regs (blit pdu 0 xs) i data n = Some (blit pdu 0 (xs @ regs_bytes (take n data)))"
proof (induction n)
  case (Suc n)
  then show ?case
    using store_int [of "i + 2 * n" "xs @ regs_bytes (take n data)" pdu "data ! n"]
    by (simp add: mem_simps take_Suc_conv_app_nth)
qed simp

definition bits_bytes :: "nat \<Rightarrow> nat" where
  "bits_bytes q = (q + 7) div 8"

definition master_request :: "'a master_obj \<Rightarrow> master_array list \<Rightarrow> uint8 list" where
  "master_request m mem =
     (let r = reg_bytes (startAddressR m) @ reg_bytes (quantityR m); w = reg_bytes (startAddressW m) @ reg_bytes (quantityW m);
          regs = (case ints_at mem (pDataW m) of Some vs \<Rightarrow> regs_bytes (take (unat (quantityW m)) vs) | None \<Rightarrow> []);
          bytes = (case bytes_at mem (pDataW m) of Some bs \<Rightarrow> take (bits_bytes (unat (quantityW m))) bs | None \<Rightarrow> []);
          count = (ucast (quantityW m * 2) :: uint8)
      in ms_cmd m #
        (if ms_cmd m \<in> {FCN_READ_COILS, FCN_READ_DISCRETE_INPUTS, FCN_READ_HOLDING_REGISTERS, FCN_READ_INPUT_REGISTERS} then r
         else if ms_cmd m \<in> {FCN_WRITE_SINGLE_COIL, FCN_WRITE_SINGLE_REGISTER} then
           reg_bytes (startAddressW m) @ reg_bytes (dataW m)
         else if ms_cmd m = FCN_WRITE_MULTIPLE_COILS then w @ of_nat (bits_bytes (unat (quantityW m))) # bytes
         else if ms_cmd m = FCN_WRITE_MULTIPLE_REGISTERS then w @ count # regs
         else r @ w @ count # regs))"

text \<open>The commands the protocol allows, with arrays that have what is sent. The code wants a byte for every coil
  it writes, not for eight, and a buffer that has room for them.\<close>

definition command_ok :: "'a master_obj \<Rightarrow> master_array list \<Rightarrow> bool" where
  "command_ok m mem \<longleftrightarrow>
     (let q = unat (quantityR m); v = unat (quantityW m);
          regs = (\<lambda>n. \<exists>vs. ints_at mem (pDataW m) = Some vs \<and> n \<le> length vs);
          bytes = (\<lambda>n. \<exists>bs. bytes_at mem (pDataW m) = Some bs \<and> n \<le> length bs)
      in if ms_cmd m \<in> {FCN_READ_COILS, FCN_READ_DISCRETE_INPUTS} then 1 \<le> q \<and> q \<le> 2000
         else if ms_cmd m \<in> {FCN_READ_HOLDING_REGISTERS, FCN_READ_INPUT_REGISTERS} then 1 \<le> q \<and> q \<le> 125
         else if ms_cmd m = FCN_WRITE_SINGLE_COIL then dataW m = 0 \<or> dataW m = 0xFF00
         else if ms_cmd m = FCN_WRITE_SINGLE_REGISTER then True
         else if ms_cmd m = FCN_WRITE_MULTIPLE_COILS then 1 \<le> v \<and> v \<le> 250 \<and> bytes v
         else if ms_cmd m = FCN_WRITE_MULTIPLE_REGISTERS then 1 \<le> v \<and> v \<le> 123 \<and> regs v
         else if ms_cmd m = FCN_READ_WRITE_MULTIPLE_REGISTERS then 1 \<le> q \<and> q \<le> 125 \<and> 1 \<le> v \<and> v \<le> 121 \<and> regs v
         else False)"

lemma coil_byte_count:
  "(if q mod 8 \<noteq> 0 then ucast (q div 8) + 1 else ucast (q div 8) :: uint8) = of_nat (bits_bytes (unat q))" for q :: uint16
proof -
  have u: "unat (q div 8) = unat q div 8" "unat (q mod 8) = unat q mod 8" by (simp_all add: unat_div unat_mod)
  have c: "(ucast (q div 8) :: uint8) = of_nat (unat q div 8)" by (simp flip: u(1))
  have "q mod 8 = 0 \<longleftrightarrow> unat q mod 8 = 0" by (metis u(2) unat_eq_zero)
  moreover have "(m + 7) div 8 = (if m mod 8 \<noteq> 0 then m div 8 + 1 else m div 8)" for m :: nat by presburger
  ultimately show ?thesis by (simp add: bits_bytes_def c)
qed

lemma recv_start: "0 < length pdu \<Longrightarrow> wr pdu 0 c = Some (blit pdu 0 [c])"
  using store_byte [of 0 "[]" pdu c] by simp

lemma uint_int_unat: "uint w = int (unat w)"
  by simp

lemma bits_bytes_small: "1 \<le> v \<Longrightarrow> v \<le> 250 \<Longrightarrow> 1 \<le> bits_bytes v \<and> bits_bytes v \<le> 32 \<and> bits_bytes v \<le> v"
  unfolding bits_bytes_def by (intro conjI) linarith+

lemma masterRecvMsg_request:
  assumes m: "rdi ms h = Some m" and ok: "command_ok m mem" and len: "length pdu = 256"
  shows "\<exists>tail. ciaaModbus_masterRecvMsg h i pdu n ms mem =
      Some (ms_slaveId m, blit pdu 0 (master_request m mem @ tail), int (length (master_request m mem))) \<and>
    length (master_request m mem @ tail) \<le> 256 \<and> 5 \<le> length (master_request m mem) \<and> length (master_request m mem) \<le> 252"
proof -
  note d = ciaaModbus_masterRecvMsg_def m recv_start store_int store_byte Let_def len
  show ?thesis
  proof (cases "ms_cmd m \<in> {FCN_READ_COILS, FCN_READ_DISCRETE_INPUTS, FCN_READ_HOLDING_REGISTERS, FCN_READ_INPUT_REGISTERS}")
    case True
    then have "ms_cmd m \<noteq> 0" by (auto simp: fcn_defs)
    with True show ?thesis by (intro exI [of _ "[]"]) (auto simp: d master_request_def)
  next
    case nr: False
    show ?thesis
    proof (cases "ms_cmd m \<in> {FCN_WRITE_SINGLE_COIL, FCN_WRITE_SINGLE_REGISTER}")
      case True
      then have "ms_cmd m \<noteq> 0" by (auto simp: fcn_defs)
      with True nr show ?thesis by (intro exI [of _ "[]"]) (auto simp: d master_request_def)
    next
      case ns: False
      let ?v = "unat (quantityW m)"
      consider (coils) bs where "ms_cmd m = FCN_WRITE_MULTIPLE_COILS" "1 \<le> ?v" "?v \<le> 250" "bytes_at mem (pDataW m) = Some bs" "?v \<le> length bs"
        | (regs) vs where "ms_cmd m = FCN_WRITE_MULTIPLE_REGISTERS" "1 \<le> ?v" "?v \<le> 123" "ints_at mem (pDataW m) = Some vs" "?v \<le> length vs"
        | (both) vs where "ms_cmd m = FCN_READ_WRITE_MULTIPLE_REGISTERS" "1 \<le> ?v" "?v \<le> 121" "ints_at mem (pDataW m) = Some vs" "?v \<le> length vs"
        using ok nr ns by (auto simp: command_ok_def Let_def split: if_splits)
      then show ?thesis
      proof cases
        case coils
        let ?c = "bits_bytes ?v"
        have c: "ms_cmd m \<noteq> 0" "quantityW m \<noteq> 0" using coils by (auto simp: fcn_defs)
        have b: "1 \<le> ?c" "?c \<le> 32" "?c \<le> ?v" using bits_bytes_small [OF coils(2,3)] by auto
        then have u: "uint (of_nat ?c :: uint8) = int ?c" by (simp add: unsigned_of_nat take_bit_nat_eq_self)
        have l: "length (master_request m mem) = 6 + ?c" using coils nr ns b by (simp add: master_request_def Let_def)
        let ?w = "ms_cmd m # reg_bytes (startAddressW m) @ reg_bytes (quantityW m) @ [of_nat ?c]"
        have r: "master_request m mem = ?w @ take ?c bs" using coils nr ns by (simp add: master_request_def Let_def)
        have "take ?v bs = take ?c bs @ take (?v - ?c) (drop ?c bs)" using b by (simp flip: take_add)
        then have t: "?w @ take ?v bs = master_request m mem @ take (?v - ?c) (drop ?c bs)" by (simp add: r)
        have e: "rd (blit pdu 0 (?w @ take ?v bs)) 5 = Some (of_nat ?c)"
          using coils len by (simp add: rd_def blit_nth nth_append reg_bytes_def)
        have "ciaaModbus_masterRecvMsg h i pdu n ms mem = Some (ms_slaveId m, blit pdu 0 (?w @ take ?v bs), 6 + int ?c)"
          using coils nr ns c store_bytes [of 6 ?w ?v pdu bs] e u
          by (simp add: d coil_byte_count flip: uint_int_unat)
        with l t coils b show ?thesis by (intro exI [of _ "take (?v - ?c) (drop ?c bs)"]) simp
      next
        case regs
        have c: "ms_cmd m \<noteq> 0" "quantityW m \<noteq> 0" using regs by (auto simp: fcn_defs)
        let ?w = "ms_cmd m # reg_bytes (startAddressW m) @ reg_bytes (quantityW m) @ [ucast (quantityW m * 2)]"
        have r: "master_request m mem = ?w @ regs_bytes (take ?v vs)" using regs nr ns by (simp add: master_request_def Let_def fcn_defs)
        have "ciaaModbus_masterRecvMsg h i pdu n ms mem = Some (ms_slaveId m, blit pdu 0 (?w @ regs_bytes (take ?v vs)), 6 + int ?v * 2)"
          using regs nr ns c store_regs [of 6 ?w ?v pdu vs] by (simp add: d fcn_defs)
        with r regs show ?thesis by (intro exI [of _ "[]"]) simp
      next
        case both
        have c: "ms_cmd m \<noteq> 0" "quantityW m \<noteq> 0" using both by (auto simp: fcn_defs)
        let ?w = "ms_cmd m # reg_bytes (startAddressR m) @ reg_bytes (quantityR m) @ reg_bytes (startAddressW m) @
          reg_bytes (quantityW m) @ [ucast (quantityW m * 2)]"
        have r: "master_request m mem = ?w @ regs_bytes (take ?v vs)" using both nr ns by (simp add: master_request_def Let_def fcn_defs)
        have "ciaaModbus_masterRecvMsg h i pdu n ms mem = Some (ms_slaveId m, blit pdu 0 (?w @ regs_bytes (take ?v vs)), 10 + int ?v * 2)"
          using both nr ns c store_regs [of 10 ?w ?v pdu vs] by (simp add: d fcn_defs)
        with r both show ?thesis by (intro exI [of _ "[]"]) simp
      qed
    qed
  qed
qed

text \<open>A slave with every callback finds nothing wrong with such a request.\<close>

definition all_functions :: "'b slave_cmd \<Rightarrow> bool" where
  "all_functions scmd \<longleftrightarrow> cmd0x01ReadCoils scmd \<noteq> None \<and> cmd0x02ReadDiscrteInputs scmd \<noteq> None \<and> cmd0x03ReadHoldingReg scmd \<noteq> None \<and>
     cmd0x04ReadInputReg scmd \<noteq> None \<and> cmd0x05WriteSingleCoil scmd \<noteq> None \<and> cmd0x06WriteSingleRegister scmd \<noteq> None \<and>
     cmd0x0FWriteMultipleCoils scmd \<noteq> None \<and> cmd0x10WriteMultipleReg scmd \<noteq> None"

lemma reg_bytes_list: "reg_bytes v = [ucast (drop_bit 8 v), ucast v]"
  by (simp add: reg_bytes_def)

lemma count_ok: "unat q \<le> 125 \<Longrightarrow> unat (ucast (q * 2) :: uint8) = 2 * unat q" for q :: uint16
  using iffD1 [OF uint_eq_int(1) bytes_of_regs [of q]] by (simp add: unsigned_ucast_eq take_bit_nat_eq_self)

lemma request_accepted:
  assumes "command_ok m mem" and "all_functions scmd"
  shows "request_error scmd (master_request m mem) = 0"
proof -
  have coil: "[ucast (drop_bit 8 v), ucast v] \<in> {[0, 0], [0xFF, 0 :: uint8]}" if "v = 0 \<or> v = 0xFF00" for v :: uint16
    using that by auto
  have b: "unat (of_nat (bits_bytes n) :: uint8) = bits_bytes n" if "1 \<le> n" "n \<le> 250" for n
    using bits_bytes_small [OF that] by (simp add: unsigned_of_nat take_bit_nat_eq_self)
  have le: "bits_bytes n \<le> length bs" if "1 \<le> n" "n \<le> 250" "n \<le> length bs" for n and bs :: "uint8 list"
    using bits_bytes_small [OF that(1,2)] that(3) by simp
  show ?thesis
    using assms
    by (auto simp: command_ok_def all_functions_def request_error_def master_request_def Let_def reg_bytes_list coil [simplified]
        count_ok b le min_absorb2 fcn_defs bits_bytes_def [symmetric] split: if_splits)
qed

section \<open>The replies\<close>

lemma readInt_regs_bytes:
  assumes "j < length vs"
  shows "ciaaModbus_readInt (f # k # regs_bytes vs @ rest) (2 + j * 2) = Some (vs ! j)"
proof -
  have "vs = take j vs @ vs ! j # drop (Suc j) vs" using assms by (simp add: id_take_nth_drop)
  then have "regs_bytes vs = regs_bytes (take j vs) @ reg_bytes (vs ! j) @ regs_bytes (drop (Suc j) vs)"
    by (metis regs_bytes_simps(2,3) append_assoc)
  then have n: "(f # k # regs_bytes vs @ rest) ! (2 + j * 2) = ucast (drop_bit 8 (vs ! j))"
    "(f # k # regs_bytes vs @ rest) ! (2 + j * 2 + 1) = ucast (vs ! j)"
    using assms by (simp_all add: nth_append reg_bytes_def min_absorb2 mult.commute)
  obtain w where "ciaaModbus_readInt (f # k # regs_bytes vs @ rest) (2 + j * 2) = Some w"
    "unat w = be ((f # k # regs_bytes vs @ rest) ! (2 + j * 2)) ((f # k # regs_bytes vs @ rest) ! (2 + j * 2 + 1))"
    by (rule readInt_be [of "2 + j * 2" "f # k # regs_bytes vs @ rest"]) (use assms in simp)
  then show ?thesis unfolding n by (simp add: word_unat_eq_iff)
qed

lemma get_regs_stores:
  "n \<le> length vs \<Longrightarrow> n \<le> length data \<Longrightarrow>
    get_regs data (f # k # regs_bytes vs @ rest) n = Some (take n vs @ drop n data)"
proof (induction n)
  case (Suc n)
  have "(take n vs @ drop n data)[n := vs ! n] = take (Suc n) vs @ drop (Suc n) data"
    using Suc.prems by (simp add: take_Suc_conv_app_nth list_update_append min_absorb2 Cons_nth_drop_Suc [symmetric])
  with Suc readInt_regs_bytes [of n vs f k rest] show ?case by (simp add: mem_simps)
qed simp

lemma masterSendMsg_registers:
  assumes m: "rdi ms h = Some m"
    and cmd: "ms_cmd m \<in> {FCN_READ_HOLDING_REGISTERS, FCN_READ_INPUT_REGISTERS, FCN_READ_WRITE_MULTIPLE_REGISTERS}"
    and q: "unat (quantityR m) = length vs" "1 \<le> length vs" "length vs \<le> 125"
    and data: "pDataR m < length mem" "mem ! pDataR m = Ints data" "length vs \<le> length data" and cb: "cbEndComm m = Some f"
    and call: "f (ms_slaveId m) (ms_cmd m) E_NO_ERROR a = Some a'"
  shows "ciaaModbus_masterSendMsg cfg MODBUSE h (ms_slaveId m) (ms_cmd m # of_nat (2 * length vs) # regs_bytes vs @ rest)
      (int (2 * length vs + 2)) ms mem a os =
    Some (ms[nat h := m\<lparr>exceptioncode := E_NO_ERROR, ms_cmd := 0\<rparr>],
      mem[pDataR m := Ints (vs @ drop (length vs) data)], a', os)"
proof -
  have u: "uint (quantityR m) = int (length vs)" using q(1) by (simp add: uint_eq_int)
  define k where "k = 2 * length vs"
  have "unat (of_nat k :: uint8) = k" using q(3) by (simp add: k_def unsigned_of_nat take_bit_nat_eq_self del: of_nat_mult)
  then have "uint (of_nat k :: uint8) = int k" by (simp only: uint_eq_int)
  then have c: "uint (of_nat k :: uint8) = int (length vs) * 2" by (simp add: k_def)
  have nz: "quantityR m \<noteq> 0" using q by auto
  have s: "int (2 * length vs + 2) mod 2 ^ 16 = 2 + int (length vs) * 2" using q(3) by simp
  define pdu where "pdu = ms_cmd m # of_nat k # regs_bytes vs @ rest"
  have p: "rd pdu 0 = Some (ms_cmd m)" "rd pdu 1 = Some (of_nat k)" by (simp_all add: pdu_def mem_simps)
  have g: "get_regs data pdu (length vs) = Some (vs @ drop (length vs) data)"
    using get_regs_stores [OF order_refl data(3)] by (simp add: pdu_def)
  have "master_process m pdu (int (2 * length vs + 2)) mem = Some (E_NO_ERROR, mem[pDataR m := Ints (vs @ drop (length vs) data)])"
    using cmd data c g nz q(1) p unfolding master_process_def ciaaModbus_masterProcess0x03_0x04_0x17_def s u
    by (auto simp: mem_simps ints_at_def fcn_defs)
  then show ?thesis
    using m cb call unfolding k_def [symmetric] pdu_def [symmetric]
    by (simp add: ciaaModbus_masterSendMsg_def master_notify_def wri_table k_def)
qed

end
