(* ===== verification/ModbusTransport.thy ===== *)
theory ModbusTransport
  imports ModbusAscii OsServices
begin

text \<open>
  The transports of Modbus, \<^verbatim>\<open>modules/modbus/src/ciaaModbus_transport.c\<close>: a table of objects, each with a mode and
  the handle of a line. Of the six modes the code serves the two of the ASCII line; the others it names and does
  nothing for. A mode that is none of the enumeration is \<open>None\<close>.
\<close>

datatype transport_mode = MODE_ASCII_MASTER | MODE_ASCII_SLAVE | MODE_RTU_MASTER | MODE_RTU_SLAVE
  | MODE_TCP_MASTER | MODE_TCP_SLAVE

record transport_obj =
  tr_hModbusLowLayer :: int
  tr_respTimeout :: uint32
  tr_mode :: transport_mode
  tr_inUse :: bool

definition TRANSPORT_DEFAULT_TIMEOUT :: uint32 where "TRANSPORT_DEFAULT_TIMEOUT = 300"
definition TRANSPORT_TYPE_MASTER :: int where "TRANSPORT_TYPE_MASTER = 1"
definition TRANSPORT_TYPE_SLAVE :: int where "TRANSPORT_TYPE_SLAVE = 0"
definition TRANSPORT_TYPE_INVALID :: int where "TRANSPORT_TYPE_INVALID = - 1"

definition ascii_mode :: "transport_mode \<Rightarrow> bool" where
  "ascii_mode m \<longleftrightarrow> m = MODE_ASCII_MASTER \<or> m = MODE_ASCII_SLAVE"

definition ciaaModbus_transportInit :: "transport_obj list \<Rightarrow> transport_obj list" where
  "ciaaModbus_transportInit trs =
     map (\<lambda>tr. tr\<lparr>tr_inUse := False, tr_hModbusLowLayer := - 1, tr_mode := MODE_ASCII_SLAVE\<rparr>) trs"

definition ciaaModbus_transportOpen :: "os_cfg \<Rightarrow> nat \<Rightarrow> int \<Rightarrow> transport_mode option \<Rightarrow> transport_obj list \<Rightarrow>
    ascii_obj list \<Rightarrow> os_state \<Rightarrow> (int \<times> transport_obj list \<times> ascii_obj list \<times> os_state) option" where
  "ciaaModbus_transportOpen cfg MODBUSR fd mode trs objs os =
     (case mode of
        None \<Rightarrow> Some (- 1, trs, objs, os)
      | Some m \<Rightarrow> do {
          (_, os) \<leftarrow> GetResource cfg MODBUSR os;
          let h = first_free tr_inUse trs 0;
          (h, trs, objs) \<leftarrow> Some (if h < length trs then
              let (hLow, objs) = (if ascii_mode m then ciaaModbus_asciiOpen fd objs else (- 1, objs))
              in if 0 \<le> hLow then
                   (int h, trs[h := (trs ! h)\<lparr>tr_hModbusLowLayer := hLow, tr_inUse := True, tr_mode := m,
                      tr_respTimeout := TRANSPORT_DEFAULT_TIMEOUT\<rparr>], objs)
                 else (- 1, trs, objs)
            else (- 1, trs, objs));
          (_, os) \<leftarrow> ReleaseResource cfg MODBUSR os;
          Some (h, trs, objs, os) })"

definition ciaaModbus_transportTask :: "'w posix_read \<Rightarrow> int \<Rightarrow> int \<Rightarrow> transport_obj list \<Rightarrow> ascii_obj list \<Rightarrow> 'w \<Rightarrow>
    (ascii_obj list \<times> 'w) option" where
  "ciaaModbus_transportTask posix_read time_base handler trs objs w = do {
     tr \<leftarrow> rdi trs handler;
     if ascii_mode (tr_mode tr) then ciaaModbus_asciiTask posix_read time_base (tr_hModbusLowLayer tr) objs w
     else Some (objs, w) }"

text \<open>\<open>msg_id\<close>, \<open>pdu\<close> and \<open>n\<close> are the caller's variables: a mode that is not served leaves them.\<close>

definition ciaaModbus_transportRecvMsg :: "int \<Rightarrow> uint8 \<Rightarrow> uint8 list \<Rightarrow> int \<Rightarrow> transport_obj list \<Rightarrow> ascii_obj list \<Rightarrow>
    (uint8 \<times> uint8 list \<times> int \<times> ascii_obj list) option" where
  "ciaaModbus_transportRecvMsg handler msg_id pdu n trs objs = do {
     tr \<leftarrow> rdi trs handler;
     if ascii_mode (tr_mode tr) then ciaaModbus_asciiRecvMsg (tr_hModbusLowLayer tr) msg_id pdu objs
     else Some (msg_id, pdu, n, objs) }"

definition ciaaModbus_transportSendMsg :: "'w posix_write \<Rightarrow> int \<Rightarrow> uint8 \<Rightarrow> uint8 list \<Rightarrow> int \<Rightarrow> transport_obj list \<Rightarrow>
    ascii_obj list \<Rightarrow> 'w \<Rightarrow> (ascii_obj list \<times> 'w) option" where
  "ciaaModbus_transportSendMsg posix_write handler msg_id pdu n trs objs w = do {
     tr \<leftarrow> rdi trs handler;
     if ascii_mode (tr_mode tr) then ciaaModbus_asciiSendMsg posix_write (tr_hModbusLowLayer tr) msg_id pdu n objs w
     else Some (objs, w) }"

definition ciaaModbus_transportGetType :: "int \<Rightarrow> transport_obj list \<Rightarrow> int option" where
  "ciaaModbus_transportGetType handler trs = do {
     tr \<leftarrow> rdi trs handler;
     Some (if tr_inUse tr then
         case tr_mode tr of
           MODE_ASCII_MASTER \<Rightarrow> TRANSPORT_TYPE_MASTER
         | MODE_RTU_MASTER \<Rightarrow> TRANSPORT_TYPE_MASTER
         | MODE_TCP_MASTER \<Rightarrow> TRANSPORT_TYPE_MASTER
         | MODE_ASCII_SLAVE \<Rightarrow> TRANSPORT_TYPE_SLAVE
         | MODE_RTU_SLAVE \<Rightarrow> TRANSPORT_TYPE_SLAVE
         | MODE_TCP_SLAVE \<Rightarrow> TRANSPORT_TYPE_SLAVE
       else TRANSPORT_TYPE_INVALID) }"

definition ciaaModbus_transportSetRespTimeout :: "int \<Rightarrow> uint32 \<Rightarrow> transport_obj list \<Rightarrow> transport_obj list option" where
  "ciaaModbus_transportSetRespTimeout handler t trs = do {
     tr \<leftarrow> rdi trs handler;
     wri trs handler (tr\<lparr>tr_respTimeout := t\<rparr>) }"

definition ciaaModbus_transportGetRespTimeout :: "int \<Rightarrow> transport_obj list \<Rightarrow> uint32 option" where
  "ciaaModbus_transportGetRespTimeout handler trs = do { tr \<leftarrow> rdi trs handler; Some (tr_respTimeout tr) }"

section \<open>Handles\<close>

text \<open>A handle that is given out is that of an object that was free, and every transport in use has a line of its own:
  an invariant of the two tables, which opening keeps.\<close>

definition trs_ok :: "transport_obj list \<Rightarrow> ascii_obj list \<Rightarrow> bool" where
  "trs_ok trs objs \<longleftrightarrow>
     (\<forall>i<length trs. tr_inUse (trs ! i) \<longrightarrow> ascii_mode (tr_mode (trs ! i)) \<and> 0 \<le> tr_hModbusLowLayer (trs ! i) \<and>
        nat (tr_hModbusLowLayer (trs ! i)) < length objs \<and> asc_inUse (objs ! nat (tr_hModbusLowLayer (trs ! i)))) \<and>
     (\<forall>i<length trs. \<forall>j<length trs. tr_inUse (trs ! i) \<and> tr_inUse (trs ! j) \<and>
        tr_hModbusLowLayer (trs ! i) = tr_hModbusLowLayer (trs ! j) \<longrightarrow> i = j)"

lemma asciiOpen_cases:
  obtains (opened) h where "ciaaModbus_asciiOpen fd objs =
      (int h, objs[h := (objs ! h)\<lparr>asc_inUse := True, asc_fildes := fd, bufferSize := 0\<rparr>])" "h < length objs" "\<not> asc_inUse (objs ! h)"
    | (full) "ciaaModbus_asciiOpen fd objs = (- 1, objs)" "\<forall>j<length objs. asc_inUse (objs ! j)"
proof -
  let ?h = "first_free asc_inUse objs 0"
  have s: "?h \<le> length objs" "\<forall>j<?h. asc_inUse (objs ! j)" "?h < length objs \<longrightarrow> \<not> asc_inUse (objs ! ?h)"
    using first_free_spec [of 0 objs asc_inUse] by auto
  show thesis
  proof (cases "?h < length objs")
    case True
    with s that(1) [of ?h] show thesis by (simp add: ciaaModbus_asciiOpen_def Let_def)
  next
    case False
    with s have "?h = length objs" by simp
    with False s that(2) show thesis by (simp add: ciaaModbus_asciiOpen_def Let_def)
  qed
qed

lemma transportOpen_keeps:
  assumes ok: "trs_ok trs objs" and r: "ciaaModbus_transportOpen cfg R fd mode trs objs os = Some (h, trs', objs', os')"
  shows "trs_ok trs' objs' \<and> (h \<noteq> - 1 \<longrightarrow> 0 \<le> h \<and> nat h < length trs \<and> \<not> tr_inUse (trs ! nat h) \<and> tr_inUse (trs' ! nat h)) \<and>
    (h = - 1 \<longrightarrow> trs' = trs)"
proof (cases mode)
  case None
  with r ok show ?thesis by (auto simp: ciaaModbus_transportOpen_def)
next
  case (Some m)
  let ?k = "first_free tr_inUse trs 0"
  have s: "?k < length trs \<longrightarrow> \<not> tr_inUse (trs ! ?k)" using first_free_spec [of 0 trs tr_inUse] by auto
  show ?thesis
  proof (cases "?k < length trs \<and> ascii_mode m")
    case False
    with r Some ok show ?thesis
      by (auto simp: ciaaModbus_transportOpen_def bind_eq_Some_conv Let_def split: if_splits)
  next
    case True
    show ?thesis
    proof (cases rule: asciiOpen_cases [of fd objs])
      case full
      with r Some True ok show ?thesis
        by (auto simp: ciaaModbus_transportOpen_def bind_eq_Some_conv Let_def)
    next
      case (opened a)
      let ?tr = "(trs ! ?k)\<lparr>tr_hModbusLowLayer := int a, tr_inUse := True, tr_mode := m, tr_respTimeout := TRANSPORT_DEFAULT_TIMEOUT\<rparr>"
      from r Some True opened have eq: "h = int ?k" "trs' = trs[?k := ?tr]"
        "objs' = objs[a := (objs ! a)\<lparr>asc_inUse := True, asc_fildes := fd, bufferSize := 0\<rparr>]"
        by (auto simp: ciaaModbus_transportOpen_def bind_eq_Some_conv Let_def)
      have fresh: "tr_hModbusLowLayer (trs ! i) \<noteq> int a" if "i < length trs" "tr_inUse (trs ! i)" for i
        using ok that opened(3) by (auto simp: trs_ok_def)
      have low: "ascii_mode (tr_mode (trs ! i))" "0 \<le> tr_hModbusLowLayer (trs ! i)" "nat (tr_hModbusLowLayer (trs ! i)) < length objs"
        "asc_inUse (objs ! nat (tr_hModbusLowLayer (trs ! i)))" if "i < length trs" "tr_inUse (trs ! i)" for i
        using ok that by (auto simp: trs_ok_def)
      have inj: "i = j" if "i < length trs" "j < length trs" "tr_inUse (trs ! i)" "tr_inUse (trs ! j)"
        "tr_hModbusLowLayer (trs ! i) = tr_hModbusLowLayer (trs ! j)" for i j
        using ok that unfolding trs_ok_def by blast
      have "trs_ok trs' objs'"
        unfolding trs_ok_def eq length_list_update
      proof (intro conjI allI impI)
        fix i assume i: "i < length trs" "tr_inUse (trs[?k := ?tr] ! i)"
        let ?a = "nat (tr_hModbusLowLayer (trs[?k := ?tr] ! i))"
        show "ascii_mode (tr_mode (trs[?k := ?tr] ! i))" "0 \<le> tr_hModbusLowLayer (trs[?k := ?tr] ! i)" "?a < length objs"
          using i low True opened(2) by (cases "i = ?k"; simp)+
        show "asc_inUse (objs[a := (objs ! a)\<lparr>asc_inUse := True, asc_fildes := fd, bufferSize := 0\<rparr>] ! ?a)"
          using i low(4) [of i] opened(2) by (cases "i = ?k") (auto simp: nth_list_update)
      next
        fix i j assume ij: "i < length trs" "j < length trs" "tr_inUse (trs[?k := ?tr] ! i) \<and> tr_inUse (trs[?k := ?tr] ! j) \<and>
          tr_hModbusLowLayer (trs[?k := ?tr] ! i) = tr_hModbusLowLayer (trs[?k := ?tr] ! j)"
        then show "i = j" using fresh [of i] fresh [of j] inj [of i j] by (cases "i = ?k"; cases "j = ?k") simp_all
      qed
      with eq s True show ?thesis by simp
    qed
  qed
qed

end
