(* ===== verification/ModbusGateway.thy ===== *)
theory ModbusGateway
  imports ModbusTransport
begin

text \<open>
  The gateway of Modbus, \<^verbatim>\<open>modules/modbus/src/ciaaModbus_gateway.c\<close>: it takes messages from its clients and
  routes them to its servers, and the replies back.

  A client or server is reached through function pointers that are always set together; \<open>module_kind\<close> names the
  module they belong to (\<open>None\<close> for null pointers), and \<open>modbus_ops\<close> is what the modules do: one record of
  operations, on the state \<open>'w\<close> of everything below the gateway. The buffer of a client is an array of the memory in
  \<open>'w\<close>, given by its number. \<open>time_base\<close> is the period of the main task in milliseconds.
\<close>

section \<open>The state\<close>

datatype client_state = STATE_IDLE | STATE_ROUTING | STATE_SEND_MSG_TO_SERVER | STATE_WAITING_SERVER_RESPONSE

datatype module_kind = ModuleSlave | ModuleMaster | ModuleTransport

record 'w modbus_ops =
  op_task :: "module_kind \<Rightarrow> int \<Rightarrow> 'w \<Rightarrow> 'w option"
  op_recvMsg :: "module_kind \<Rightarrow> int \<Rightarrow> uint8 \<Rightarrow> nat \<Rightarrow> int \<Rightarrow> 'w \<Rightarrow> (uint8 \<times> int \<times> 'w) option"
  op_sendMsg :: "module_kind \<Rightarrow> int \<Rightarrow> uint8 \<Rightarrow> nat \<Rightarrow> int \<Rightarrow> 'w \<Rightarrow> 'w option"
  op_getRespTimeout :: "module_kind \<Rightarrow> int \<Rightarrow> 'w \<Rightarrow> int option"

record gw_client =
  cl_handler :: int
  cl_buffer :: nat
  cl_size :: int
  cl_timeout :: int
  cl_indexServer :: int
  cl_module :: "module_kind option"
  cl_state :: client_state
  cl_id :: uint8
  cl_inUse :: bool

record gw_server =
  sv_handler :: int
  sv_module :: "module_kind option"
  sv_id :: uint8
  sv_inUse :: bool
  sv_busy :: bool

record gateway =
  gw_inUse :: bool
  gw_client :: "gw_client list"
  gw_server :: "gw_server list"

definition GATEWAY_LIMIT_CALLS :: nat where "GATEWAY_LIMIT_CALLS = 5"
definition REQ_PDU_MINLENGTH :: int where "REQ_PDU_MINLENGTH = 1"
definition RSP_PDU_MINLENGTH :: int where "RSP_PDU_MINLENGTH = 2"

section \<open>The steps of a client\<close>

text \<open>Each returns 1 if there is more to do now, the client, the servers and the state below.\<close>

definition ciaaModbus_gatewayClientStateIdle :: "'w modbus_ops \<Rightarrow> gw_client \<Rightarrow> 'w \<Rightarrow> (int \<times> gw_client \<times> 'w) option" where
  "ciaaModbus_gatewayClientStateIdle M c w = do {
     k \<leftarrow> cl_module c;
     w \<leftarrow> op_task M k (cl_handler c) w;
     (i, n, w) \<leftarrow> op_recvMsg M k (cl_handler c) (cl_id c) (cl_buffer c) (cl_size c) w;
     let c = c\<lparr>cl_id := i, cl_size := n\<rparr>;
     Some (if REQ_PDU_MINLENGTH \<le> n then (1, c\<lparr>cl_state := STATE_ROUTING\<rparr>, w) else (0, c, w)) }"

definition ciaaModbus_gatewayClientStateRouting :: "gw_client \<Rightarrow> gw_server list \<Rightarrow> int \<times> gw_client" where
  "ciaaModbus_gatewayClientStateRouting c servers =
     (case find (\<lambda>i. sv_inUse (servers ! i) \<and> sv_id (servers ! i) = cl_id c) [0..<length servers] of
        Some i \<Rightarrow> (1, c\<lparr>cl_indexServer := int i, cl_state := STATE_SEND_MSG_TO_SERVER\<rparr>)
      | None \<Rightarrow>
          (case find (\<lambda>i. sv_inUse (servers ! i) \<and> sv_id (servers ! i) = 0) [0..<length servers] of
             Some i \<Rightarrow> (1, c\<lparr>cl_indexServer := int i, cl_state := STATE_SEND_MSG_TO_SERVER\<rparr>)
           | None \<Rightarrow> (0, c\<lparr>cl_state := STATE_IDLE\<rparr>)))"

definition ciaaModbus_gatewayClientStateSendMsgToServer :: "'w modbus_ops \<Rightarrow> int \<Rightarrow> gw_client \<Rightarrow> gw_server list \<Rightarrow> 'w \<Rightarrow>
    (int \<times> gw_client \<times> gw_server list \<times> 'w) option" where
  "ciaaModbus_gatewayClientStateSendMsgToServer M time_base c servers w = do {
     sv \<leftarrow> rdi servers (cl_indexServer c);
     if \<not> sv_busy sv then do {
       servers \<leftarrow> wri servers (cl_indexServer c) (sv\<lparr>sv_busy := True\<rparr>);
       k \<leftarrow> sv_module sv;
       w \<leftarrow> op_sendMsg M k (sv_handler sv) (cl_id c) (cl_buffer c) (cl_size c) w;
       kc \<leftarrow> cl_module c;
       t \<leftarrow> op_getRespTimeout M kc (cl_handler c) w;
       Some (1, c\<lparr>cl_timeout := t div time_base, cl_state := STATE_WAITING_SERVER_RESPONSE\<rparr>, servers, w) }
     else Some (0, c, servers, w) }"

definition ciaaModbus_gatewayClientStateWaitingServerResponse :: "'w modbus_ops \<Rightarrow> gw_client \<Rightarrow> gw_server list \<Rightarrow> 'w \<Rightarrow>
    (int \<times> gw_client \<times> gw_server list \<times> 'w) option" where
  "ciaaModbus_gatewayClientStateWaitingServerResponse M c servers w = do {
     sv \<leftarrow> rdi servers (cl_indexServer c);
     k \<leftarrow> sv_module sv;
     w \<leftarrow> op_task M k (sv_handler sv) w;
     (i, n, w) \<leftarrow> op_recvMsg M k (sv_handler sv) (cl_id c) (cl_buffer c) (cl_size c) w;
     let c = c\<lparr>cl_id := i, cl_size := n\<rparr>;
     if RSP_PDU_MINLENGTH \<le> n then do {
       kc \<leftarrow> cl_module c;
       w \<leftarrow> op_sendMsg M kc (cl_handler c) (cl_id c) (cl_buffer c) (cl_size c) w;
       servers \<leftarrow> wri servers (cl_indexServer c) (sv\<lparr>sv_busy := False\<rparr>);
       Some (1, c\<lparr>cl_state := STATE_IDLE\<rparr>, servers, w) }
     else if cl_timeout c \<noteq> 0 then Some (0, c\<lparr>cl_timeout := cl_timeout c - 1\<rparr>, servers, w)
     else do {
       servers \<leftarrow> wri servers (cl_indexServer c) (sv\<lparr>sv_busy := False\<rparr>);
       Some (0, c\<lparr>cl_state := STATE_IDLE\<rparr>, servers, w) } }"

definition ciaaModbus_gatewayClientProcess :: "'w modbus_ops \<Rightarrow> int \<Rightarrow> gw_client \<Rightarrow> gw_server list \<Rightarrow> 'w \<Rightarrow>
    (int \<times> gw_client \<times> gw_server list \<times> 'w) option" where
  "ciaaModbus_gatewayClientProcess M time_base c servers w =
     (if cl_inUse c then
        case cl_state c of
          STATE_IDLE \<Rightarrow> do { (ret, c, w) \<leftarrow> ciaaModbus_gatewayClientStateIdle M c w; Some (ret, c, servers, w) }
        | STATE_ROUTING \<Rightarrow> (let (ret, c) = ciaaModbus_gatewayClientStateRouting c servers in Some (ret, c, servers, w))
        | STATE_SEND_MSG_TO_SERVER \<Rightarrow> ciaaModbus_gatewayClientStateSendMsgToServer M time_base c servers w
        | STATE_WAITING_SERVER_RESPONSE \<Rightarrow> ciaaModbus_gatewayClientStateWaitingServerResponse M c servers w
      else Some (0, c, servers, w))"

section \<open>The main task\<close>

text \<open>The client is processed until it has nothing to do now, at most \<open>n\<close> times.\<close>

primrec client_calls :: "'w modbus_ops \<Rightarrow> int \<Rightarrow> nat \<Rightarrow> gw_client \<Rightarrow> gw_server list \<Rightarrow> 'w \<Rightarrow>
    (gw_client \<times> gw_server list \<times> 'w) option" where
  "client_calls M time_base 0 c servers w = Some (c, servers, w)"
| "client_calls M time_base (Suc n) c servers w = do {
     (ret, c, servers, w) \<leftarrow> ciaaModbus_gatewayClientProcess M time_base c servers w;
     if 0 < ret then client_calls M time_base n c servers w else Some (c, servers, w) }"

fun clients_loop :: "'w modbus_ops \<Rightarrow> int \<Rightarrow> gw_client list \<Rightarrow> gw_server list \<Rightarrow> 'w \<Rightarrow>
    (gw_client list \<times> gw_server list \<times> 'w) option" where
  "clients_loop M time_base [] servers w = Some ([], servers, w)"
| "clients_loop M time_base (c # cs) servers w = do {
     (c, servers, w) \<leftarrow> client_calls M time_base GATEWAY_LIMIT_CALLS c servers w;
     (cs, servers, w) \<leftarrow> clients_loop M time_base cs servers w;
     Some (c # cs, servers, w) }"

definition ciaaModbus_gatewayMainTask :: "'w modbus_ops \<Rightarrow> int \<Rightarrow> int \<Rightarrow> gateway list \<Rightarrow> 'w \<Rightarrow> (gateway list \<times> 'w) option" where
  "ciaaModbus_gatewayMainTask M time_base hGW gws w =
     (if 0 \<le> hGW then do {
        gw \<leftarrow> rdi gws hGW;
        (cs, servers, w) \<leftarrow> clients_loop M time_base (gw_client gw) (gw_server gw) w;
        gws \<leftarrow> wri gws hGW (gw\<lparr>gw_client := cs, gw_server := servers\<rparr>);
        Some (gws, w) }
      else Some (gws, w))"

section \<open>Setting up\<close>

text \<open>The buffers are cleared in the memory.\<close>

fun clear_buffers :: "gw_client list \<Rightarrow> uint8 list list \<Rightarrow> uint8 list list option" where
  "clear_buffers [] bufs = Some bufs"
| "clear_buffers (c # cs) bufs = do {
     b \<leftarrow> rd bufs (cl_buffer c);
     b \<leftarrow> ciaaPOSIX_memset b 0 0 (length b);
     bufs \<leftarrow> wr bufs (cl_buffer c) b;
     clear_buffers cs bufs }"

definition init_client :: "gw_client \<Rightarrow> gw_client" where
  "init_client c = c\<lparr>cl_module := None, cl_handler := - 1, cl_id := 0, cl_inUse := False, cl_indexServer := - 1, cl_size := 0,
     cl_state := STATE_IDLE, cl_timeout := 0\<rparr>"

definition init_server :: "gw_server \<Rightarrow> gw_server" where
  "init_server sv = sv\<lparr>sv_busy := False, sv_handler := - 1, sv_id := 0, sv_inUse := False, sv_module := None\<rparr>"

definition ciaaModbus_gatewayInit :: "gateway list \<Rightarrow> uint8 list list \<Rightarrow> (gateway list \<times> uint8 list list) option" where
  "ciaaModbus_gatewayInit gws bufs = do {
     bufs \<leftarrow> clear_buffers (concat (map gw_client gws)) bufs;
     Some (map (\<lambda>gw. gw\<lparr>gw_inUse := False, gw_client := map init_client (gw_client gw),
         gw_server := map init_server (gw_server gw)\<rparr>) gws, bufs) }"

definition open_gateway :: "gateway \<Rightarrow> gateway" where
  "open_gateway gw = gw\<lparr>gw_inUse := True, gw_server := map (\<lambda>sv. sv\<lparr>sv_inUse := False\<rparr>) (gw_server gw),
     gw_client := map (\<lambda>c. c\<lparr>cl_inUse := False\<rparr>) (gw_client gw)\<rparr>"

definition ciaaModbus_gatewayOpen :: "os_cfg \<Rightarrow> nat \<Rightarrow> gateway list \<Rightarrow> os_state \<Rightarrow> (int \<times> gateway list \<times> os_state) option" where
  "ciaaModbus_gatewayOpen cfg MODBUSR gws os = do {
     (_, os) \<leftarrow> GetResource cfg MODBUSR os;
     let h = first_free gw_inUse gws 0;
     (h, gws) \<leftarrow> Some (if h < length gws then (int h, gws[h := open_gateway (gws ! h)]) else (- 1, gws));
     (_, os) \<leftarrow> ReleaseResource cfg MODBUSR os;
     Some (h, gws, os) }"

text \<open>The three that add: the first free server or client gets the module; 0 if there was one, -1 if not.\<close>

definition add_server :: "module_kind \<Rightarrow> int \<Rightarrow> uint8 \<Rightarrow> gateway \<Rightarrow> int \<times> gateway" where
  "add_server k h i gw =
     (let j = first_free sv_inUse (gw_server gw) 0
      in if j < length (gw_server gw) then
           (0, gw\<lparr>gw_server := (gw_server gw)[j := (gw_server gw ! j)\<lparr>sv_inUse := True, sv_handler := h, sv_busy := False,
              sv_id := i, sv_module := Some k\<rparr>]\<rparr>)
         else (- 1, gw))"

definition add_client :: "module_kind \<Rightarrow> int \<Rightarrow> gateway \<Rightarrow> int \<times> gateway" where
  "add_client k h gw =
     (let j = first_free cl_inUse (gw_client gw) 0
      in if j < length (gw_client gw) then
           (0, gw\<lparr>gw_client := (gw_client gw)[j := (gw_client gw ! j)\<lparr>cl_inUse := True, cl_handler := h, cl_module := Some k\<rparr>]\<rparr>)
         else (- 1, gw))"

definition with_gateway :: "os_cfg \<Rightarrow> nat \<Rightarrow> int \<Rightarrow> (gateway \<Rightarrow> (int \<times> gateway) option) \<Rightarrow> gateway list \<Rightarrow> os_state \<Rightarrow>
    (int \<times> gateway list \<times> os_state) option" where
  "with_gateway cfg MODBUSR hGW f gws os = do {
     (_, os) \<leftarrow> GetResource cfg MODBUSR os;
     gw \<leftarrow> rdi gws hGW;
     (ret, gw) \<leftarrow> f gw;
     gws \<leftarrow> wri gws hGW gw;
     (_, os) \<leftarrow> ReleaseResource cfg MODBUSR os;
     Some (ret, gws, os) }"

definition ciaaModbus_gatewayAddSlave :: "os_cfg \<Rightarrow> nat \<Rightarrow> (int \<Rightarrow> uint8 option) \<Rightarrow> int \<Rightarrow> int \<Rightarrow> gateway list \<Rightarrow> os_state \<Rightarrow>
    (int \<times> gateway list \<times> os_state) option" where
  "ciaaModbus_gatewayAddSlave cfg MODBUSR slaveGetId hGW hSlave gws os =
     (if 0 \<le> hSlave \<and> 0 \<le> hGW then
        with_gateway cfg MODBUSR hGW
          (\<lambda>gw. if first_free sv_inUse (gw_server gw) 0 < length (gw_server gw)
            then do { i \<leftarrow> slaveGetId hSlave; Some (add_server ModuleSlave hSlave i gw) }
            else Some (- 1, gw)) gws os
      else Some (- 1, gws, os))"

definition ciaaModbus_gatewayAddMaster :: "os_cfg \<Rightarrow> nat \<Rightarrow> int \<Rightarrow> int \<Rightarrow> gateway list \<Rightarrow> os_state \<Rightarrow>
    (int \<times> gateway list \<times> os_state) option" where
  "ciaaModbus_gatewayAddMaster cfg MODBUSR hGW hMaster gws os =
     (if 0 \<le> hGW \<and> 0 \<le> hMaster then
        with_gateway cfg MODBUSR hGW (\<lambda>gw. Some (add_client ModuleMaster hMaster gw)) gws os
      else Some (- 1, gws, os))"

definition ciaaModbus_gatewayAddTransport :: "os_cfg \<Rightarrow> nat \<Rightarrow> transport_obj list \<Rightarrow> int \<Rightarrow> int \<Rightarrow> gateway list \<Rightarrow> os_state \<Rightarrow>
    (int \<times> gateway list \<times> os_state) option" where
  "ciaaModbus_gatewayAddTransport cfg MODBUSR trs hGW hTransport gws os =
     (if 0 \<le> hTransport \<and> 0 \<le> hGW then
        with_gateway cfg MODBUSR hGW
          (\<lambda>gw. do {
             t \<leftarrow> ciaaModbus_transportGetType hTransport trs;
             Some (if t = TRANSPORT_TYPE_SLAVE then add_client ModuleTransport hTransport gw
               else if t = TRANSPORT_TYPE_MASTER then add_server ModuleTransport hTransport 0 gw
               else (- 1, gw)) }) gws os
      else Some (- 1, gws, os))"

section \<open>Who waits for which server\<close>

definition waits :: "nat \<Rightarrow> gw_client \<Rightarrow> bool" where
  "waits j c \<longleftrightarrow> cl_inUse c \<and> cl_state c = STATE_WAITING_SERVER_RESPONSE \<and> cl_indexServer c = int j"

definition waiting :: "gw_client list \<Rightarrow> nat \<Rightarrow> nat" where
  "waiting cs j = length (filter (waits j) cs)"

text \<open>A client in use has its module, one that sends or waits has a server in use, and one that is not in use is idle.
  A server in use has its module, and a busy server is one that somebody waits for: exactly one client.\<close>

definition client_ok :: "gw_server list \<Rightarrow> gw_client \<Rightarrow> bool" where
  "client_ok servers c \<longleftrightarrow>
     (if cl_inUse c then cl_module c \<noteq> None \<and>
        (cl_state c \<in> {STATE_SEND_MSG_TO_SERVER, STATE_WAITING_SERVER_RESPONSE} \<longrightarrow>
           0 \<le> cl_indexServer c \<and> nat (cl_indexServer c) < length servers \<and> sv_inUse (servers ! nat (cl_indexServer c)))
      else cl_state c = STATE_IDLE)"

definition busy_exact :: "(nat \<Rightarrow> nat) \<Rightarrow> gw_server list \<Rightarrow> bool" where
  "busy_exact n servers \<longleftrightarrow> (\<forall>j. n j = (if j < length servers \<and> sv_busy (servers ! j) then 1 else 0))"

definition servers_ok :: "gw_server list \<Rightarrow> bool" where
  "servers_ok servers \<longleftrightarrow> (\<forall>sv\<in>set servers. sv_inUse sv \<longrightarrow> sv_module sv \<noteq> None)"

definition same_servers :: "gw_server list \<Rightarrow> gw_server list \<Rightarrow> bool" where
  "same_servers servers servers' \<longleftrightarrow> map (sv_busy_update (\<lambda>_. False)) servers' = map (sv_busy_update (\<lambda>_. False)) servers"

definition gw_ok :: "gateway \<Rightarrow> bool" where
  "gw_ok gw \<longleftrightarrow> servers_ok (gw_server gw) \<and> (\<forall>c\<in>set (gw_client gw). client_ok (gw_server gw) c) \<and>
     busy_exact (waiting (gw_client gw)) (gw_server gw) \<and>
     (\<not> gw_inUse gw \<longrightarrow> (\<forall>c\<in>set (gw_client gw). \<not> cl_inUse c) \<and> (\<forall>sv\<in>set (gw_server gw). \<not> sv_inUse sv))"

lemma busy_exactD: "busy_exact n servers \<Longrightarrow> n j = (if j < length servers \<and> sv_busy (servers ! j) then 1 else 0)"
  by (simp add: busy_exact_def)

lemma busy_exact_set:
  assumes "busy_exact n servers" and "k < length servers" and "\<And>j. n' j = (if j = k then of_bool b else n j)"
  shows "busy_exact n' (servers[k := sv\<lparr>sv_busy := b\<rparr>])"
  using assms by (auto simp: busy_exact_def nth_list_update)

lemma same_servers_refl [simp]: "same_servers servers servers"
  by (simp add: same_servers_def)

lemma same_servers_trans: "same_servers a b \<Longrightarrow> same_servers b c \<Longrightarrow> same_servers a c"
  by (simp add: same_servers_def)

lemma same_servers_busy: "k < length servers \<Longrightarrow> sv = servers ! k \<Longrightarrow> same_servers servers (servers[k := sv\<lparr>sv_busy := b\<rparr>])"
  by (auto simp: same_servers_def list_eq_iff_nth_eq nth_list_update)

lemma same_servers_nth:
  assumes "same_servers servers servers'"
  shows "length servers' = length servers"
    and "j < length servers \<Longrightarrow> sv_inUse (servers' ! j) = sv_inUse (servers ! j) \<and> sv_module (servers' ! j) = sv_module (servers ! j) \<and>
      sv_handler (servers' ! j) = sv_handler (servers ! j) \<and> sv_id (servers' ! j) = sv_id (servers ! j)"
proof -
  from assms show len: "length servers' = length servers" by (auto simp: same_servers_def dest: map_eq_imp_length_eq)
  assume j: "j < length servers"
  from assms have "map (sv_busy_update (\<lambda>_. False)) servers' ! j = map (sv_busy_update (\<lambda>_. False)) servers ! j"
    by (simp add: same_servers_def)
  with j len have "(servers' ! j)\<lparr>sv_busy := False\<rparr> = (servers ! j)\<lparr>sv_busy := False\<rparr>" by simp
  then show "sv_inUse (servers' ! j) = sv_inUse (servers ! j) \<and> sv_module (servers' ! j) = sv_module (servers ! j) \<and>
      sv_handler (servers' ! j) = sv_handler (servers ! j) \<and> sv_id (servers' ! j) = sv_id (servers ! j)"
    by (cases "servers ! j"; cases "servers' ! j") simp
qed

lemma same_servers_ok:
  assumes "same_servers servers servers'"
  shows "servers_ok servers' = servers_ok servers" and "client_ok servers' c = client_ok servers c"
proof -
  note n = same_servers_nth [OF assms]
  show "servers_ok servers' = servers_ok servers"
    using n by (auto simp: servers_ok_def all_set_conv_all_nth)
  show "client_ok servers' c = client_ok servers c"
    using n by (auto simp: client_ok_def)
qed

text \<open>One step of one client among the others: \<open>n\<close> counts the others that wait.\<close>

lemma ClientProcess_keeps:
  assumes s: "servers_ok servers" and c: "client_ok servers c"
    and n: "busy_exact (\<lambda>j. n j + of_bool (waits j c)) servers"
    and r: "ciaaModbus_gatewayClientProcess M tb c servers w = Some (ret, c', servers', w')"
  shows "same_servers servers servers' \<and> client_ok servers c' \<and> cl_inUse c' = cl_inUse c \<and>
    busy_exact (\<lambda>j. n j + of_bool (waits j c')) servers'"
proof (cases "cl_inUse c")
  case False
  with r s c n show ?thesis by (auto simp: ciaaModbus_gatewayClientProcess_def)
next
  case used: True
  show ?thesis
  proof (cases "cl_state c")
    case STATE_IDLE
    with r s c n used show ?thesis
      by (auto simp: ciaaModbus_gatewayClientProcess_def ciaaModbus_gatewayClientStateIdle_def bind_eq_Some_conv Let_def
          client_ok_def waits_def split: if_splits)
  next
    case STATE_ROUTING
    with r s c n used show ?thesis
      by (auto simp: ciaaModbus_gatewayClientProcess_def ciaaModbus_gatewayClientStateRouting_def Let_def client_ok_def waits_def
          find_Some_iff split: option.splits)
  next
    case STATE_SEND_MSG_TO_SERVER
    define k where "k = nat (cl_indexServer c)"
    from c used STATE_SEND_MSG_TO_SERVER have k: "cl_indexServer c = int k" "k < length servers" "sv_inUse (servers ! k)"
      by (auto simp: client_ok_def k_def)
    show ?thesis
    proof (cases "sv_busy (servers ! k)")
      case True
      with r s c n used k STATE_SEND_MSG_TO_SERVER show ?thesis
        by (auto simp: ciaaModbus_gatewayClientProcess_def ciaaModbus_gatewayClientStateSendMsgToServer_def rdi_def rd_in
            bind_eq_Some_conv)
    next
      case False
      from r used k STATE_SEND_MSG_TO_SERVER False obtain t where
        eq: "servers' = servers[k := (servers ! k)\<lparr>sv_busy := True\<rparr>]"
          "c' = c\<lparr>cl_timeout := t, cl_state := STATE_WAITING_SERVER_RESPONSE\<rparr>"
        by (auto simp: ciaaModbus_gatewayClientProcess_def ciaaModbus_gatewayClientStateSendMsgToServer_def rdi_def rd_in wri_def wr_in
            bind_eq_Some_conv)
      from busy_exactD [OF n, of k] False have "n k = 0" by simp
      with k eq used STATE_SEND_MSG_TO_SERVER have "busy_exact (\<lambda>j. n j + of_bool (waits j c')) servers'"
        unfolding eq by (intro busy_exact_set [OF n]) (auto simp: waits_def)
      with eq k c used show ?thesis by (simp add: same_servers_busy client_ok_def)
    qed
  next
    case STATE_WAITING_SERVER_RESPONSE
    define k where "k = nat (cl_indexServer c)"
    from c used STATE_WAITING_SERVER_RESPONSE have k: "cl_indexServer c = int k" "k < length servers" "sv_inUse (servers ! k)"
      by (auto simp: client_ok_def k_def)
    from busy_exactD [OF n, of k] k used STATE_WAITING_SERVER_RESPONSE have one: "n k = 0" "sv_busy (servers ! k)"
      by (auto simp: waits_def split: if_splits)
    from r used k STATE_WAITING_SERVER_RESPONSE consider i m where "servers' = servers[k := (servers ! k)\<lparr>sv_busy := False\<rparr>]"
        "c' = c\<lparr>cl_id := i, cl_size := m, cl_state := STATE_IDLE\<rparr>"
      | i m where "servers' = servers" "c' = c\<lparr>cl_id := i, cl_size := m, cl_timeout := cl_timeout c - 1\<rparr>"
      by (auto simp: ciaaModbus_gatewayClientProcess_def ciaaModbus_gatewayClientStateWaitingServerResponse_def rdi_def rd_in wri_def wr_in
          Let_def bind_eq_Some_conv split: if_splits)
    then show ?thesis
    proof cases
      case 1
      with k one used STATE_WAITING_SERVER_RESPONSE have "busy_exact (\<lambda>j. n j + of_bool (waits j c')) servers'"
        unfolding 1 by (intro busy_exact_set [OF n]) (auto simp: waits_def)
      with 1 k c used show ?thesis by (simp add: same_servers_busy client_ok_def)
    next
      case 2
      then have "waits j c' = waits j c" for j by (simp add: waits_def)
      moreover have "client_ok servers c'" using 2 c used STATE_WAITING_SERVER_RESPONSE by (simp add: client_ok_def)
      ultimately show ?thesis using 2 n by simp
    qed
  qed
qed


lemma client_calls_keeps:
  assumes "servers_ok servers" and "client_ok servers c" and "busy_exact (\<lambda>j. n j + of_bool (waits j c)) servers"
    and "client_calls M tb f c servers w = Some (c', servers', w')"
  shows "same_servers servers servers' \<and> client_ok servers c' \<and> cl_inUse c' = cl_inUse c \<and>
    busy_exact (\<lambda>j. n j + of_bool (waits j c')) servers'"
  using assms
proof (induction f arbitrary: c servers w)
  case (Suc f)
  from Suc.prems(4) obtain ret c1 servers1 w1 where p: "ciaaModbus_gatewayClientProcess M tb c servers w = Some (ret, c1, servers1, w1)"
    and q: "(if 0 < ret then client_calls M tb f c1 servers1 w1 else Some (c1, servers1, w1)) = Some (c', servers', w')"
    by (auto simp: bind_eq_Some_conv)
  note a = ClientProcess_keeps [OF Suc.prems(1-3) p]
  then have "servers_ok servers1" "client_ok servers1 c1" using Suc.prems(1) same_servers_ok [of servers servers1] by auto
  with Suc.IH [of servers1 c1 w1] a q same_servers_ok(2) [of servers servers1 c'] show ?case
    by (auto split: if_splits intro: same_servers_trans)
qed simp

lemma waiting_simps [simp]: "waiting [] j = 0" "waiting (c # cs) j = of_bool (waits j c) + waiting cs j"
  by (simp_all add: waiting_def)

lemma clients_loop_keeps:
  assumes "servers_ok servers" and "\<forall>c\<in>set cs. client_ok servers c" and "busy_exact (\<lambda>j. n j + waiting cs j) servers"
    and "clients_loop M tb cs servers w = Some (cs', servers', w')"
  shows "same_servers servers servers' \<and> (\<forall>c\<in>set cs'. client_ok servers c) \<and> map cl_inUse cs' = map cl_inUse cs \<and>
    busy_exact (\<lambda>j. n j + waiting cs' j) servers'"
  using assms
proof (induction cs arbitrary: n servers w cs')
  case (Cons c cs)
  from Cons.prems(4) obtain c1 servers1 w1 cs1 where p: "client_calls M tb GATEWAY_LIMIT_CALLS c servers w = Some (c1, servers1, w1)"
    and q: "clients_loop M tb cs servers1 w1 = Some (cs1, servers', w')" and cs': "cs' = c1 # cs1"
    by (auto simp: bind_eq_Some_conv)
  have "busy_exact (\<lambda>j. n j + waiting cs j + of_bool (waits j c)) servers" using Cons.prems(3) by (simp add: add.assoc add.left_commute add.commute)
  from client_calls_keeps [OF Cons.prems(1) _ this p] Cons.prems(2)
  have a: "same_servers servers servers1" "client_ok servers c1" "cl_inUse c1 = cl_inUse c"
    "busy_exact (\<lambda>j. (n j + of_bool (waits j c1)) + waiting cs j) servers1" by (simp_all add: add.assoc add.left_commute add.commute)
  note ok = same_servers_ok [OF a(1)]
  have "same_servers servers1 servers' \<and> (\<forall>c\<in>set cs1. client_ok servers1 c) \<and> map cl_inUse cs1 = map cl_inUse cs \<and>
    busy_exact (\<lambda>j. n j + of_bool (waits j c1) + waiting cs1 j) servers'"
    using Cons.prems(1,2) ok by (intro Cons.IH [OF _ _ a(4) q]) auto
  with a ok cs' show ?case by (auto simp: add.assoc intro: same_servers_trans)
qed simp


lemma set_upd_all: "\<forall>x\<in>set xs. P x \<Longrightarrow> P v \<Longrightarrow> \<forall>x\<in>set (xs[i := v]). P x"
  by (auto dest: subsetD [OF set_update_subset_insert])

lemma MainTask_keeps:
  assumes ok: "\<forall>gw\<in>set gws. gw_ok gw" and r: "ciaaModbus_gatewayMainTask M tb h gws w = Some (gws', w')"
  shows "\<forall>gw\<in>set gws'. gw_ok gw"
proof (cases "0 \<le> h")
  case True
  with r obtain gw cs servers where gw: "nat h < length gws" "gw = gws ! nat h"
      and l: "clients_loop M tb (gw_client gw) (gw_server gw) w = Some (cs, servers, w')"
      and gws': "gws' = gws[nat h := gw\<lparr>gw_client := cs, gw_server := servers\<rparr>]"
    by (auto simp: ciaaModbus_gatewayMainTask_def rdi_def wri_def rd_eq_Some wr_eq_Some bind_eq_Some_conv)
  from ok gw have g: "gw_ok gw" by simp
  note k = clients_loop_keeps [where n = "\<lambda>_. 0", OF _ _ _ l]
  from g k have k: "same_servers (gw_server gw) servers" "\<forall>c\<in>set cs. client_ok (gw_server gw) c"
    "map cl_inUse cs = map cl_inUse (gw_client gw)" "busy_exact (waiting cs) servers" by (auto simp: gw_ok_def)
  note n = same_servers_nth [OF k(1)]
  have "\<forall>c\<in>set cs. \<not> cl_inUse c" if "\<forall>c\<in>set (gw_client gw). \<not> cl_inUse c"
    using that arg_cong [OF k(3), of set] by fastforce
  moreover have "\<forall>sv\<in>set servers. \<not> sv_inUse sv" if "\<forall>sv\<in>set (gw_server gw). \<not> sv_inUse sv"
    using that n by (auto simp: all_set_conv_all_nth)
  ultimately have "gw_ok (gw\<lparr>gw_client := cs, gw_server := servers\<rparr>)"
    using g k same_servers_ok [OF k(1)] by (simp add: gw_ok_def)
  with ok show ?thesis unfolding gws' by (rule set_upd_all)
qed (use ok r in \<open>auto simp: ciaaModbus_gatewayMainTask_def\<close>)

lemma waiting_none: "\<forall>c\<in>set cs. \<not> waits j c \<Longrightarrow> waiting cs j = 0"
  by (simp add: waiting_def)

lemma Init_ok:
  assumes "ciaaModbus_gatewayInit gws bufs = Some (gws', bufs')"
  shows "\<forall>gw\<in>set gws'. gw_ok gw"
proof -
  from assms have "gws' = map (\<lambda>gw. gw\<lparr>gw_inUse := False, gw_client := map init_client (gw_client gw),
      gw_server := map init_server (gw_server gw)\<rparr>) gws" by (auto simp: ciaaModbus_gatewayInit_def bind_eq_Some_conv)
  then show ?thesis
    by (auto simp: gw_ok_def servers_ok_def client_ok_def busy_exact_def init_client_def init_server_def waits_def intro!: waiting_none)
qed

lemma open_gateway_ok:
  assumes "gw_ok gw" and "\<not> gw_inUse gw"
  shows "gw_ok (open_gateway gw)"
proof -
  let ?cs = "gw_client gw" and ?f = "\<lambda>c. c\<lparr>cl_inUse := False\<rparr>"
  from assms have i: "\<forall>c\<in>set ?cs. cl_state c = STATE_IDLE" and b: "busy_exact (waiting ?cs) (gw_server gw)"
    by (auto simp: gw_ok_def client_ok_def)
  from i have z: "waiting ?cs j = 0" "waiting (map ?f ?cs) j = 0" for j by (auto intro!: waiting_none simp: waits_def)
  from busy_exactD [OF b] z have "\<not> sv_busy (gw_server gw ! j)" if "j < length (gw_server gw)" for j
    using that by (metis zero_neq_one)
  with z have "busy_exact (waiting (map ?f ?cs)) (map (\<lambda>sv. sv\<lparr>sv_inUse := False\<rparr>) (gw_server gw))"
    by (simp add: busy_exact_def)
  with i show ?thesis by (simp add: gw_ok_def open_gateway_def servers_ok_def client_ok_def)
qed

lemma Open_ok:
  assumes ok: "\<forall>gw\<in>set gws. gw_ok gw" and r: "ciaaModbus_gatewayOpen cfg R gws os = Some (h, gws', os')"
  shows "\<forall>gw\<in>set gws'. gw_ok gw"
proof -
  let ?h = "first_free gw_inUse gws 0"
  have s: "?h < length gws \<longrightarrow> \<not> gw_inUse (gws ! ?h)" using first_free_spec [of 0 gws gw_inUse] by auto
  show ?thesis
  proof (cases "?h < length gws")
    case True
    with r have gws': "gws' = gws[?h := open_gateway (gws ! ?h)]"
      by (auto simp: ciaaModbus_gatewayOpen_def bind_eq_Some_conv Let_def)
    have "gw_ok (gws ! ?h)" "\<not> gw_inUse (gws ! ?h)" using ok s True by auto
    then have "gw_ok (open_gateway (gws ! ?h))" by (rule open_gateway_ok)
    with ok show ?thesis unfolding gws' by (rule set_upd_all)
  qed (use ok r in \<open>auto simp: ciaaModbus_gatewayOpen_def bind_eq_Some_conv Let_def\<close>)
qed

lemma waiting_idle: "j < length cs \<Longrightarrow> \<not> waits k (cs ! j) \<Longrightarrow> \<not> waits k c \<Longrightarrow> waiting (cs[j := c]) k = waiting cs k"
  by (induction cs arbitrary: j) (auto split: nat.splits)

lemma add_client_ok:
  assumes ok: "gw_ok gw" and u: "gw_inUse gw"
  shows "gw_ok (snd (add_client k h gw))"
proof -
  let ?j = "first_free cl_inUse (gw_client gw) 0"
  have s: "?j < length (gw_client gw) \<longrightarrow> \<not> cl_inUse (gw_client gw ! ?j)"
    using first_free_spec [of 0 "gw_client gw" cl_inUse] by auto
  show ?thesis
  proof (cases "?j < length (gw_client gw)")
    case True
    let ?c = "(gw_client gw ! ?j)\<lparr>cl_inUse := True, cl_handler := h, cl_module := Some k\<rparr>"
    from ok True have c: "client_ok (gw_server gw) (gw_client gw ! ?j)" by (simp add: gw_ok_def)
    with s True have i: "cl_state (gw_client gw ! ?j) = STATE_IDLE" by (simp add: client_ok_def)
    then have "waiting ((gw_client gw)[?j := ?c]) = waiting (gw_client gw)"
      using True by (intro ext waiting_idle) (simp_all add: waits_def)
    moreover have "client_ok (gw_server gw) ?c" using i by (simp add: client_ok_def)
    ultimately have "gw_ok (gw\<lparr>gw_client := (gw_client gw)[?j := ?c]\<rparr>)"
      using ok u set_upd_all [of "gw_client gw" "client_ok (gw_server gw)" ?c ?j] by (simp add: gw_ok_def)
    with True show ?thesis by (simp add: add_client_def Let_def)
  qed (use ok in \<open>simp add: add_client_def Let_def\<close>)
qed

lemma add_server_ok:
  assumes ok: "gw_ok gw" and u: "gw_inUse gw"
  shows "gw_ok (snd (add_server k h i gw))"
proof -
  let ?ss = "gw_server gw"
  let ?j = "first_free sv_inUse ?ss 0"
  have s: "?j < length ?ss \<longrightarrow> \<not> sv_inUse (?ss ! ?j)" using first_free_spec [of 0 ?ss sv_inUse] by auto
  show ?thesis
  proof (cases "?j < length ?ss")
    case True
    let ?sv = "(?ss ! ?j)\<lparr>sv_inUse := True, sv_handler := h, sv_busy := False, sv_id := i, sv_module := Some k\<rparr>"
    have cl: "\<forall>c\<in>set (gw_client gw). client_ok ?ss c" and b: "busy_exact (waiting (gw_client gw)) ?ss"
      using ok by (simp_all add: gw_ok_def)
    have "\<not> waits ?j c" if "c \<in> set (gw_client gw)" for c
      using bspec [OF cl that] s True by (auto simp: waits_def client_ok_def)
    then have "waiting (gw_client gw) ?j = 0" by (simp add: waiting_none)
    with b True have "busy_exact (waiting (gw_client gw)) (?ss[?j := ?sv])"
      by (auto simp: busy_exact_def nth_list_update)
    moreover have "\<forall>c\<in>set (gw_client gw). client_ok (?ss[?j := ?sv]) c"
      using cl True by (auto simp: client_ok_def nth_list_update)
    moreover have "servers_ok (?ss[?j := ?sv])"
      using ok unfolding gw_ok_def servers_ok_def by (intro set_upd_all) simp_all
    ultimately have "gw_ok (gw\<lparr>gw_server := ?ss[?j := ?sv]\<rparr>)" using u by (simp add: gw_ok_def)
    with True show ?thesis by (simp add: add_server_def Let_def)
  qed (use ok in \<open>simp add: add_server_def Let_def\<close>)
qed

lemma with_gateway_ok:
  assumes ok: "\<forall>gw\<in>set gws. gw_ok gw" and r: "with_gateway cfg R h f gws os = Some (ret, gws', os')"
    and f: "\<And>gw ret gw'. gw_ok gw \<Longrightarrow> gw = gws ! nat h \<Longrightarrow> f gw = Some (ret, gw') \<Longrightarrow> gw_ok gw'"
  shows "\<forall>gw\<in>set gws'. gw_ok gw"
proof -
  from r obtain gw' where s: "nat h < length gws" "f (gws ! nat h) = Some (ret, gw')" "gws' = gws[nat h := gw']"
    by (auto simp: with_gateway_def rdi_def wri_def rd_eq_Some wr_eq_Some bind_eq_Some_conv split: if_splits)
  with ok have "gw_ok gw'" by (intro f [OF _ refl s(2)]) auto
  with ok show ?thesis unfolding s(3) by (rule set_upd_all)
qed

section \<open>The reachable gateways\<close>

text \<open>
  The gateways after \<open>ciaaModbus_gatewayInit\<close> and any sequence of the operations: gateways are opened, modules are
  added to a gateway that is open, and the main task runs, on any state of what is below.
\<close>

definition opened :: "int \<Rightarrow> gateway list \<Rightarrow> bool" where
  "opened h gws \<longleftrightarrow> 0 \<le> h \<and> nat h < length gws \<and> gw_inUse (gws ! nat h)"

inductive gw_reach :: "os_cfg \<Rightarrow> nat \<Rightarrow> 'w modbus_ops \<Rightarrow> int \<Rightarrow> gateway list \<Rightarrow> bool"
  for cfg :: os_cfg and R :: nat and M :: "'w modbus_ops" and tb :: int where
  start: "ciaaModbus_gatewayInit gws bufs = Some (gws', bufs') \<Longrightarrow> gw_reach cfg R M tb gws'"
| gw_open: "gw_reach cfg R M tb gws \<Longrightarrow> ciaaModbus_gatewayOpen cfg R gws os = Some (h, gws', os') \<Longrightarrow> gw_reach cfg R M tb gws'"
| add_slave: "gw_reach cfg R M tb gws \<Longrightarrow> opened h gws \<Longrightarrow>
    ciaaModbus_gatewayAddSlave cfg R getId h hs gws os = Some (ret, gws', os') \<Longrightarrow> gw_reach cfg R M tb gws'"
| add_master: "gw_reach cfg R M tb gws \<Longrightarrow> opened h gws \<Longrightarrow>
    ciaaModbus_gatewayAddMaster cfg R h hm gws os = Some (ret, gws', os') \<Longrightarrow> gw_reach cfg R M tb gws'"
| add_transport: "gw_reach cfg R M tb gws \<Longrightarrow> opened h gws \<Longrightarrow>
    ciaaModbus_gatewayAddTransport cfg R trs h ht gws os = Some (ret, gws', os') \<Longrightarrow> gw_reach cfg R M tb gws'"
| run: "gw_reach cfg R M tb gws \<Longrightarrow> ciaaModbus_gatewayMainTask M tb h gws w = Some (gws', w') \<Longrightarrow> gw_reach cfg R M tb gws'"

lemma gw_reach_ok: "gw_reach cfg R M tb gws \<Longrightarrow> \<forall>gw\<in>set gws. gw_ok gw"
proof (induction rule: gw_reach.induct)
  case (start gws bufs gws' bufs')
  then show ?case by (rule Init_ok)
next
  case (gw_open gws os h gws' os')
  from gw_open.IH gw_open.hyps(2) show ?case by (rule Open_ok)
next
  case (add_slave gws h getId hs os ret gws' os')
  have u: "gw_inUse (gws ! nat h)" using add_slave.hyps(2) by (simp add: opened_def)
  show ?case
  proof (cases "0 \<le> hs \<and> 0 \<le> h")
    case True
    with add_slave.hyps(3) have w: "with_gateway cfg R h (\<lambda>gw. if first_free sv_inUse (gw_server gw) 0 < length (gw_server gw)
        then do { i \<leftarrow> getId hs; Some (add_server ModuleSlave hs i gw) } else Some (- 1, gw)) gws os = Some (ret, gws', os')"
      by (simp add: ciaaModbus_gatewayAddSlave_def)
    show ?thesis
      by (rule with_gateway_ok [OF add_slave.IH w])
        (use u in \<open>auto simp: bind_eq_Some_conv split: if_splits dest!: arg_cong [where f = snd] intro: add_server_ok\<close>)
  qed (use add_slave in \<open>auto simp: ciaaModbus_gatewayAddSlave_def\<close>)
next
  case (add_master gws h hm os ret gws' os')
  have u: "gw_inUse (gws ! nat h)" using add_master.hyps(2) by (simp add: opened_def)
  show ?case
  proof (cases "0 \<le> h \<and> 0 \<le> hm")
    case True
    with add_master.hyps(3) have w: "with_gateway cfg R h (\<lambda>gw. Some (add_client ModuleMaster hm gw)) gws os = Some (ret, gws', os')"
      by (simp add: ciaaModbus_gatewayAddMaster_def)
    show ?thesis
      by (rule with_gateway_ok [OF add_master.IH w])
        (use u in \<open>auto dest!: arg_cong [where f = snd] intro: add_client_ok\<close>)
  qed (use add_master in \<open>auto simp: ciaaModbus_gatewayAddMaster_def\<close>)
next
  case (add_transport gws h trs ht os ret gws' os')
  have u: "gw_inUse (gws ! nat h)" using add_transport.hyps(2) by (simp add: opened_def)
  show ?case
  proof (cases "0 \<le> ht \<and> 0 \<le> h")
    case True
    with add_transport.hyps(3) have w: "with_gateway cfg R h (\<lambda>gw. do {
        t \<leftarrow> ciaaModbus_transportGetType ht trs;
        Some (if t = TRANSPORT_TYPE_SLAVE then add_client ModuleTransport ht gw
          else if t = TRANSPORT_TYPE_MASTER then add_server ModuleTransport ht 0 gw else (- 1, gw)) }) gws os = Some (ret, gws', os')"
      by (simp add: ciaaModbus_gatewayAddTransport_def)
    show ?thesis
      by (rule with_gateway_ok [OF add_transport.IH w])
        (use u in \<open>auto simp: bind_eq_Some_conv split: if_splits dest!: arg_cong [where f = snd]
          intro: add_client_ok add_server_ok\<close>)
  qed (use add_transport in \<open>auto simp: ciaaModbus_gatewayAddTransport_def\<close>)
next
  case (run gws h w gws' w')
  from run.IH run.hyps(2) show ?case by (rule MainTask_keeps)
qed

end
