(* ===== verification/GatewayModules.thy ===== *)
theory GatewayModules
  imports ModbusGateway
begin

text \<open>
  What the gateway needs of the modules below it, as an interface, and what it then gives: the main task is defined
  in every state, and a client does not wait for ever.
\<close>

section \<open>The interface\<close>

definition msg_size :: "int \<Rightarrow> bool" where
  "msg_size n \<longleftrightarrow> 0 \<le> n \<and> n \<le> 252"

text \<open>\<open>good S\<close> is the invariant of the modules when the servers in \<open>S\<close> have been sent a message: only such a server is
  asked for a reply. \<open>clients\<close> and \<open>servers\<close> are the modules that may be added to a gateway, \<open>bufs\<close> the arrays
  of the clients.\<close>

locale modbus_modules =
  fixes M :: "'w modbus_ops" and time_base :: int and good :: "(module_kind \<times> int) set \<Rightarrow> 'w \<Rightarrow> bool"
    and clients servers :: "(module_kind \<times> int) set" and bufs :: "nat set"
  assumes task: "\<lbrakk>good S w; S \<subseteq> servers; (k, h) \<in> clients \<union> S\<rbrakk> \<Longrightarrow> \<exists>w'. op_task M k h w = Some w' \<and> good S w'"
    and recv: "\<lbrakk>good S w; S \<subseteq> servers; (k, h) \<in> clients \<union> S; b \<in> bufs; msg_size n\<rbrakk> \<Longrightarrow>
      \<exists>i' n' w'. op_recvMsg M k h i b n w = Some (i', n', w') \<and> good S w' \<and> msg_size n'"
    and send_server: "\<lbrakk>good S w; S \<subseteq> servers; (k, h) \<in> servers; b \<in> bufs; msg_size n; 1 \<le> n\<rbrakk> \<Longrightarrow>
      \<exists>w'. op_sendMsg M k h i b n w = Some w' \<and> good (insert (k, h) S) w'"
    and send_client: "\<lbrakk>good S w; S \<subseteq> servers; (k, h) \<in> clients; b \<in> bufs; msg_size n; 1 \<le> n\<rbrakk> \<Longrightarrow>
      \<exists>w'. op_sendMsg M k h i b n w = Some w' \<and> good S w'"
    and timeout: "\<lbrakk>good S w; (k, h) \<in> clients\<rbrakk> \<Longrightarrow> \<exists>t. op_getRespTimeout M k h w = Some t \<and> 0 \<le> t"

definition server_fits :: "(module_kind \<times> int) set \<Rightarrow> gw_server \<Rightarrow> bool" where
  "server_fits servers sv \<longleftrightarrow> (sv_inUse sv \<longrightarrow> (\<exists>k. sv_module sv = Some k \<and> (k, sv_handler sv) \<in> servers))"

definition client_fits :: "(module_kind \<times> int) set \<Rightarrow> nat set \<Rightarrow> (module_kind \<times> int) set \<Rightarrow> gw_server list \<Rightarrow> gw_client \<Rightarrow> bool" where
  "client_fits clients bufs S svs c \<longleftrightarrow> (cl_inUse c \<longrightarrow>
     (\<exists>k. cl_module c = Some k \<and> (k, cl_handler c) \<in> clients) \<and> cl_buffer c \<in> bufs \<and> msg_size (cl_size c) \<and>
     (cl_state c \<in> {STATE_ROUTING, STATE_SEND_MSG_TO_SERVER} \<longrightarrow> 1 \<le> cl_size c) \<and>
     (cl_state c = STATE_WAITING_SERVER_RESPONSE \<longrightarrow>
        (the (sv_module (svs ! nat (cl_indexServer c))), sv_handler (svs ! nat (cl_indexServer c))) \<in> S))"

lemma client_fits_mono:
  assumes "client_fits clients bufs S svs c" and "S \<subseteq> S'" and "same_servers svs svs'" and "client_ok svs c"
  shows "client_fits clients bufs S' svs' c"
  using assms same_servers_nth(2) [OF assms(3), of "nat (cl_indexServer c)"]
  by (auto simp: client_fits_def client_ok_def)

lemma server_fits_same: "same_servers svs svs' \<Longrightarrow> (\<forall>sv\<in>set svs'. server_fits servers sv) = (\<forall>sv\<in>set svs. server_fits servers sv)"
  using same_servers_nth [of svs svs'] by (auto simp: all_set_conv_all_nth server_fits_def)

definition gateway_fits :: "(module_kind \<times> int) set \<Rightarrow> (module_kind \<times> int) set \<Rightarrow> nat set \<Rightarrow> (module_kind \<times> int) set \<Rightarrow> gateway \<Rightarrow> bool" where
  "gateway_fits clients servers bufs S gw \<longleftrightarrow> gw_ok gw \<and> (\<forall>c\<in>set (gw_client gw). client_fits clients bufs S (gw_server gw) c) \<and>
     (\<forall>sv\<in>set (gw_server gw). server_fits servers sv)"

text \<open>The alarm activates the task of the gateway again and again; between two activations \<open>e\<close> changes what is below.\<close>

fun gateway_polls :: "'w modbus_ops \<Rightarrow> int \<Rightarrow> int \<Rightarrow> ('w \<Rightarrow> 'w) list \<Rightarrow> gateway list \<Rightarrow> 'w \<Rightarrow> (gateway list \<times> 'w) option" where
  "gateway_polls M time_base h [] gws w = Some (gws, w)"
| "gateway_polls M time_base h (e # es) gws w = do {
     (gws, w) \<leftarrow> ciaaModbus_gatewayMainTask M time_base h gws (e w);
     gateway_polls M time_base h es gws w }"

section \<open>The main task is defined\<close>

context modbus_modules
begin

text \<open>What the loop does to a client is one run of \<open>client_calls\<close> on it, on servers that differ in who is busy.\<close>

definition calls_of :: "gw_server list \<Rightarrow> (module_kind \<times> int) set \<Rightarrow> gw_client \<Rightarrow> gw_client \<Rightarrow> bool" where
  "calls_of svs S c c' \<longleftrightarrow> (\<exists>svs1 w1 S1 svs2 w2. same_servers svs svs1 \<and> S \<subseteq> S1 \<and> S1 \<subseteq> servers \<and> good S1 w1 \<and>
     client_calls M time_base GATEWAY_LIMIT_CALLS c svs1 w1 = Some (c', svs2, w2))"

lemma calls_of_before: "calls_of svs1 S1 c c' \<Longrightarrow> same_servers svs svs1 \<Longrightarrow> S \<subseteq> S1 \<Longrightarrow> calls_of svs S c c'"
  unfolding calls_of_def by (meson same_servers_trans subset_trans)

lemma process_defined:
  assumes g: "good S w" "S \<subseteq> servers" and c: "client_ok svs c" "client_fits clients bufs S svs c"
    and sv: "\<forall>sv\<in>set svs. server_fits servers sv"
  obtains ret c' svs' w' S' where "ciaaModbus_gatewayClientProcess M time_base c svs w = Some (ret, c', svs', w')"
    "good S' w'" "S \<subseteq> S'" "S' \<subseteq> servers" "client_fits clients bufs S' svs' c'"
proof (cases "cl_inUse c")
  case False
  then show thesis using that [of 0 c svs w S] g by (simp add: ciaaModbus_gatewayClientProcess_def client_fits_def)
next
  case used: True
  from c(2) used obtain k where k: "cl_module c = Some k" "(k, cl_handler c) \<in> clients" "cl_buffer c \<in> bufs" "msg_size (cl_size c)"
    and sz: "cl_state c \<in> {STATE_ROUTING, STATE_SEND_MSG_TO_SERVER} \<longrightarrow> 1 \<le> cl_size c"
    by (auto simp: client_fits_def)
  show thesis
  proof (cases "cl_state c")
    case STATE_IDLE
    obtain w1 where w1: "op_task M k (cl_handler c) w = Some w1" "good S w1" using task [OF g] k(2) by blast
    obtain i' n' w2 where w2: "op_recvMsg M k (cl_handler c) (cl_id c) (cl_buffer c) (cl_size c) w1 = Some (i', n', w2)"
      "good S w2" "msg_size n'" using recv [OF w1(2) g(2), of k "cl_handler c"] k by blast
    show thesis
      by (rule that [where ret = "if 1 \<le> n' then 1 else 0" and svs' = svs and S' = S and w' = w2
            and c' = "if 1 \<le> n' then c\<lparr>cl_id := i', cl_size := n', cl_state := STATE_ROUTING\<rparr> else c\<lparr>cl_id := i', cl_size := n'\<rparr>"])
        (use used STATE_IDLE k w1 w2 g in \<open>auto simp: ciaaModbus_gatewayClientProcess_def
          ciaaModbus_gatewayClientStateIdle_def Let_def client_fits_def REQ_PDU_MINLENGTH_def split: if_splits\<close>)
  next
    case STATE_ROUTING
    then show thesis
      using that [of "fst (ciaaModbus_gatewayClientStateRouting c svs)" "snd (ciaaModbus_gatewayClientStateRouting c svs)" svs w S] used k sz g
      by (simp add: ciaaModbus_gatewayClientProcess_def ciaaModbus_gatewayClientStateRouting_def client_fits_def Let_def
          split: option.splits)
  next
    case STATE_SEND_MSG_TO_SERVER
    define j where "j = nat (cl_indexServer c)"
    from c used STATE_SEND_MSG_TO_SERVER have j: "cl_indexServer c = int j" "j < length svs" "sv_inUse (svs ! j)"
      by (auto simp: client_ok_def j_def)
    from sv j obtain ks where ks: "sv_module (svs ! j) = Some ks" "(ks, sv_handler (svs ! j)) \<in> servers"
      by (auto simp: server_fits_def)
    show thesis
    proof (cases "sv_busy (svs ! j)")
      case True
      show thesis
        by (rule that [where c' = c and svs' = svs and S' = S])
          (use True used STATE_SEND_MSG_TO_SERVER j g c in \<open>auto simp: ciaaModbus_gatewayClientProcess_def
            ciaaModbus_gatewayClientStateSendMsgToServer_def mem_simps\<close>)
    next
      case False
      obtain w1 where w1: "op_sendMsg M ks (sv_handler (svs ! j)) (cl_id c) (cl_buffer c) (cl_size c) w = Some w1"
        "good (insert (ks, sv_handler (svs ! j)) S) w1"
        using send_server [OF g ks(2) k(3,4)] sz STATE_SEND_MSG_TO_SERVER by auto
      obtain t where t: "op_getRespTimeout M k (cl_handler c) w1 = Some t" using timeout [OF w1(2) k(2)] by blast
      show thesis
        by (rule that [where c' = "c\<lparr>cl_timeout := t div time_base, cl_state := STATE_WAITING_SERVER_RESPONSE\<rparr>"
              and svs' = "svs[j := (svs ! j)\<lparr>sv_busy := True\<rparr>]" and S' = "insert (ks, sv_handler (svs ! j)) S" and w' = w1])
          (use False used STATE_SEND_MSG_TO_SERVER j g k ks w1 t in \<open>auto simp: ciaaModbus_gatewayClientProcess_def
            ciaaModbus_gatewayClientStateSendMsgToServer_def mem_simps client_fits_def\<close>)
    qed
  next
    case STATE_WAITING_SERVER_RESPONSE
    define j where "j = nat (cl_indexServer c)"
    from c used STATE_WAITING_SERVER_RESPONSE have j: "cl_indexServer c = int j" "j < length svs" "sv_inUse (svs ! j)"
      by (auto simp: client_ok_def j_def)
    from sv j obtain ks where ks: "sv_module (svs ! j) = Some ks" by (auto simp: server_fits_def)
    with c(2) used STATE_WAITING_SERVER_RESPONSE have inS: "(ks, sv_handler (svs ! j)) \<in> clients \<union> S"
      by (simp add: client_fits_def j_def)
    obtain w1 where w1: "op_task M ks (sv_handler (svs ! j)) w = Some w1" "good S w1" using task [OF g inS] by blast
    obtain i' n' w2 where w2: "op_recvMsg M ks (sv_handler (svs ! j)) (cl_id c) (cl_buffer c) (cl_size c) w1 = Some (i', n', w2)"
      "good S w2" "msg_size n'" using recv [OF w1(2) g(2) inS k(3,4)] by blast
    show thesis
    proof (cases "RSP_PDU_MINLENGTH \<le> n'")
      case True
      obtain w3 where w3: "op_sendMsg M k (cl_handler c) i' (cl_buffer c) n' w2 = Some w3" "good S w3"
        using send_client [OF w2(2) g(2) k(2,3) w2(3)] True by (auto simp: RSP_PDU_MINLENGTH_def)
      show thesis
        by (rule that [where c' = "c\<lparr>cl_id := i', cl_size := n', cl_state := STATE_IDLE\<rparr>"
              and svs' = "svs[j := (svs ! j)\<lparr>sv_busy := False\<rparr>]" and S' = S and w' = w3])
          (use True used STATE_WAITING_SERVER_RESPONSE j g k ks w1 w2 w3 in \<open>auto simp: ciaaModbus_gatewayClientProcess_def
            ciaaModbus_gatewayClientStateWaitingServerResponse_def mem_simps client_fits_def Let_def\<close>)
    next
      case False
      show thesis
      proof (cases "cl_timeout c = 0")
        case True
        show thesis
          by (rule that [where c' = "c\<lparr>cl_id := i', cl_size := n', cl_state := STATE_IDLE\<rparr>"
                and svs' = "svs[j := (svs ! j)\<lparr>sv_busy := False\<rparr>]" and S' = S and w' = w2])
            (use True False used STATE_WAITING_SERVER_RESPONSE j g k ks w1 w2 in \<open>auto simp: ciaaModbus_gatewayClientProcess_def
              ciaaModbus_gatewayClientStateWaitingServerResponse_def mem_simps client_fits_def Let_def\<close>)
      next
        case t: False
        show thesis
          by (rule that [where c' = "c\<lparr>cl_id := i', cl_size := n', cl_timeout := cl_timeout c - 1\<rparr>"
                and svs' = svs and S' = S and w' = w2])
            (use t False used STATE_WAITING_SERVER_RESPONSE j g k ks w1 w2 c in \<open>auto simp: ciaaModbus_gatewayClientProcess_def
              ciaaModbus_gatewayClientStateWaitingServerResponse_def mem_simps client_fits_def Let_def\<close>)
      qed
    qed
  qed
qed

lemma calls_defined:
  assumes "good S w" and "S \<subseteq> servers" and "client_ok svs c" and "client_fits clients bufs S svs c"
    and "\<forall>sv\<in>set svs. server_fits servers sv"
    and "servers_ok svs" and "busy_exact (\<lambda>j. n j + of_bool (waits j c)) svs"
  obtains c' svs' w' S' where "client_calls M time_base f c svs w = Some (c', svs', w')"
    "good S' w'" "S \<subseteq> S'" "S' \<subseteq> servers" "client_fits clients bufs S' svs' c'"
  using assms
proof (induction f arbitrary: thesis S c svs w)
  case 0
  then show ?case by auto
next
  case (Suc f)
  from process_defined [OF Suc.prems(2-6)]
  obtain ret c1 svs1 w1 S1 where p: "ciaaModbus_gatewayClientProcess M time_base c svs w = Some (ret, c1, svs1, w1)"
    and g1: "good S1 w1" "S \<subseteq> S1" "S1 \<subseteq> servers" "client_fits clients bufs S1 svs1 c1" .
  have k: "same_servers svs svs1" "client_ok svs c1" "busy_exact (\<lambda>j. n j + of_bool (waits j c1)) svs1"
    using ClientProcess_keeps [OF Suc.prems(7,4,8) p] by auto
  show ?case
  proof (cases "0 < ret")
    case False
    then show ?thesis by (intro Suc.prems(1) [of c1 svs1 w1 S1]) (use p g1 in simp_all)
  next
    case True
    have ok1: "client_ok svs1 c1" "servers_ok svs1" "\<forall>sv\<in>set svs1. server_fits servers sv"
      using k(1,2) Suc.prems(6,7) same_servers_ok [OF k(1)] server_fits_same [OF k(1)] by auto
    obtain c' svs' w' S' where "client_calls M time_base f c1 svs1 w1 = Some (c', svs', w')"
      "good S' w'" "S1 \<subseteq> S'" "S' \<subseteq> servers" "client_fits clients bufs S' svs' c'"
      by (rule Suc.IH [OF _ g1(1,3) ok1(1) g1(4) ok1(3,2) k(3)])
    then show ?thesis by (intro Suc.prems(1) [of c' svs' w' S']) (use p True g1 in auto)
  qed
qed

lemma loop_defined:
  assumes "good S w" and "S \<subseteq> servers" and "\<forall>c\<in>set cs. client_ok svs c \<and> client_fits clients bufs S svs c"
    and "\<forall>sv\<in>set svs. server_fits servers sv"
    and "servers_ok svs" and "busy_exact (\<lambda>j. n j + waiting cs j) svs"
  obtains cs' svs' w' S' where "clients_loop M time_base cs svs w = Some (cs', svs', w')"
    "good S' w'" "S \<subseteq> S'" "S' \<subseteq> servers" "\<forall>c\<in>set cs'. client_fits clients bufs S' svs' c" "list_all2 (calls_of svs S) cs cs'"
  using assms
proof (induction cs arbitrary: thesis n S svs w)
  case Nil
  then show ?case by auto
next
  case (Cons c cs)
  have c: "client_ok svs c" "client_fits clients bufs S svs c" using Cons.prems(4) by auto
  have b: "busy_exact (\<lambda>j. (n j + waiting cs j) + of_bool (waits j c)) svs"
    using Cons.prems(7) by (simp add: add.assoc add.left_commute add.commute)
  obtain c1 svs1 w1 S1 where p: "client_calls M time_base GATEWAY_LIMIT_CALLS c svs w = Some (c1, svs1, w1)"
    and g1: "good S1 w1" "S \<subseteq> S1" "S1 \<subseteq> servers" "client_fits clients bufs S1 svs1 c1"
    by (rule calls_defined [OF Cons.prems(2,3) c Cons.prems(5,6) b])
  have k: "same_servers svs svs1" "client_ok svs c1" "busy_exact (\<lambda>j. (n j + of_bool (waits j c1)) + waiting cs j) svs1"
    using client_calls_keeps [OF Cons.prems(6) c(1) b p] by (auto simp: add.assoc add.left_commute add.commute)
  have ok1: "\<forall>c\<in>set cs. client_ok svs1 c \<and> client_fits clients bufs S1 svs1 c"
      "servers_ok svs1" "\<forall>sv\<in>set svs1. server_fits servers sv"
    using Cons.prems(4-6) same_servers_ok [OF k(1)] server_fits_same [OF k(1)] client_fits_mono [OF _ g1(2) k(1)] by auto
  obtain cs2 svs2 w2 S2 where q: "clients_loop M time_base cs svs1 w1 = Some (cs2, svs2, w2)"
    and g2: "good S2 w2" "S1 \<subseteq> S2" "S2 \<subseteq> servers" "\<forall>c\<in>set cs2. client_fits clients bufs S2 svs2 c"
      "list_all2 (calls_of svs1 S1) cs cs2"
    by (rule Cons.IH [OF _ g1(1,3) ok1(1,3,2) k(3)])
  have "same_servers svs1 svs2" using clients_loop_keeps [OF ok1(2) _ k(3) q] ok1(1) by auto
  then have "client_fits clients bufs S2 svs2 c1"
    using client_fits_mono [OF g1(4) g2(2)] k(2) same_servers_ok(2) [OF k(1)] by auto
  moreover have "calls_of svs S c c1"
    unfolding calls_of_def using p Cons.prems(2,3) same_servers_refl subset_refl by blast
  moreover have "list_all2 (calls_of svs S) cs cs2"
    using g2(5) by (rule list_all2_mono) (rule calls_of_before [OF _ k(1) g1(2)])
  ultimately show ?case by (intro Cons.prems(1) [of "c1 # cs2" svs2 w2 S2]) (use p q g1 g2 in auto)
qed

lemma mainTask_defined:
  assumes g: "good S w" "S \<subseteq> servers" and h: "g < length gws" and gw: "gateway_fits clients servers bufs S (gws ! g)"
  obtains gw' w' S' where "ciaaModbus_gatewayMainTask M time_base (int g) gws w = Some (gws[g := gw'], w')"
    "good S' w'" "S \<subseteq> S'" "S' \<subseteq> servers" "gateway_fits clients servers bufs S' gw'" "same_servers (gw_server (gws ! g)) (gw_server gw')"
    "list_all2 (calls_of (gw_server (gws ! g)) S) (gw_client (gws ! g)) (gw_client gw')"
proof -
  let ?gw = "gws ! g"
  have ok: "gw_ok ?gw" using gw by (simp add: gateway_fits_def)
  then have f: "\<forall>c\<in>set (gw_client ?gw). client_ok (gw_server ?gw) c \<and> client_fits clients bufs S (gw_server ?gw) c"
    "\<forall>sv\<in>set (gw_server ?gw). server_fits servers sv" "servers_ok (gw_server ?gw)"
    "busy_exact (\<lambda>j. 0 + waiting (gw_client ?gw) j) (gw_server ?gw)"
    using gw by (auto simp: gateway_fits_def gw_ok_def)
  obtain cs' svs' w' S' where l: "clients_loop M time_base (gw_client ?gw) (gw_server ?gw) w = Some (cs', svs', w')"
    "good S' w'" "S \<subseteq> S'" "S' \<subseteq> servers" "\<forall>c\<in>set cs'. client_fits clients bufs S' svs' c"
    "list_all2 (calls_of (gw_server ?gw) S) (gw_client ?gw) cs'"
    by (rule loop_defined [OF g f])
  have "same_servers (gw_server ?gw) svs'" using clients_loop_keeps [OF f(3) _ f(4) l(1)] f(1) by auto
  note sv = this server_fits_same [OF this, of servers]
  let ?gw' = "?gw\<lparr>gw_client := cs', gw_server := svs'\<rparr>"
  have "gw_ok ((gws[g := ?gw']) ! g)"
  proof -
    have "ciaaModbus_gatewayMainTask M time_base 0 [?gw] w = Some ([?gw'], w')"
      using l(1) by (simp add: ciaaModbus_gatewayMainTask_def mem_simps)
    from MainTask_keeps [OF _ this] ok h show ?thesis by simp
  qed
  then have "gateway_fits clients servers bufs S' ?gw'" using h l(5) sv(2) f(2) by (simp add: gateway_fits_def)
  then show thesis
    by (intro that [of ?gw' w' S']) (use l h sv(1) in \<open>simp_all add: ciaaModbus_gatewayMainTask_def mem_simps\<close>)
qed

lemma polls_defined:
  assumes "good S w" and "S \<subseteq> servers" and "g < length gws" and "gateway_fits clients servers bufs S (gws ! g)"
    and "\<forall>e\<in>set es. \<forall>S w. good S w \<longrightarrow> good S (e w)"
  shows "\<exists>gw' w' S'. gateway_polls M time_base (int g) es gws w = Some (gws[g := gw'], w') \<and> good S' w' \<and> S' \<subseteq> servers \<and>
    gateway_fits clients servers bufs S' gw'"
  using assms
proof (induction es arbitrary: S w gws)
  case Nil
  then show ?case by (intro exI [of _ "gws ! g"] exI [of _ w] exI [of _ S]) simp
next
  case (Cons e es)
  have "good S (e w)" using Cons.prems(1,5) by simp
  from mainTask_defined [OF this Cons.prems(2-4)] obtain gw' w' S' where
    m: "ciaaModbus_gatewayMainTask M time_base (int g) gws (e w) = Some (gws[g := gw'], w')"
    "good S' w'" "S' \<subseteq> servers" "gateway_fits clients servers bufs S' gw'" .
  from Cons.IH [of S' w' "gws[g := gw']"] m Cons.prems(3,5) show ?case by simp
qed

end

section \<open>A server that does not answer\<close>

locale quiet_server = modbus_modules +
  fixes k0 :: module_kind and h0 :: int
  assumes quiet: "\<lbrakk>good S w; op_recvMsg M k0 h0 i b n w = Some (i', n', w')\<rbrakk> \<Longrightarrow> n' < RSP_PDU_MINLENGTH"
begin

lemma quiet_calls:
  assumes c: "waits j c" "j < length svs" "sv_module (svs ! j) = Some k0" "sv_handler (svs ! j) = h0"
    and g: "good S w" "S \<subseteq> servers" "(k0, h0) \<in> clients \<union> S"
    and r: "client_calls M time_base (Suc f) c svs w = Some (c', svs', w')"
  shows "if cl_timeout c = 0 then cl_state c' = STATE_IDLE else waits j c' \<and> cl_timeout c' = cl_timeout c - 1"
proof -
  have used: "cl_inUse c" "cl_state c = STATE_WAITING_SERVER_RESPONSE" "cl_indexServer c = int j" using c(1) by (auto simp: waits_def)
  obtain w1 where w1: "op_task M k0 h0 w = Some w1" "good S w1" using task [OF g] by blast
  have q: "op_recvMsg M k0 h0 i b n w1 = Some (i', n', w') \<Longrightarrow> \<not> RSP_PDU_MINLENGTH \<le> n'" for i b n i' n' w'
    using quiet [OF w1(2), of i b n i' n' w'] by simp
  from r used c w1 obtain i' n' w2 where "op_recvMsg M k0 h0 (cl_id c) (cl_buffer c) (cl_size c) w1 = Some (i', n', w2)"
    by (auto simp: ciaaModbus_gatewayClientProcess_def ciaaModbus_gatewayClientStateWaitingServerResponse_def mem_simps
        bind_eq_Some_conv)
  with q [OF this] r used c w1 show ?thesis
    by (auto simp: ciaaModbus_gatewayClientProcess_def ciaaModbus_gatewayClientStateWaitingServerResponse_def mem_simps
        Let_def waits_def bind_eq_Some_conv split: if_splits)
qed

lemma quiet_timeout:
  assumes "good S w" and "S \<subseteq> servers" and "g < length gws" and "gateway_fits clients servers bufs S (gws ! g)"
    and "\<forall>e\<in>set es. \<forall>S w. good S w \<longrightarrow> good S (e w)"
    and "i < length (gw_client (gws ! g))" and "waits j (gw_client (gws ! g) ! i)" and "cl_timeout (gw_client (gws ! g) ! i) = int t"
    and "sv_module (gw_server (gws ! g) ! j) = Some k0" and "sv_handler (gw_server (gws ! g) ! j) = h0"
    and "length es \<le> t + 1"
  shows "\<exists>gw' w'. gateway_polls M time_base (int g) es gws w = Some (gws[g := gw'], w') \<and>
    (if length es \<le> t then waits j (gw_client gw' ! i) \<and> cl_timeout (gw_client gw' ! i) = int (t - length es)
     else cl_state (gw_client gw' ! i) = STATE_IDLE)"
  using assms
proof (induction es arbitrary: S w gws t)
  case Nil
  then show ?case by (intro exI [of _ "gws ! g"] exI [of _ w]) simp
next
  case (Cons e es)
  let ?gw = "gws ! g" let ?c = "gw_client ?gw ! i"
  have cin: "?c \<in> set (gw_client ?gw)" using Cons.prems(6) by simp
  have ok: "client_ok (gw_server ?gw) ?c" "client_fits clients bufs S (gw_server ?gw) ?c"
    using Cons.prems(4) cin by (auto simp: gateway_fits_def gw_ok_def)
  with Cons.prems(7,9,10) have j: "j < length (gw_server ?gw)" "(k0, h0) \<in> S"
    by (auto simp: waits_def client_ok_def client_fits_def)
  have "good S (e w)" using Cons.prems(1,5) by simp
  from mainTask_defined [OF this Cons.prems(2-4)] obtain gw' w' S' where
    m: "ciaaModbus_gatewayMainTask M time_base (int g) gws (e w) = Some (gws[g := gw'], w')"
    "good S' w'" "S' \<subseteq> servers" "gateway_fits clients servers bufs S' gw'" "same_servers (gw_server ?gw) (gw_server gw')"
    "list_all2 (calls_of (gw_server ?gw) S) (gw_client ?gw) (gw_client gw')" .
  let ?c' = "gw_client gw' ! i"
  from m(6) Cons.prems(6) have len: "i < length (gw_client gw')" and "calls_of (gw_server ?gw) S ?c ?c'"
    by (auto simp: list_all2_conv_all_nth)
  then obtain svs1 w1 S1 svs2 w2 where r: "same_servers (gw_server ?gw) svs1" "S \<subseteq> S1" "S1 \<subseteq> servers" "good S1 w1"
    "client_calls M time_base (Suc 4) ?c svs1 w1 = Some (?c', svs2, w2)" unfolding calls_of_def GATEWAY_LIMIT_CALLS_def by auto
  have sv1: "j < length svs1" "sv_module (svs1 ! j) = Some k0" "sv_handler (svs1 ! j) = h0"
    using same_servers_nth [OF r(1)] j(1) Cons.prems(9,10) by auto
  have c': "if t = 0 then cl_state ?c' = STATE_IDLE else waits j ?c' \<and> cl_timeout ?c' = int t - 1"
    using quiet_calls [OF Cons.prems(7) sv1 r(4,3) _ r(5)] r(2) j(2) Cons.prems(8) by auto
  have sv': "sv_module (gw_server gw' ! j) = Some k0" "sv_handler (gw_server gw' ! j) = h0"
    using same_servers_nth(2) [OF m(5) j(1)] Cons.prems(9,10) by auto
  show ?case
  proof (cases t)
    case 0
    with Cons.prems(11) m(1) c' show ?thesis by (intro exI [of _ gw'] exI [of _ w']) simp
  next
    case (Suc t')
    from Cons.IH [of S' w' "gws[g := gw']" t'] obtain gw2 w2 where
      "gateway_polls M time_base (int g) es (gws[g := gw']) w' = Some (gws[g := gw2], w2)"
      "if length es \<le> t' then waits j (gw_client gw2 ! i) \<and> cl_timeout (gw_client gw2 ! i) = int (t' - length es)
       else cl_state (gw_client gw2 ! i) = STATE_IDLE"
      using m Cons.prems(3,5,11) len c' sv' Suc by auto
    with m(1) Suc show ?thesis by auto
  qed
qed

end

end
