(* ===== verification/ModbusStack.thy ===== *)
theory ModbusStack
  imports GatewayModules ModbusMaster ModbusPort
begin

text \<open>
  The gateway on the modules of the code: transports over ASCII lines, slaves and masters, as the function pointers of
  \<^verbatim>\<open>ciaaModbus_gatewayAddTransport\<close>, \<open>AddSlave\<close> and \<open>AddMaster\<close> tie them together.

  The state below the gateway is one record: the tables of the modules, the arrays of the clients, the memory and
  the state of the application, the serial lines and the kernel. A line is a serial port in non-blocking mode, read
  with \<open>ciaaSerialDevices_read\<close>, and the text that was written to it; the file descriptor is its number.
\<close>

section \<open>The state and the operations\<close>

record stack_line =
  ln_dev :: "uart serial_device"
  ln_sent :: "uint8 list"

record 'a stack =
  st_bufs :: "uint8 list list"
  st_ascii :: "ascii_obj list"
  st_trs :: "transport_obj list"
  st_slaves :: "'a slave_obj list"
  st_masters :: "'a master_obj list"
  st_mem :: "master_array list"
  st_app :: 'a
  st_lines :: "stack_line list"
  st_os :: os_state

definition stack_read :: "(uint32 \<Rightarrow> int) \<Rightarrow> os_cfg \<Rightarrow> uint32 \<Rightarrow> (stack_line list \<times> os_state) posix_read" where
  "stack_read set_baud cfg ev fd buf pos n w = do {
     ln \<leftarrow> rdi (fst w) fd;
     (r, buf, d, os) \<leftarrow> serial_posix_read set_baud cfg ev fd buf pos n (ln_dev ln, snd w);
     lines \<leftarrow> wri (fst w) fd (ln\<lparr>ln_dev := d\<rparr>);
     Some (r, buf, lines, os) }"

definition stack_write :: "(stack_line list \<times> os_state) posix_write" where
  "stack_write fd buf n w = do {
     ln \<leftarrow> rdi (fst w) fd;
     lines \<leftarrow> wri (fst w) fd (ln\<lparr>ln_sent := ln_sent ln @ take n buf\<rparr>);
     Some (int n, lines, snd w) }"

definition stack_task :: "(uint32 \<Rightarrow> int) \<Rightarrow> os_cfg \<Rightarrow> uint32 \<Rightarrow> uint32 \<Rightarrow> int \<Rightarrow> module_kind \<Rightarrow> int \<Rightarrow> 'a stack \<Rightarrow> 'a stack option" where
  "stack_task set_baud cfg ev mev time_base k h w = (case k of
     ModuleTransport \<Rightarrow> do {
       (objs, lines, os) \<leftarrow> ciaaModbus_transportTask (stack_read set_baud cfg ev) time_base h (st_trs w) (st_ascii w)
         (st_lines w, st_os w);
       Some (w\<lparr>st_ascii := objs, st_lines := lines, st_os := os\<rparr>) }
   | ModuleSlave \<Rightarrow> do {
       (slaves, bufs, a) \<leftarrow> ciaaModbus_slaveTask h (st_slaves w) (st_bufs w) (st_app w);
       Some (w\<lparr>st_slaves := slaves, st_bufs := bufs, st_app := a\<rparr>) }
   | ModuleMaster \<Rightarrow> do {
       (ms, a, os) \<leftarrow> ciaaModbus_masterTask cfg mev h (st_masters w) (st_app w) (st_os w);
       Some (w\<lparr>st_masters := ms, st_app := a, st_os := os\<rparr>) })"

definition stack_recv :: "module_kind \<Rightarrow> int \<Rightarrow> uint8 \<Rightarrow> nat \<Rightarrow> int \<Rightarrow> 'a stack \<Rightarrow> (uint8 \<times> int \<times> 'a stack) option" where
  "stack_recv k h i b n w = (case k of
     ModuleTransport \<Rightarrow> do {
       pdu \<leftarrow> rd (st_bufs w) b;
       (i, pdu, n, objs) \<leftarrow> ciaaModbus_transportRecvMsg h i pdu n (st_trs w) (st_ascii w);
       bufs \<leftarrow> wr (st_bufs w) b pdu;
       Some (i, n, w\<lparr>st_bufs := bufs, st_ascii := objs\<rparr>) }
   | ModuleSlave \<Rightarrow> do {
       (i, n, bufs) \<leftarrow> ciaaModbus_slaveRecvMsg h b (st_slaves w) (st_bufs w);
       Some (i, n, w\<lparr>st_bufs := bufs\<rparr>) }
   | ModuleMaster \<Rightarrow> do {
       pdu \<leftarrow> rd (st_bufs w) b;
       (i, pdu, n) \<leftarrow> ciaaModbus_masterRecvMsg h i pdu n (st_masters w) (st_mem w);
       bufs \<leftarrow> wr (st_bufs w) b pdu;
       Some (i, n, w\<lparr>st_bufs := bufs\<rparr>) })"

definition stack_send :: "os_cfg \<Rightarrow> uint32 \<Rightarrow> module_kind \<Rightarrow> int \<Rightarrow> uint8 \<Rightarrow> nat \<Rightarrow> int \<Rightarrow> 'a stack \<Rightarrow> 'a stack option" where
  "stack_send cfg mev k h i b n w = (case k of
     ModuleTransport \<Rightarrow> do {
       pdu \<leftarrow> rd (st_bufs w) b;
       (objs, lines, os) \<leftarrow> ciaaModbus_transportSendMsg stack_write h i pdu n (st_trs w) (st_ascii w) (st_lines w, st_os w);
       Some (w\<lparr>st_ascii := objs, st_lines := lines, st_os := os\<rparr>) }
   | ModuleSlave \<Rightarrow> do {
       slaves \<leftarrow> ciaaModbus_slaveSendMsg h i b n (st_slaves w);
       Some (w\<lparr>st_slaves := slaves\<rparr>) }
   | ModuleMaster \<Rightarrow> do {
       pdu \<leftarrow> rd (st_bufs w) b;
       (ms, mem, a, os) \<leftarrow> ciaaModbus_masterSendMsg cfg mev h i pdu n (st_masters w) (st_mem w) (st_app w) (st_os w);
       Some (w\<lparr>st_masters := ms, st_mem := mem, st_app := a, st_os := os\<rparr>) })"

text \<open>A slave is a server only, and has no time-out.\<close>

definition stack_timeout :: "module_kind \<Rightarrow> int \<Rightarrow> 'a stack \<Rightarrow> int option" where
  "stack_timeout k h w = (case k of
     ModuleTransport \<Rightarrow> do { t \<leftarrow> ciaaModbus_transportGetRespTimeout h (st_trs w); Some (uint t) }
   | ModuleSlave \<Rightarrow> None
   | ModuleMaster \<Rightarrow> do { t \<leftarrow> ciaaModbus_masterGetRespTimeout h (st_masters w); Some (uint t) })"

definition stack_ops :: "(uint32 \<Rightarrow> int) \<Rightarrow> os_cfg \<Rightarrow> uint32 \<Rightarrow> uint32 \<Rightarrow> int \<Rightarrow> 'a stack modbus_ops" where
  "stack_ops set_baud cfg ev mev time_base =
     \<lparr>op_task = stack_task set_baud cfg ev mev time_base, op_recvMsg = stack_recv, op_sendMsg = stack_send cfg mev,
      op_getRespTimeout = stack_timeout\<rparr>"

section \<open>The lines\<close>

definition line_received :: "int \<Rightarrow> stack_line list \<times> os_state \<Rightarrow> uint8 list" where
  "line_received fd w = received (ln_dev (fst w ! nat fd), snd w)"

text \<open>A read changes neither the texts that were written nor the kernel, and a line that has nothing stays so.\<close>

definition lines_ready :: "uint8 list list \<Rightarrow> os_state \<Rightarrow> int set \<Rightarrow> int \<Rightarrow> stack_line list \<times> os_state \<Rightarrow> bool" where
  "lines_ready sent os drained fd w \<longleftrightarrow> 0 \<le> fd \<and> nat fd < length (fst w) \<and> (\<forall>ln\<in>set (fst w). polled (ln_dev ln, os)) \<and>
     map ln_sent (fst w) = sent \<and> snd w = os \<and> (\<forall>q\<in>drained. line_received q w = [])"

lemma polled_os: "polled (d, os) = polled (d, os')" "received (d, os) = received (d, os')"
  by (simp_all add: polled_def received_def)

lemma serial_read_os:
  assumes "serial_posix_read set_baud cfg ev fd buf pos n (d, os) = Some (r, out, d', os')" and "polled (d, os)"
  shows "os' = os"
  using assms by (auto simp: serial_posix_read_def ciaaSerialDevices_read_def polled_def bind_eq_Some_conv
      split: option.splits outcome.splits if_splits)

lemma stack_read_avail:
  assumes w: "lines_ready sent os drained fd w" and n: "0 < n" "n < 2 ^ 32" "pos + n \<le> length buf"
  shows "\<exists>r w'. stack_read set_baud cfg ev fd buf pos n w = Some (r, blit buf pos (take n (line_received fd w)), w') \<and>
    lines_ready sent os drained fd w' \<and> line_received fd w' = drop n (line_received fd w) \<and>
    (if line_received fd w = [] then r \<le> 0 else r = int (min n (length (line_received fd w))))"
proof -
  define j where "j = nat fd"
  define ln where "ln = fst w ! j"
  from w have j: "fd = int j" "j < length (fst w)" "snd w = os" "polled (ln_dev ln, os)"
    by (auto simp: lines_ready_def j_def ln_def)
  obtain r d os' where r: "serial_posix_read set_baud cfg ev fd buf pos n (ln_dev ln, os) =
      Some (r, blit buf pos (take n (received (ln_dev ln, os))), d, os')"
    "polled (d, os')" "received (d, os') = drop n (received (ln_dev ln, os))"
    "if received (ln_dev ln, os) = [] then r \<le> 0 else r = int (min n (length (received (ln_dev ln, os))))"
    using read_received [OF j(4) n, of set_baud cfg ev fd] by (metis surj_pair)
  have os: "os' = os" by (rule serial_read_os [OF r(1) j(4)])
  have g: "line_received fd w = received (ln_dev ln, os)" by (simp add: line_received_def ln_def j)
  let ?w' = "((fst w)[j := ln\<lparr>ln_dev := d\<rparr>], os)"
  have "stack_read set_baud cfg ev fd buf pos n w = Some (r, blit buf pos (take n (line_received fd w)), ?w')"
    using r(1) os j g by (simp add: stack_read_def mem_simps flip: ln_def)
  moreover have "lines_ready sent os drained fd ?w'"
  proof -
    have "map ln_sent ((fst w)[j := ln\<lparr>ln_dev := d\<rparr>]) = map ln_sent (fst w)"
      by (rule nth_equalityI) (use j(2) in \<open>auto simp: nth_list_update ln_def\<close>)
    moreover have "\<forall>x\<in>set ((fst w)[j := ln\<lparr>ln_dev := d\<rparr>]). polled (ln_dev x, os)"
      using w r(2) os by (intro set_upd_all) (auto simp: lines_ready_def)
    moreover have "line_received q ?w' = []" if "q \<in> drained" for q
    proof (cases "nat q = j")
      case True
      then have "received (ln_dev ln, os) = []" using w that j(3) by (auto simp: lines_ready_def line_received_def ln_def)
      then show ?thesis using r(3) os True j(2) by (simp add: line_received_def)
    next
      case False
      then show ?thesis using w that j(3) by (auto simp: lines_ready_def line_received_def)
    qed
    ultimately show ?thesis using w j by (simp add: lines_ready_def)
  qed
  moreover have "line_received fd ?w' = drop n (line_received fd w)" using r(3) os j g by (simp add: line_received_def)
  ultimately show ?thesis using r(4) g by (intro exI [of _ r] exI [of _ ?w']) simp
qed

interpretation bus: polled_port "stack_read set_baud cfg ev" fd "lines_ready sent os drained fd" "line_received fd"
  for set_baud cfg ev fd sent os drained
  by unfold_locales (rule stack_read_avail)

section \<open>The invariant of the stack\<close>

text \<open>The arrays of the clients have their size; a line is a port in order, in non-blocking mode; a transport has an
  object of the ASCII line on an open line; a slave has callbacks that keep the application's invariant \<open>I\<close>, and
  one that has been sent a message has it in an array. \<open>TH\<close> and \<open>SH\<close> are the handles.\<close>

definition transport_ok :: "'a stack \<Rightarrow> int \<Rightarrow> bool" where
  "transport_ok w h \<longleftrightarrow> (\<exists>tr ob. rdi (st_trs w) h = Some tr \<and> ascii_mode (tr_mode tr) \<and>
     rdi (st_ascii w) (tr_hModbusLowLayer tr) = Some ob \<and> asc_ok ob \<and> 0 \<le> asc_fildes ob \<and> nat (asc_fildes ob) < length (st_lines w))"

definition slave_ok :: "('a \<Rightarrow> bool) \<Rightarrow> bool \<Rightarrow> 'a stack \<Rightarrow> int \<Rightarrow> bool" where
  "slave_ok I sent w h \<longleftrightarrow> (\<exists>sl cmd. rdi (st_slaves w) h = Some sl \<and> slv_cmd sl = Some cmd \<and> cmd_ok I cmd \<and>
     (sent \<longrightarrow> (\<exists>p. slv_buf sl = Some p \<and> p < length (st_bufs w)) \<and> 1 \<le> slv_size sl \<and> slv_size sl \<le> 252))"

text \<open>A transport is silent if nothing is in its buffer and nothing comes in on its line.\<close>

definition silent :: "'a stack \<Rightarrow> int \<Rightarrow> bool" where
  "silent w h \<longleftrightarrow> (\<exists>tr ob. rdi (st_trs w) h = Some tr \<and> rdi (st_ascii w) (tr_hModbusLowLayer tr) = Some ob \<and> bufferSize ob = 0 \<and>
     line_received (asc_fildes ob) (st_lines w, st_os w) = [])"

definition stack_good :: "('a \<Rightarrow> bool) \<Rightarrow> nat \<Rightarrow> int set \<Rightarrow> int set \<Rightarrow> int set \<Rightarrow> (module_kind \<times> int) set \<Rightarrow> 'a stack \<Rightarrow> bool" where
  "stack_good I nb TH SH QH S w \<longleftrightarrow> (\<forall>h\<in>QH. silent w h) \<and> length (st_bufs w) = nb \<and> (\<forall>b\<in>set (st_bufs w). length b = 256) \<and>
     (\<forall>ln\<in>set (st_lines w). polled (ln_dev ln, st_os w)) \<and> (\<forall>h\<in>TH. transport_ok w h) \<and>
     (\<forall>h\<in>SH. slave_ok I ((ModuleSlave, h) \<in> S) w h) \<and> I (st_app w)"

lemma rdi_upd: "rdi xs k = Some x \<Longrightarrow> rdi (xs[nat k := v]) l = (if l = k then Some v else rdi xs l)"
  by (auto simp: rdi_def rd_def nth_list_update split: if_splits)

lemma transports_kept:
  assumes "\<forall>h\<in>TH. transport_ok w h" and "st_trs w' = st_trs w" and "rdi (st_ascii w) k = Some ob"
    and "st_ascii w' = (st_ascii w)[nat k := ob']" and "asc_ok ob'" and "asc_fildes ob' = asc_fildes ob"
    and "length (st_lines w') = length (st_lines w)"
  shows "\<forall>h\<in>TH. transport_ok w' h"
proof
  fix h assume "h \<in> TH"
  with assms(1) obtain tr ob1 where t: "rdi (st_trs w) h = Some tr" "ascii_mode (tr_mode tr)"
    "rdi (st_ascii w) (tr_hModbusLowLayer tr) = Some ob1" "asc_ok ob1" "0 \<le> asc_fildes ob1" "nat (asc_fildes ob1) < length (st_lines w)"
    by (auto simp: transport_ok_def)
  then show "transport_ok w' h"
    using assms(2-) by (cases "tr_hModbusLowLayer tr = k") (auto simp: transport_ok_def rdi_upd)
qed

lemma silents_kept:
  assumes "\<forall>h\<in>QH. silent w h" and "st_trs w' = st_trs w" and "rdi (st_ascii w) k = Some ob"
    and "st_ascii w' = (st_ascii w)[nat k := ob']" and "asc_fildes ob' = asc_fildes ob"
    and "bufferSize ob = 0 \<Longrightarrow> line_received (asc_fildes ob) (st_lines w, st_os w) = [] \<Longrightarrow> bufferSize ob' = 0"
    and "\<And>q. line_received q (st_lines w, st_os w) = [] \<Longrightarrow> line_received q (st_lines w', st_os w') = []"
  shows "\<forall>h\<in>QH. silent w' h"
proof
  fix h assume "h \<in> QH"
  with assms(1) obtain tr ob1 where t: "rdi (st_trs w) h = Some tr" "rdi (st_ascii w) (tr_hModbusLowLayer tr) = Some ob1"
    "bufferSize ob1 = 0" "line_received (asc_fildes ob1) (st_lines w, st_os w) = []"
    by (auto simp: silent_def)
  then show "silent w' h"
    using assms(2-) by (cases "tr_hModbusLowLayer tr = k") (auto simp: silent_def rdi_upd)
qed

lemma silents_same:
  assumes "\<forall>h\<in>QH. silent w h" and "st_trs w' = st_trs w" "st_ascii w' = st_ascii w" "st_lines w' = st_lines w" "st_os w' = st_os w"
  shows "\<forall>h\<in>QH. silent w' h"
  using assms by (simp add: silent_def)

lemma empty_content: "asc_ok ob \<Longrightarrow> asc_content ob = [] \<longleftrightarrow> bufferSize ob = 0"
  by (auto simp: asc_ok_def asc_content_def)

text \<open>The two operations of a transport that poll and take messages, with what they do to its object and line.\<close>

lemma transport_task_run:
  assumes g: "stack_good I nb TH SH QH S w" and h: "h \<in> TH" and tb: "0 < time_base" "time_base \<le> 1000"
    and tr: "rdi (st_trs w) h = Some tr" "rdi (st_ascii w) (tr_hModbusLowLayer tr) = Some ob"
  obtains ob' lines where "stack_task set_baud cfg ev mev time_base ModuleTransport h w =
      Some (w\<lparr>st_ascii := (st_ascii w)[nat (tr_hModbusLowLayer tr) := ob'], st_lines := lines\<rparr>)"
    "stack_good I nb TH SH QH S (w\<lparr>st_ascii := (st_ascii w)[nat (tr_hModbusLowLayer tr) := ob'], st_lines := lines\<rparr>)"
    "asc_ok ob'" "asc_fildes ob' = asc_fildes ob" "map ln_sent lines = map ln_sent (st_lines w)"
    "line_received (asc_fildes ob) (lines, st_os w) =
      drop (512 - length (asc_kept ob)) (line_received (asc_fildes ob) (st_lines w, st_os w))"
    "asc_content ob' = (if line_received (asc_fildes ob) (st_lines w, st_os w) = [] then asc_kept ob
      else gather (asc_kept ob @ take (512 - length (asc_kept ob)) (line_received (asc_fildes ob) (st_lines w, st_os w))))"
proof -
  from g h tr have t: "ascii_mode (tr_mode tr)" "asc_ok ob" "0 \<le> asc_fildes ob" "nat (asc_fildes ob) < length (st_lines w)"
    by (auto simp: stack_good_def transport_ok_def)
  let ?Q = "{q. line_received q (st_lines w, st_os w) = []}"
  have r: "lines_ready (map ln_sent (st_lines w)) (st_os w) ?Q (asc_fildes ob) (st_lines w, st_os w)"
    using g t by (simp add: lines_ready_def stack_good_def)
  obtain ob' x where x: "ciaaModbus_asciiTask (stack_read set_baud cfg ev) time_base (tr_hModbusLowLayer tr) (st_ascii w) (st_lines w, st_os w) =
      Some ((st_ascii w)[nat (tr_hModbusLowLayer tr) := ob'], x)" "asc_ok ob'" "asc_fildes ob' = asc_fildes ob"
    "lines_ready (map ln_sent (st_lines w)) (st_os w) ?Q (asc_fildes ob) x"
    "asc_content ob' = (if line_received (asc_fildes ob) (st_lines w, st_os w) = [] then asc_kept ob
      else gather (asc_kept ob @ take (512 - length (asc_kept ob)) (line_received (asc_fildes ob) (st_lines w, st_os w))))"
    "line_received (asc_fildes ob) x = drop (512 - length (asc_kept ob)) (line_received (asc_fildes ob) (st_lines w, st_os w))"
    using bus.task_gathers [OF tr(2) t(2) refl r tb, of set_baud cfg ev] by blast
  obtain lines os where xe: "x = (lines, os)" by (cases x)
  have l: "length lines = length (st_lines w)" "os = st_os w" "\<forall>ln\<in>set lines. polled (ln_dev ln, st_os w)"
    "map ln_sent lines = map ln_sent (st_lines w)"
    using x(4) by (auto simp: lines_ready_def xe dest: map_eq_imp_length_eq)
  let ?w' = "w\<lparr>st_ascii := (st_ascii w)[nat (tr_hModbusLowLayer tr) := ob'], st_lines := lines\<rparr>"
  have "\<forall>h\<in>TH. transport_ok ?w' h"
    by (rule transports_kept [OF _ _ tr(2) _ x(2,3)]) (use g l in \<open>simp_all add: stack_good_def\<close>)
  moreover have bz: "bufferSize ob' = 0" if "bufferSize ob = 0" "line_received (asc_fildes ob) (st_lines w, st_os w) = []"
  proof -
    have "asc_kept ob = []" using that(1) by (simp add: asc_kept_def asc_content_def)
    with x(5) that(2) empty_content [OF x(2)] show ?thesis by simp
  qed
  have "\<forall>h\<in>QH. silent ?w' h"
    by (rule silents_kept [OF _ _ tr(2) _ x(3)]) (use g l bz x(4) in \<open>simp_all add: stack_good_def lines_ready_def xe\<close>)
  moreover have "slave_ok I b ?w' k = slave_ok I b w k" for b k by (simp add: slave_ok_def)
  ultimately have good: "stack_good I nb TH SH QH S ?w'" using g l by (simp add: stack_good_def)
  have same: "?w'\<lparr>st_os := st_os w\<rparr> = ?w'" by simp
  have "stack_task set_baud cfg ev mev time_base ModuleTransport h w = Some ?w'"
    using x(1) tr(1) t(1) l(2) same by (simp add: stack_task_def ciaaModbus_transportTask_def xe)
  from that [OF this good x(2,3) l(4)] x(5,6) l(2) show thesis by (simp add: xe)
qed

lemma transport_task_ok:
  assumes g: "stack_good I nb TH SH QH S w" and h: "h \<in> TH" and tb: "0 < time_base" "time_base \<le> 1000"
  shows "\<exists>w'. stack_task set_baud cfg ev mev time_base ModuleTransport h w = Some w' \<and> stack_good I nb TH SH QH S w'"
proof -
  from g h obtain tr ob where "rdi (st_trs w) h = Some tr" "rdi (st_ascii w) (tr_hModbusLowLayer tr) = Some ob"
    by (auto simp: stack_good_def transport_ok_def)
  from transport_task_run [OF g h tb this] show ?thesis by blast
qed

lemma ascii_message_length: "ascii_message c = Some bs \<Longrightarrow> length c \<le> 127 \<Longrightarrow> 3 \<le> length bs \<and> length bs \<le> 62"
proof -
  assume a: "ascii_message c = Some bs" "length c \<le> 127"
  then obtain e where e: "find (crlf c) [7..<length c - 1] = Some e" "from_hex (take (2 * (e div 2)) (drop 1 c)) = Some bs"
    by (auto simp: ascii_message_def bind_eq_Some_conv split: if_splits)
  then have "7 \<le> e" "e < length c - 1" by (auto simp: find_Some_iff dest: nth_mem)
  with from_hex_length [OF e(2)] a(2) show ?thesis by (auto simp: min_def split: if_splits)
qed

lemma asc_seen_length: "length (asc_seen ob) \<le> 127"
  using int8_le [of "bufferSize ob"] by (simp add: asc_seen_def)

lemma transport_recv_run:
  assumes g: "stack_good I nb TH SH QH S w" and h: "h \<in> TH" and b: "b < nb"
    and tr: "rdi (st_trs w) h = Some tr" "rdi (st_ascii w) (tr_hModbusLowLayer tr) = Some ob"
  obtains i' pdu n' objs' where "stack_recv ModuleTransport h i b n w =
      Some (i', n', w\<lparr>st_bufs := (st_bufs w)[b := pdu], st_ascii := objs'\<rparr>)"
    "stack_good I nb TH SH QH S (w\<lparr>st_bufs := (st_bufs w)[b := pdu], st_ascii := objs'\<rparr>)" "length pdu = 256" "msg_size n'"
    "(i', pdu, n') = (case ascii_message (asc_seen ob) of
        Some bs \<Rightarrow> (hd bs, blit (st_bufs w ! b) 0 (tl bs), int (length bs) - 2) | None \<Rightarrow> (i, st_bufs w ! b, 0))"
    "objs' = st_ascii w \<and> ascii_message (asc_seen ob) = None \<or>
      (\<exists>buf. length buf = 512 \<and> objs' = (st_ascii w)[nat (tr_hModbusLowLayer tr) := ob\<lparr>bufferSize := 0, asc_buffer := buf\<rparr>])"
proof -
  from g h tr have t: "ascii_mode (tr_mode tr)" "asc_ok ob" "0 \<le> asc_fildes ob" "nat (asc_fildes ob) < length (st_lines w)"
    by (auto simp: stack_good_def transport_ok_def)
  have len: "length (st_bufs w) = nb" "length (st_bufs w ! b) = 256" using g b by (auto simp: stack_good_def)
  obtain objs' where r: "ciaaModbus_asciiRecvMsg (tr_hModbusLowLayer tr) i (st_bufs w ! b) (st_ascii w) =
      Some (case ascii_message (asc_seen ob) of
          Some bs \<Rightarrow> (hd bs, blit (st_bufs w ! b) 0 (tl bs), int (length bs) - 2, objs')
        | None \<Rightarrow> (i, st_bufs w ! b, 0, objs'))"
    "objs' = st_ascii w \<and> ascii_message (asc_seen ob) = None \<or> (\<exists>buf. length buf = 512 \<and>
       objs' = (st_ascii w)[nat (tr_hModbusLowLayer tr) := ob\<lparr>bufferSize := 0, asc_buffer := buf\<rparr>])"
    using recvMsg_message [OF tr(2) t(2), of "st_bufs w ! b" i] len(2) by auto
  obtain i' pdu n' where m: "ciaaModbus_asciiRecvMsg (tr_hModbusLowLayer tr) i (st_bufs w ! b) (st_ascii w) = Some (i', pdu, n', objs')"
    "length pdu = 256" "msg_size n'" "(i', pdu, n') = (case ascii_message (asc_seen ob) of
        Some bs \<Rightarrow> (hd bs, blit (st_bufs w ! b) 0 (tl bs), int (length bs) - 2) | None \<Rightarrow> (i, st_bufs w ! b, 0))"
  proof (cases "ascii_message (asc_seen ob)")
    case None
    with r(1) len that [of i "st_bufs w ! b" 0] show thesis by (simp add: msg_size_def)
  next
    case (Some bs)
    with ascii_message_length [OF this asc_seen_length] r(1) len that [of "hd bs" "blit (st_bufs w ! b) 0 (tl bs)" "int (length bs) - 2"]
    show thesis by (auto simp: msg_size_def)
  qed
  let ?w' = "w\<lparr>st_bufs := (st_bufs w)[b := pdu], st_ascii := objs'\<rparr>"
  have "(\<forall>h\<in>TH. transport_ok ?w' h) \<and> (\<forall>h\<in>QH. silent ?w' h)"
  proof (cases "objs' = st_ascii w")
    case True
    with g show ?thesis by (simp add: stack_good_def transport_ok_def silent_def)
  next
    case False
    with r(2) obtain buf where buf: "length buf = 512"
      "objs' = (st_ascii w)[nat (tr_hModbusLowLayer tr) := ob\<lparr>bufferSize := 0, asc_buffer := buf\<rparr>]" by blast
    have "\<forall>h\<in>TH. transport_ok ?w' h"
      by (rule transports_kept [OF _ _ tr(2), where ob' = "ob\<lparr>bufferSize := 0, asc_buffer := buf\<rparr>"])
        (use g t buf in \<open>simp_all add: stack_good_def asc_ok_def\<close>)
    moreover have "\<forall>h\<in>QH. silent ?w' h"
      by (rule silents_kept [OF _ _ tr(2), where ob' = "ob\<lparr>bufferSize := 0, asc_buffer := buf\<rparr>"])
        (use g buf in \<open>simp_all add: stack_good_def\<close>)
    ultimately show ?thesis by blast
  qed
  moreover have "slave_ok I s ?w' k = slave_ok I s w k" for s k by (simp add: slave_ok_def)
  moreover have "\<forall>x\<in>set ((st_bufs w)[b := pdu]). length x = 256" using g m(2) by (intro set_upd_all) (auto simp: stack_good_def)
  ultimately have good: "stack_good I nb TH SH QH S ?w'" using g by (simp add: stack_good_def)
  have "stack_recv ModuleTransport h i b n w = Some (i', n', ?w')"
    using m(1) t(1) tr(1) b len by (simp add: stack_recv_def ciaaModbus_transportRecvMsg_def mem_simps)
  from that [OF this good m(2-4) r(2)] show thesis .
qed

lemma transport_recv_ok:
  assumes g: "stack_good I nb TH SH QH S w" and h: "h \<in> TH" and b: "b < nb"
  shows "\<exists>i' n' w'. stack_recv ModuleTransport h i b n w = Some (i', n', w') \<and> stack_good I nb TH SH QH S w' \<and> msg_size n'"
proof -
  from g h obtain tr ob where "rdi (st_trs w) h = Some tr" "rdi (st_ascii w) (tr_hModbusLowLayer tr) = Some ob"
    by (auto simp: stack_good_def transport_ok_def)
  from transport_recv_run [OF g h b this, of i n] show ?thesis by blast
qed

lemma transport_send_run:
  assumes g: "stack_good I nb TH SH QH S w" and h: "h \<in> TH" and b: "b < nb" and n: "msg_size n"
    and tr: "rdi (st_trs w) h = Some tr" "rdi (st_ascii w) (tr_hModbusLowLayer tr) = Some ob"
  obtains buf where "stack_send cfg mev ModuleTransport h i b n w =
      Some (w\<lparr>st_ascii := (st_ascii w)[nat (tr_hModbusLowLayer tr) := ob\<lparr>asc_buffer := buf\<rparr>],
        st_lines := (st_lines w)[nat (asc_fildes ob) := (st_lines w ! nat (asc_fildes ob))\<lparr>ln_sent :=
          ln_sent (st_lines w ! nat (asc_fildes ob)) @ ascii_frame i (take (nat n) (st_bufs w ! b))\<rparr>]\<rparr>)"
    "stack_good I nb TH SH QH S (w\<lparr>st_ascii := (st_ascii w)[nat (tr_hModbusLowLayer tr) := ob\<lparr>asc_buffer := buf\<rparr>],
        st_lines := (st_lines w)[nat (asc_fildes ob) := (st_lines w ! nat (asc_fildes ob))\<lparr>ln_sent :=
          ln_sent (st_lines w ! nat (asc_fildes ob)) @ ascii_frame i (take (nat n) (st_bufs w ! b))\<rparr>]\<rparr>)"
    "length buf = 512"
proof -
  from g h tr have t: "ascii_mode (tr_mode tr)" "asc_ok ob" "0 \<le> asc_fildes ob" "nat (asc_fildes ob) < length (st_lines w)"
    by (auto simp: stack_good_def transport_ok_def)
  have len: "length (st_bufs w) = nb" "length (st_bufs w ! b) = 256" "length (asc_buffer ob) = 512"
    using g b t by (auto simp: stack_good_def asc_ok_def)
  define m where "m = nat n"
  have m: "n = int m" "m \<le> 252" "m \<le> length (st_bufs w ! b)" using n len by (auto simp: msg_size_def m_def)
  define j where "j = nat (asc_fildes ob)"
  have j: "asc_fildes ob = int j" "j < length (st_lines w)" using t by (simp_all add: j_def)
  let ?ln = "st_lines w ! j" and ?f = "ascii_frame i (take m (st_bufs w ! b))"
  obtain buf where s: "length buf = 512" "take (2 * m + 7) buf = ?f"
    "ciaaModbus_asciiSendMsg stack_write (tr_hModbusLowLayer tr) i (st_bufs w ! b) (int m) (st_ascii w) (st_lines w, st_os w) = do {
      (_, w') \<leftarrow> stack_write (asc_fildes ob) buf (2 * m + 7) (st_lines w, st_os w);
      Some ((st_ascii w)[nat (tr_hModbusLowLayer tr) := ob\<lparr>asc_buffer := buf\<rparr>], w') }"
    using sendMsg_frame [OF tr(2) len(3) m(2,3), of i stack_write "(st_lines w, st_os w)"] by blast
  let ?lines = "(st_lines w)[j := ?ln\<lparr>ln_sent := ln_sent ?ln @ ?f\<rparr>]"
  let ?w' = "w\<lparr>st_ascii := (st_ascii w)[nat (tr_hModbusLowLayer tr) := ob\<lparr>asc_buffer := buf\<rparr>], st_lines := ?lines\<rparr>"
  have run: "stack_send cfg mev ModuleTransport h i b n w = Some ?w'"
    using s tr(1) t(1) len b j m(1) by (simp add: stack_send_def ciaaModbus_transportSendMsg_def stack_write_def mem_simps)
  have lr: "line_received q (?lines, st_os w) = line_received q (st_lines w, st_os w)" for q
    using j(2) by (cases "nat q = j") (simp_all add: line_received_def)
  have "\<forall>h\<in>TH. transport_ok ?w' h"
    by (rule transports_kept [OF _ _ tr(2), where ob' = "ob\<lparr>asc_buffer := buf\<rparr>"])
      (use g t s in \<open>simp_all add: stack_good_def asc_ok_def\<close>)
  moreover have "\<forall>h\<in>QH. silent ?w' h"
    by (rule silents_kept [OF _ _ tr(2), where ob' = "ob\<lparr>asc_buffer := buf\<rparr>"]) (use g lr in \<open>simp_all add: stack_good_def\<close>)
  moreover have "slave_ok I s ?w' k = slave_ok I s w k" for s k by (simp add: slave_ok_def)
  moreover have "\<forall>ln\<in>set ?lines. polled (ln_dev ln, st_os w)" using g j by (intro set_upd_all) (auto simp: stack_good_def)
  ultimately have "stack_good I nb TH SH QH S ?w'" using g by (simp add: stack_good_def)
  with that [of buf] run s(1) show thesis by (simp add: j_def m_def)
qed

lemma transport_send_ok:
  assumes g: "stack_good I nb TH SH QH S w" and h: "h \<in> TH" and b: "b < nb" and n: "msg_size n"
  shows "\<exists>w'. stack_send cfg mev ModuleTransport h i b n w = Some w' \<and> stack_good I nb TH SH QH S w'"
proof -
  from g h obtain tr ob where "rdi (st_trs w) h = Some tr" "rdi (st_ascii w) (tr_hModbusLowLayer tr) = Some ob"
    by (auto simp: stack_good_def transport_ok_def)
  from transport_send_run [OF g h b n this] show ?thesis by blast
qed

lemma slaves_kept:
  assumes "\<forall>h\<in>SH. slave_ok I ((ModuleSlave, h) \<in> S) w h" and "rdi (st_slaves w) k = Some sl"
    and "st_slaves w' = (st_slaves w)[nat k := sl']" and "slv_cmd sl' = slv_cmd sl" and "length (st_bufs w') = length (st_bufs w)"
    and "\<exists>p. slv_buf sl' = Some p \<and> p < length (st_bufs w)" and "1 \<le> slv_size sl' \<and> slv_size sl' \<le> 252"
    and "S' - {(ModuleSlave, k)} \<subseteq> S"
  shows "\<forall>h\<in>SH. slave_ok I ((ModuleSlave, h) \<in> S') w' h"
proof
  fix h assume "h \<in> SH"
  with assms(1) obtain sl1 cmd where t: "rdi (st_slaves w) h = Some sl1" "slv_cmd sl1 = Some cmd" "cmd_ok I cmd"
    "(ModuleSlave, h) \<in> S \<longrightarrow> (\<exists>p. slv_buf sl1 = Some p \<and> p < length (st_bufs w)) \<and> 1 \<le> slv_size sl1 \<and> slv_size sl1 \<le> 252"
    by (auto simp: slave_ok_def)
  show "slave_ok I ((ModuleSlave, h) \<in> S') w' h"
  proof (cases "h = k")
    case True
    with t assms(2-7) show ?thesis by (simp add: slave_ok_def rdi_upd)
  next
    case False
    with t assms(2,3,5,8) show ?thesis by (auto simp: slave_ok_def rdi_upd)
  qed
qed

lemma transports_same:
  assumes "\<forall>h\<in>TH. transport_ok w h" and "st_trs w' = st_trs w" "st_ascii w' = st_ascii w" "length (st_lines w') = length (st_lines w)"
  shows "\<forall>h\<in>TH. transport_ok w' h"
  using assms by (simp add: transport_ok_def)

lemma slave_sent:
  assumes "slave_ok I True w h"
  obtains sl cmd p n where "rdi (st_slaves w) h = Some sl" "slv_cmd sl = Some cmd" "cmd_ok I cmd" "slv_buf sl = Some p"
    "p < length (st_bufs w)" "slv_size sl = int n" "1 \<le> n" "n \<le> 252"
proof -
  from assms obtain sl cmd p where t: "rdi (st_slaves w) h = Some sl" "slv_cmd sl = Some cmd" "cmd_ok I cmd" "slv_buf sl = Some p"
    "p < length (st_bufs w)" "1 \<le> slv_size sl" "slv_size sl \<le> 252" unfolding slave_ok_def by blast
  show thesis by (rule that [OF t(1-5), of "nat (slv_size sl)"]) (use t in simp_all)
qed

lemma slave_task_ok:
  assumes g: "stack_good I nb TH SH QH S w" and h: "h \<in> SH" "(ModuleSlave, h) \<in> S"
  shows "\<exists>w'. stack_task set_baud cfg ev mev time_base ModuleSlave h w = Some w' \<and> stack_good I nb TH SH QH S w'"
proof -
  have "slave_ok I ((ModuleSlave, h) \<in> S) w h" using g h(1) by (simp add: stack_good_def)
  with h(2) have "slave_ok I True w h" by simp
  from slave_sent [OF this] obtain sl cmd p n where t: "rdi (st_slaves w) h = Some sl" "slv_cmd sl = Some cmd" "cmd_ok I cmd"
    "slv_buf sl = Some p" "p < length (st_bufs w)" "slv_size sl = int n" "1 \<le> n" "n \<le> 252" .
  have len: "length (st_bufs w ! p) = 256" and a: "I (st_app w)" using g t by (auto simp: stack_good_def)
  from len t(8) have le: "252 \<le> length (st_bufs w ! p)" "n \<le> length (st_bufs w ! p)" by simp_all
  obtain k reply a' where r: "ciaaModbus_slaveTask h (st_slaves w) (st_bufs w) (st_app w) =
      Some ((st_slaves w)[nat h := sl\<lparr>slv_size := k\<rparr>], (st_bufs w)[p := reply], a')" "I a'" "length reply = 256"
    "k = 2 \<or> reply_fits k reply"
    using slaveTask_replies [OF t(1,4,2,6,3) a t(5) le(1) t(7) le(2)] len by auto
  have "1 \<le> k \<and> k \<le> 252" using r(4) by (auto simp: reply_fits_def)
  then have k: "1 \<le> slv_size (sl\<lparr>slv_size := k\<rparr>) \<and> slv_size (sl\<lparr>slv_size := k\<rparr>) \<le> 252" by simp
  have p: "\<exists>q. slv_buf (sl\<lparr>slv_size := k\<rparr>) = Some q \<and> q < length (st_bufs w)" using t(4,5) by simp
  let ?w' = "w\<lparr>st_slaves := (st_slaves w)[nat h := sl\<lparr>slv_size := k\<rparr>], st_bufs := (st_bufs w)[p := reply], st_app := a'\<rparr>"
  have "\<forall>h\<in>SH. slave_ok I ((ModuleSlave, h) \<in> S) ?w' h"
    by (rule slaves_kept [OF _ t(1) _ _ _ p k, where S = S]) (use g in \<open>simp_all add: stack_good_def\<close>)
  moreover have "\<forall>h\<in>TH. transport_ok ?w' h" by (rule transports_same [where w = w]) (use g in \<open>simp_all add: stack_good_def\<close>)
  moreover have "\<forall>h\<in>QH. silent ?w' h" by (rule silents_same [where w = w]) (use g in \<open>simp_all add: stack_good_def\<close>)
  moreover have "\<forall>x\<in>set ((st_bufs w)[p := reply]). length x = 256" using g r(3) by (intro set_upd_all) (auto simp: stack_good_def)
  ultimately have "stack_good I nb TH SH QH S ?w'" using g r(2) by (simp add: stack_good_def)
  then show ?thesis using r(1) by (simp add: stack_task_def)
qed

lemma copy_between_shape:
  "dst < length bufs \<Longrightarrow> src < length bufs \<Longrightarrow> \<forall>b\<in>set bufs. length b = 256 \<Longrightarrow> n \<le> 256 \<Longrightarrow>
    \<exists>bufs'. copy_between dst src n bufs = Some bufs' \<and> length bufs' = length bufs \<and> (\<forall>b\<in>set bufs'. length b = 256)"
proof (induction n)
  case (Suc n)
  then obtain bufs' where b: "copy_between dst src n bufs = Some bufs'" "length bufs' = length bufs" "\<forall>b\<in>set bufs'. length b = 256"
    by auto
  with Suc.prems have l: "length (bufs' ! src) = 256" "length (bufs' ! dst) = 256" by auto
  let ?d = "(bufs' ! dst)[n := bufs' ! src ! n]"
  have "copy_between dst src (Suc n) bufs = Some (bufs'[dst := ?d])" using b(1,2) l Suc.prems by (simp add: mem_simps)
  moreover have "\<forall>b\<in>set (bufs'[dst := ?d]). length b = 256" using b(3) l(2) by (intro set_upd_all) simp_all
  ultimately show ?case using b(2) by simp
qed simp

lemma slave_recv_ok:
  assumes g: "stack_good I nb TH SH QH S w" and h: "h \<in> SH" "(ModuleSlave, h) \<in> S" and b: "b < nb"
  shows "\<exists>i' n' w'. stack_recv ModuleSlave h i b n w = Some (i', n', w') \<and> stack_good I nb TH SH QH S w' \<and> msg_size n'"
proof -
  have "slave_ok I ((ModuleSlave, h) \<in> S) w h" using g h(1) by (simp add: stack_good_def)
  with h(2) have "slave_ok I True w h" by simp
  from slave_sent [OF this] obtain sl cmd p m where t: "rdi (st_slaves w) h = Some sl" "slv_buf sl = Some p"
    "p < length (st_bufs w)" "slv_size sl = int m" "1 \<le> m" "m \<le> 252" .
  obtain bufs' where c: "copy_between b p m (st_bufs w) = Some bufs'" "length bufs' = length (st_bufs w)" "\<forall>b\<in>set bufs'. length b = 256"
  proof -
    have "b < length (st_bufs w)" "\<forall>b\<in>set (st_bufs w). length b = 256" "m \<le> 256" using g b t(6) by (simp_all add: stack_good_def)
    from copy_between_shape [OF this(1) t(3) this(2,3)] that show thesis by blast
  qed
  have "slave_ok I s (w\<lparr>st_bufs := bufs'\<rparr>) k = slave_ok I s w k" for s k using c(2) by (simp add: slave_ok_def)
  moreover have "\<forall>h\<in>TH. transport_ok (w\<lparr>st_bufs := bufs'\<rparr>) h"
    by (rule transports_same [where w = w]) (use g in \<open>simp_all add: stack_good_def\<close>)
  moreover have "\<forall>h\<in>QH. silent (w\<lparr>st_bufs := bufs'\<rparr>) h"
    by (rule silents_same [where w = w]) (use g in \<open>simp_all add: stack_good_def\<close>)
  ultimately have "stack_good I nb TH SH QH S (w\<lparr>st_bufs := bufs'\<rparr>)" using g c by (simp add: stack_good_def)
  then show ?thesis using t c by (simp add: stack_recv_def ciaaModbus_slaveRecvMsg_def msg_size_def)
qed

lemma slave_send_ok:
  assumes g: "stack_good I nb TH SH QH S w" and h: "h \<in> SH" and b: "b < nb" and n: "msg_size n" "1 \<le> n"
  shows "\<exists>w'. stack_send cfg mev ModuleSlave h i b n w = Some w' \<and> stack_good I nb TH SH QH (insert (ModuleSlave, h) S) w'"
proof -
  from g h obtain sl where t: "rdi (st_slaves w) h = Some sl" by (auto simp: stack_good_def slave_ok_def)
  let ?sl = "sl\<lparr>slv_buf := Some b, slv_size := n\<rparr>"
  let ?w' = "w\<lparr>st_slaves := (st_slaves w)[nat h := ?sl]\<rparr>"
  have k: "1 \<le> slv_size ?sl \<and> slv_size ?sl \<le> 252" using n by (simp add: msg_size_def)
  have p: "\<exists>q. slv_buf ?sl = Some q \<and> q < length (st_bufs w)" using b g by (simp add: stack_good_def)
  have "\<forall>h'\<in>SH. slave_ok I ((ModuleSlave, h') \<in> insert (ModuleSlave, h) S) ?w' h'"
    by (rule slaves_kept [OF _ t _ _ _ p k, where S = S]) (use g in \<open>auto simp: stack_good_def\<close>)
  moreover have "\<forall>h\<in>TH. transport_ok ?w' h" by (rule transports_same [where w = w]) (use g in \<open>simp_all add: stack_good_def\<close>)
  moreover have "\<forall>h\<in>QH. silent ?w' h" by (rule silents_same [where w = w]) (use g in \<open>simp_all add: stack_good_def\<close>)
  ultimately have "stack_good I nb TH SH QH (insert (ModuleSlave, h) S) ?w'" using g by (simp add: stack_good_def)
  then show ?thesis using t by (simp add: stack_send_def ciaaModbus_slaveSendMsg_def wri_table)
qed

definition stack_clients :: "int set \<Rightarrow> (module_kind \<times> int) set" where
  "stack_clients TH = {ModuleTransport} \<times> TH"

definition stack_servers :: "int set \<Rightarrow> int set \<Rightarrow> (module_kind \<times> int) set" where
  "stack_servers TH SH = {ModuleTransport} \<times> TH \<union> {ModuleSlave} \<times> SH"

lemma stack_modules:
  assumes tb: "0 < time_base" "time_base \<le> 1000"
  shows "modbus_modules (stack_ops set_baud cfg ev mev time_base) (stack_good I nb TH SH QH) (stack_clients TH) (stack_servers TH SH) {..<nb}"
proof (unfold_locales, goal_cases)
  case (1 S w k h)
  then show ?case
    using transport_task_ok [OF 1(1) _ tb] slave_task_ok [OF 1(1)]
    by (auto simp: stack_ops_def stack_clients_def stack_servers_def)
next
  case (2 S w k h b n i)
  then show ?case
    using transport_recv_ok [OF 2(1), of h b i n] slave_recv_ok [OF 2(1), of h b i n]
    by (auto simp: stack_ops_def stack_clients_def stack_servers_def)
next
  case (3 S w k h b n i)
  have "stack_good I nb TH SH QH (insert (ModuleTransport, h) S) w' = stack_good I nb TH SH QH S w'" for w' by (simp add: stack_good_def)
  with 3 show ?case
    using transport_send_ok [OF 3(1), of h b n cfg mev i] slave_send_ok [OF 3(1), of h b n cfg mev i]
    by (auto simp: stack_ops_def stack_servers_def)
next
  case (4 S w k h b n i)
  then show ?case
    using transport_send_ok [OF 4(1), of h b n cfg mev i] by (auto simp: stack_ops_def stack_clients_def)
next
  case (5 S w k h)
  then show ?case
    by (auto simp: stack_ops_def stack_clients_def stack_timeout_def stack_good_def transport_ok_def
        ciaaModbus_transportGetRespTimeout_def)
qed

definition CIAA_MODBUS_TIME_BASE :: int where "CIAA_MODBUS_TIME_BASE = 5"

interpretation stack: modbus_modules "stack_ops set_baud cfg ev mev CIAA_MODBUS_TIME_BASE" CIAA_MODBUS_TIME_BASE
    "stack_good I nb TH SH QH" "stack_clients TH" "stack_servers TH SH" "{..<nb}"
  for set_baud cfg ev mev and I :: "'a \<Rightarrow> bool" and nb TH SH QH
  by (rule stack_modules) (simp_all add: CIAA_MODBUS_TIME_BASE_def)

text \<open>A transport whose line is silent, as a server.\<close>

lemma silent_recv:
  assumes g: "stack_good I nb TH SH QH S w" and h: "h \<in> TH" "h \<in> QH"
    and r: "stack_recv ModuleTransport h i b n w = Some (i', n', w')"
  shows "n' = 0"
proof -
  have "transport_ok w h" "silent w h" using g h by (simp_all add: stack_good_def)
  then obtain tr ob where t: "rdi (st_trs w) h = Some tr" "ascii_mode (tr_mode tr)"
    "rdi (st_ascii w) (tr_hModbusLowLayer tr) = Some ob" "asc_ok ob" "bufferSize ob = 0" by (auto simp: transport_ok_def silent_def)
  from r t obtain pdu pdu' objs where "rd (st_bufs w) b = Some pdu"
    "ciaaModbus_asciiRecvMsg (tr_hModbusLowLayer tr) i pdu (st_ascii w) = Some (i', pdu', n', objs)"
    by (auto simp: stack_recv_def ciaaModbus_transportRecvMsg_def bind_eq_Some_conv)
  moreover from this g have "length pdu = 256" by (auto simp: stack_good_def rd_eq_Some)
  moreover have "ascii_message (asc_seen ob) = None" using t(5) by (simp add: asc_seen_def int8_def ascii_message_def)
  ultimately show ?thesis using recvMsg_message [OF t(3,4), of pdu i] by auto
qed

lemma quiet_modules:
  assumes "h \<in> TH" and "h \<in> QH"
  shows "quiet_server (stack_ops set_baud cfg ev mev CIAA_MODBUS_TIME_BASE) (stack_good I nb TH SH QH) (stack_clients TH)
    (stack_servers TH SH) {..<nb} ModuleTransport h"
proof (unfold_locales, goal_cases)
  case (1 S w i b n i' n' w')
  then show ?case using silent_recv [OF 1(1) assms, of i b n i' n' w'] by (simp add: stack_ops_def RSP_PDU_MINLENGTH_def)
qed

interpretation quiet: quiet_server "stack_ops set_baud cfg ev mev CIAA_MODBUS_TIME_BASE" CIAA_MODBUS_TIME_BASE
    "stack_good I nb (insert h TH) SH (insert h QH)" "stack_clients (insert h TH)" "stack_servers (insert h TH) SH" "{..<nb}"
    ModuleTransport h
  for set_baud cfg ev mev and I :: "'a \<Rightarrow> bool" and nb h TH SH QH
  by (rule quiet_modules) simp_all

end
