(* ===== verification/ModbusProps.thy ===== *)
theory ModbusProps
  imports ModbusStack
begin

text \<open>
  The properties of the Modbus modules together: the clients and servers of a gateway, a request that is served from
  the line to the slave and back, and the master.
\<close>

section \<open>A request is served\<close>

text \<open>What polling and taking messages leaves as it is.\<close>

definition same_but_input :: "'a stack \<Rightarrow> 'a stack \<Rightarrow> bool" where
  "same_but_input w w' \<longleftrightarrow> st_trs w' = st_trs w \<and> st_slaves w' = st_slaves w \<and> st_app w' = st_app w \<and>
     map ln_sent (st_lines w') = map ln_sent (st_lines w)"

lemma take_request:
  assumes g: "stack_good I nb TH SH QH S w" and h: "h \<in> TH" and b: "b < nb" and tb: "0 < time_base" "time_base \<le> 1000"
    and tr: "rdi (st_trs w) h = Some tr" "rdi (st_ascii w) (tr_hModbusLowLayer tr) = Some ob"
    and line: "asc_kept ob = []" "line_received (asc_fildes ob) (st_lines w, st_os w) = ascii_frame i p"
    and p: "p \<noteq> []" "length p \<le> 60"
  obtains w1 w2 ob2 where "stack_task set_baud cfg ev mev time_base ModuleTransport h w = Some w1"
    "stack_recv ModuleTransport h ci b n w1 = Some (i, int (length p), w2)" "stack_good I nb TH SH (insert h QH) S w2"
    "take (length p) (st_bufs w2 ! b) = p" "same_but_input w w2"
    "rdi (st_ascii w2) (tr_hModbusLowLayer tr) = Some ob2" "asc_fildes ob2 = asc_fildes ob"
proof -
  obtain ob1 lines where t: "stack_task set_baud cfg ev mev time_base ModuleTransport h w =
      Some (w\<lparr>st_ascii := (st_ascii w)[nat (tr_hModbusLowLayer tr) := ob1], st_lines := lines\<rparr>)"
    "stack_good I nb TH SH QH S (w\<lparr>st_ascii := (st_ascii w)[nat (tr_hModbusLowLayer tr) := ob1], st_lines := lines\<rparr>)"
    "asc_ok ob1" "asc_fildes ob1 = asc_fildes ob" "map ln_sent lines = map ln_sent (st_lines w)"
    "line_received (asc_fildes ob) (lines, st_os w) = drop (512 - length (asc_kept ob)) (line_received (asc_fildes ob) (st_lines w, st_os w))"
    "asc_content ob1 = (if line_received (asc_fildes ob) (st_lines w, st_os w) = [] then asc_kept ob
      else gather (asc_kept ob @ take (512 - length (asc_kept ob)) (line_received (asc_fildes ob) (st_lines w, st_os w))))"
    by (rule transport_task_run [OF g h tb tr])
  let ?w1 = "w\<lparr>st_ascii := (st_ascii w)[nat (tr_hModbusLowLayer tr) := ob1], st_lines := lines\<rparr>"
  have short: "length (ascii_frame i p) \<le> 127" using p by simp
  have "ascii_frame i p \<noteq> []" by (simp add: ascii_frame_def)
  moreover have "gather (ascii_frame i p) = ascii_frame i p" using gather_frame [of "length (ascii_frame i p)" i p] by simp
  ultimately have c: "asc_content ob1 = ascii_frame i p" using t(7) line short by simp
  have d: "line_received (asc_fildes ob) (lines, st_os w) = []" using t(6) line short by simp
  have "nat (bufferSize ob1) = length (ascii_frame i p)"
    using arg_cong [OF c, of length] t(3) by (auto simp: asc_content_def asc_ok_def)
  then have seen: "asc_seen ob1 = ascii_frame i p"
    using t(3) c short asc_seen_small [of ob1] by (simp add: asc_ok_def)
  have tr1: "rdi (st_trs ?w1) h = Some tr" "rdi (st_ascii ?w1) (tr_hModbusLowLayer tr) = Some ob1"
    using tr by (simp_all add: rdi_upd)
  obtain i' pdu n' objs' where r: "stack_recv ModuleTransport h ci b n ?w1 =
      Some (i', n', ?w1\<lparr>st_bufs := (st_bufs ?w1)[b := pdu], st_ascii := objs'\<rparr>)"
    "stack_good I nb TH SH QH S (?w1\<lparr>st_bufs := (st_bufs ?w1)[b := pdu], st_ascii := objs'\<rparr>)" "length pdu = 256"
    "(i', pdu, n') = (case ascii_message (asc_seen ob1) of
        Some bs \<Rightarrow> (hd bs, blit (st_bufs ?w1 ! b) 0 (tl bs), int (length bs) - 2) | None \<Rightarrow> (ci, st_bufs ?w1 ! b, 0))"
    "objs' = st_ascii ?w1 \<and> ascii_message (asc_seen ob1) = None \<or>
      (\<exists>buf. length buf = 512 \<and> objs' = (st_ascii ?w1)[nat (tr_hModbusLowLayer tr) := ob1\<lparr>bufferSize := 0, asc_buffer := buf\<rparr>])"
    by (rule transport_recv_run [OF t(2) h b tr1])
  let ?w2 = "?w1\<lparr>st_bufs := (st_bufs ?w1)[b := pdu], st_ascii := objs'\<rparr>"
  have e: "i' = i" "n' = int (length p)" "pdu = blit (st_bufs w ! b) 0 (p @ [- sum_list (i # p)])"
    using r(4) unfolding seen frame_message [OF p(1)] by simp_all
  obtain buf where o: "objs' = (st_ascii ?w1)[nat (tr_hModbusLowLayer tr) := ob1\<lparr>bufferSize := 0, asc_buffer := buf\<rparr>]"
    using r(5) unfolding seen frame_message [OF p(1)] by auto
  then have ob2: "rdi (st_ascii ?w2) (tr_hModbusLowLayer tr) = Some (ob1\<lparr>bufferSize := 0, asc_buffer := buf\<rparr>)"
    using tr(2) by (simp add: rdi_upd)
  have "silent ?w2 h" using tr1(1) ob2 t(4) d by (simp add: silent_def)
  then have good: "stack_good I nb TH SH (insert h QH) S ?w2" using r(2) by (simp add: stack_good_def)
  have "length (st_bufs w ! b) = 256" "b < length (st_bufs w)" using g b by (auto simp: stack_good_def)
  then have buf: "take (length p) (st_bufs ?w2 ! b) = p" using e(3) by (simp add: blit_def)
  have same: "same_but_input w ?w2" using t(5) by (simp add: same_but_input_def)
  from that [OF t(1) _ good buf same ob2] r(1) e t(4) show thesis by simp
qed

lemma copy_between_self: "b < length bufs \<Longrightarrow> n \<le> length (bufs ! b) \<Longrightarrow> copy_between b b n bufs = Some bufs"
  by (induction n) (simp_all add: mem_simps)

text \<open>What a slave does with a request: one it must not execute is answered with the exception code and the
  application's state stays; any other is executed, and the answer is well formed.\<close>

definition answers :: "('a \<Rightarrow> bool) \<Rightarrow> 'a slave_cmd \<Rightarrow> uint8 list \<Rightarrow> 'a \<Rightarrow> uint8 list \<Rightarrow> 'a \<Rightarrow> bool" where
  "answers I cmd p a reply a' \<longleftrightarrow>
     (if request_error cmd p \<noteq> 0 then reply = [hd p OR 0x80, request_error cmd p] \<and> a' = a
      else I a' \<and> (reply = [hd p OR 0x80, reply ! 1] \<and> reply ! 1 \<noteq> 0 \<or>
        hd reply = hd p \<and> reply_fits (int (length reply)) reply))"

lemma slave_answers:
  assumes g: "stack_good I nb TH SH QH S w" and h: "h \<in> SH" "(ModuleSlave, h) \<in> S"
    and sl: "rdi (st_slaves w) h = Some sl" "slv_cmd sl = Some cmd" "slv_buf sl = Some b" "slv_size sl = int n"
  obtains w1 reply where "stack_task set_baud cfg ev mev time_base ModuleSlave h w = Some w1"
    "stack_recv ModuleSlave h ci b m w1 = Some (slv_id sl, int (length reply), w1)" "stack_good I nb TH SH QH S w1"
    "take (length reply) (st_bufs w1 ! b) = reply" "2 \<le> length reply" "length reply \<le> 252"
    "answers I cmd (take n (st_bufs w ! b)) (st_app w) reply (st_app w1)"
    "st_trs w1 = st_trs w" "st_ascii w1 = st_ascii w" "st_lines w1 = st_lines w" "st_os w1 = st_os w"
proof -
  have "slave_ok I ((ModuleSlave, h) \<in> S) w h" using g h(1) by (simp add: stack_good_def)
  with h(2) sl have s: "cmd_ok I cmd" "b < length (st_bufs w)" "1 \<le> n" "n \<le> 252" by (auto simp: slave_ok_def)
  have len: "length (st_bufs w ! b) = 256" and a: "I (st_app w)" using g s by (auto simp: stack_good_def)
  from len s have le: "252 \<le> length (st_bufs w ! b)" "n \<le> length (st_bufs w ! b)" by simp_all
  let ?p = "take n (st_bufs w ! b)"
  have hd: "hd ?p = st_bufs w ! b ! 0" using s(3) len by (cases "st_bufs w ! b") (auto simp: take_Cons')
  obtain k r a' where r: "ciaaModbus_slaveTask h (st_slaves w) (st_bufs w) (st_app w) =
      Some ((st_slaves w)[nat h := sl\<lparr>slv_size := int k\<rparr>], (st_bufs w)[b := r], a')"
    "2 \<le> k" "k \<le> 252" "length r = 256" "answers I cmd ?p (st_app w) (take k r) a'"
  proof (cases "request_error cmd ?p = 0")
    case False
    have "ciaaModbus_slaveTask h (st_slaves w) (st_bufs w) (st_app w) = Some ((st_slaves w)[nat h := sl\<lparr>slv_size := 2\<rparr>],
        (st_bufs w)[b := (st_bufs w ! b)[0 := st_bufs w ! b ! 0 OR 0x80, 1 := request_error cmd ?p]], st_app w)"
      by (rule slaveTask_rejects [OF sl(1,3,2,4) s(1) a s(2) le(1) s(3) le(2) refl False])
    moreover have "take 2 ((st_bufs w ! b)[0 := st_bufs w ! b ! 0 OR 0x80, 1 := request_error cmd ?p]) = [hd ?p OR 0x80, request_error cmd ?p]"
      using hd len by (cases "st_bufs w ! b"; cases "tl (st_bufs w ! b)") (auto simp: numeral_2_eq_2)
    ultimately show thesis
      using that [of 2 "(st_bufs w ! b)[0 := st_bufs w ! b ! 0 OR 0x80, 1 := request_error cmd ?p]" "st_app w"] False len
      by (simp add: answers_def)
  next
    case True
    obtain k r a' where r: "ciaaModbus_slaveTask h (st_slaves w) (st_bufs w) (st_app w) =
        Some ((st_slaves w)[nat h := sl\<lparr>slv_size := k\<rparr>], (st_bufs w)[b := r], a')" "I a'" "length r = 256"
      "r ! 0 = st_bufs w ! b ! 0 OR 0x80 \<and> r ! 1 \<noteq> 0 \<and> k = 2 \<or> r ! 0 = st_bufs w ! b ! 0 \<and> reply_fits k r"
      using slaveTask_replies [OF sl(1,3,2,4) s(1) a s(2) le(1) s(3) le(2)] len by auto
    have k: "2 \<le> k" "k \<le> 252" using r(4) by (auto simp: reply_fits_def)
    obtain x y t where rt: "r = x # y # t" using r(3) by (cases r; cases "tl r") auto
    define q where "q = nat k - 2"
    have q: "nat k = Suc (Suc q)" "k = int q + 2" "q \<le> length t" using k r(3) rt by (auto simp: q_def)
    have "answers I cmd ?p (st_app w) (take (nat k) r) a'"
      unfolding q(1) rt using r(2,4) True hd q(2,3) unfolding rt by (auto simp: answers_def reply_fits_def)
    then show thesis using that [of "nat k" r a'] r(1,3) k by simp
  qed
  let ?w1 = "w\<lparr>st_slaves := (st_slaves w)[nat h := sl\<lparr>slv_size := int k\<rparr>], st_bufs := (st_bufs w)[b := r], st_app := a'\<rparr>"
  have run: "stack_task set_baud cfg ev mev time_base ModuleSlave h w = Some ?w1" using r(1) by (simp add: stack_task_def)
  then have good: "stack_good I nb TH SH QH S ?w1" using slave_task_ok [OF g h, of set_baud cfg ev mev time_base] by auto
  have "copy_between b b k (st_bufs ?w1) = Some (st_bufs ?w1)" using s(2) r(3,4) by (intro copy_between_self) simp_all
  then have rc: "stack_recv ModuleSlave h ci b m ?w1 = Some (slv_id sl, int k, ?w1)"
    using sl(1,3) r(2) by (simp add: stack_recv_def ciaaModbus_slaveRecvMsg_def rdi_upd)
  have l: "length (take k r) = k" "st_bufs ?w1 ! b = r" using r(3,4) s(2) by simp_all
  show thesis by (rule that [OF run _ good, of "take k r"]) (use rc l r s(2) in simp_all)
qed

lemma find_first:
  "j < n \<Longrightarrow> P j \<Longrightarrow> \<forall>k<j. \<not> P k \<Longrightarrow> find P [0..<n] = Some j"
  by (auto simp: find_Some_iff intro!: exI [of _ j])

lemma serve_calls:
  fixes I :: "'a \<Rightarrow> bool" and w :: "'a stack"
  assumes M: "M = stack_ops set_baud cfg ev mev CIAA_MODBUS_TIME_BASE" and g: "stack_good I nb TH SH QH S w" and h: "h \<in> TH" "hs \<in> SH"
    and tr: "rdi (st_trs w) h = Some tr" "rdi (st_ascii w) (tr_hModbusLowLayer tr) = Some ob"
    and line: "asc_kept ob = []" "line_received (asc_fildes ob) (st_lines w, st_os w) = ascii_frame i p"
    and p: "p \<noteq> []" "length p \<le> 60"
    and c: "cl_inUse c" "cl_state c = STATE_IDLE" "cl_module c = Some ModuleTransport" "cl_handler c = h" "cl_buffer c < nb"
    and sv: "j < length svs" "sv_inUse (svs ! j)" "sv_id (svs ! j) = i" "\<forall>k<j. \<not> (sv_inUse (svs ! k) \<and> sv_id (svs ! k) = i)"
      "\<not> sv_busy (svs ! j)" "sv_module (svs ! j) = Some ModuleSlave" "sv_handler (svs ! j) = hs"
    and sl: "rdi (st_slaves w) hs = Some sl" "slv_cmd sl = Some cmd" "slv_id sl = i"
  obtains c' svs' w' reply where
    "client_calls M CIAA_MODBUS_TIME_BASE GATEWAY_LIMIT_CALLS c svs w = Some (c', svs', w')"
    "cl_state c' = STATE_IDLE" "\<not> sv_busy (svs' ! j)" "answers I cmd p (st_app w) reply (st_app w')"
    "map ln_sent (st_lines w') = (map ln_sent (st_lines w))[nat (asc_fildes ob) :=
       ln_sent (st_lines w ! nat (asc_fildes ob)) @ ascii_frame i reply]"
proof -
  note ops = M stack_ops_def
  have tb: "0 < CIAA_MODBUS_TIME_BASE" "CIAA_MODBUS_TIME_BASE \<le> 1000" by (simp_all add: CIAA_MODBUS_TIME_BASE_def)
  let ?b = "cl_buffer c"
  obtain w1 w2 ob2 where q: "stack_task set_baud cfg ev mev CIAA_MODBUS_TIME_BASE ModuleTransport h w = Some w1"
    "stack_recv ModuleTransport h (cl_id c) ?b (cl_size c) w1 = Some (i, int (length p), w2)" "stack_good I nb TH SH (insert h QH) S w2"
    "take (length p) (st_bufs w2 ! ?b) = p" "same_but_input w w2"
    "rdi (st_ascii w2) (tr_hModbusLowLayer tr) = Some ob2" "asc_fildes ob2 = asc_fildes ob"
    by (rule take_request [OF g h(1) c(5) tb tr line p])
  have lp: "1 \<le> int (length p)" "msg_size (int (length p))" using p by (cases p; simp add: msg_size_def)+
  define c1 where "c1 = c\<lparr>cl_id := i, cl_size := int (length p), cl_state := STATE_ROUTING\<rparr>"
  have s1: "ciaaModbus_gatewayClientProcess M CIAA_MODBUS_TIME_BASE c svs w = Some (1, c1, svs, w2)"
    using c q(1,2) lp(1) by (simp add: ciaaModbus_gatewayClientProcess_def ciaaModbus_gatewayClientStateIdle_def ops
        REQ_PDU_MINLENGTH_def Let_def c1_def)
  define c2 where "c2 = c1\<lparr>cl_indexServer := int j, cl_state := STATE_SEND_MSG_TO_SERVER\<rparr>"
  have "find (\<lambda>k. sv_inUse (svs ! k) \<and> sv_id (svs ! k) = i) [0..<length svs] = Some j"
    using sv(1-4) by (intro find_first) auto
  then have s2: "ciaaModbus_gatewayClientProcess M CIAA_MODBUS_TIME_BASE c1 svs w2 = Some (1, c2, svs, w2)"
    using c by (simp add: ciaaModbus_gatewayClientProcess_def ciaaModbus_gatewayClientStateRouting_def c1_def c2_def)
  let ?sl = "sl\<lparr>slv_buf := Some ?b, slv_size := int (length p)\<rparr>"
  define w3 where "w3 = w2\<lparr>st_slaves := (st_slaves w2)[nat hs := ?sl]\<rparr>"
  have sl2: "rdi (st_slaves w2) hs = Some sl" "rdi (st_slaves w3) hs = Some ?sl"
    using q(5) sl(1) by (simp_all add: same_but_input_def w3_def rdi_upd)
  have send: "stack_send cfg mev ModuleSlave hs i ?b (int (length p)) w2 = Some w3"
    using sl2(1) by (simp add: stack_send_def ciaaModbus_slaveSendMsg_def wri_table w3_def)
  then have g3: "stack_good I nb TH SH (insert h QH) (insert (ModuleSlave, hs) S) w3"
    using slave_send_ok [OF q(3) h(2) c(5) lp(2,1), of cfg mev i] by auto
  obtain t where t: "stack_timeout ModuleTransport h w3 = Some t"
    using tr(1) q(5) by (simp add: stack_timeout_def ciaaModbus_transportGetRespTimeout_def same_but_input_def w3_def)
  define c3 where "c3 = c2\<lparr>cl_timeout := t div CIAA_MODBUS_TIME_BASE, cl_state := STATE_WAITING_SERVER_RESPONSE\<rparr>"
  let ?svs = "svs[j := (svs ! j)\<lparr>sv_busy := True\<rparr>]"
  have s3: "ciaaModbus_gatewayClientProcess M CIAA_MODBUS_TIME_BASE c2 svs w2 = Some (1, c3, ?svs, w3)"
    using c sv send t by (simp add: ciaaModbus_gatewayClientProcess_def ciaaModbus_gatewayClientStateSendMsgToServer_def ops
        c1_def c2_def c3_def mem_simps)
  have sl3: "slv_cmd ?sl = Some cmd" "slv_buf ?sl = Some ?b" "slv_size ?sl = int (length p)" "slv_id ?sl = i" using sl by simp_all
  have hs3: "(ModuleSlave, hs) \<in> insert (ModuleSlave, hs) S" by simp
  obtain w4 reply where r: "stack_task set_baud cfg ev mev CIAA_MODBUS_TIME_BASE ModuleSlave hs w3 = Some w4"
    "stack_recv ModuleSlave hs (cl_id c3) ?b (cl_size c3) w4 = Some (slv_id ?sl, int (length reply), w4)"
    "stack_good I nb TH SH (insert h QH) (insert (ModuleSlave, hs) S) w4"
    "take (length reply) (st_bufs w4 ! ?b) = reply" "2 \<le> length reply" "length reply \<le> 252"
    "answers I cmd (take (length p) (st_bufs w3 ! ?b)) (st_app w3) reply (st_app w4)"
    "st_trs w4 = st_trs w3" "st_ascii w4 = st_ascii w3" "st_lines w4 = st_lines w3" "st_os w4 = st_os w3"
    by (rule slave_answers [OF g3 h(2) hs3 sl2(2) sl3(1-3)])
  have tr4: "rdi (st_trs w4) h = Some tr" "rdi (st_ascii w4) (tr_hModbusLowLayer tr) = Some ob2"
    using tr(1) q(5,6) r(8,9) by (simp_all add: same_but_input_def w3_def)
  let ?fd = "nat (asc_fildes ob)"
  have mr: "msg_size (int (length reply))" using r(5,6) by (simp add: msg_size_def)
  obtain buf where sent: "stack_send cfg mev ModuleTransport h i ?b (int (length reply)) w4 =
      Some (w4\<lparr>st_ascii := (st_ascii w4)[nat (tr_hModbusLowLayer tr) := ob2\<lparr>asc_buffer := buf\<rparr>],
        st_lines := (st_lines w4)[nat (asc_fildes ob2) := (st_lines w4 ! nat (asc_fildes ob2))\<lparr>ln_sent :=
          ln_sent (st_lines w4 ! nat (asc_fildes ob2)) @ ascii_frame i (take (nat (int (length reply))) (st_bufs w4 ! ?b))\<rparr>]\<rparr>)"
    "stack_good I nb TH SH (insert h QH) (insert (ModuleSlave, hs) S)
      (w4\<lparr>st_ascii := (st_ascii w4)[nat (tr_hModbusLowLayer tr) := ob2\<lparr>asc_buffer := buf\<rparr>],
        st_lines := (st_lines w4)[nat (asc_fildes ob2) := (st_lines w4 ! nat (asc_fildes ob2))\<lparr>ln_sent :=
          ln_sent (st_lines w4 ! nat (asc_fildes ob2)) @ ascii_frame i (take (nat (int (length reply))) (st_bufs w4 ! ?b))\<rparr>]\<rparr>)"
    by (rule transport_send_run [OF r(3) h(1) c(5) mr tr4])
  define w5 where "w5 = w4\<lparr>st_ascii := (st_ascii w4)[nat (tr_hModbusLowLayer tr) := ob2\<lparr>asc_buffer := buf\<rparr>],
        st_lines := (st_lines w4)[nat (asc_fildes ob2) := (st_lines w4 ! nat (asc_fildes ob2))\<lparr>ln_sent :=
          ln_sent (st_lines w4 ! nat (asc_fildes ob2)) @ ascii_frame i (take (nat (int (length reply))) (st_bufs w4 ! ?b))\<rparr>]\<rparr>"
  have w5: "stack_send cfg mev ModuleTransport h i ?b (int (length reply)) w4 = Some w5"
    "stack_good I nb TH SH (insert h QH) (insert (ModuleSlave, hs) S) w5" "st_app w5 = st_app w4"
    "st_lines w5 = (st_lines w4)[?fd := (st_lines w4 ! ?fd)\<lparr>ln_sent := ln_sent (st_lines w4 ! ?fd) @ ascii_frame i reply\<rparr>]"
    using sent by (simp_all add: w5_def r(4) q(7))
  define c4 where "c4 = c3\<lparr>cl_id := i, cl_size := int (length reply), cl_state := STATE_IDLE\<rparr>"
  let ?svs' = "svs[j := (svs ! j)\<lparr>sv_busy := False\<rparr>]"
  have s4: "ciaaModbus_gatewayClientProcess M CIAA_MODBUS_TIME_BASE c3 ?svs w3 = Some (1, c4, ?svs', w5)"
    using c sv r(1,2,5) sl3(4) w5(1)
    by (simp add: ciaaModbus_gatewayClientProcess_def ciaaModbus_gatewayClientStateWaitingServerResponse_def ops
        c1_def c2_def c3_def c4_def mem_simps RSP_PDU_MINLENGTH_def Let_def)
  obtain tr5 ob5 where t5: "rdi (st_trs w5) h = Some tr5" "rdi (st_ascii w5) (tr_hModbusLowLayer tr5) = Some ob5"
    using w5(2) h(1) by (auto simp: stack_good_def transport_ok_def)
  obtain ob6 lines where w6: "stack_task set_baud cfg ev mev CIAA_MODBUS_TIME_BASE ModuleTransport h w5 =
      Some (w5\<lparr>st_ascii := (st_ascii w5)[nat (tr_hModbusLowLayer tr5) := ob6], st_lines := lines\<rparr>)"
    "stack_good I nb TH SH (insert h QH) (insert (ModuleSlave, hs) S) (w5\<lparr>st_ascii := (st_ascii w5)[nat (tr_hModbusLowLayer tr5) := ob6], st_lines := lines\<rparr>)"
    "map ln_sent lines = map ln_sent (st_lines w5)"
    by (rule transport_task_run [OF w5(2) h(1) tb t5])
  let ?w6 = "w5\<lparr>st_ascii := (st_ascii w5)[nat (tr_hModbusLowLayer tr5) := ob6], st_lines := lines\<rparr>"
  have t6: "rdi (st_trs ?w6) h = Some tr5" "rdi (st_ascii ?w6) (tr_hModbusLowLayer tr5) = Some ob6" using t5 by (simp_all add: rdi_upd)
  obtain i7 pdu n7 objs where w7: "stack_recv ModuleTransport h (cl_id c4) ?b (cl_size c4) ?w6 =
      Some (i7, n7, ?w6\<lparr>st_bufs := (st_bufs ?w6)[?b := pdu], st_ascii := objs\<rparr>)"
    by (rule transport_recv_run [OF w6(2) h(1) c(5) t6])
  have n7: "n7 = 0" by (rule silent_recv [OF w6(2) h(1) _ w7]) simp
  let ?w7 = "?w6\<lparr>st_bufs := (st_bufs ?w6)[?b := pdu], st_ascii := objs\<rparr>"
  have s5: "ciaaModbus_gatewayClientProcess M CIAA_MODBUS_TIME_BASE c4 ?svs' w5 = Some (0, c4\<lparr>cl_id := i7, cl_size := 0\<rparr>, ?svs', ?w7)"
    using c w6(1) w7 n7 by (simp add: ciaaModbus_gatewayClientProcess_def ciaaModbus_gatewayClientStateIdle_def ops
        REQ_PDU_MINLENGTH_def Let_def c1_def c2_def c3_def c4_def)
  have run: "client_calls M CIAA_MODBUS_TIME_BASE GATEWAY_LIMIT_CALLS c svs w = Some (c4\<lparr>cl_id := i7, cl_size := 0\<rparr>, ?svs', ?w7)"
    using s1 s2 s3 s4 s5 by (simp add: GATEWAY_LIMIT_CALLS_def eval_nat_numeral)
  have out: "map ln_sent (st_lines ?w7) = (map ln_sent (st_lines w))[?fd := ln_sent (st_lines w ! ?fd) @ ascii_frame i reply]"
  proof -
    have e: "map ln_sent (st_lines w4) = map ln_sent (st_lines w)" using q(5) r(10) by (simp add: same_but_input_def w3_def)
    have fd: "?fd < length (st_lines w)" using g h(1) tr by (auto simp: stack_good_def transport_ok_def)
    have "ln_sent (st_lines w4 ! ?fd) = ln_sent (st_lines w ! ?fd)" using e fd by (metis nth_map map_eq_imp_length_eq)
    with e w6(3) w5(4) show ?thesis by (simp add: map_update)
  qed
  have app: "answers I cmd p (st_app w) reply (st_app ?w7)"
    using r(7) q(4,5) w5(3) by (simp add: same_but_input_def w3_def)
  show thesis by (rule that [OF run _ _ app out]) (use sv(1) in \<open>simp_all add: c4_def\<close>)
qed

lemma idle_clients: "\<forall>c\<in>set cs. \<not> cl_inUse c \<Longrightarrow> clients_loop M tb cs svs w = Some (cs, svs, w)"
  by (induction cs) (simp_all add: GATEWAY_LIMIT_CALLS_def ciaaModbus_gatewayClientProcess_def eval_nat_numeral)

lemma mainTask_serves:
  fixes I :: "'a \<Rightarrow> bool" and w :: "'a stack"
  assumes g: "stack_good I nb TH SH QH S w" and h: "h \<in> TH" "hs \<in> SH"
    and tr: "rdi (st_trs w) h = Some tr" "rdi (st_ascii w) (tr_hModbusLowLayer tr) = Some ob"
    and line: "asc_kept ob = []" "line_received (asc_fildes ob) (st_lines w, st_os w) = ascii_frame i p"
    and p: "p \<noteq> []" "length p \<le> 60"
    and gw: "n < length gws" "gw_client (gws ! n) = c # cs" "\<forall>c\<in>set cs. \<not> cl_inUse c" "svs = gw_server (gws ! n)"
    and c: "cl_inUse c" "cl_state c = STATE_IDLE" "cl_module c = Some ModuleTransport" "cl_handler c = h" "cl_buffer c < nb"
    and sv: "j < length svs" "sv_inUse (svs ! j)" "sv_id (svs ! j) = i" "\<forall>k<j. \<not> (sv_inUse (svs ! k) \<and> sv_id (svs ! k) = i)"
      "\<not> sv_busy (svs ! j)" "sv_module (svs ! j) = Some ModuleSlave" "sv_handler (svs ! j) = hs"
    and sl: "rdi (st_slaves w) hs = Some sl" "slv_cmd sl = Some cmd" "slv_id sl = i"
  shows "\<exists>gw' w' reply. ciaaModbus_gatewayMainTask (stack_ops set_baud cfg ev mev CIAA_MODBUS_TIME_BASE) CIAA_MODBUS_TIME_BASE (int n) gws w =
      Some (gws[n := gw'], w') \<and> answers I cmd p (st_app w) reply (st_app w') \<and>
    map ln_sent (st_lines w') = (map ln_sent (st_lines w))[nat (asc_fildes ob) :=
      ln_sent (st_lines w ! nat (asc_fildes ob)) @ ascii_frame i reply] \<and>
    cl_state (hd (gw_client gw')) = STATE_IDLE \<and> \<not> sv_busy (gw_server gw' ! j)"
proof -
  obtain c' svs' w' reply where r: "client_calls (stack_ops set_baud cfg ev mev CIAA_MODBUS_TIME_BASE) CIAA_MODBUS_TIME_BASE
      GATEWAY_LIMIT_CALLS c svs w = Some (c', svs', w')"
    "cl_state c' = STATE_IDLE" "\<not> sv_busy (svs' ! j)" "answers I cmd p (st_app w) reply (st_app w')"
    "map ln_sent (st_lines w') = (map ln_sent (st_lines w))[nat (asc_fildes ob) :=
       ln_sent (st_lines w ! nat (asc_fildes ob)) @ ascii_frame i reply]"
    by (rule serve_calls [OF refl g h tr line p c sv sl])
  let ?gw' = "(gws ! n)\<lparr>gw_client := c' # cs, gw_server := svs'\<rparr>"
  have "ciaaModbus_gatewayMainTask (stack_ops set_baud cfg ev mev CIAA_MODBUS_TIME_BASE) CIAA_MODBUS_TIME_BASE (int n) gws w =
      Some (gws[n := ?gw'], w')"
    using gw r(1) by (simp add: ciaaModbus_gatewayMainTask_def mem_simps idle_clients [OF gw(3)])
  then show ?thesis using r(2-5) by (intro exI [of _ ?gw'] exI [of _ w'] exI [of _ reply]) simp
qed

lemma waiting_some: "(\<exists>c\<in>set cs. waits j c) \<longleftrightarrow> waiting cs j \<noteq> 0"
  by (simp add: waiting_def filter_empty_conv)

lemma waiting_one:
  assumes "waiting cs j \<le> 1" and "i < length cs" "k < length cs" and "waits j (cs ! i)" "waits j (cs ! k)"
  shows "i = k"
proof -
  have "card {l. l < length cs \<and> waits j (cs ! l)} \<le> 1" using assms(1) by (simp add: waiting_def length_filter_conv_card)
  with assms(2-5) show ?thesis by (auto simp: card_le_Suc0_iff_eq)
qed

section \<open>The properties\<close>

text \<open>C4: in every gateway that can be reached by opening gateways, adding modules and running the main task, on any
  modules, a server is busy exactly while a client waits for its reply, and no two clients wait for one server: a reply
  is never handed to the wrong client, and no server stays blocked.\<close>

theorem gateway_exclusive:
  assumes "gw_reach cfg R M tb gws" and "gw \<in> set gws" and "j < length (gw_server gw)"
  shows "(sv_busy (gw_server gw ! j) \<longleftrightarrow> (\<exists>c\<in>set (gw_client gw). waits j c)) \<and>
    (\<forall>i<length (gw_client gw). \<forall>k<length (gw_client gw). waits j (gw_client gw ! i) \<and> waits j (gw_client gw ! k) \<longrightarrow> i = k)"
proof -
  have "busy_exact (waiting (gw_client gw)) (gw_server gw)" using gw_reach_ok [OF assms(1)] assms(2) by (auto simp: gw_ok_def)
  with assms(3) have n: "waiting (gw_client gw) j = (if sv_busy (gw_server gw ! j) then 1 else 0)" by (simp add: busy_exact_def)
  have "sv_busy (gw_server gw ! j) \<longleftrightarrow> (\<exists>c\<in>set (gw_client gw). waits j c)"
    using n waiting_some [of "gw_client gw" j] by (simp split: if_splits)
  moreover have "waiting (gw_client gw) j \<le> 1" using n by simp
  ultimately show ?thesis by (metis waiting_one)
qed

text \<open>A gateway with a slave and a transport, on modules where the transport has a request and the slave is slow.\<close>

definition slow_ops :: "unit modbus_ops" where
  "slow_ops = \<lparr>op_task = (\<lambda>k h w. Some w), op_recvMsg = (\<lambda>k h i b n w. Some (1, if k = ModuleTransport then 5 else 0, w)),
     op_sendMsg = (\<lambda>k h i b n w. Some w), op_getRespTimeout = (\<lambda>k h w. Some 300)\<rparr>"

definition no_client :: gw_client where
  "no_client = \<lparr>cl_handler = - 1, cl_buffer = 0, cl_size = 0, cl_timeout = 0, cl_indexServer = - 1, cl_module = None,
     cl_state = STATE_IDLE, cl_id = 0, cl_inUse = False\<rparr>"

definition no_server :: gw_server where
  "no_server = \<lparr>sv_handler = - 1, sv_module = None, sv_id = 0, sv_inUse = False, sv_busy = False\<rparr>"

definition slow_gateway :: "gateway list option" where
  "slow_gateway = do {
     os \<leftarrow> StartOS myproject_cfg 0 (os_reset myproject_cfg);
     (gws, _) \<leftarrow> ciaaModbus_gatewayInit [\<lparr>gw_inUse = False, gw_client = [no_client], gw_server = [no_server]\<rparr>] [replicate 256 0];
     (h, gws, os) \<leftarrow> ciaaModbus_gatewayOpen myproject_cfg 0 gws os;
     if opened 0 gws then do {
       (_, gws, os) \<leftarrow> ciaaModbus_gatewayAddSlave myproject_cfg 0 (\<lambda>_. Some 1) 0 0 gws os;
       if opened 0 gws then do {
         (_, gws, os) \<leftarrow> ciaaModbus_gatewayAddTransport myproject_cfg 0
           [\<lparr>tr_hModbusLowLayer = 0, tr_respTimeout = 300, tr_mode = MODE_ASCII_SLAVE, tr_inUse = True\<rparr>] 0 0 gws os;
         (gws, _) \<leftarrow> ciaaModbus_gatewayMainTask slow_ops 5 0 gws ();
         Some gws }
       else None }
     else None }"

lemma slow_gateway_reach: "slow_gateway = Some gws \<Longrightarrow> gw_reach myproject_cfg 0 slow_ops 5 gws"
  by (auto simp: slow_gateway_def bind_eq_Some_conv split: if_splits)
    (rule gw_reach.run [OF gw_reach.add_transport [OF gw_reach.add_slave [OF gw_reach.gw_open [OF gw_reach.start]]]], assumption+)

theorem gateway_exclusive_witness:
  "\<exists>gws gw. gw_reach myproject_cfg 0 slow_ops 5 gws \<and> gw \<in> set gws \<and> sv_busy (gw_server gw ! 0) \<and> (\<exists>c\<in>set (gw_client gw). waits 0 c)"
proof -
  have "case slow_gateway of None \<Rightarrow> False | Some gws \<Rightarrow> length gws = 1 \<and> 0 < length (gw_server (gws ! 0)) \<and> sv_busy (gw_server (gws ! 0) ! 0)"
    by code_simp
  then obtain gws where g: "slow_gateway = Some gws" "length gws = 1" "0 < length (gw_server (gws ! 0))" "sv_busy (gw_server (gws ! 0) ! 0)"
    by (auto split: option.splits)
  have m: "gws ! 0 \<in> set gws" using g(2) by simp
  from g(1) have "gw_reach myproject_cfg 0 slow_ops 5 gws" by (rule slow_gateway_reach)
  with g m gateway_exclusive [OF this m g(3)] show ?thesis by blast
qed

text \<open>C21: the main task always returns. Whatever arrives on the lines, any number of runs of the main task of a gateway
  over transports in ASCII mode and slaves ends, each within its bounded number of steps and without an access outside
  an array or through a pointer that was not set, and leaves the modules and the gateway in order.\<close>

theorem gateway_runs:
  assumes "stack_good I nb TH SH QH S w" and "S \<subseteq> stack_servers TH SH" and "g < length gws"
    and "gateway_fits (stack_clients TH) (stack_servers TH SH) {..<nb} S (gws ! g)"
    and "\<forall>e\<in>set es. \<forall>S w. stack_good I nb TH SH QH S w \<longrightarrow> stack_good I nb TH SH QH S (e w)"
  shows "\<exists>gw' w' S'. gateway_polls (stack_ops set_baud cfg ev mev CIAA_MODBUS_TIME_BASE) CIAA_MODBUS_TIME_BASE (int g) es gws w =
      Some (gws[g := gw'], w') \<and> stack_good I nb TH SH QH S' w' \<and>
    gateway_fits (stack_clients TH) (stack_servers TH SH) {..<nb} S' gw'"
  using stack.polls_defined [OF assms] by blast

text \<open>Two transports, the one a slave's on the line 1 and the other a master's on the line 0, and one slave; a request
  may have come in on the line 1.\<close>

definition demo_stack :: "uint8 list \<Rightarrow> os_state \<Rightarrow> uint8 stack" where
  "demo_stack xs os = \<lparr>st_bufs = [replicate 256 0], st_ascii = [ascii_idle, ascii_idle\<lparr>asc_fildes := 0\<rparr>],
     st_trs = [\<lparr>tr_hModbusLowLayer = 0, tr_respTimeout = 300, tr_mode = MODE_ASCII_SLAVE, tr_inUse = True\<rparr>,
       \<lparr>tr_hModbusLowLayer = 1, tr_respTimeout = 300, tr_mode = MODE_ASCII_MASTER, tr_inUse = True\<rparr>],
     st_slaves = [table_slave 5], st_masters = [], st_mem = [], st_app = 7,
     st_lines = [\<lparr>ln_dev = port_with [], ln_sent = []\<rparr>, \<lparr>ln_dev = port_with xs, ln_sent = []\<rparr>], st_os = os\<rparr>"

definition demo_client :: gw_client where
  "demo_client = no_client\<lparr>cl_inUse := True, cl_handler := 0, cl_module := Some ModuleTransport\<rparr>"

definition demo_server :: "module_kind \<Rightarrow> gw_server" where
  "demo_server k = \<lparr>sv_handler = 0, sv_module = Some k, sv_id = 1, sv_inUse = True, sv_busy = False\<rparr>"

definition demo_request :: "uint8 list" where
  "demo_request = ascii_frame 1 [3, 0, 0, 0, 1]"

lemma rdi_one: "rdi (x # y # ys) 1 = Some y"
  by (simp add: rdi_def rd_def)

lemma demo_good:
  assumes "xs = [] \<or> xs = demo_request" and "QH \<subseteq> {1}" and "(ModuleSlave, 0) \<notin> S"
  shows "stack_good (\<lambda>_. True) 1 {0, 1} {0} QH S (demo_stack xs os)" "received (port_with xs, os) = xs"
proof -
  have "list_all (\<lambda>xs. cb_abs (rxBuf (port_with xs)) = xs \<and> cb_ok 8 (rxBuf (port_with xs))) [[], demo_request]" by code_simp
  then have cb: "cb_abs (rxBuf (port_with ys)) = ys" "cb_ok 8 (rxBuf (port_with ys))" if "ys = [] \<or> ys = demo_request" for ys
    using that by auto
  have p: "polled (port_with ys, os)" if "ys = [] \<or> ys = demo_request" for ys
    using cb(2) [OF that] port0_ok(1) by (simp add: polled_def port_with_def port_ok_def NONBLOCK_MODE_def)
  have e: "received (port_with [], os) = []" using cb(1) by (simp add: received_def)
  show "received (port_with xs, os) = xs" using cb(1) [OF assms(1)] by (simp add: received_def)
  have "transport_ok (demo_stack xs os) 0" "transport_ok (demo_stack xs os) 1"
    by (simp_all add: transport_ok_def demo_stack_def mem_simps rdi_one ascii_mode_def asc_ok_def ascii_idle_def)
  moreover have "slave_ok (\<lambda>_. True) False (demo_stack xs os) 0"
    using table_cmd_ok by (simp add: slave_ok_def demo_stack_def mem_simps table_slave_def)
  moreover have "silent (demo_stack xs os) 1"
    using e by (simp add: silent_def demo_stack_def mem_simps rdi_one ascii_idle_def line_received_def)
  ultimately show "stack_good (\<lambda>_. True) 1 {0, 1} {0} QH S (demo_stack xs os)"
    using p assms by (auto simp: stack_good_def demo_stack_def subset_singleton_iff)
qed

lemma demo_fits:
  assumes "k \<in> {ModuleTransport, ModuleSlave}"
  shows "gateway_fits (stack_clients {0, 1}) (stack_servers {0, 1} {0}) {..<1} {}
    \<lparr>gw_inUse = True, gw_client = [demo_client, no_client], gw_server = [demo_server k]\<rparr>"
  using assms
  by (auto simp: gateway_fits_def gw_ok_def servers_ok_def client_ok_def busy_exact_def client_fits_def server_fits_def msg_size_def
      stack_clients_def stack_servers_def demo_client_def no_client_def demo_server_def waits_def less_Suc_eq intro!: waiting_none)

theorem gateway_runs_witness:
  "\<forall>os. \<exists>gw' w' S'. gateway_polls (stack_ops (\<lambda>_. 0) myproject_cfg 1 1 CIAA_MODBUS_TIME_BASE) CIAA_MODBUS_TIME_BASE 0 [id, id]
      [\<lparr>gw_inUse = True, gw_client = [demo_client, no_client], gw_server = [demo_server ModuleSlave]\<rparr>] (demo_stack demo_request os) =
      Some ([gw'], w') \<and> stack_good (\<lambda>_. True) 1 {0, 1} {0} {} S' w'"
proof
  fix os :: os_state
  let ?gw = "\<lparr>gw_inUse = True, gw_client = [demo_client, no_client], gw_server = [demo_server ModuleSlave]\<rparr>"
  have g: "stack_good (\<lambda>_. True) 1 {0, 1} {0} {} {} (demo_stack demo_request os)" by (rule demo_good) simp_all
  have f: "gateway_fits (stack_clients {0, 1}) (stack_servers {0, 1} {0}) {..<1} {} ([?gw] ! 0)" using demo_fits [of ModuleSlave] by simp
  have e: "\<forall>e\<in>set [id, id]. \<forall>S w. stack_good (\<lambda>_. True) 1 {0, 1} {0} {} S w \<longrightarrow> stack_good (\<lambda>_. True) 1 {0, 1} {0} {} S (e (w :: uint8 stack))"
    by simp
  have l: "0 < length [?gw]" by simp
  show "\<exists>gw' w' S'. gateway_polls (stack_ops (\<lambda>_. 0) myproject_cfg 1 1 CIAA_MODBUS_TIME_BASE) CIAA_MODBUS_TIME_BASE 0 [id, id]
      [?gw] (demo_stack demo_request os) = Some ([gw'], w') \<and> stack_good (\<lambda>_. True) 1 {0, 1} {0} {} S' w'"
    using gateway_runs [OF g empty_subsetI l f e, of "\<lambda>_. 0" myproject_cfg 1 1] by auto
qed

text \<open>C95: a client does not wait for ever. While the line of the server it waits for is silent, a client with the
  time-out \<open>t\<close> (in runs of the main task: the response time-out over the period) still waits after \<open>n \<le> t\<close> runs, with
  \<open>t - n\<close> left, and is idle again after \<open>t + 1\<close>; what other clients do does not delay it.\<close>

theorem gateway_timeout:
  assumes "stack_good I nb TH SH QH S w" and "S \<subseteq> stack_servers TH SH" and "g < length gws"
    and "gateway_fits (stack_clients TH) (stack_servers TH SH) {..<nb} S (gws ! g)"
    and "\<forall>e\<in>set es. \<forall>S w. stack_good I nb TH SH QH S w \<longrightarrow> stack_good I nb TH SH QH S (e w)"
    and "i < length (gw_client (gws ! g))" and "waits j (gw_client (gws ! g) ! i)" and "cl_timeout (gw_client (gws ! g) ! i) = int t"
    and "sv_module (gw_server (gws ! g) ! j) = Some ModuleTransport" and "sv_handler (gw_server (gws ! g) ! j) = h"
    and "length es \<le> t + 1" and "h \<in> TH" and "h \<in> QH"
  shows "\<exists>gw' w'. gateway_polls (stack_ops set_baud cfg ev mev CIAA_MODBUS_TIME_BASE) CIAA_MODBUS_TIME_BASE (int g) es gws w =
      Some (gws[g := gw'], w') \<and>
    (if length es \<le> t then waits j (gw_client gw' ! i) \<and> cl_timeout (gw_client gw' ! i) = int (t - length es)
     else cl_state (gw_client gw' ! i) = STATE_IDLE)"
  using quiet.quiet_timeout [of I nb h TH SH QH S w g gws es i j t set_baud cfg ev mev] assms
  by (simp add: insert_absorb)

definition demo_waiting :: gateway where
  "demo_waiting = \<lparr>gw_inUse = True,
     gw_client = [demo_client\<lparr>cl_state := STATE_WAITING_SERVER_RESPONSE, cl_indexServer := 0, cl_timeout := 1\<rparr>],
     gw_server = [(demo_server ModuleTransport)\<lparr>sv_handler := 1, sv_busy := True\<rparr>]\<rparr>"

theorem gateway_timeout_witness:
  "\<forall>os. \<exists>gw' w'. gateway_polls (stack_ops (\<lambda>_. 0) myproject_cfg 1 1 CIAA_MODBUS_TIME_BASE) CIAA_MODBUS_TIME_BASE 0 [id, id]
      [demo_waiting] (demo_stack demo_request os) = Some ([gw'], w') \<and> cl_state (gw_client gw' ! 0) = STATE_IDLE"
proof
  fix os :: os_state
  let ?S = "{(ModuleTransport, 1)}"
  have g: "stack_good (\<lambda>_. True) 1 {0, 1} {0} {1} ?S (demo_stack demo_request os)" by (rule demo_good) simp_all
  have s: "?S \<subseteq> stack_servers {0, 1} {0}" by (simp add: stack_servers_def)
  have f: "gateway_fits (stack_clients {0, 1}) (stack_servers {0, 1} {0}) {..<1} ?S ([demo_waiting] ! 0)"
    by (auto simp: gateway_fits_def gw_ok_def servers_ok_def client_ok_def busy_exact_def client_fits_def server_fits_def msg_size_def
        stack_clients_def stack_servers_def demo_waiting_def demo_client_def no_client_def demo_server_def waits_def less_Suc_eq intro: gr0I)
  have e: "\<forall>e\<in>set [id, id]. \<forall>S w. stack_good (\<lambda>_. True) 1 {0, 1} {0} {1} S w \<longrightarrow> stack_good (\<lambda>_. True) 1 {0, 1} {0} {1} S (e (w :: uint8 stack))"
    by simp
  have c: "0 < length (gw_client ([demo_waiting] ! 0))" "waits 0 (gw_client ([demo_waiting] ! 0) ! 0)"
    "cl_timeout (gw_client ([demo_waiting] ! 0) ! 0) = int 1"
    "sv_module (gw_server ([demo_waiting] ! 0) ! 0) = Some ModuleTransport" "sv_handler (gw_server ([demo_waiting] ! 0) ! 0) = 1"
    by (simp_all add: demo_waiting_def waits_def demo_client_def demo_server_def)
  have l: "0 < length [demo_waiting]" "length [id, id :: uint8 stack \<Rightarrow> uint8 stack] \<le> 1 + 1" "1 \<in> {0, 1 :: int}" "1 \<in> {1 :: int}"
    by simp_all
  show "\<exists>gw' w'. gateway_polls (stack_ops (\<lambda>_. 0) myproject_cfg 1 1 CIAA_MODBUS_TIME_BASE) CIAA_MODBUS_TIME_BASE 0 [id, id]
      [demo_waiting] (demo_stack demo_request os) = Some ([gw'], w') \<and> cl_state (gw_client gw' ! 0) = STATE_IDLE"
    using gateway_timeout [OF g s l(1) f e c l(2-4), of "\<lambda>_. 0" myproject_cfg 1 1] by auto
qed

text \<open>C96: a request is served from the line to the slave and back. When a frame for the address \<open>i\<close> with a pdu \<open>p\<close> of
  1 to 60 bytes has come in on the line of a slave transport, one run of the main task of its gateway executes it
  on the first slave with that address and writes the frame of its answer to the same line, and to no other: the exception
  code and nothing else if \<open>p\<close> is a request the slave must not execute, and a well-formed reply otherwise. Then the
  client is idle and the slave free.\<close>

theorem stack_serves:
  fixes I :: "'a \<Rightarrow> bool" and w :: "'a stack"
  assumes good: "stack_good I nb TH SH QH S w" "h \<in> TH" "hs \<in> SH"
    and transport: "rdi (st_trs w) h = Some tr" "rdi (st_ascii w) (tr_hModbusLowLayer tr) = Some ob"
    and line: "asc_kept ob = []" "line_received (asc_fildes ob) (st_lines w, st_os w) = ascii_frame i p" "p \<noteq> []" "length p \<le> 60"
    and gateway: "n < length gws" "gw_client (gws ! n) = c # cs" "\<forall>c\<in>set cs. \<not> cl_inUse c" "svs = gw_server (gws ! n)"
    and client: "cl_inUse c" "cl_state c = STATE_IDLE" "cl_module c = Some ModuleTransport" "cl_handler c = h" "cl_buffer c < nb"
    and server: "j < length svs" "sv_inUse (svs ! j)" "sv_id (svs ! j) = i" "\<forall>k<j. \<not> (sv_inUse (svs ! k) \<and> sv_id (svs ! k) = i)"
      "\<not> sv_busy (svs ! j)" "sv_module (svs ! j) = Some ModuleSlave" "sv_handler (svs ! j) = hs"
    and slave: "rdi (st_slaves w) hs = Some sl" "slv_cmd sl = Some cmd" "slv_id sl = i"
  shows "\<exists>gw' w' reply. ciaaModbus_gatewayMainTask (stack_ops set_baud cfg ev mev CIAA_MODBUS_TIME_BASE) CIAA_MODBUS_TIME_BASE (int n) gws w =
      Some (gws[n := gw'], w') \<and> answers I cmd p (st_app w) reply (st_app w') \<and>
    map ln_sent (st_lines w') = (map ln_sent (st_lines w))[nat (asc_fildes ob) :=
      ln_sent (st_lines w ! nat (asc_fildes ob)) @ ascii_frame i reply] \<and>
    cl_state (hd (gw_client gw')) = STATE_IDLE \<and> \<not> sv_busy (gw_server gw' ! j)"
  by (rule mainTask_serves [OF good transport line gateway client server slave])

theorem stack_serves_witness:
  "\<forall>os. \<exists>gw' w' reply. ciaaModbus_gatewayMainTask (stack_ops (\<lambda>_. 0) myproject_cfg 1 1 CIAA_MODBUS_TIME_BASE) CIAA_MODBUS_TIME_BASE 0
      [\<lparr>gw_inUse = True, gw_client = [demo_client, no_client], gw_server = [demo_server ModuleSlave]\<rparr>] (demo_stack demo_request os) =
      Some ([gw'], w') \<and> answers (\<lambda>_. True) table_cmd [3, 0, 0, 0, 1] 7 reply (st_app w') \<and>
    map ln_sent (st_lines w') = [[], ascii_frame 1 reply]"
proof
  fix os :: os_state
  let ?w = "demo_stack demo_request os" and ?gw = "\<lparr>gw_inUse = True, gw_client = [demo_client, no_client], gw_server = [demo_server ModuleSlave]\<rparr>"
  have good: "stack_good (\<lambda>_. True) 1 {0, 1} {0} {} {} ?w" by (rule demo_good) simp_all
  have in_sets: "0 \<in> {0, 1 :: int}" "0 \<in> {0 :: int}" by simp_all
  have transport: "rdi (st_trs ?w) 0 = Some (st_trs ?w ! 0)" "rdi (st_ascii ?w) (tr_hModbusLowLayer (st_trs ?w ! 0)) = Some ascii_idle"
    by (simp_all add: demo_stack_def mem_simps)
  have line: "asc_kept ascii_idle = []" "line_received (asc_fildes ascii_idle) (st_lines ?w, st_os ?w) = ascii_frame 1 [3, 0, 0, 0, 1]"
    "[3, 0, 0, 0, 1 :: uint8] \<noteq> []" "length [3, 0, 0, 0, 1 :: uint8] \<le> 60"
    using demo_good(2) [of demo_request "{}" "{}" os]
    by (simp_all add: asc_kept_def ascii_idle_def line_received_def demo_stack_def demo_request_def)
  have gateway: "0 < length [?gw]" "gw_client ([?gw] ! 0) = demo_client # [no_client]" "\<forall>c\<in>set [no_client]. \<not> cl_inUse c"
    "[demo_server ModuleSlave] = gw_server ([?gw] ! 0)" by (simp_all add: no_client_def)
  have client: "cl_inUse demo_client" "cl_state demo_client = STATE_IDLE" "cl_module demo_client = Some ModuleTransport"
    "cl_handler demo_client = 0" "cl_buffer demo_client < 1" by (simp_all add: demo_client_def no_client_def)
  have server: "0 < length [demo_server ModuleSlave]" "sv_inUse ([demo_server ModuleSlave] ! 0)" "sv_id ([demo_server ModuleSlave] ! 0) = 1"
    "\<forall>k<0. \<not> (sv_inUse ([demo_server ModuleSlave] ! k) \<and> sv_id ([demo_server ModuleSlave] ! k) = 1)"
    "\<not> sv_busy ([demo_server ModuleSlave] ! 0)" "sv_module ([demo_server ModuleSlave] ! 0) = Some ModuleSlave"
    "sv_handler ([demo_server ModuleSlave] ! 0) = 0" by (simp_all add: demo_server_def)
  have slave: "rdi (st_slaves ?w) 0 = Some (table_slave 5)" "slv_cmd (table_slave 5) = Some table_cmd" "slv_id (table_slave 5) = 1"
    by (simp_all add: demo_stack_def mem_simps table_slave_def)
  have out: "st_app ?w = 7" "map ln_sent (st_lines ?w) = [[], []]" "ln_sent (st_lines ?w ! 1) = []" "asc_fildes ascii_idle = 1"
    by (simp_all add: demo_stack_def ascii_idle_def)
  show "\<exists>gw' w' reply. ciaaModbus_gatewayMainTask (stack_ops (\<lambda>_. 0) myproject_cfg 1 1 CIAA_MODBUS_TIME_BASE) CIAA_MODBUS_TIME_BASE 0
      [?gw] ?w = Some ([gw'], w') \<and> answers (\<lambda>_. True) table_cmd [3, 0, 0, 0, 1] 7 reply (st_app w') \<and>
    map ln_sent (st_lines w') = [[], ascii_frame 1 reply]"
    using stack_serves [OF good in_sets transport line gateway client server slave, of "\<lambda>_. 0" myproject_cfg 1 1] out by auto
qed


text \<open>A master whose task waits for a command on the slave 1.\<close>

definition demo_master :: "uint8 \<Rightarrow> uint16 \<Rightarrow> uint8 master_obj" where
  "demo_master cmd q = \<lparr>cbEndComm = Some (\<lambda>i f e a. Some 1), ms_taskID = 0, pDataR = 1, pDataW = 0, dataW = 0, ms_respTimeout = 300,
     retryComm = 3, retryCount = 3, startAddressR = 0x13, startAddressW = 0x13, quantityR = q, quantityW = q, ms_cmd = cmd,
     ms_slaveId = 1, exceptioncode = 0, ms_inUse = True\<rparr>"


text \<open>C35: the registers that a slave sends reach the array of the application. When the reply to a read of 1 to 125
  registers comes from the right slave with its byte count and the registers, most significant byte first, exactly these
  registers are stored at the start of the array and the rest of it and every other array stays; the callback is told
  that there was no error, and the master is free for the next command.\<close>

theorem master_reads_registers:
  assumes "rdi ms h = Some m" and "ms_cmd m \<in> {FCN_READ_HOLDING_REGISTERS, FCN_READ_INPUT_REGISTERS, FCN_READ_WRITE_MULTIPLE_REGISTERS}"
    and "unat (quantityR m) = length vs" "1 \<le> length vs" "length vs \<le> 125"
    and "pDataR m < length mem" "mem ! pDataR m = Ints data" "length vs \<le> length data" and "cbEndComm m = Some f"
    and "f (ms_slaveId m) (ms_cmd m) E_NO_ERROR a = Some a'"
  shows "ciaaModbus_masterSendMsg cfg MODBUSE h (ms_slaveId m) (ms_cmd m # of_nat (2 * length vs) # regs_bytes vs @ rest)
      (int (2 * length vs + 2)) ms mem a os =
    Some (ms[nat h := m\<lparr>exceptioncode := E_NO_ERROR, ms_cmd := 0\<rparr>], mem[pDataR m := Ints (vs @ drop (length vs) data)], a', os)"
  using assms by (rule masterSendMsg_registers)

lemma copy_loop_source: "copy_loop dst d src s i n = Some r \<Longrightarrow> i < n \<Longrightarrow> n + s \<le> int (length src)"
proof (induction dst d src s i n rule: copy_loop.induct)
  case (1 dst d src s i n)
  then obtain b dst' where b: "rdi src (i + s) = Some b" "wri dst (i + d) b = Some dst'" "copy_loop dst' d src s (i + 1) n = Some r"
    by (auto simp: copy_loop.simps [of dst d src s i] bind_eq_Some_conv)
  then have "i + s < int (length src)" by (auto simp: rdi_def rd_def split: if_splits)
  with 1 b show ?case by (cases "i + 1 < n") auto
qed

theorem master_reads_registers_witness:
  "\<forall>os. \<exists>ms. ciaaModbus_masterSendMsg myproject_cfg 1 0 1 [3, 4, 0x12, 0x34, 0, 5] 6 [demo_master FCN_READ_HOLDING_REGISTERS 2]
      [Bytes [], Ints [0, 0, 9]] 0 os = Some (ms, [Bytes [], Ints [0x1234, 5, 9]], 1, os)"
proof
  fix os :: os_state
  let ?m = "demo_master FCN_READ_HOLDING_REGISTERS 2" and ?mem = "[Bytes [], Ints [0, 0, 9]]"
  have m: "rdi [?m] 0 = Some ?m" by (simp add: mem_simps)
  have c: "ms_cmd ?m \<in> {FCN_READ_HOLDING_REGISTERS, FCN_READ_INPUT_REGISTERS, FCN_READ_WRITE_MULTIPLE_REGISTERS}"
    "unat (quantityR ?m) = length [0x1234, 5 :: uint16]" "1 \<le> length [0x1234, 5 :: uint16]" "length [0x1234, 5 :: uint16] \<le> 125"
    "pDataR ?m < length ?mem" "?mem ! pDataR ?m = Ints [0, 0, 9]" "length [0x1234, 5 :: uint16] \<le> length [0, 0, 9 :: uint16]"
    "cbEndComm ?m = Some (\<lambda>i f e a. Some 1)" "(\<lambda>i f e a. Some 1) (ms_slaveId ?m) (ms_cmd ?m) E_NO_ERROR (0 :: uint8) = Some (1 :: uint8)"
    by (simp_all add: demo_master_def)
  have p: "ms_cmd ?m # of_nat (2 * length [0x1234, 5 :: uint16]) # regs_bytes [0x1234, 5] @ [] = [3, 4, 0x12, 0x34, 0, 5]"
    "int (2 * length [0x1234, 5 :: uint16] + 2) = 6" "ms_slaveId ?m = 1" "?mem[pDataR ?m := Ints ([0x1234, 5] @ drop 2 [0, 0, 9])] =
      [Bytes [], Ints [0x1234, 5, 9]]"
    by (simp_all add: demo_master_def reg_bytes_def fcn_defs)
  show "\<exists>ms. ciaaModbus_masterSendMsg myproject_cfg 1 0 1 [3, 4, 0x12, 0x34, 0, 5] 6 [?m] ?mem 0 os =
      Some (ms, [Bytes [], Ints [0x1234, 5, 9]], 1, os)"
    using master_reads_registers [OF m c, where cfg = myproject_cfg and MODBUSE = 1 and rest = "[]" and os = os] p by simp
qed

text \<open>writing coils reads one byte per coil, although eight coils are packed in each of the bytes that are sent and
  counted. A command whose array has the bytes that the protocol wants but not a byte for every coil reads behind the
  end of the array, and more than 250 coils (the protocol allows 1968) are stored behind the end of the buffer.\<close>

lemma master_coils_overrun:
  assumes "rdi ms h = Some m" and "ms_cmd m = FCN_WRITE_MULTIPLE_COILS" and "bytes_at mem (pDataW m) = Some bs"
    and "length pdu = 256" and "length bs < unat (quantityW m) \<or> 250 < unat (quantityW m)"
  shows "ciaaModbus_masterRecvMsg h i pdu n ms mem = None"
proof -
  have c: "ms_cmd m \<noteq> 0" "quantityW m \<noteq> 0" using assms(2,5) by (auto simp: fcn_defs)
  let ?q = "uint (quantityW m)"
  have q1: "?q = int (unat (quantityW m))" by simp
  have q2: "0 < ?q" unfolding q1 using assms(5) by linarith
  note q = q1 q2
  have k: "copy_loop p 6 bs 0 0 ?q = None" if p: "length p = 256" for p
  proof (cases "copy_loop p 6 bs 0 0 ?q")
    case (Some r)
    have "?q + 0 \<le> int (length bs)" by (rule copy_loop_source [OF Some q(2)])
    moreover have "?q + 6 \<le> int (length p)" using copy_loop_bounds [OF Some q(2)] by simp
    ultimately show ?thesis using assms(5) p q(1) by linarith
  qed
  have nr: "ms_cmd m \<notin> {FCN_READ_COILS, FCN_READ_DISCRETE_INPUTS, FCN_READ_HOLDING_REGISTERS, FCN_READ_INPUT_REGISTERS}"
    "ms_cmd m \<notin> {FCN_WRITE_SINGLE_COIL, FCN_WRITE_SINGLE_REGISTER}" using assms(2) by (auto simp: fcn_defs)
  show ?thesis
    using assms(1-4) c nr k by (simp add: ciaaModbus_masterRecvMsg_def recv_start store_int store_byte Let_def)
qed

text \<open>a master without a command does not say that it has no message. The size that the gateway keeps for it is
  that of the last reply, and stays; so the gateway takes the reply that is still in its buffer for a new request,
  and goes on to route it to the slave.\<close>

lemma master_repeats:
  assumes "cl_inUse c" "cl_state c = STATE_IDLE" "cl_module c = Some ModuleMaster" "cl_buffer c < length (st_bufs w)"
    and "rdi (st_masters w) (cl_handler c) = Some m" "ms_cmd m = 0" and "1 \<le> cl_size c"
  shows "ciaaModbus_gatewayClientProcess (stack_ops set_baud cfg ev mev time_base) time_base c svs w =
    Some (1, c\<lparr>cl_state := STATE_ROUTING\<rparr>, svs, w)"
  using assms
  by (simp add: ciaaModbus_gatewayClientProcess_def ciaaModbus_gatewayClientStateIdle_def stack_ops_def stack_task_def stack_recv_def
      ciaaModbus_masterTask_def ciaaModbus_masterRecvMsg_def mem_simps REQ_PDU_MINLENGTH_def Let_def)

end
