(* ===== verification/PlcRegister.thy ===== *)
theory PlcRegister
  imports PosixString "HOL-Library.Signed_Division"
begin

text \<open>
  The data of the programmable logic controller, \<^verbatim>\<open>modules/plc\<close>: the elementary types
  (\<^verbatim>\<open>inc/PLC_ElementaryDataTypes.h\<close>), the current-result register, a union of all of them (\<^verbatim>\<open>inc/PLC_Registers.h\<close>),
  and what the C compiler does with its integers.

  A union is its bytes, and so is an object of a program behind a \<^verbatim>\<open>void*\<close>: a list that starts where the pointer points.
  The processor is little endian. Structures have the layout of the ARM ABI.
\<close>

section \<open>The types\<close>

datatype PLC_EnumDataTypes = PLC_BOOL | PLC_BYTE | PLC_WORD | PLC_DWORD | PLC_LWORD | PLC_SINT | PLC_INT | PLC_DINT | PLC_LINT
  | PLC_USINT | PLC_UINT | PLC_UDINT | PLC_ULINT | PLC_REAL | PLC_LREAL | PLC_TIME | PLC_D | PLC_TOD | PLC_DT
  | PLC_STRING | PLC_WSTRING | PLC_BCD16 | PLC_BCD32 | PLC_OTHER

datatype PLC_EnumModifiers = NullModifier | N_modifier | C_modifier | NullModifierC | NC_modifier

record plc_register =
  cr_TYPE :: PLC_EnumDataTypes
  cr_VALUE :: "uint8 list"

text \<open>The integer types: signed or not, and the number of bytes.\<close>

type_synonym c_type = "bool \<times> nat"

definition c_type_of :: "PLC_EnumDataTypes \<Rightarrow> c_type option" where
  "c_type_of t = (case t of
     PLC_BOOL \<Rightarrow> Some (False, 1) | PLC_BYTE \<Rightarrow> Some (False, 1) | PLC_WORD \<Rightarrow> Some (False, 2)
   | PLC_DWORD \<Rightarrow> Some (False, 4) | PLC_LWORD \<Rightarrow> Some (False, 8)
   | PLC_SINT \<Rightarrow> Some (True, 1) | PLC_INT \<Rightarrow> Some (True, 2) | PLC_DINT \<Rightarrow> Some (True, 4) | PLC_LINT \<Rightarrow> Some (True, 8)
   | PLC_USINT \<Rightarrow> Some (False, 1) | PLC_UINT \<Rightarrow> Some (False, 2) | PLC_UDINT \<Rightarrow> Some (False, 4) | PLC_ULINT \<Rightarrow> Some (False, 8)
   | PLC_TIME \<Rightarrow> Some (True, 4) | PLC_BCD16 \<Rightarrow> Some (True, 2) | PLC_BCD32 \<Rightarrow> Some (True, 4) | _ \<Rightarrow> None)"

section \<open>Access to the bytes\<close>

fun le_nat :: "uint8 list \<Rightarrow> nat" where
  "le_nat [] = 0"
| "le_nat (b # bs) = unat b + 256 * le_nat bs"

primrec le_bytes :: "nat \<Rightarrow> nat \<Rightarrow> uint8 list" where
  "le_bytes 0 v = []"
| "le_bytes (Suc n) v = of_nat (v mod 256) # le_bytes n (v div 256)"

definition get_nat :: "nat \<Rightarrow> nat \<Rightarrow> uint8 list \<Rightarrow> nat option" where
  "get_nat n off m = (if off + n \<le> length m then Some (le_nat (take n (drop off m))) else None)"

definition put_nat :: "nat \<Rightarrow> nat \<Rightarrow> uint8 list \<Rightarrow> uint8 list option" where
  "put_nat n v m = (if n \<le> length m then Some (blit m 0 (le_bytes n v)) else None)"

text \<open>The value of a type, from its bits, and the conversion of any integer to a type.\<close>

definition c_modulus :: "nat \<Rightarrow> int" where
  "c_modulus n = 256 ^ n"

definition c_value :: "c_type \<Rightarrow> nat \<Rightarrow> int" where
  "c_value t v = (if fst t \<and> c_modulus (snd t) \<le> 2 * int v then int v - c_modulus (snd t) else int v)"

definition c_in_range :: "c_type \<Rightarrow> int \<Rightarrow> bool" where
  "c_in_range t x \<longleftrightarrow> (if fst t then - c_modulus (snd t) \<le> 2 * x \<and> 2 * x < c_modulus (snd t) else 0 \<le> x \<and> x < c_modulus (snd t))"

definition c_bits :: "c_type \<Rightarrow> int \<Rightarrow> nat" where
  "c_bits t x = nat (x mod c_modulus (snd t))"

definition get_int :: "c_type \<Rightarrow> uint8 list \<Rightarrow> int option" where
  "get_int t m = do { v \<leftarrow> get_nat (snd t) 0 m; Some (c_value t v) }"

definition put_int :: "c_type \<Rightarrow> int \<Rightarrow> uint8 list \<Rightarrow> uint8 list option" where
  "put_int t x m = put_nat (snd t) (c_bits t x) m"

text \<open>An operation: the operands are promoted to \<^verbatim>\<open>int\<close> if they are shorter, a signed result that is out of range is
  undefined, and an unsigned one wraps around. A division by zero is undefined.\<close>

definition c_promoted :: "c_type \<Rightarrow> c_type" where
  "c_promoted t = (if snd t < 4 then (True, 4) else t)"

definition c_operation :: "(int \<Rightarrow> int \<Rightarrow> int) \<Rightarrow> c_type \<Rightarrow> int \<Rightarrow> int \<Rightarrow> int option" where
  "c_operation f t x y =
     (if fst (c_promoted t) \<and> \<not> c_in_range (c_promoted t) (f x y) then None else Some (f x y))"

definition c_division :: "(int \<Rightarrow> int \<Rightarrow> int) \<Rightarrow> c_type \<Rightarrow> int \<Rightarrow> int \<Rightarrow> int option" where
  "c_division f t x y =
     (if y = 0 \<or> fst (c_promoted t) \<and> \<not> c_in_range (c_promoted t) (x sdiv y) then None else Some (f x y))"

section \<open>Dates and times\<close>

record plc_date =
  D_YEAR :: nat
  D_MONTH :: nat
  D_DAY :: nat
  D_WEEKDAY :: nat

record plc_time_of_day =
  TOD_HOUR :: nat
  TOD_MINUTE :: nat
  TOD_SECOND :: nat
  TOD_NANOSECOND :: nat

record plc_date_and_time =
  DT_YEAR :: nat
  DT_MONTH :: nat
  DT_DAY :: nat
  DT_WEEKDAY :: nat
  DT_HOUR :: nat
  DT_MINUTE :: nat
  DT_SECOND :: nat
  DT_NANOSECOND :: nat

definition get_date :: "uint8 list \<Rightarrow> plc_date option" where
  "get_date m = do {
     y \<leftarrow> get_nat 2 0 m; mo \<leftarrow> get_nat 1 2 m; d \<leftarrow> get_nat 1 3 m; w \<leftarrow> get_nat 1 4 m;
     Some \<lparr>D_YEAR = y, D_MONTH = mo, D_DAY = d, D_WEEKDAY = w\<rparr> }"

definition get_time_of_day :: "uint8 list \<Rightarrow> plc_time_of_day option" where
  "get_time_of_day m = do {
     h \<leftarrow> get_nat 1 0 m; mi \<leftarrow> get_nat 1 1 m; s \<leftarrow> get_nat 1 2 m; ns \<leftarrow> get_nat 4 4 m;
     Some \<lparr>TOD_HOUR = h, TOD_MINUTE = mi, TOD_SECOND = s, TOD_NANOSECOND = ns\<rparr> }"

definition get_date_and_time :: "uint8 list \<Rightarrow> plc_date_and_time option" where
  "get_date_and_time m = do {
     y \<leftarrow> get_nat 2 0 m; mo \<leftarrow> get_nat 1 2 m; d \<leftarrow> get_nat 1 3 m; w \<leftarrow> get_nat 1 4 m;
     h \<leftarrow> get_nat 1 5 m; mi \<leftarrow> get_nat 1 6 m; s \<leftarrow> get_nat 1 7 m; ns \<leftarrow> get_nat 4 8 m;
     Some \<lparr>DT_YEAR = y, DT_MONTH = mo, DT_DAY = d, DT_WEEKDAY = w, DT_HOUR = h, DT_MINUTE = mi, DT_SECOND = s, DT_NANOSECOND = ns\<rparr> }"

section \<open>A byte and its bits\<close>

record plc_1byte =
  b_x0 :: bool
  b_x1 :: bool
  b_x2 :: bool
  b_x3 :: bool
  b_x4 :: bool
  b_x5 :: bool
  b_x6 :: bool
  b_x7 :: bool

definition bit_mask :: "nat \<Rightarrow> uint8" where
  "bit_mask i = push_bit i 1"

definition Convert_PLC_1ByteRegister_2_PLC_BYTE :: "plc_1byte \<Rightarrow> uint8" where
  "Convert_PLC_1ByteRegister_2_PLC_BYTE p =
     (let s = (0 :: uint8); s = (if b_x0 p then s OR bit_mask 0 else s); s = (if b_x1 p then s OR bit_mask 1 else s);
        s = (if b_x2 p then s OR bit_mask 2 else s); s = (if b_x3 p then s OR bit_mask 3 else s);
        s = (if b_x4 p then s OR bit_mask 4 else s); s = (if b_x5 p then s OR bit_mask 5 else s);
        s = (if b_x6 p then s OR bit_mask 6 else s); s = (if b_x7 p then s OR bit_mask 7 else s) in s)"

definition Convert_PLC_BYTE_2_PLC_1ByteRegister :: "uint8 \<Rightarrow> plc_1byte" where
  "Convert_PLC_BYTE_2_PLC_1ByteRegister s =
     (let p = \<lparr>b_x0 = False, b_x1 = False, b_x2 = False, b_x3 = False, b_x4 = False, b_x5 = False, b_x6 = False, b_x7 = False\<rparr>;
        p = (if s AND bit_mask 0 \<noteq> 0 then p\<lparr>b_x0 := True\<rparr> else p); p = (if s AND bit_mask 1 \<noteq> 0 then p\<lparr>b_x1 := True\<rparr> else p);
        p = (if s AND bit_mask 2 \<noteq> 0 then p\<lparr>b_x2 := True\<rparr> else p); p = (if s AND bit_mask 3 \<noteq> 0 then p\<lparr>b_x3 := True\<rparr> else p);
        p = (if s AND bit_mask 4 \<noteq> 0 then p\<lparr>b_x4 := True\<rparr> else p); p = (if s AND bit_mask 5 \<noteq> 0 then p\<lparr>b_x5 := True\<rparr> else p);
        p = (if s AND bit_mask 6 \<noteq> 0 then p\<lparr>b_x6 := True\<rparr> else p); p = (if s AND bit_mask 7 \<noteq> 0 then p\<lparr>b_x7 := True\<rparr> else p) in p)"

text \<open>The day of the week (\<^verbatim>\<open>src/PLC_Lib.c\<close>), in \<^verbatim>\<open>int\<close>; the division of C truncates.\<close>

definition DT_Weekday :: "int \<Rightarrow> int \<Rightarrow> int \<Rightarrow> int" where
  "DT_Weekday Year Month Day =
     (let a = (14 - Month) sdiv 12;
          y = Year - a;
          m = Month + 12 * a - 2;
          NumZeller = (Day + y + y sdiv 4 - y sdiv 100 + y sdiv 400 + (31 * m) sdiv 12) smod 7
      in NumZeller + 1)"

end
