(* ===== verification/PlcInstructions.thy ===== *)
theory PlcInstructions
  imports PlcRegister
begin

text \<open>
  The instructions of the programmable logic controller, \<^verbatim>\<open>modules/plc/src/PLC_IL_Instructions.c\<close>: an accumulator machine on
  the current-result register.

  Each function is a \<^verbatim>\<open>switch\<close> over the type whose cases differ in the type only; the integer types share one
  equation here, and \<open>c_type_of\<close> gives each its size and sign. An operand is the list of the bytes from its
  address on. The arithmetic on \<^verbatim>\<open>float\<close> and \<^verbatim>\<open>double\<close> is the processor's: a \<open>float_unit\<close>, on the bit patterns, the size first.
\<close>

section \<open>The processor's arithmetic on reals\<close>

record float_unit =
  fl_eq :: "nat \<Rightarrow> nat \<Rightarrow> nat \<Rightarrow> bool"
  fl_less :: "nat \<Rightarrow> nat \<Rightarrow> nat \<Rightarrow> bool"
  fl_less_eq :: "nat \<Rightarrow> nat \<Rightarrow> nat \<Rightarrow> bool"
  fl_add :: "nat \<Rightarrow> nat \<Rightarrow> nat \<Rightarrow> nat"
  fl_sub :: "nat \<Rightarrow> nat \<Rightarrow> nat \<Rightarrow> nat"
  fl_mul :: "nat \<Rightarrow> nat \<Rightarrow> nat \<Rightarrow> nat"
  fl_div :: "nat \<Rightarrow> nat \<Rightarrow> nat \<Rightarrow> nat"

section \<open>Load and store\<close>

definition set_value :: "plc_register \<Rightarrow> uint8 list option \<Rightarrow> plc_register option" where
  "set_value cr m = do { v \<leftarrow> m; Some (cr\<lparr>cr_VALUE := v\<rparr>) }"

definition c_not :: "int \<Rightarrow> int" where
  "c_not x = (if x = 0 then 1 else 0)"

definition PLC_IL_LD_BOOL_Literal :: "int \<Rightarrow> PLC_EnumModifiers \<Rightarrow> plc_register \<Rightarrow> plc_register option" where
  "PLC_IL_LD_BOOL_Literal newValue modifier cr =
     set_value cr (put_int (False, 1) (if modifier = N_modifier then c_not newValue else newValue) (cr_VALUE cr))"

definition PLC_IL_LD_INT_Literal :: "int \<Rightarrow> PLC_EnumModifiers \<Rightarrow> plc_register \<Rightarrow> plc_register option" where
  "PLC_IL_LD_INT_Literal newValue modifier cr =
     set_value cr (put_int (True, 2) (if modifier = N_modifier then NOT newValue else newValue) (cr_VALUE cr))"

definition PLC_IL_LD_TIME_Literal :: "int \<Rightarrow> PLC_EnumModifiers \<Rightarrow> plc_register \<Rightarrow> plc_register option" where
  "PLC_IL_LD_TIME_Literal newValue modifier cr =
     set_value cr (put_int (True, 4) (if modifier = N_modifier then NOT newValue else newValue) (cr_VALUE cr))"

text \<open>The loop that copies or inverts bytes, in ascending order.\<close>

primrec copy_inverted :: "bool \<Rightarrow> uint8 list \<Rightarrow> uint8 list \<Rightarrow> nat \<Rightarrow> uint8 list option" where
  "copy_inverted neg dst src 0 = Some dst"
| "copy_inverted neg dst src (Suc n) = do {
     dst \<leftarrow> copy_inverted neg dst src n;
     b \<leftarrow> rd src n;
     wr dst n (if neg then NOT b else b) }"

definition copy_object :: "nat \<Rightarrow> uint8 list \<Rightarrow> uint8 list \<Rightarrow> uint8 list option" where
  "copy_object n src m = copy_inverted False m src n"

definition PLC_IL_LD :: "uint8 list \<Rightarrow> uint16 \<Rightarrow> PLC_EnumDataTypes \<Rightarrow> PLC_EnumModifiers \<Rightarrow> plc_register \<Rightarrow> plc_register option" where
  "PLC_IL_LD newValue lenght type modifier cr = (
     let cr = cr\<lparr>cr_TYPE := type\<rparr>; N = (modifier = N_modifier) in
     case type of
       PLC_BOOL \<Rightarrow> do { v \<leftarrow> get_int (False, 1) newValue; set_value cr (put_int (False, 1) (if N then c_not v else v) (cr_VALUE cr)) }
     | PLC_REAL \<Rightarrow> set_value cr (copy_object 4 newValue (cr_VALUE cr))
     | PLC_LREAL \<Rightarrow> set_value cr (copy_object 8 newValue (cr_VALUE cr))
     | PLC_D \<Rightarrow> set_value cr (copy_object 6 newValue (cr_VALUE cr))
     | PLC_TOD \<Rightarrow> set_value cr (copy_object 8 newValue (cr_VALUE cr))
     | PLC_DT \<Rightarrow> set_value cr (copy_object 12 newValue (cr_VALUE cr))
     | PLC_STRING \<Rightarrow> Some cr
     | PLC_WSTRING \<Rightarrow> Some cr
     | PLC_OTHER \<Rightarrow> set_value cr (copy_inverted N (cr_VALUE cr) newValue (unat lenght))
     | _ \<Rightarrow> do {
         t \<leftarrow> c_type_of type;
         v \<leftarrow> get_int t newValue;
         set_value cr (put_int t (if N then NOT v else v) (cr_VALUE cr)) })"

definition PLC_IL_ST :: "uint8 list \<Rightarrow> uint16 \<Rightarrow> PLC_EnumModifiers \<Rightarrow> plc_register \<Rightarrow> uint8 list option" where
  "PLC_IL_ST newValue lenght modifier cr = copy_inverted (modifier = N_modifier) newValue (cr_VALUE cr) (unat lenght)"

definition PLC_IL_S :: "uint8 list \<Rightarrow> plc_register \<Rightarrow> uint8 list option" where
  "PLC_IL_S operand cr = do {
     c \<leftarrow> (if cr_TYPE cr = PLC_BOOL then do { v \<leftarrow> get_int (False, 1) (cr_VALUE cr); Some (v \<noteq> 0) } else Some False);
     if c then put_int (False, 1) 1 operand else Some operand }"

definition PLC_IL_R :: "uint8 list \<Rightarrow> plc_register \<Rightarrow> uint8 list option" where
  "PLC_IL_R operand cr = do {
     c \<leftarrow> (if cr_TYPE cr = PLC_BOOL then do { v \<leftarrow> get_int (False, 1) (cr_VALUE cr); Some (v \<noteq> 0) } else Some False);
     if c then put_int (False, 1) 0 operand else Some operand }"

section \<open>Comparison\<close>

text \<open>What the six functions share: a wrong type changes nothing; otherwise the register becomes a \<^verbatim>\<open>BOOL\<close> and
  gets the result, for the types that have a comparison.\<close>

definition il_compare :: "(int \<Rightarrow> int \<Rightarrow> bool) \<Rightarrow> (nat \<Rightarrow> nat \<Rightarrow> nat \<Rightarrow> bool) \<Rightarrow> (plc_date \<Rightarrow> plc_date \<Rightarrow> bool) \<Rightarrow>
    (plc_time_of_day \<Rightarrow> plc_time_of_day \<Rightarrow> bool) \<Rightarrow> (plc_date_and_time \<Rightarrow> plc_date_and_time \<Rightarrow> bool) \<Rightarrow>
    uint8 list \<Rightarrow> PLC_EnumDataTypes \<Rightarrow> plc_register \<Rightarrow> plc_register option" where
  "il_compare r_int r_real r_date r_tod r_dt operand type cr = (
     if cr_TYPE cr \<noteq> type then Some cr
     else let cr = cr\<lparr>cr_TYPE := PLC_BOOL\<rparr>; V = cr_VALUE cr in do {
       result \<leftarrow> (case type of
           PLC_REAL \<Rightarrow> do { x \<leftarrow> get_nat 4 0 V; y \<leftarrow> get_nat 4 0 operand; Some (Some (r_real 4 x y)) }
         | PLC_LREAL \<Rightarrow> do { x \<leftarrow> get_nat 8 0 V; y \<leftarrow> get_nat 8 0 operand; Some (Some (r_real 8 x y)) }
         | PLC_D \<Rightarrow> do { x \<leftarrow> get_date V; y \<leftarrow> get_date operand; Some (Some (r_date x y)) }
         | PLC_TOD \<Rightarrow> do { x \<leftarrow> get_time_of_day V; y \<leftarrow> get_time_of_day operand; Some (Some (r_tod x y)) }
         | PLC_DT \<Rightarrow> do { x \<leftarrow> get_date_and_time V; y \<leftarrow> get_date_and_time operand; Some (Some (r_dt x y)) }
         | PLC_STRING \<Rightarrow> Some None
         | PLC_WSTRING \<Rightarrow> Some None
         | PLC_OTHER \<Rightarrow> Some None
         | _ \<Rightarrow> do { t \<leftarrow> c_type_of type; x \<leftarrow> get_int t V; y \<leftarrow> get_int t operand; Some (Some (r_int x y)) });
       case result of
         None \<Rightarrow> Some cr
       | Some b \<Rightarrow> set_value cr (put_int (False, 1) (if b then 1 else 0) V) })"

definition date_eq :: "plc_date \<Rightarrow> plc_date \<Rightarrow> bool" where
  "date_eq x y \<longleftrightarrow> D_YEAR x = D_YEAR y \<and> D_MONTH x = D_MONTH y \<and> D_DAY x = D_DAY y"

definition time_of_day_eq :: "plc_time_of_day \<Rightarrow> plc_time_of_day \<Rightarrow> bool" where
  "time_of_day_eq x y \<longleftrightarrow> TOD_HOUR x = TOD_HOUR y \<and> TOD_MINUTE x = TOD_MINUTE y \<and> TOD_SECOND x = TOD_SECOND y \<and>
     TOD_NANOSECOND x = TOD_NANOSECOND y"

definition date_and_time_eq :: "plc_date_and_time \<Rightarrow> plc_date_and_time \<Rightarrow> bool" where
  "date_and_time_eq x y \<longleftrightarrow> DT_YEAR x = DT_YEAR y \<and> DT_MONTH x = DT_MONTH y \<and> DT_DAY x = DT_DAY y \<and> DT_HOUR x = DT_HOUR y \<and>
     DT_MINUTE x = DT_MINUTE y \<and> DT_SECOND x = DT_SECOND y \<and> DT_NANOSECOND x = DT_NANOSECOND y"

definition date_ne :: "plc_date \<Rightarrow> plc_date \<Rightarrow> bool" where
  "date_ne x y \<longleftrightarrow> D_YEAR x \<noteq> D_YEAR y \<or> D_MONTH x \<noteq> D_MONTH y \<or> D_DAY x \<noteq> D_DAY y"

definition time_of_day_ne :: "plc_time_of_day \<Rightarrow> plc_time_of_day \<Rightarrow> bool" where
  "time_of_day_ne x y \<longleftrightarrow> TOD_HOUR x \<noteq> TOD_HOUR y \<or> TOD_MINUTE x \<noteq> TOD_MINUTE y \<or> TOD_SECOND x \<noteq> TOD_SECOND y \<or>
     TOD_NANOSECOND x \<noteq> TOD_NANOSECOND y"

definition date_and_time_ne :: "plc_date_and_time \<Rightarrow> plc_date_and_time \<Rightarrow> bool" where
  "date_and_time_ne x y \<longleftrightarrow> DT_YEAR x \<noteq> DT_YEAR y \<or> DT_MONTH x \<noteq> DT_MONTH y \<or> DT_DAY x \<noteq> DT_DAY y \<or> DT_HOUR x \<noteq> DT_HOUR y \<or>
     DT_MINUTE x \<noteq> DT_MINUTE y \<or> DT_SECOND x \<noteq> DT_SECOND y \<or> DT_NANOSECOND x \<noteq> DT_NANOSECOND y"

text \<open>The four orders have the same expression, with their own operator \<open>r\<close> in every place.\<close>

definition date_order :: "(nat \<Rightarrow> nat \<Rightarrow> bool) \<Rightarrow> plc_date \<Rightarrow> plc_date \<Rightarrow> bool" where
  "date_order r x y \<longleftrightarrow>
     r (D_YEAR x) (D_YEAR y) \<or>
     (D_YEAR x = D_YEAR y \<and> r (D_MONTH x) (D_MONTH y)) \<or>
     (D_YEAR x = D_YEAR y \<and> D_MONTH x = D_MONTH y \<and> r (D_DAY x) (D_DAY y))"

definition time_of_day_order :: "(nat \<Rightarrow> nat \<Rightarrow> bool) \<Rightarrow> plc_time_of_day \<Rightarrow> plc_time_of_day \<Rightarrow> bool" where
  "time_of_day_order r x y \<longleftrightarrow>
     r (TOD_HOUR x) (TOD_HOUR y) \<or>
     (TOD_HOUR x = TOD_HOUR y \<and> r (TOD_MINUTE x) (TOD_MINUTE y)) \<or>
     (TOD_HOUR x = TOD_HOUR y \<and> TOD_MINUTE x = TOD_MINUTE y \<and> r (TOD_SECOND x) (TOD_SECOND y)) \<or>
     (TOD_HOUR x = TOD_HOUR y \<and> TOD_MINUTE x = TOD_MINUTE y \<and> TOD_SECOND x = TOD_SECOND y \<and>
        r (TOD_NANOSECOND x) (TOD_NANOSECOND y))"

definition date_and_time_order :: "(nat \<Rightarrow> nat \<Rightarrow> bool) \<Rightarrow> plc_date_and_time \<Rightarrow> plc_date_and_time \<Rightarrow> bool" where
  "date_and_time_order r x y \<longleftrightarrow>
     r (DT_YEAR x) (DT_YEAR y) \<or>
     (DT_YEAR x = DT_YEAR y \<and> r (DT_MONTH x) (DT_MONTH y)) \<or>
     (DT_YEAR x = DT_YEAR y \<and> DT_MONTH x = DT_MONTH y \<and> r (DT_DAY x) (DT_DAY y)) \<or>
     (DT_YEAR x = DT_YEAR y \<and> DT_MONTH x = DT_MONTH y \<and> DT_DAY x = DT_DAY y \<and> r (DT_HOUR x) (DT_HOUR y)) \<or>
     (DT_YEAR x = DT_YEAR y \<and> DT_MONTH x = DT_MONTH y \<and> DT_DAY x = DT_DAY y \<and> DT_HOUR x = DT_HOUR y \<and>
        r (DT_MINUTE x) (DT_MINUTE y)) \<or>
     (DT_YEAR x = DT_YEAR y \<and> DT_MONTH x = DT_MONTH y \<and> DT_DAY x = DT_DAY y \<and> DT_HOUR x = DT_HOUR y \<and>
        DT_MINUTE x = DT_MINUTE y \<and> r (DT_SECOND x) (DT_SECOND y)) \<or>
     (DT_YEAR x = DT_YEAR y \<and> DT_MONTH x = DT_MONTH y \<and> DT_DAY x = DT_DAY y \<and> DT_HOUR x = DT_HOUR y \<and>
        DT_MINUTE x = DT_MINUTE y \<and> DT_SECOND x = DT_SECOND y \<and> r (DT_NANOSECOND x) (DT_NANOSECOND y))"

definition PLC_IL_EQ :: "float_unit \<Rightarrow> uint8 list \<Rightarrow> PLC_EnumDataTypes \<Rightarrow> plc_register \<Rightarrow> plc_register option" where
  "PLC_IL_EQ fu = il_compare (\<lambda>x y. x = y) (fl_eq fu) date_eq time_of_day_eq date_and_time_eq"

definition PLC_IL_NE :: "float_unit \<Rightarrow> uint8 list \<Rightarrow> PLC_EnumDataTypes \<Rightarrow> plc_register \<Rightarrow> plc_register option" where
  "PLC_IL_NE fu = il_compare (\<lambda>x y. x \<noteq> y) (\<lambda>n x y. \<not> fl_eq fu n x y) date_ne time_of_day_ne date_and_time_ne"

definition PLC_IL_GT :: "float_unit \<Rightarrow> uint8 list \<Rightarrow> PLC_EnumDataTypes \<Rightarrow> plc_register \<Rightarrow> plc_register option" where
  "PLC_IL_GT fu = il_compare (\<lambda>x y. y < x) (\<lambda>n x y. fl_less fu n y x)
     (date_order (\<lambda>x y. y < x)) (time_of_day_order (\<lambda>x y. y < x)) (date_and_time_order (\<lambda>x y. y < x))"

definition PLC_IL_GE :: "float_unit \<Rightarrow> uint8 list \<Rightarrow> PLC_EnumDataTypes \<Rightarrow> plc_register \<Rightarrow> plc_register option" where
  "PLC_IL_GE fu = il_compare (\<lambda>x y. y \<le> x) (\<lambda>n x y. fl_less_eq fu n y x)
     (date_order (\<lambda>x y. y \<le> x)) (time_of_day_order (\<lambda>x y. y \<le> x)) (date_and_time_order (\<lambda>x y. y \<le> x))"

definition PLC_IL_LT :: "float_unit \<Rightarrow> uint8 list \<Rightarrow> PLC_EnumDataTypes \<Rightarrow> plc_register \<Rightarrow> plc_register option" where
  "PLC_IL_LT fu = il_compare (\<lambda>x y. x < y) (\<lambda>n x y. fl_less fu n x y)
     (date_order (\<lambda>x y. x < y)) (time_of_day_order (\<lambda>x y. x < y)) (date_and_time_order (\<lambda>x y. x < y))"

definition PLC_IL_LE :: "float_unit \<Rightarrow> uint8 list \<Rightarrow> PLC_EnumDataTypes \<Rightarrow> plc_register \<Rightarrow> plc_register option" where
  "PLC_IL_LE fu = il_compare (\<lambda>x y. x \<le> y) (\<lambda>n x y. fl_less_eq fu n x y)
     (date_order (\<lambda>x y. x \<le> y)) (time_of_day_order (\<lambda>x y. x \<le> y)) (date_and_time_order (\<lambda>x y. x \<le> y))"

section \<open>Arithmetic\<close>

text \<open>The cases that the functions have: the numbers, and the reals and times for some of them. Every other type
  changes nothing.\<close>

definition is_number :: "PLC_EnumDataTypes \<Rightarrow> bool" where
  "is_number t \<longleftrightarrow> t \<in> {PLC_SINT, PLC_INT, PLC_DINT, PLC_LINT, PLC_USINT, PLC_UINT, PLC_UDINT, PLC_ULINT}"

definition il_integer :: "(c_type \<Rightarrow> int \<Rightarrow> int \<Rightarrow> int option) \<Rightarrow> uint8 list \<Rightarrow> PLC_EnumDataTypes \<Rightarrow> plc_register \<Rightarrow> plc_register option" where
  "il_integer f operand type cr = do {
     t \<leftarrow> c_type_of type;
     x \<leftarrow> get_int t (cr_VALUE cr);
     y \<leftarrow> get_int t operand;
     z \<leftarrow> f t x y;
     set_value cr (put_int t z (cr_VALUE cr)) }"

definition il_real :: "(nat \<Rightarrow> nat \<Rightarrow> nat \<Rightarrow> nat) \<Rightarrow> nat \<Rightarrow> uint8 list \<Rightarrow> plc_register \<Rightarrow> plc_register option" where
  "il_real f n operand cr = do {
     x \<leftarrow> get_nat n 0 (cr_VALUE cr);
     y \<leftarrow> get_nat n 0 operand;
     set_value cr (put_nat n (f n x y) (cr_VALUE cr)) }"

definition il_arithmetic :: "(c_type \<Rightarrow> int \<Rightarrow> int \<Rightarrow> int option) \<Rightarrow> (nat \<Rightarrow> nat \<Rightarrow> nat \<Rightarrow> nat) \<Rightarrow>
    uint8 list \<Rightarrow> PLC_EnumDataTypes \<Rightarrow> plc_register \<Rightarrow> plc_register option" where
  "il_arithmetic f g operand type cr =
     (if cr_TYPE cr \<noteq> type then Some cr
      else if is_number type \<or> type = PLC_TIME then il_integer f operand type cr
      else if type = PLC_REAL then il_real g 4 operand cr
      else if type = PLC_LREAL then il_real g 8 operand cr
      else Some cr)"

definition PLC_IL_ADD :: "float_unit \<Rightarrow> uint8 list \<Rightarrow> PLC_EnumDataTypes \<Rightarrow> plc_register \<Rightarrow> plc_register option" where
  "PLC_IL_ADD fu = il_arithmetic (c_operation (\<lambda>x y. x + y)) (fl_add fu)"

definition PLC_IL_SUB :: "float_unit \<Rightarrow> uint8 list \<Rightarrow> PLC_EnumDataTypes \<Rightarrow> plc_register \<Rightarrow> plc_register option" where
  "PLC_IL_SUB fu = il_arithmetic (c_operation (\<lambda>x y. x - y)) (fl_sub fu)"

definition PLC_IL_MUL :: "float_unit \<Rightarrow> uint8 list \<Rightarrow> PLC_EnumDataTypes \<Rightarrow> plc_register \<Rightarrow> plc_register option" where
  "PLC_IL_MUL fu = il_arithmetic (c_operation (\<lambda>x y. x * y)) (fl_mul fu)"

definition PLC_IL_DIV :: "float_unit \<Rightarrow> uint8 list \<Rightarrow> PLC_EnumDataTypes \<Rightarrow> plc_register \<Rightarrow> plc_register option" where
  "PLC_IL_DIV fu = il_arithmetic (c_division (\<lambda>x y. x sdiv y)) (fl_div fu)"

definition PLC_IL_MOD :: "uint8 list \<Rightarrow> PLC_EnumDataTypes \<Rightarrow> plc_register \<Rightarrow> plc_register option" where
  "PLC_IL_MOD operand type cr =
     (if cr_TYPE cr \<noteq> type then Some cr
      else if is_number type then il_integer (c_division (\<lambda>x y. x smod y)) operand type cr
      else Some cr)"

section \<open>Logic\<close>

definition is_bits :: "PLC_EnumDataTypes \<Rightarrow> bool" where
  "is_bits t \<longleftrightarrow> t \<in> {PLC_BYTE, PLC_WORD, PLC_DWORD, PLC_LWORD}"

definition il_logic :: "(int \<Rightarrow> int \<Rightarrow> int) \<Rightarrow> uint8 list \<Rightarrow> PLC_EnumDataTypes \<Rightarrow> PLC_EnumModifiers \<Rightarrow> plc_register \<Rightarrow> plc_register option" where
  "il_logic f operand type modifier cr =
     (if cr_TYPE cr \<noteq> type then Some cr
      else if type = PLC_BOOL then
        il_integer (\<lambda>t x y. Some (f x (if modifier = N_modifier then c_not y else y))) operand type cr
      else if is_bits type then
        il_integer (\<lambda>t x y. Some (f x (if modifier = N_modifier then NOT y else y))) operand type cr
      else Some cr)"

definition PLC_IL_AND :: "uint8 list \<Rightarrow> PLC_EnumDataTypes \<Rightarrow> PLC_EnumModifiers \<Rightarrow> plc_register \<Rightarrow> plc_register option" where
  "PLC_IL_AND = il_logic (\<lambda>x y. x AND y)"

definition PLC_IL_OR :: "uint8 list \<Rightarrow> PLC_EnumDataTypes \<Rightarrow> PLC_EnumModifiers \<Rightarrow> plc_register \<Rightarrow> plc_register option" where
  "PLC_IL_OR = il_logic (\<lambda>x y. x OR y)"

definition PLC_IL_XOR :: "uint8 list \<Rightarrow> PLC_EnumDataTypes \<Rightarrow> PLC_EnumModifiers \<Rightarrow> plc_register \<Rightarrow> plc_register option" where
  "PLC_IL_XOR = il_logic (\<lambda>x y. x XOR y)"

definition PLC_IL_NOT :: "PLC_EnumDataTypes \<Rightarrow> plc_register \<Rightarrow> plc_register option" where
  "PLC_IL_NOT type cr =
     (if type = PLC_BOOL \<or> is_bits type then do {
        t \<leftarrow> c_type_of type;
        x \<leftarrow> get_int t (cr_VALUE cr);
        set_value cr (put_int t (if type = PLC_BOOL then c_not x else NOT x) (cr_VALUE cr)) }
      else Some cr)"

end
