(* ===== verification/PlcHardware.thy ===== *)
theory PlcHardware
  imports Board
begin

text \<open>
  The inputs and outputs of the programmable logic controller, \<^verbatim>\<open>modules/plc/src/PLC_Hardware.c\<close>: one byte each, through the
  files of \<open>Devices\<close>. The ports are opened in the same order as the application opens them.
\<close>

record plc_io =
  io_fd_in :: int
  io_fd_out :: int
  io_files :: dev_sys

definition PLC_DIs_Init :: "plc_io \<Rightarrow> plc_io option" where
  "PLC_DIs_Init p = do {
     (fd, s) \<leftarrow> ciaaPOSIX_open (''/dev/dio/in/0'' @ [ZERO]) (io_files p);
     Some (p\<lparr>io_fd_in := fd, io_files := s\<rparr>) }"

definition PLC_DOs_Init :: "plc_io \<Rightarrow> plc_io option" where
  "PLC_DOs_Init p = do {
     (fd, s) \<leftarrow> ciaaPOSIX_open (''/dev/dio/out/0'' @ [ZERO]) (io_files p);
     Some (p\<lparr>io_fd_out := fd, io_files := s\<rparr>) }"

definition PLC_DIOs_Init :: "plc_io \<Rightarrow> plc_io option" where
  "PLC_DIOs_Init p = do { p \<leftarrow> PLC_DOs_Init p; PLC_DIs_Init p }"

definition PLC_Read_DIs :: "plc_io \<Rightarrow> uint8 option" where
  "PLC_Read_DIs p = do { (ret, buf) \<leftarrow> ciaaPOSIX_read (io_fd_in p) [0] 1 (io_files p); rd buf 0 }"

definition PLC_Write_DOs :: "uint8 \<Rightarrow> plc_io \<Rightarrow> plc_io option" where
  "PLC_Write_DOs salidas p = do {
     (ret, s) \<leftarrow> ciaaPOSIX_write (io_fd_out p) [salidas] 1 (io_files p);
     Some (p\<lparr>io_files := s\<rparr>) }"

text \<open>From the reset, as the kernel's start leaves the files.\<close>

definition plc_start :: "(nat \<Rightarrow> char) \<Rightarrow> gpio \<Rightarrow> plc_io option" where
  "plc_start junk g = do {
     s \<leftarrow> dio_start junk (dev_reset g);
     PLC_DIOs_Init \<lparr>io_fd_in = 0, io_fd_out = 0, io_files = s\<rparr> }"

lemma plc_start_ports:
  "plc_start junk g = map_option (\<lambda>(fo, fi, s). \<lparr>io_fd_in = fi, io_fd_out = fo, io_files = s\<rparr>) (open_ports junk g)"
  by (cases "dio_start junk (dev_reset g)")
    (auto simp: plc_start_def open_ports_def PLC_DIOs_Init_def PLC_DOs_Init_def PLC_DIs_Init_def map_option_case
      split: option.splits bind_splits)

lemma plc_started: "\<exists>s. plc_start junk g = Some \<lparr>io_fd_in = 1, io_fd_out = 0, io_files = s\<rparr> \<and> opened s \<and> gpio_pins s = gpio_init g"
  using open_ports_ok [of junk g] by (auto simp: plc_start_ports opened_def)

lemma plc_read:
  "opened s \<Longrightarrow> PLC_Read_DIs \<lparr>io_fd_in = 1, io_fd_out = 0, io_files = s\<rparr> = Some (pins_byte (gpio_pins s) 7 0)"
  using read_opened [of s 0] by (simp add: PLC_Read_DIs_def rd_def)

text \<open>The driver of this board has sixteen outputs, and the controller hands over one byte.\<close>

lemma plc_write_overrun: "opened s \<Longrightarrow> PLC_Write_DOs v \<lparr>io_fd_in = 1, io_fd_out = 0, io_files = s\<rparr> = None"
  using dio_short_buffer [of v "gpio_pins s"]
  by (simp add: PLC_Write_DOs_def opened_def ciaaPOSIX_write_def device_of_def ciaaPOSIX_stdio_MAXFILDES_def rd_def dev_write_def)

end
