(* ===== verification/PlcProps.thy ===== *)
theory PlcProps
  imports PlcInstructions "HOL-Library.List_Lexorder"
begin

text \<open>
  What the instructions of the controller compute: the bytes of the register as the values of C's types, comparison and
  arithmetic on them, and the places where the code does something else than the standard of the language says.
\<close>

section \<open>Bytes and values\<close>

lemma length_le_bytes [simp]: "length (le_bytes n v) = n"
  by (induction n arbitrary: v) simp_all

lemma le_nat_le_bytes: "le_nat (le_bytes n v) = v mod 256 ^ n"
proof (induction n arbitrary: v)
  case (Suc n)
  have "unat (of_nat (v mod 256) :: uint8) = v mod 256" by (simp add: unsigned_of_nat take_bit_eq_mod)
  then show ?case by (simp add: Suc mod_mult2_eq)
qed simp

lemma le_nat_less: "le_nat bs < 256 ^ length bs"
proof (induction bs)
  case (Cons b bs)
  have "unat b < 256" using unsigned_less [of b] by simp
  then have "le_nat (b # bs) < 256 * (le_nat bs + 1)" by simp
  also have "\<dots> \<le> 256 * 256 ^ length bs" using Cons by (intro mult_le_mono) simp_all
  finally show ?case by simp
qed simp

lemma le_bytes_le_nat: "le_bytes (length bs) (le_nat bs) = bs"
proof (induction bs)
  case (Cons b bs)
  have u: "unat b < 256" using unsigned_less [of b] by simp
  have "(unat b + 256 * le_nat bs) mod 256 = unat b" "(unat b + 256 * le_nat bs) div 256 = le_nat bs" using u by simp_all
  then show ?case by (simp add: Cons)
qed simp

lemma le_bytes_mod: "le_bytes n (v mod 256 ^ n) = le_bytes n v"
  by (metis length_le_bytes le_bytes_le_nat le_nat_le_bytes)

lemma get_nat_bits: "get_nat n 0 m = Some v \<Longrightarrow> v < 256 ^ n \<and> n \<le> length m \<and> le_bytes n v = take n m"
  using le_nat_less [of "take n m"] le_bytes_le_nat [of "take n m"]
  by (auto simp: get_nat_def min_absorb2 split: if_splits)

lemma get_put_nat: "n \<le> length m \<Longrightarrow> get_nat n 0 (blit m 0 (le_bytes n v)) = Some (v mod 256 ^ n)"
  by (simp add: get_nat_def blit_def le_nat_le_bytes)

lemma c_modulus_pos: "0 < c_modulus n"
  by (simp add: c_modulus_def)

lemma c_value_bits: "c_in_range t x \<Longrightarrow> c_value t (c_bits t x) = x"
proof -
  assume r: "c_in_range t x"
  have p: "0 < c_modulus (snd t)" by (rule c_modulus_pos)
  show ?thesis
  proof (cases "0 \<le> x")
    case True
    with r p have "x < c_modulus (snd t)" by (auto simp: c_in_range_def split: if_splits)
    with r True show ?thesis by (auto simp: c_value_def c_bits_def c_in_range_def)
  next
    case False
    with r have 2: "fst t" "x < 0" "- c_modulus (snd t) \<le> 2 * x" by (auto simp: c_in_range_def split: if_splits)
    then have "x mod c_modulus (snd t) = x + c_modulus (snd t)"
      using p mod_pos_pos_trivial [of "x + c_modulus (snd t)" "c_modulus (snd t)"] by simp
    with 2 p show ?thesis by (simp add: c_value_def c_bits_def)
  qed
qed

lemma c_bits_value: "v < 256 ^ snd t \<Longrightarrow> c_bits t (c_value t v) = v"
proof -
  assume "v < 256 ^ snd t"
  then have v: "int v < c_modulus (snd t)"
    by (simp add: c_modulus_def)
  then have "c_value t v mod c_modulus (snd t) = int v" by (auto simp: c_value_def)
  then show ?thesis by (simp add: c_bits_def)
qed

lemma c_bits_less: "c_bits t x < 256 ^ snd t"
proof -
  have "x mod c_modulus (snd t) < c_modulus (snd t)" by (simp add: c_modulus_pos)
  then have "x mod c_modulus (snd t) < int (256 ^ snd t)" by (simp add: c_modulus_def)
  moreover have "0 \<le> x mod c_modulus (snd t)" by (simp add: c_modulus_pos)
  ultimately show ?thesis unfolding c_bits_def by linarith
qed

lemma c_value_in_range: "v < 256 ^ snd t \<Longrightarrow> c_in_range t (c_value t v)"
proof -
  assume "v < 256 ^ snd t"
  then have "int v < c_modulus (snd t)"
    by (simp add: c_modulus_def)
  then show ?thesis by (auto simp: c_value_def c_in_range_def)
qed

lemma get_int_in_range: "get_int t m = Some x \<Longrightarrow> c_in_range t x \<and> snd t \<le> length m"
  using get_nat_bits [of "snd t" m] by (auto simp: get_int_def bind_eq_Some_conv c_value_in_range)

lemma put_int_get:
  assumes "snd t \<le> length m"
  shows "\<exists>m'. put_int t x m = Some m' \<and> length m' = length m \<and> get_int t m' = Some (c_value t (c_bits t x)) \<and>
    m' = le_bytes (snd t) (c_bits t x) @ drop (snd t) m"
proof -
  have "get_nat (snd t) 0 (blit m 0 (le_bytes (snd t) (c_bits t x))) = Some (c_bits t x)"
    using get_put_nat [OF assms, of "c_bits t x"] c_bits_less [of t x] by simp
  with assms show ?thesis by (simp add: put_int_def put_nat_def get_int_def blit_def)
qed

text \<open>A byte and its eight inputs: the two conversions are inverse to each other.\<close>

lemma bit_mask_set: "(s :: uint8) AND bit_mask i \<noteq> 0 \<longleftrightarrow> bit s i"
  by (simp add: bit_mask_def and_exp_eq_0_iff_not_bit [of s i, simplified push_bit_of_1] push_bit_of_1)

lemma input_update:
  "(if c then p\<lparr>b_x0 := True\<rparr> else p) = p\<lparr>b_x0 := b_x0 p \<or> c\<rparr>"
  "(if c then p\<lparr>b_x1 := True\<rparr> else p) = p\<lparr>b_x1 := b_x1 p \<or> c\<rparr>"
  "(if c then p\<lparr>b_x2 := True\<rparr> else p) = p\<lparr>b_x2 := b_x2 p \<or> c\<rparr>"
  "(if c then p\<lparr>b_x3 := True\<rparr> else p) = p\<lparr>b_x3 := b_x3 p \<or> c\<rparr>"
  "(if c then p\<lparr>b_x4 := True\<rparr> else p) = p\<lparr>b_x4 := b_x4 p \<or> c\<rparr>"
  "(if c then p\<lparr>b_x5 := True\<rparr> else p) = p\<lparr>b_x5 := b_x5 p \<or> c\<rparr>"
  "(if c then p\<lparr>b_x6 := True\<rparr> else p) = p\<lparr>b_x6 := b_x6 p \<or> c\<rparr>"
  "(if c then p\<lparr>b_x7 := True\<rparr> else p) = p\<lparr>b_x7 := b_x7 p \<or> c\<rparr>"
  by simp_all

lemma inputs_are_bits: "Convert_PLC_BYTE_2_PLC_1ByteRegister s = \<lparr>b_x0 = bit s 0, b_x1 = bit s 1, b_x2 = bit s 2, b_x3 = bit s 3, b_x4 = bit s 4, b_x5 = bit s 5, b_x6 = bit s 6, b_x7 = bit s 7\<rparr>"
  unfolding Convert_PLC_BYTE_2_PLC_1ByteRegister_def Let_def bit_mask_set input_update by simp

lemma or_if: "(if c then s OR m else s) = s OR (if c then m else (0 :: uint8))"
  by simp

lemma bit_if_mask: "bit (if c then bit_mask i else 0) j \<longleftrightarrow> c \<and> i = j \<and> j < 8"
  by (auto simp: bit_mask_def bit_simps)

lemma bits_of_byte:
  "bit (Convert_PLC_1ByteRegister_2_PLC_BYTE p) 0 = b_x0 p" "bit (Convert_PLC_1ByteRegister_2_PLC_BYTE p) 1 = b_x1 p" "bit (Convert_PLC_1ByteRegister_2_PLC_BYTE p) 2 = b_x2 p" "bit (Convert_PLC_1ByteRegister_2_PLC_BYTE p) 3 = b_x3 p" "bit (Convert_PLC_1ByteRegister_2_PLC_BYTE p) 4 = b_x4 p" "bit (Convert_PLC_1ByteRegister_2_PLC_BYTE p) 5 = b_x5 p" "bit (Convert_PLC_1ByteRegister_2_PLC_BYTE p) 6 = b_x6 p" "bit (Convert_PLC_1ByteRegister_2_PLC_BYTE p) 7 = b_x7 p"
  unfolding Convert_PLC_1ByteRegister_2_PLC_BYTE_def Let_def or_if bit_or_iff bit_if_mask bit_0_eq by simp_all

lemma byte_of_inputs: "Convert_PLC_BYTE_2_PLC_1ByteRegister (Convert_PLC_1ByteRegister_2_PLC_BYTE p) = p"
  unfolding inputs_are_bits bits_of_byte by simp

lemma inputs_of_byte: "Convert_PLC_1ByteRegister_2_PLC_BYTE (Convert_PLC_BYTE_2_PLC_1ByteRegister s) = s"
proof (rule bit_word_eqI)
  fix n
  assume "n < LENGTH(8)"
  then have "n = 0 \<or> n = 1 \<or> n = 2 \<or> n = 3 \<or> n = 4 \<or> n = 5 \<or> n = 6 \<or> n = 7" by auto
  then show "bit (Convert_PLC_1ByteRegister_2_PLC_BYTE (Convert_PLC_BYTE_2_PLC_1ByteRegister s)) n = bit s n"
    unfolding inputs_are_bits by (elim disjE) (simp_all only: bits_of_byte plc_1byte.simps)
qed

section \<open>Comparison\<close>

definition bool_result :: "bool \<Rightarrow> plc_register \<Rightarrow> plc_register" where
  "bool_result b cr = cr\<lparr>cr_TYPE := PLC_BOOL, cr_VALUE := (cr_VALUE cr)[0 := if b then 1 else 0]\<rparr>"

lemma put_bool: "m \<noteq> [] \<Longrightarrow> put_int (False, 1) (if b then 1 else 0) m = Some (m[0 := if b then 1 else 0])"
  by (cases m) (simp_all add: put_int_def put_nat_def c_bits_def c_modulus_def blit_def)

lemma c_type_size: "c_type_of t = Some ty \<Longrightarrow> 1 \<le> snd ty \<and> snd ty \<le> 8"
  by (auto simp: c_type_of_def split: PLC_EnumDataTypes.splits)

lemma compare_int:
  assumes "c_type_of t = Some ty" and "cr_TYPE cr = t" and "get_int ty (cr_VALUE cr) = Some x" "get_int ty operand = Some y"
  shows "il_compare r rr ed et edt operand t cr = Some (bool_result (r x y) cr)"
proof -
  have "cr_VALUE cr \<noteq> []" using get_int_in_range [OF assms(3)] c_type_size [OF assms(1)] by auto
  from put_bool [OF this, of "r x y"]
  show ?thesis
    using assms by (cases t) (auto simp: il_compare_def set_value_def bool_result_def c_type_of_def Let_def)
qed

lemma get_nat_nonempty: "get_nat n k m = Some v \<Longrightarrow> 0 < n \<Longrightarrow> m \<noteq> []"
  by (auto simp: get_nat_def split: if_splits)

lemma get_date_nonempty: "get_date m = Some x \<Longrightarrow> m \<noteq> []"
  by (auto simp: get_date_def bind_eq_Some_conv dest: get_nat_nonempty)

lemma get_tod_nonempty: "get_time_of_day m = Some x \<Longrightarrow> m \<noteq> []"
  by (auto simp: get_time_of_day_def bind_eq_Some_conv dest: get_nat_nonempty)

lemma get_dt_nonempty: "get_date_and_time m = Some x \<Longrightarrow> m \<noteq> []"
  by (auto simp: get_date_and_time_def bind_eq_Some_conv dest: get_nat_nonempty)

lemma compare_date:
  assumes "cr_TYPE cr = PLC_D" and "get_date (cr_VALUE cr) = Some x" "get_date operand = Some y"
  shows "il_compare r rr ed et edt operand PLC_D cr = Some (bool_result (ed x y) cr)"
  using put_bool [OF get_date_nonempty [OF assms(2)], of "ed x y"] assms
  by (simp add: il_compare_def set_value_def bool_result_def Let_def)

lemma compare_tod:
  assumes "cr_TYPE cr = PLC_TOD" and "get_time_of_day (cr_VALUE cr) = Some x" "get_time_of_day operand = Some y"
  shows "il_compare r rr ed et edt operand PLC_TOD cr = Some (bool_result (et x y) cr)"
  using put_bool [OF get_tod_nonempty [OF assms(2)], of "et x y"] assms
  by (simp add: il_compare_def set_value_def bool_result_def Let_def)

lemma compare_dt:
  assumes "cr_TYPE cr = PLC_DT" and "get_date_and_time (cr_VALUE cr) = Some x" "get_date_and_time operand = Some y"
  shows "il_compare r rr ed et edt operand PLC_DT cr = Some (bool_result (edt x y) cr)"
  using put_bool [OF get_dt_nonempty [OF assms(2)], of "edt x y"] assms
  by (simp add: il_compare_def set_value_def bool_result_def Let_def)

section \<open>Arithmetic\<close>

lemma integer_result:
  assumes "c_type_of t = Some ty" and "get_int ty (cr_VALUE cr) = Some x" "get_int ty operand = Some y" and "f ty x y = Some z"
  shows "\<exists>v. il_integer f operand t cr = Some (cr\<lparr>cr_VALUE := v\<rparr>) \<and> length v = length (cr_VALUE cr) \<and>
    get_int ty v = Some (c_value ty (c_bits ty z))"
proof -
  have "snd ty \<le> length (cr_VALUE cr)" using get_int_in_range [OF assms(2)] by simp
  from put_int_get [OF this, of z] assms show ?thesis by (auto simp: il_integer_def set_value_def)
qed

lemma c_modulus_4: "c_modulus 4 = 2 ^ 32"
  by (simp add: c_modulus_def)

lemma promoted_range: "c_in_range ty z \<Longrightarrow> snd ty \<le> 8 \<Longrightarrow> c_in_range (c_promoted ty) z"
proof (cases "snd ty < 4")
  case True
  assume r: "c_in_range ty z"
  have "c_modulus (snd ty) \<le> 256 ^ 3"
    unfolding c_modulus_def using True by (intro power_increasing) simp_all
  with r True show ?thesis by (auto simp: c_promoted_def c_in_range_def c_modulus_4 split: if_splits)
qed (simp add: c_promoted_def)

lemma operation_exact: "c_in_range ty (f x y) \<Longrightarrow> snd ty \<le> 8 \<Longrightarrow> c_operation f ty x y = Some (f x y)"
  using promoted_range [of ty "f x y"] by (simp add: c_operation_def)

text \<open>The result of an instruction: the register with a new value of the type, of the same number of bytes.\<close>

definition computes :: "c_type \<Rightarrow> plc_register \<Rightarrow> plc_register option \<Rightarrow> int \<Rightarrow> bool" where
  "computes ty cr r z \<longleftrightarrow>
     (\<exists>v. r = Some (cr\<lparr>cr_VALUE := v\<rparr>) \<and> length v = length (cr_VALUE cr) \<and> get_int ty v = Some z)"

lemma computesI:
  assumes "c_type_of t = Some ty" and "get_int ty (cr_VALUE cr) = Some x" "get_int ty operand = Some y" and "f ty x y = Some z"
  shows "computes ty cr (il_integer f operand t cr) (c_value ty (c_bits ty z))"
  using integer_result [of t ty cr x operand y f z] assms by (auto simp: computes_def)

lemma computes_exact:
  assumes "c_type_of t = Some ty" and "get_int ty (cr_VALUE cr) = Some x" "get_int ty operand = Some y" and "f ty x y = Some z"
    and "c_in_range ty z"
  shows "computes ty cr (il_integer f operand t cr) z"
  using computesI [of t ty cr x operand y f z] assms by (simp add: c_value_bits)

lemma computes_unsigned:
  assumes "c_type_of t = Some ty" and "get_int ty (cr_VALUE cr) = Some x" "get_int ty operand = Some y" and "f ty x y = Some z"
    and "\<not> fst ty"
  shows "computes ty cr (il_integer f operand t cr) (z mod c_modulus (snd ty))"
  using computesI [of t ty cr x operand y f z] assms c_modulus_pos [of "snd ty"] by (simp add: c_value_def c_bits_def)

lemma unsigned_sum:
  assumes "is_number t" "c_type_of t = Some ty" "c_in_range ty x" "c_in_range ty y" "\<not> fst ty"
  shows "c_operation (\<lambda>x y. x + y) ty x y = Some (x + y)" "c_operation (\<lambda>x y. x - y) ty x y = Some (x - y)"
  using assms by (auto simp: is_number_def c_type_of_def c_operation_def c_promoted_def c_in_range_def c_modulus_def)

lemma number_type: "is_number t \<Longrightarrow> \<exists>ty. c_type_of t = Some ty"
  by (auto simp: is_number_def c_type_of_def)

lemma smod_in_range: "c_in_range ty x \<Longrightarrow> c_in_range ty y \<Longrightarrow> c_in_range ty (x smod y)"
proof -
  assume x: "c_in_range ty x" and y: "c_in_range ty y"
  have m: "0 \<le> \<bar>x\<bar> mod \<bar>y\<bar>" "\<bar>x\<bar> mod \<bar>y\<bar> \<le> \<bar>x\<bar>"
    by (cases "y = 0"; simp add: pos_mod_sign zmod_le_nonneg_dividend)+
  have "0 \<le> x smod y \<and> x smod y \<le> x \<or> x \<le> x smod y \<and> x smod y \<le> 0"
    using m by (auto simp: smod_int_alt_def sgn_if)
  with x show ?thesis using c_modulus_pos [of "snd ty"] by (auto simp: c_in_range_def split: if_splits)
qed

lemma division_exact: "c_in_range ty (x sdiv y) \<Longrightarrow> snd ty \<le> 8 \<Longrightarrow> y \<noteq> 0 \<Longrightarrow> c_division f ty x y = Some (f x y)"
  using promoted_range [of ty "x sdiv y"] by (simp add: c_division_def)

lemma division_by_zero: "get_int ty operand = Some 0 \<Longrightarrow> c_type_of t = Some ty \<Longrightarrow> il_integer (c_division f) operand t cr = None"
  by (simp add: il_integer_def c_division_def bind_eq_None_conv)

text \<open>A product that does not fit the type of \<^verbatim>\<open>int\<close>, to which the compiler promotes the factors, is undefined
  even if the type of the operands is unsigned.\<close>

lemma mul_uint_undefined: "PLC_IL_MUL fu [255, 255] PLC_UINT \<lparr>cr_TYPE = PLC_UINT, cr_VALUE = [255, 255]\<rparr> = None"
  by (simp add: PLC_IL_MUL_def il_arithmetic_def is_number_def il_integer_def c_type_of_def get_int_def get_nat_def
    c_value_def c_operation_def c_promoted_def c_in_range_def c_modulus_def)

lemma add_usint_wraps:
  "PLC_IL_ADD fu [200] PLC_USINT \<lparr>cr_TYPE = PLC_USINT, cr_VALUE = [100]\<rparr> = Some \<lparr>cr_TYPE = PLC_USINT, cr_VALUE = [44]\<rparr>"
  by code_simp

section \<open>Dates\<close>

text \<open>The fields that a comparison of dates looks at, from the most significant one: the date itself, apart from the day
  of the week. Lists are ordered lexicographically.\<close>

definition stamp :: "PLC_EnumDataTypes \<Rightarrow> uint8 list \<Rightarrow> nat list option" where
  "stamp t m = (case t of
     PLC_D \<Rightarrow> map_option (\<lambda>x. [D_YEAR x, D_MONTH x, D_DAY x]) (get_date m)
   | PLC_TOD \<Rightarrow> map_option (\<lambda>x. [TOD_HOUR x, TOD_MINUTE x, TOD_SECOND x, TOD_NANOSECOND x]) (get_time_of_day m)
   | PLC_DT \<Rightarrow> map_option (\<lambda>x. [DT_YEAR x, DT_MONTH x, DT_DAY x, DT_HOUR x, DT_MINUTE x, DT_SECOND x, DT_NANOSECOND x])
       (get_date_and_time m)
   | _ \<Rightarrow> None)"

lemma stamp_cases:
  assumes "stamp t m = Some s"
  obtains (D) x where "t = PLC_D" "get_date m = Some x" "s = [D_YEAR x, D_MONTH x, D_DAY x]"
  | (TOD) x where "t = PLC_TOD" "get_time_of_day m = Some x" "s = [TOD_HOUR x, TOD_MINUTE x, TOD_SECOND x, TOD_NANOSECOND x]"
  | (DT) x where "t = PLC_DT" "get_date_and_time m = Some x"
      "s = [DT_YEAR x, DT_MONTH x, DT_DAY x, DT_HOUR x, DT_MINUTE x, DT_SECOND x, DT_NANOSECOND x]"
  using assms by (auto simp: stamp_def split: PLC_EnumDataTypes.splits)

text \<open>One law for the six instructions: whatever relation on the fields the three comparisons of dates compute is the
  relation on stamps that the instruction decides.\<close>

lemma compare_stamp:
  assumes "cr_TYPE cr = t" and "stamp t (cr_VALUE cr) = Some x" "stamp t operand = Some y"
    and "\<And>a b. ed a b = R [D_YEAR a, D_MONTH a, D_DAY a] [D_YEAR b, D_MONTH b, D_DAY b]"
    and "\<And>a b. et a b = R [TOD_HOUR a, TOD_MINUTE a, TOD_SECOND a, TOD_NANOSECOND a]
      [TOD_HOUR b, TOD_MINUTE b, TOD_SECOND b, TOD_NANOSECOND b]"
    and "\<And>a b. edt a b = R [DT_YEAR a, DT_MONTH a, DT_DAY a, DT_HOUR a, DT_MINUTE a, DT_SECOND a, DT_NANOSECOND a]
      [DT_YEAR b, DT_MONTH b, DT_DAY b, DT_HOUR b, DT_MINUTE b, DT_SECOND b, DT_NANOSECOND b]"
  shows "il_compare r rr ed et edt operand t cr = Some (bool_result (R x y) cr)"
  using assms(2)
proof (cases rule: stamp_cases)
  case (D a)
  with assms(1,3) compare_date [of cr a operand _ r rr ed et edt] show ?thesis by (auto simp: stamp_def assms(4))
next
  case (TOD a)
  with assms(1,3) compare_tod [of cr a operand _ r rr ed et edt] show ?thesis by (auto simp: stamp_def assms(5))
next
  case (DT a)
  with assms(1,3) compare_dt [of cr a operand _ r rr ed et edt] show ?thesis by (auto simp: stamp_def assms(6))
qed

lemma eq_stamp:
  assumes "cr_TYPE cr = t" and "stamp t (cr_VALUE cr) = Some x" "stamp t operand = Some y"
  shows "PLC_IL_EQ fu operand t cr = Some (bool_result (x = y) cr)"
  unfolding PLC_IL_EQ_def
  by (rule compare_stamp [where R = "\<lambda>x y. x = y", OF assms]) (auto simp: date_eq_def time_of_day_eq_def date_and_time_eq_def)

lemma ne_stamp:
  assumes "cr_TYPE cr = t" and "stamp t (cr_VALUE cr) = Some x" "stamp t operand = Some y"
  shows "PLC_IL_NE fu operand t cr = Some (bool_result (x \<noteq> y) cr)"
proof -
  have ne: "date_ne = (\<lambda>a b. \<not> date_eq a b)" "time_of_day_ne = (\<lambda>a b. \<not> time_of_day_eq a b)"
      "date_and_time_ne = (\<lambda>a b. \<not> date_and_time_eq a b)"
    by (simp_all add: fun_eq_iff date_ne_def date_eq_def time_of_day_ne_def time_of_day_eq_def
      date_and_time_ne_def date_and_time_eq_def)
  show ?thesis
    unfolding PLC_IL_NE_def ne
    by (rule compare_stamp [where R = "\<lambda>x y. x \<noteq> y", OF assms])
      (simp_all add: date_eq_def time_of_day_eq_def date_and_time_eq_def)
qed

text \<open>The expression of the four orders, field by field.\<close>

fun field_order :: "(nat \<Rightarrow> nat \<Rightarrow> bool) \<Rightarrow> nat list \<Rightarrow> nat list \<Rightarrow> bool" where
  "field_order r (a # x) (b # y) \<longleftrightarrow> r a b \<or> a = b \<and> field_order r x y"
| "field_order r _ _ \<longleftrightarrow> False"

lemma date_fields:
  "date_order r a b = field_order r [D_YEAR a, D_MONTH a, D_DAY a] [D_YEAR b, D_MONTH b, D_DAY b]"
  by (simp add: date_order_def conj_disj_distribL conj_assoc)

lemma tod_fields:
  "time_of_day_order r a b = field_order r [TOD_HOUR a, TOD_MINUTE a, TOD_SECOND a, TOD_NANOSECOND a]
     [TOD_HOUR b, TOD_MINUTE b, TOD_SECOND b, TOD_NANOSECOND b]"
  by (simp add: time_of_day_order_def conj_disj_distribL conj_assoc)

lemma dt_fields:
  "date_and_time_order r a b =
     field_order r [DT_YEAR a, DT_MONTH a, DT_DAY a, DT_HOUR a, DT_MINUTE a, DT_SECOND a, DT_NANOSECOND a]
       [DT_YEAR b, DT_MONTH b, DT_DAY b, DT_HOUR b, DT_MINUTE b, DT_SECOND b, DT_NANOSECOND b]"
  by (simp add: date_and_time_order_def conj_disj_distribL conj_assoc)

lemma stamp_length: "stamp t m = Some x \<Longrightarrow> stamp t m' = Some y \<Longrightarrow> length x = length y \<and> x \<noteq> []"
  by (auto simp: stamp_def split: PLC_EnumDataTypes.splits)

lemma compare_fields:
  assumes "cr_TYPE cr = t" and "stamp t (cr_VALUE cr) = Some x" "stamp t operand = Some y"
  shows "il_compare r rr (date_order q) (time_of_day_order q) (date_and_time_order q) operand t cr =
    Some (bool_result (field_order q x y) cr)"
  by (rule compare_stamp [where R = "field_order q", OF assms]) (rule date_fields tod_fields dt_fields)+

lemma field_order_less: "length x = length y \<Longrightarrow> field_order (\<lambda>a b. a < b) x y \<longleftrightarrow> x < y"
  by (induction x y rule: list_induct2) auto

lemma field_order_greater: "length x = length y \<Longrightarrow> field_order (\<lambda>a b. b < a) x y \<longleftrightarrow> y < x"
  by (induction x y rule: list_induct2) auto

lemma field_order_le:
  assumes "\<And>a. r a a"
  shows "length x = length y \<Longrightarrow> x \<noteq> [] \<Longrightarrow> field_order r x y \<longleftrightarrow> r (hd x) (hd y)"
  using assms by (cases x; cases y) auto

lemma gt_stamp:
  assumes "cr_TYPE cr = t" and "stamp t (cr_VALUE cr) = Some x" "stamp t operand = Some y"
  shows "PLC_IL_GT fu operand t cr = Some (bool_result (y < x) cr)"
  using stamp_length [OF assms(2,3)] by (simp add: PLC_IL_GT_def compare_fields [OF assms] field_order_greater)

lemma lt_stamp:
  assumes "cr_TYPE cr = t" and "stamp t (cr_VALUE cr) = Some x" "stamp t operand = Some y"
  shows "PLC_IL_LT fu operand t cr = Some (bool_result (x < y) cr)"
  using stamp_length [OF assms(2,3)] by (simp add: PLC_IL_LT_def compare_fields [OF assms] field_order_less)

text \<open>The other two orders decide on the first field only: it is not smaller than itself.\<close>

lemma ge_stamp:
  assumes "cr_TYPE cr = t" and "stamp t (cr_VALUE cr) = Some x" "stamp t operand = Some y"
  shows "PLC_IL_GE fu operand t cr = Some (bool_result (hd y \<le> hd x) cr)"
  using stamp_length [OF assms(2,3)] by (simp add: PLC_IL_GE_def compare_fields [OF assms] field_order_le)

lemma le_stamp:
  assumes "cr_TYPE cr = t" and "stamp t (cr_VALUE cr) = Some x" "stamp t operand = Some y"
  shows "PLC_IL_LE fu operand t cr = Some (bool_result (hd x \<le> hd y) cr)"
  using stamp_length [OF assms(2,3)] by (simp add: PLC_IL_LE_def compare_fields [OF assms] field_order_le)

text \<open>The first of January is found not to be before the last of December of its year.\<close>

lemma ge_dates_wrong:
  "PLC_IL_GE fu [223, 7, 12, 31, 5, 0] PLC_D \<lparr>cr_TYPE = PLC_D, cr_VALUE = [223, 7, 1, 1, 5, 0]\<rparr> =
     Some \<lparr>cr_TYPE = PLC_BOOL, cr_VALUE = [1, 7, 1, 1, 5, 0]\<rparr>"
  by code_simp

section \<open>Load and store\<close>

text \<open>The size of an object of each type; the strings have no case in the switch of the load.\<close>

definition plc_size :: "PLC_EnumDataTypes \<Rightarrow> uint16 \<Rightarrow> nat option" where
  "plc_size t lenght = (case t of
     PLC_REAL \<Rightarrow> Some 4 | PLC_LREAL \<Rightarrow> Some 8 | PLC_D \<Rightarrow> Some 6 | PLC_TOD \<Rightarrow> Some 8 | PLC_DT \<Rightarrow> Some 12
   | PLC_STRING \<Rightarrow> None | PLC_WSTRING \<Rightarrow> None | PLC_OTHER \<Rightarrow> Some (unat lenght)
   | _ \<Rightarrow> map_option snd (c_type_of t))"

lemma copy_inverted_eq:
  "n \<le> length dst \<Longrightarrow> n \<le> length src \<Longrightarrow>
    copy_inverted neg dst src n = Some (map (\<lambda>b. if neg then NOT b else b) (take n src) @ drop n dst)"
proof (induction n)
  case (Suc n)
  let ?g = "\<lambda>b. if neg then NOT b else b"
  have "drop n dst = dst ! n # drop (Suc n) dst" using Suc.prems by (simp add: Cons_nth_drop_Suc)
  moreover have "take (Suc n) src = take n src @ [src ! n]" using Suc.prems by (simp add: take_Suc_conv_app_nth)
  ultimately show ?case using Suc by (simp add: rd_in wr_in list_update_append min_absorb2)
qed simp

lemma plc_size_less: "plc_size t lenght = Some n \<Longrightarrow> n < 65536"
  using unsigned_less [of lenght] by (auto simp: plc_size_def c_type_of_def split: PLC_EnumDataTypes.splits)

text \<open>The complement of a number has the complement of its bytes.\<close>

lemma le_bytes_complement: "v < 256 ^ n \<Longrightarrow> le_bytes n (256 ^ n - Suc v) = map NOT (le_bytes n v)"
proof (induction n arbitrary: v)
  case (Suc n)
  define q r where "q = v div 256" and "r = v mod 256"
  have v: "v = 256 * q + r" "r < 256" by (simp_all add: q_def r_def)
  have q: "q < 256 ^ n" using Suc.prems unfolding q_def by (simp add: less_mult_imp_div_less mult.commute)
  define k w where "k = 256 ^ n - Suc q" and "w = 255 - r"
  have w: "w < 256" by (simp add: w_def)
  have "256 ^ Suc n - Suc v = 256 * k + w"
    using v q by (simp add: algebra_simps k_def w_def)
  with w have e: "(256 ^ Suc n - Suc v) div 256 = 256 ^ n - Suc q" "(256 ^ Suc n - Suc v) mod 256 = 255 - r"
    by (simp_all add: k_def [symmetric] w_def [symmetric])
  have "(of_nat (255 - r) :: uint8) = NOT (of_nat r)"
  proof -
    have "(of_nat (255 - r) :: uint8) = 255 - of_nat r" using v(2) by (simp add: of_nat_diff)
    moreover have "(255 :: uint8) = -1" by simp
    ultimately show ?thesis by (simp add: not_eq_complement)
  qed
  with Suc.IH [OF q] e show ?case by (simp add: q_def r_def del: power_Suc)
qed simp

lemma bits_complement: "v < 256 ^ snd ty \<Longrightarrow> c_bits ty (NOT (c_value ty v)) = 256 ^ snd ty - Suc v"
proof -
  assume v: "v < 256 ^ snd ty"
  let ?M = "c_modulus (snd ty)"
  have m: "?M = int (256 ^ snd ty)" by (simp add: c_modulus_def)
  have "c_value ty v mod ?M = int v mod ?M" by (simp add: c_value_def)
  then have "(- c_value ty v - 1) mod ?M = (- int v - 1) mod ?M" by (metis mod_diff_left_eq mod_minus_eq)
  also have "\<dots> = (?M - 1 - int v) mod ?M" by (metis add_diff_eq diff_diff_eq diff_right_commute mod_add_self1 uminus_add_conv_diff add.commute)
  also have "\<dots> = ?M - 1 - int v" using v m by (intro mod_pos_pos_trivial) simp_all
  also have "\<dots> = int (256 ^ snd ty - Suc v)" using v by (simp add: m of_nat_diff)
  finally show ?thesis by (simp add: c_bits_def not_int_def)
qed

lemma load_integer:
  assumes "c_type_of t = Some ty" "t \<noteq> PLC_BOOL" and "snd ty \<le> length newValue" "snd ty \<le> length (cr_VALUE cr)"
  shows "PLC_IL_LD newValue lenght t modifier cr = Some (cr\<lparr>cr_TYPE := t,
    cr_VALUE := map (\<lambda>b. if modifier = N_modifier then NOT b else b) (take (snd ty) newValue) @ drop (snd ty) (cr_VALUE cr)\<rparr>)"
proof -
  define v where "v = le_nat (take (snd ty) newValue)"
  have v: "get_nat (snd ty) 0 newValue = Some v" using assms(3) by (simp add: v_def get_nat_def)
  from get_nat_bits [OF this] have b: "v < 256 ^ snd ty" "le_bytes (snd ty) v = take (snd ty) newValue" by auto
  have "PLC_IL_LD newValue lenght t modifier cr = set_value (cr\<lparr>cr_TYPE := t\<rparr>)
      (put_int ty (if modifier = N_modifier then NOT (c_value ty v) else c_value ty v) (cr_VALUE cr))"
    using assms(1,2) by (cases t) (auto simp: PLC_IL_LD_def get_int_def v c_type_of_def)
  also have "\<dots> = Some (cr\<lparr>cr_TYPE := t,
    cr_VALUE := map (\<lambda>b. if modifier = N_modifier then NOT b else b) (take (snd ty) newValue) @ drop (snd ty) (cr_VALUE cr)\<rparr>)"
    using assms(4) b by (simp add: set_value_def put_int_def put_nat_def blit_def bits_complement c_bits_value
      le_bytes_complement)
  finally show ?thesis .
qed

lemma load_copy:
  assumes "plc_size t lenght = Some n" and "n \<le> length newValue" "n \<le> length (cr_VALUE cr)"
  shows "PLC_IL_LD newValue lenght t NullModifier cr = Some (cr\<lparr>cr_TYPE := t,
    cr_VALUE := take n newValue @ drop n (cr_VALUE cr)\<rparr>)"
proof (cases "c_type_of t")
  case None
  with assms show ?thesis
    by (cases t) (simp_all add: plc_size_def c_type_of_def PLC_IL_LD_def copy_object_def copy_inverted_eq set_value_def)
next
  case (Some ty)
  with assms(1) have n: "n = snd ty" by (cases t) (auto simp: plc_size_def c_type_of_def)
  show ?thesis
  proof (cases "t = PLC_BOOL")
    case True
    define v where "v = le_nat (take 1 newValue)"
    from True Some n have n: "n = 1" by (auto simp: c_type_of_def)
    with assms have v: "get_nat 1 0 newValue = Some v" by (simp add: v_def get_nat_def)
    from get_nat_bits [OF this] have b: "v < 256 ^ 1" "le_bytes 1 v = take 1 newValue" by auto
    from b(1) have "c_bits (False, 1) (c_value (False, 1) v) = v" by (intro c_bits_value) simp
    with True v b(2) assms n show ?thesis
      by (simp add: PLC_IL_LD_def get_int_def set_value_def put_int_def put_nat_def blit_def)
  next
    case False
    with Some assms n load_integer [of t ty newValue cr lenght NullModifier] show ?thesis by simp
  qed
qed

text \<open>The N of a store complements all bits, of a \<^verbatim>\<open>BOOL\<close> too: true becomes another true value.\<close>

lemma store_negated_bool: "PLC_IL_ST [0] 1 N_modifier \<lparr>cr_TYPE = PLC_BOOL, cr_VALUE = [1]\<rparr> = Some [254]"
  by code_simp

text \<open>A literal is loaded without its type: the next instruction sees the type of what was there before.\<close>

lemma literal_ignored:
  "do { cr \<leftarrow> PLC_IL_LD_INT_Literal 7 NullModifier \<lparr>cr_TYPE = PLC_BOOL, cr_VALUE = [1, 0]\<rparr>;
        PLC_IL_ADD fu [5, 0] PLC_INT cr } = Some \<lparr>cr_TYPE = PLC_BOOL, cr_VALUE = [7, 0]\<rparr>"
  by (simp add: PLC_IL_LD_INT_Literal_def PLC_IL_ADD_def il_arithmetic_def set_value_def put_int_def put_nat_def blit_def
    c_bits_def c_modulus_def numeral_2_eq_2)

section \<open>Statements\<close>

lemma get_int_prefix: "snd ty \<le> length m \<Longrightarrow> get_int ty (take (snd ty) m @ r) = get_int ty m"
  by (simp add: get_int_def get_nat_def min_absorb2)

lemma size_of_integer: "c_type_of t = Some ty \<Longrightarrow> plc_size t lenght = Some (snd ty)"
  by (cases t) (auto simp: plc_size_def c_type_of_def)

text \<open>After the load, the register holds the number.\<close>

lemma load_int:
  assumes "c_type_of t = Some ty" and "get_int ty m = Some x" and "snd ty \<le> length (cr_VALUE cr)"
  shows "\<exists>cr'. PLC_IL_LD m lenght t NullModifier cr = Some cr' \<and> cr_TYPE cr' = t \<and> get_int ty (cr_VALUE cr') = Some x \<and>
    length (cr_VALUE cr') = length (cr_VALUE cr)"
proof -
  have n: "snd ty \<le> length m" using get_int_in_range [OF assms(2)] by simp
  from load_copy [OF size_of_integer [OF assms(1)] this assms(3), of lenght] assms(2,3) n show ?thesis
    by (simp add: get_int_prefix)
qed

lemma store_eq:
  "n \<le> length dst \<Longrightarrow> n \<le> length (cr_VALUE cr) \<Longrightarrow> n < 65536 \<Longrightarrow>
    PLC_IL_ST dst (of_nat n) NullModifier cr = Some (take n (cr_VALUE cr) @ drop n dst)"
  by (simp add: PLC_IL_ST_def copy_inverted_eq unsigned_of_nat take_bit_eq_mod)

section \<open>The day of the week\<close>

definition is_leap_year :: "int \<Rightarrow> bool" where
  "is_leap_year y \<longleftrightarrow> 4 dvd y \<and> \<not> 100 dvd y \<or> 400 dvd y"

definition days_of_month :: "int \<Rightarrow> int \<Rightarrow> int" where
  "days_of_month y m = (if m = 2 then (if is_leap_year y then 29 else 28) else if m \<in> {4, 6, 9, 11} then 30 else 31)"

definition next_day :: "int \<times> int \<times> int \<Rightarrow> int \<times> int \<times> int" where
  "next_day = (\<lambda>(y, m, d). if d < days_of_month y m then (y, m, d + 1) else if m < 12 then (y, m + 1, 1) else (y + 1, 1, 1))"

definition day_after :: "nat \<Rightarrow> int \<times> int \<times> int" where
  "day_after n = (next_day ^^ n) (1970, 1, 1)"

definition is_date :: "int \<times> int \<times> int \<Rightarrow> bool" where
  "is_date = (\<lambda>(y, m, d). 1970 \<le> y \<and> 1 \<le> m \<and> m \<le> 12 \<and> 1 \<le> d \<and> d \<le> days_of_month y m)"

text \<open>The number that the formula reduces modulo 7.\<close>

definition leap_days :: "int \<Rightarrow> int" where
  "leap_days y = y div 4 - y div 100 + y div 400"

definition zeller :: "int \<times> int \<times> int \<Rightarrow> int" where
  "zeller = (\<lambda>(y, m, d). let a = (if m \<le> 2 then 1 else 0) in
     d + (y - a) + leap_days (y - a) + (31 * (m + 12 * a - 2)) div 12)"

lemma days_of_month_bounds: "28 \<le> days_of_month y m" "days_of_month y m \<le> 31"
  by (auto simp: days_of_month_def)

lemma is_date_next: "is_date p \<Longrightarrow> is_date (next_day p)"
  using days_of_month_bounds [of "fst p" "fst (snd p) + 1"] days_of_month_bounds [of "fst p + 1" 1]
  by (auto simp: is_date_def next_day_def split: prod.splits)

lemma div_pred: "0 < k \<Longrightarrow> (y - 1) div k = y div k - (if k dvd y then 1 else 0 :: int)"
proof -
  assume k: "0 < k"
  have r: "0 \<le> y mod k" "y mod k < k" using k by simp_all
  show ?thesis
  proof (cases "k dvd y")
    case True
    then have "y - 1 = k * (y div k - 1) + (k - 1)" by (simp add: algebra_simps)
    then have "(y - 1) div k = y div k - 1" by (rule int_div_pos_eq) (use k in simp_all)
    with True show ?thesis by simp
  next
    case False
    with r have "1 \<le> y mod k" by (simp add: dvd_eq_mod_eq_0)
    moreover have "y - 1 = k * (y div k) + (y mod k - 1)" by (simp add: algebra_simps)
    ultimately have "(y - 1) div k = y div k" using r by (intro int_div_pos_eq [of _ k _ "y mod k - 1"]) simp_all
    with False show ?thesis by simp
  qed
qed

lemma leap_days_pred: "leap_days (y - 1) = leap_days y - (if is_leap_year y then 1 else 0)"
proof -
  have "(400 :: int) = 100 * 4" "(100 :: int) = 4 * 25" by simp_all
  then have "400 dvd y \<Longrightarrow> 100 dvd y" "100 dvd y \<Longrightarrow> 4 dvd y" by (metis dvd_mult_left)+
  then show ?thesis by (auto simp: leap_days_def is_leap_year_def div_pred)
qed

lemma zeller_next: "is_date p \<Longrightarrow> zeller (next_day p) mod 7 = (zeller p + 1) mod 7"
proof -
  assume "is_date p"
  then obtain y m d where p: "p = (y, m, d)" and y: "1970 \<le> y" and m: "1 \<le> m" "m \<le> 12" and d: "1 \<le> d" "d \<le> days_of_month y m"
    by (auto simp: is_date_def)
  show ?thesis
  proof (cases "d < days_of_month y m")
    case True
    then show ?thesis by (simp add: p next_day_def zeller_def Let_def mod_eq_dvd_iff)
  next
    case False
    with d have d: "d = days_of_month y m" by simp
    have "m = 1 \<or> m = 2 \<or> m = 3 \<or> m = 4 \<or> m = 5 \<or> m = 6 \<or> m = 7 \<or> m = 8 \<or> m = 9 \<or> m = 10 \<or> m = 11 \<or> m = 12"
      using m by presburger
    then consider "m = 1" | "m = 2" | "m = 3" | "m = 4" | "m = 5" | "m = 6" | "m = 7" | "m = 8" | "m = 9" | "m = 10"
      | "m = 11" | "m = 12" by blast
    then show ?thesis
      by cases (simp_all add: p d next_day_def zeller_def Let_def days_of_month_def leap_days_pred mod_eq_dvd_iff)
  qed
qed

lemma weekday_zeller: "is_date (y, m, d) \<Longrightarrow> DT_Weekday y m d = zeller (y, m, d) mod 7 + 1"
proof -
  assume "is_date (y, m, d)"
  then have y: "1970 \<le> y" and m: "1 \<le> m" "m \<le> 12" and d: "1 \<le> d" by (auto simp: is_date_def)
  have a: "(14 - m) sdiv 12 = (if m \<le> 2 then 1 else 0)"
    using m by (auto simp: signed_divide_int_def sgn_if)
  define b where "b = y - (if m \<le> 2 then 1 else 0)"
  define e where "e = m + 12 * (if m \<le> 2 then 1 else 0) - 2"
  have b: "100 \<le> b" and e: "1 \<le> e" using y m by (auto simp: b_def e_def)
  have q: "b sdiv 4 = b div 4" "b sdiv 100 = b div 100" "b sdiv 400 = b div 400" "(31 * e) sdiv 12 = (31 * e) div 12"
    using b e by (simp_all add: signed_divide_int_def sgn_if)
  have z: "zeller (y, m, d) = d + b + b div 4 - b div 100 + b div 400 + (31 * e) div 12"
    by (simp add: zeller_def leap_days_def Let_def b_def e_def)
  have "0 \<le> zeller (y, m, d)" using b d e by (simp add: z)
  then have "zeller (y, m, d) smod 7 = zeller (y, m, d) mod 7" by (simp add: smod_int_alt_def sgn_if)
  then show ?thesis by (simp only: DT_Weekday_def Let_def a b_def [symmetric] e_def [symmetric] q z)
qed

lemma day_after_zeller: "is_date (day_after n) \<and> zeller (day_after n) mod 7 = (int n + 4) mod 7"
proof (induction n)
  case 0
  show ?case by (simp add: day_after_def is_date_def days_of_month_def zeller_def leap_days_def)
next
  case (Suc n)
  then have "zeller (next_day (day_after n)) mod 7 = (zeller (day_after n) + 1) mod 7" by (simp add: zeller_next)
  also have "\<dots> = (int (Suc n) + 4) mod 7" using Suc by (metis add.commute add.left_commute mod_add_right_eq of_nat_Suc)
  finally show ?case using Suc is_date_next by (simp add: day_after_def)
qed

section \<open>The properties\<close>

text \<open>C1 (functional): the numbers. On an integer type of the standard whose operands \<open>x\<close> and \<open>y\<close> are in the register and at
  the address, the instruction leaves the exact result there if the type can hold it (the quotient is truncated and the
  remainder goes with it), an unsigned sum or difference wraps around, and a division by zero is undefined.\<close>

theorem plc_arithmetic:
  assumes "is_number t" and "cr_TYPE cr = t" and "c_type_of t = Some ty"
    and "get_int ty (cr_VALUE cr) = Some x" "get_int ty operand = Some y"
  shows "(c_in_range ty (x + y) \<longrightarrow> computes ty cr (PLC_IL_ADD fu operand t cr) (x + y)) \<and>
    (c_in_range ty (x - y) \<longrightarrow> computes ty cr (PLC_IL_SUB fu operand t cr) (x - y)) \<and>
    (c_in_range ty (x * y) \<longrightarrow> computes ty cr (PLC_IL_MUL fu operand t cr) (x * y)) \<and>
    (\<not> fst ty \<longrightarrow> computes ty cr (PLC_IL_ADD fu operand t cr) ((x + y) mod c_modulus (snd ty)) \<and>
      computes ty cr (PLC_IL_SUB fu operand t cr) ((x - y) mod c_modulus (snd ty))) \<and>
    (y \<noteq> 0 \<and> c_in_range ty (x sdiv y) \<longrightarrow> computes ty cr (PLC_IL_DIV fu operand t cr) (x sdiv y) \<and>
      computes ty cr (PLC_IL_MOD operand t cr) (x smod y)) \<and>
    (y = 0 \<longrightarrow> PLC_IL_DIV fu operand t cr = None \<and> PLC_IL_MOD operand t cr = None)"
proof -
  have s: "snd ty \<le> 8" using c_type_size [OF assms(3)] by simp
  have i: "PLC_IL_ADD fu operand t cr = il_integer (c_operation (\<lambda>x y. x + y)) operand t cr"
      "PLC_IL_SUB fu operand t cr = il_integer (c_operation (\<lambda>x y. x - y)) operand t cr"
      "PLC_IL_MUL fu operand t cr = il_integer (c_operation (\<lambda>x y. x * y)) operand t cr"
      "PLC_IL_DIV fu operand t cr = il_integer (c_division (\<lambda>x y. x sdiv y)) operand t cr"
      "PLC_IL_MOD operand t cr = il_integer (c_division (\<lambda>x y. x smod y)) operand t cr"
    using assms(1,2) by (simp_all add: PLC_IL_ADD_def PLC_IL_SUB_def PLC_IL_MUL_def PLC_IL_DIV_def PLC_IL_MOD_def il_arithmetic_def)
  note exact = computes_exact [OF assms(3-5)]
  have r: "c_in_range ty x" "c_in_range ty y" using assms(4,5) get_int_in_range by auto
  have d: "y \<noteq> 0 \<Longrightarrow> c_in_range ty (x sdiv y) \<Longrightarrow> computes ty cr (PLC_IL_DIV fu operand t cr) (x sdiv y)"
      "y \<noteq> 0 \<Longrightarrow> c_in_range ty (x sdiv y) \<Longrightarrow> computes ty cr (PLC_IL_MOD operand t cr) (x smod y)"
    unfolding i by (rule exact; simp add: division_exact s smod_in_range r)+
  have u: "\<not> fst ty \<Longrightarrow> computes ty cr (PLC_IL_ADD fu operand t cr) ((x + y) mod c_modulus (snd ty))"
      "\<not> fst ty \<Longrightarrow> computes ty cr (PLC_IL_SUB fu operand t cr) ((x - y) mod c_modulus (snd ty))"
    unfolding i by (use unsigned_sum [OF assms(1,3) r] in
      \<open>auto intro!: computes_unsigned [OF assms(3-5)]\<close>)
  show ?thesis
    using d u assms(3,5) by (auto simp: i division_by_zero intro!: exact operation_exact s)
qed

theorem plc_arithmetic_witness:
  "\<forall>fu. computes (True, 2) \<lparr>cr_TYPE = PLC_INT, cr_VALUE = [249, 255]\<rparr>
     (PLC_IL_DIV fu [2, 0] PLC_INT \<lparr>cr_TYPE = PLC_INT, cr_VALUE = [249, 255]\<rparr>) (- 3) \<and>
   computes (True, 2) \<lparr>cr_TYPE = PLC_INT, cr_VALUE = [249, 255]\<rparr>
     (PLC_IL_MOD [2, 0] PLC_INT \<lparr>cr_TYPE = PLC_INT, cr_VALUE = [249, 255]\<rparr>) (- 1)"
proof
  fix fu
  show "computes (True, 2) \<lparr>cr_TYPE = PLC_INT, cr_VALUE = [249, 255]\<rparr>
     (PLC_IL_DIV fu [2, 0] PLC_INT \<lparr>cr_TYPE = PLC_INT, cr_VALUE = [249, 255]\<rparr>) (- 3) \<and>
   computes (True, 2) \<lparr>cr_TYPE = PLC_INT, cr_VALUE = [249, 255]\<rparr>
     (PLC_IL_MOD [2, 0] PLC_INT \<lparr>cr_TYPE = PLC_INT, cr_VALUE = [249, 255]\<rparr>) (- 1)"
    using plc_arithmetic [of PLC_INT "\<lparr>cr_TYPE = PLC_INT, cr_VALUE = [249, 255]\<rparr>" "(True, 2)" "- 7" "[2, 0]" 2 fu]
    by (simp add: is_number_def c_type_of_def get_int_def get_nat_def c_value_def c_modulus_def c_in_range_def
    signed_divide_int_def smod_int_alt_def)
qed

text \<open>C1 (functional): the comparisons of numbers. On any type that is an integer in C, the signed ones, the bit strings and
  the durations, each of the six instructions leaves a \<^verbatim>\<open>BOOL\<close> that is 1 if and only if its relation holds between
  the two values.\<close>

theorem plc_compare:
  assumes "c_type_of t = Some ty" and "cr_TYPE cr = t" and "get_int ty (cr_VALUE cr) = Some x" "get_int ty operand = Some y"
  shows "PLC_IL_EQ fu operand t cr = Some (bool_result (x = y) cr) \<and>
    PLC_IL_NE fu operand t cr = Some (bool_result (x \<noteq> y) cr) \<and>
    PLC_IL_GT fu operand t cr = Some (bool_result (x > y) cr) \<and>
    PLC_IL_GE fu operand t cr = Some (bool_result (x \<ge> y) cr) \<and>
    PLC_IL_LT fu operand t cr = Some (bool_result (x < y) cr) \<and>
    PLC_IL_LE fu operand t cr = Some (bool_result (x \<le> y) cr)"
  unfolding PLC_IL_EQ_def PLC_IL_NE_def PLC_IL_GT_def PLC_IL_GE_def PLC_IL_LT_def PLC_IL_LE_def
  by (simp add: compare_int [OF assms])

theorem plc_compare_witness:
  "\<forall>fu. PLC_IL_LT fu [1] PLC_SINT \<lparr>cr_TYPE = PLC_SINT, cr_VALUE = [255]\<rparr> = Some \<lparr>cr_TYPE = PLC_BOOL, cr_VALUE = [1]\<rparr>"
proof
  fix fu
  show "PLC_IL_LT fu [1] PLC_SINT \<lparr>cr_TYPE = PLC_SINT, cr_VALUE = [255]\<rparr> = Some \<lparr>cr_TYPE = PLC_BOOL, cr_VALUE = [1]\<rparr>"
    using plc_compare [of PLC_SINT "(True, 1)" "\<lparr>cr_TYPE = PLC_SINT, cr_VALUE = [255]\<rparr>" "- 1" "[1]" 1 fu]
    by (simp add: c_type_of_def get_int_def get_nat_def c_value_def c_modulus_def bool_result_def)
qed

text \<open>C1 (equivalence): the comparisons of dates, times of day and both. The two equalities and the two strict orders, seven
  nested cases for a date with its time, are the chronological ones: the lexicographic order of the fields, the day of the
  week left out.\<close>

theorem plc_dates:
  assumes "cr_TYPE cr = t" and "stamp t (cr_VALUE cr) = Some x" "stamp t operand = Some y"
  shows "PLC_IL_EQ fu operand t cr = Some (bool_result (x = y) cr) \<and>
    PLC_IL_NE fu operand t cr = Some (bool_result (x \<noteq> y) cr) \<and>
    PLC_IL_LT fu operand t cr = Some (bool_result (x < y) cr) \<and>
    PLC_IL_GT fu operand t cr = Some (bool_result (y < x) cr)"
  using eq_stamp [OF assms] ne_stamp [OF assms] lt_stamp [OF assms] gt_stamp [OF assms] by simp

theorem plc_dates_witness:
  "\<forall>fu. PLC_IL_LT fu [223, 7, 12, 31, 5, 0] PLC_D \<lparr>cr_TYPE = PLC_D, cr_VALUE = [223, 7, 3, 1, 5, 0]\<rparr> =
     Some \<lparr>cr_TYPE = PLC_BOOL, cr_VALUE = [1, 7, 3, 1, 5, 0]\<rparr>"
proof
  fix fu
  show "PLC_IL_LT fu [223, 7, 12, 31, 5, 0] PLC_D \<lparr>cr_TYPE = PLC_D, cr_VALUE = [223, 7, 3, 1, 5, 0]\<rparr> =
     Some \<lparr>cr_TYPE = PLC_BOOL, cr_VALUE = [1, 7, 3, 1, 5, 0]\<rparr>"
    using plc_dates [of "\<lparr>cr_TYPE = PLC_D, cr_VALUE = [223, 7, 3, 1, 5, 0]\<rparr>" PLC_D "[2015, 3, 1]" "[223, 7, 12, 31, 5, 0]"
      "[2015, 12, 31]" fu]
    by (simp add: stamp_def get_date_def get_nat_def bool_result_def)
qed

text \<open>C1 (round trip): load and store. An object of any type but the strings, loaded from one place and stored in another
  with its size, arrives byte by byte, and nothing around it changes; an integer, bit string or duration that is
  complemented twice on its way arrives unchanged too.\<close>

theorem plc_load_store:
  assumes "plc_size t lenght = Some n" and "n \<le> length src" "n \<le> length dst" "n \<le> length (cr_VALUE cr)"
  shows "do { cr \<leftarrow> PLC_IL_LD src lenght t NullModifier cr; PLC_IL_ST dst (of_nat n) NullModifier cr } =
      Some (take n src @ drop n dst) \<and>
    (c_type_of t = Some ty \<and> t \<noteq> PLC_BOOL \<longrightarrow>
      do { cr \<leftarrow> PLC_IL_LD src lenght t N_modifier cr; PLC_IL_ST dst (of_nat n) N_modifier cr } =
        Some (take n src @ drop n dst))"
proof -
  have n: "unat (of_nat n :: uint16) = n" using plc_size_less [OF assms(1)] by (simp add: unsigned_of_nat take_bit_eq_mod)
  have ty: "c_type_of t = Some ty \<Longrightarrow> snd ty = n" using assms(1) by (cases t) (auto simp: plc_size_def c_type_of_def)
  have c: "map NOT (map NOT (take n src)) = take n src" by (simp add: o_def)
  show ?thesis
    using load_copy [OF assms(1,2,4)] load_integer [of t ty src cr lenght N_modifier] assms c
    by (auto simp: PLC_IL_ST_def n copy_inverted_eq ty)
qed

theorem plc_load_store_witness:
  "do { cr \<leftarrow> PLC_IL_LD [1, 2, 3] 0 PLC_INT N_modifier \<lparr>cr_TYPE = PLC_BOOL, cr_VALUE = [0, 0, 0, 0]\<rparr>;
        PLC_IL_ST [9, 9, 9] 2 N_modifier cr } = Some [1, 2, 9]"
  using plc_load_store [of PLC_INT 0 2 "[1, 2, 3]" "[9, 9, 9]" "\<lparr>cr_TYPE = PLC_BOOL, cr_VALUE = [0, 0, 0, 0]\<rparr>" "(True, 2)"]
  by (simp add: plc_size_def c_type_of_def numeral_2_eq_2)

text \<open>C1 (functional): the calendar. The formula for the day of the week, truncated divisions and all, gives 5 for
  the first of January 1970, a Thursday, and counts on from there modulo 7 through every month, leap year and
  century.\<close>

theorem weekday_correct: "(case day_after n of (y, m, d) \<Rightarrow> DT_Weekday y m d) = (int n + 4) mod 7 + 1"
  using day_after_zeller [of n] by (auto simp: weekday_zeller split: prod.splits)

text \<open>C1 (functional): programs. The sequence that the compiler of the language makes of an assignment \<open>dst := a + b\<close> puts
  the sum in the destination and changes nothing else there; the one for \<open>flag := a > b\<close> puts the decision in the flag,
  and with the set instruction in the place of the store the flag is only ever switched on.\<close>

theorem plc_statements:
  assumes "c_type_of t = Some ty" and "get_int ty a = Some x" "get_int ty b = Some y" and "snd ty \<le> length (cr_VALUE cr)"
  shows "(is_number t \<and> c_in_range ty (x + y) \<and> snd ty \<le> length dst \<longrightarrow>
      (\<exists>dst'. do { cr \<leftarrow> PLC_IL_LD a lenght t NullModifier cr; cr \<leftarrow> PLC_IL_ADD fu b t cr;
            PLC_IL_ST dst (of_nat (snd ty)) NullModifier cr } = Some dst' \<and>
        get_int ty dst' = Some (x + y) \<and> drop (snd ty) dst' = drop (snd ty) dst)) \<and>
    (flag \<noteq> [] \<longrightarrow>
      do { cr \<leftarrow> PLC_IL_LD a lenght t NullModifier cr; cr \<leftarrow> PLC_IL_GT fu b t cr; PLC_IL_ST flag 1 NullModifier cr } =
        Some (flag[0 := if x > y then 1 else 0]) \<and>
      do { cr \<leftarrow> PLC_IL_LD a lenght t NullModifier cr; cr \<leftarrow> PLC_IL_GT fu b t cr; PLC_IL_S flag cr } =
        Some (if x > y then flag[0 := 1] else flag))"
proof (intro conjI impI)
  obtain cr1 where ld: "PLC_IL_LD a lenght t NullModifier cr = Some cr1" and ty: "cr_TYPE cr1 = t"
    and x: "get_int ty (cr_VALUE cr1) = Some x" and l: "length (cr_VALUE cr1) = length (cr_VALUE cr)"
    using load_int [OF assms(1,2,4)] by blast
  have s: "1 \<le> snd ty" "snd ty \<le> 8" using c_type_size [OF assms(1)] by auto
  {
    assume n: "is_number t \<and> c_in_range ty (x + y) \<and> snd ty \<le> length dst"
    then obtain v where add: "PLC_IL_ADD fu b t cr1 = Some (cr1\<lparr>cr_VALUE := v\<rparr>)" "length v = length (cr_VALUE cr)"
        "get_int ty v = Some (x + y)"
      using computes_exact [OF assms(1) x assms(3), of "c_operation (\<lambda>x y. x + y)" "x + y"]
        operation_exact [of ty "\<lambda>x y. x + y" x y] s ty l
      by (auto simp: PLC_IL_ADD_def il_arithmetic_def computes_def)
    then show "\<exists>dst'. do { cr \<leftarrow> PLC_IL_LD a lenght t NullModifier cr; cr \<leftarrow> PLC_IL_ADD fu b t cr;
            PLC_IL_ST dst (of_nat (snd ty)) NullModifier cr } = Some dst' \<and>
        get_int ty dst' = Some (x + y) \<and> drop (snd ty) dst' = drop (snd ty) dst"
      using n assms(4) s by (auto simp: ld store_eq get_int_prefix)
  next
    assume f: "flag \<noteq> []"
    have gt: "PLC_IL_GT fu b t cr1 = Some (bool_result (x > y) cr1)"
      unfolding PLC_IL_GT_def by (rule compare_int [OF assms(1) ty x assms(3)])
    have v: "cr_VALUE cr1 \<noteq> []" using l s assms(4) by auto
    show "do { cr \<leftarrow> PLC_IL_LD a lenght t NullModifier cr; cr \<leftarrow> PLC_IL_GT fu b t cr; PLC_IL_ST flag 1 NullModifier cr } =
        Some (flag[0 := if x > y then 1 else 0])"
      using f v store_eq [of 1 flag "bool_result (x > y) cr1"]
      by (cases flag; cases "cr_VALUE cr1") (auto simp: ld gt bool_result_def)
    show "do { cr \<leftarrow> PLC_IL_LD a lenght t NullModifier cr; cr \<leftarrow> PLC_IL_GT fu b t cr; PLC_IL_S flag cr } =
        Some (if x > y then flag[0 := 1] else flag)"
      using f v put_bool [OF f, of True]
      by (cases "cr_VALUE cr1") (auto simp: ld gt PLC_IL_S_def bool_result_def get_int_def get_nat_def c_value_def c_modulus_def)
  }
qed

theorem plc_statements_witness:
  "\<forall>fu. do { cr \<leftarrow> PLC_IL_LD [5, 0] 0 PLC_INT NullModifier \<lparr>cr_TYPE = PLC_BOOL, cr_VALUE = [0, 0, 0, 0]\<rparr>;
        cr \<leftarrow> PLC_IL_GT fu [255, 255] PLC_INT cr; PLC_IL_ST [7] 1 NullModifier cr } = Some [1]"
proof
  fix fu
  show "do { cr \<leftarrow> PLC_IL_LD [5, 0] 0 PLC_INT NullModifier \<lparr>cr_TYPE = PLC_BOOL, cr_VALUE = [0, 0, 0, 0]\<rparr>;
        cr \<leftarrow> PLC_IL_GT fu [255, 255] PLC_INT cr; PLC_IL_ST [7] 1 NullModifier cr } = Some [1]"
    using plc_statements [of PLC_INT "(True, 2)" "[5, 0]" 5 "[255, 255]" "- 1" "\<lparr>cr_TYPE = PLC_BOOL, cr_VALUE = [0, 0, 0, 0]\<rparr>"
      "[]" 0 fu "[7]"]
    by (simp add: c_type_of_def get_int_def get_nat_def c_value_def c_modulus_def)
qed

end
