(* ===== verification/Spec2Isabelle.thy ===== *)
theory Spec2Isabelle
  imports CIAA_Prelude PosixString CString CircBuf OsKernel OsServices OsAlarms OsInvariant OsScheduler
    OsProtocol OsTiming OsReach OsProps OsEvents LedPanel Lcd Keypad AppMain PosixHeap DioDriver Devices Board SerialDevices
    Uart SerialPort ModbusAscii ModbusPort ModbusSlave ModbusMaster ModbusTransport ModbusGateway GatewayModules ModbusStack
    ModbusProps PlcRegister PlcInstructions PlcHardware PlcProps
begin

text \<open>
  Verification of the firmware of the EDU-CIAA LED panel and of the modules of the CIAA firmware it stands on.

  \<^bold>\<open>The program.\<close> The application \<^verbatim>\<open>Firmware/projects/myproject\<close> scans a keypad, lets the user choose a mode, a
  speed and a message with a character display, and scrolls the message over an LED matrix. It runs as three
  tasks of the OSEK kernel \<^verbatim>\<open>Firmware/modules/rtos\<close>, which two alarms activate, and reaches its pins through files of the POSIX
  layer \<^verbatim>\<open>Firmware/modules/posix\<close> and the drivers of \<^verbatim>\<open>Firmware/modules/drivers\<close>. The firmware also has a stack for the
  Modbus protocol, \<^verbatim>\<open>Firmware/modules/modbus\<close>, over the serial ports: a port's interrupt and tasks share the
  circular buffers of \<^verbatim>\<open>Firmware/modules/libs\<close>, and sleep and wake by the kernel's events.

  \<^bold>\<open>Conventions.\<close> A C array is a list, and every access to it goes through \<open>rd\<close> and \<open>wr\<close> of \<open>CIAA_Prelude\<close> (\<open>rdi\<close>, \<open>wri\<close>
  for a signed index), which give \<open>None\<close> outside the array; so \<open>f s = Some s'\<close> also says that \<open>f\<close> stays inside its
  arrays, follows no null pointer and returns. Integers whose width matters are words (\<open>uint8\<close>, \<open>uint16\<close>, \<open>uint32\<close>).
  Error codes are values. Effects on hardware are entries of a trace in the state. A pointer into shared memory is
  an address or the number of an array. A call that waits for an event is cut there, into the part before
  \<open>WaitEvent\<close> and the part a wake-up resumes. A definition has the name of the C function it translates; where a function has
  a loop or a case that is a definition of its own, that one has a name in lower case.

  \<^bold>\<open>The kernel.\<close> \<open>OsKernel\<close> (\<^verbatim>\<open>Os_Internal.c\<close> and the task services, one definition per file of \<^verbatim>\<open>rtos/src\<close>), \<open>OsServices\<close> (events and
  resources) and \<open>OsAlarms\<close> (counters, alarms, the tick interrupt, \<open>StartOS\<close>) are the code; the tables the generator makes are
  the record \<open>os_cfg\<close>, the variables the record \<open>os_state\<close>. \<open>OsInvariant\<close> reads the ready lists as queues and states the kernel's
  invariant on them; \<open>OsScheduler\<close>, \<open>OsProtocol\<close> and \<open>OsTiming\<close> show that each service and a tick keep it, \<open>OsReach\<close>
  defines the reachable states as an inductive relation over service calls, ticks and the idle loop. \<open>OsProps\<close> and
  \<open>OsEvents\<close> hold the properties: mutual exclusion of resources, one running task, exact ready lists, the choice of the next
  task, every step defined, the branches of the services, the times at which an alarm expires. The configuration of the project is
  \<open>myproject_cfg\<close> (\<^verbatim>\<open>etc/myproject.oil\<close>). The chains of alarms that increment other counters take a fuel; \<open>sys_cfg\<close> says that it
  exceeds the nesting of the counters (1 for the project), and then no step runs out of it.

  \<^bold>\<open>The application.\<close> \<open>LedPanel\<close> (\<^verbatim>\<open>LedControl.c\<close>: font, drawing, scrolling, the registers of the MAX7219), \<open>Lcd\<close> (\<^verbatim>\<open>lcd.c\<close>: the
  HD44780 in 4-bit mode, and an abstract display that reads the trace back), \<open>Keypad\<close> (\<^verbatim>\<open>botonera.c\<close>: scan, multi-tap input, editor) and
  \<open>AppMain\<close> (\<^verbatim>\<open>myproject.c\<close> and the dialogue of \<^verbatim>\<open>botonera.c\<close>). \<open>app_reach\<close> is any interleaving of the two periodic tasks with
  any buttons pressed; its states keep their invariant, so every step is inside the arrays. \<open>Board\<close> puts the application
  on its files: what the code writes arrives on the pins it means, and what the keypad's wiring does is what the scan
  assumes.

  \<^bold>\<open>The POSIX layer.\<close> \<open>PosixString\<close> and \<open>CString\<close> (\<^verbatim>\<open>ciaaPOSIX_string.c\<close>), \<open>PosixHeap\<close> (\<^verbatim>\<open>ciaaPOSIX_stdlib.c\<close>: first fit in an array, with the
  list of chunks as abstraction), \<open>Devices\<close> (\<^verbatim>\<open>ciaaDevices.c\<close>, \<^verbatim>\<open>ciaaDioDevices.c\<close>, \<^verbatim>\<open>ciaaPOSIX_stdio.c\<close>), \<open>DioDriver\<close> (the pins),
  \<open>CircBuf\<close> (\<^verbatim>\<open>ciaaLibs_CircBuf.c\<close>), \<open>SerialDevices\<close>, \<open>Uart\<close> and \<open>SerialPort\<close> (the serial devices, their driver and both at
  work under an interrupt).

  \<^bold>\<open>Modbus.\<close> \<open>ModbusAscii\<close> (the ASCII line), \<open>ModbusSlave\<close>, \<open>ModbusMaster\<close>, \<open>ModbusTransport\<close> and \<open>ModbusGateway\<close> are one source file each, all
  functions of it. \<open>request_error\<close> and \<open>master_request\<close> are the references for what a slave executes and a master
  sends. \<open>gw_reach\<close> are the reachable gateways, with the invariant \<open>gw_ok\<close>. \<open>GatewayModules\<close> says what a gateway needs
  of its modules, and \<open>ModbusStack\<close> ties them together on one state, down to the serial lines; \<open>ModbusProps\<close> has the
  properties of the whole: a frame that comes in is executed and answered in one run of the main task, a server is busy
  exactly for one client, the main task always returns, nobody waits for ever. A client calls the main task's step at
  most \<open>GATEWAY_LIMIT_CALLS\<close> (5) times in a row, as the code does: that is no fuel of the model.

  \<^bold>\<open>The PLC.\<close> \<^verbatim>\<open>modules/plc\<close> is the library that compiled programs of a programmable logic controller run on.
  \<open>PlcRegister\<close> has its types, the register that every instruction works on as the bytes of a union, and the integers of C on them
  (promotion, wrap-around, undefined results as \<open>None\<close>); \<open>PlcInstructions\<close> has the instructions (\<^verbatim>\<open>PLC_IL_Instructions.c\<close>),
  \<open>PlcHardware\<close> the ports, over \<open>Devices\<close>. \<open>PlcProps\<close> shows what they compute: \<open>computes\<close> is a number left in the register,
  \<open>bool_result\<close> a decision, \<open>stamp\<close> the fields of a date as a list, whose order is the chronological one, \<open>day_after\<close> a
  calendar. The arithmetic on reals is the parameter \<open>float_unit\<close>, the processor's.

  \<^bold>\<open>Interfaces.\<close> Five locales. \<open>byte_queue\<close> (\<open>CircBuf\<close>) is a bounded queue of bytes, interpreted on the circular buffer.
  \<open>serial_driver\<close> (\<open>SerialDevices\<close>) is what the device layer wants of a driver, interpreted on the UART's. \<open>polled_port\<close>
  (\<open>ModbusAscii\<close>) is a port that a read empties without waiting, interpreted on a serial device (\<open>line\<close>, in \<open>ModbusPort\<close>) and on one
  of several lines (\<open>bus\<close>, in \<open>ModbusStack\<close>). \<open>modbus_modules\<close> is what a gateway wants of its modules, and \<open>quiet_server\<close> extends
  it by a server that does not answer; both are interpreted on the stack of \<open>ModbusStack\<close>.

  \<^bold>\<open>Hypotheses.\<close> Code that is not in the repository is a parameter: the vendor's \<open>set_baud\<close>, the callbacks of an application on a Modbus
  slave (\<open>cmd_ok\<close>: a callback stays inside the array it gets and a read does not count more than it was asked for), and the
  arithmetic on reals (\<open>float_unit\<close>, of which nothing is assumed).

  \<^bold>\<open>Not modelled.\<close> The endless loops of shutdown and of a failed assertion (\<open>None\<close>); the locks around a service, which is atomic in the
  model; the context switch itself, which is an entry of a trace; the set-up of pins, clocks and baud rates by the vendor's
  library; the views of the controller's memory of 1 KByte, which are declarations only; the close of a serial device, which calls itself; the ports for other processors and boards, which the
  configuration of the project does not select; the updater, the examples, the system tests, the tools and the
  vendored code under \<^verbatim>\<open>externals\<close>, which the application does not use. In the Modbus stack a line that is not in
  non-blocking mode is not modelled (a read would suspend the gateway's task), and the kernel runs only underneath: the gateway's task is
  not interleaved with others.
\<close>

end
